(* ===== verification/Prelude.thy ===== *)
theory Prelude
  imports Main "HOL-Library.Word" "HOL-Library.Char_ord" "HOL-Library.List_Lexorder"
begin

text \<open>
  What every component shares: bytes and text, Python exceptions as values, the error
  monad with its automation, and generic facts on lists.

  \<^item> A byte string is a list of \<^typ>\<open>char\<close> (eight bits each). A Python \<open>str\<close> is its UTF-8
    encoding, again a list of \<^typ>\<open>char\<close>, so \<open>str.encode()\<close> is the identity and
    \<open>bytes.decode()\<close> is a validity test (theory \<open>Py_Text\<close>).
  \<^item> A function that may raise returns \<open>exn + 'a\<close>: \<open>Inl\<close> of the exception or
    \<open>Inr\<close> of the result. An explicit \<open>raise ValueError('...')\<close> keeps its message; an
    exception that the standard library raises keeps its class and names the routine
    (\<open>ArchiveError\<close> stands for the errors of \<open>tarfile\<close> and \<open>zipfile\<close>).
\<close>

type_synonym bytes = "char list"

datatype exn =
    ValueError string
  | KeyError string
  | AttributeError string
  | TypeError string
  | IndexError string
  | RuntimeError string
  | StructError
  | OSError string
  | SubprocessError string
  | ArchiveError string
  | SystemExit string

type_synonym 'a result = "exn + 'a"

subsection \<open>The error monad\<close>

named_theorems result_simps \<open>unfolding of sequenced computations\<close>
named_theorems byte_simps \<open>lengths and values of encoded bytes\<close>

definition rbind :: "'a result \<Rightarrow> ('a \<Rightarrow> 'b result) \<Rightarrow> 'b result" where
  "rbind r f = (case r of Inl e \<Rightarrow> Inl e | Inr v \<Rightarrow> f v)"

lemma rbind_Inl [simp]: "rbind (Inl e) f = Inl e"
  by (simp add: rbind_def)

lemma rbind_Inr [simp]: "rbind (Inr v) f = f v"
  by (simp add: rbind_def)

lemma rbind_eq_Inr [result_simps]:
  "rbind r f = Inr v \<longleftrightarrow> (\<exists>u. r = Inr u \<and> f u = Inr v)"
  by (cases r) auto

lemma rbind_eq_Inl [result_simps]:
  "rbind r f = Inl e \<longleftrightarrow> r = Inl e \<or> (\<exists>u. r = Inr u \<and> f u = Inl e)"
  by (cases r) auto

lemma rbind_assoc: "rbind (rbind r f) g = rbind r (\<lambda>v. rbind (f v) g)"
  by (cases r) auto

lemma rbind_cong [fundef_cong]:
  "r = r' \<Longrightarrow> (\<And>v. r' = Inr v \<Longrightarrow> f v = g v) \<Longrightarrow> rbind r f = rbind r' g"
  by (cases r') auto

text \<open>A guard: \<open>if c: raise e\<close>.\<close>

definition raise_if :: "bool \<Rightarrow> exn \<Rightarrow> unit result" where
  "raise_if c e = (if c then Inl e else Inr ())"

lemma raise_if_True [simp]: "raise_if True e = Inl e"
  by (simp add: raise_if_def)

lemma raise_if_False [simp]: "raise_if False e = Inr ()"
  by (simp add: raise_if_def)

lemma raise_if_eq_Inr [result_simps]: "raise_if c e = Inr u \<longleftrightarrow> \<not> c"
  by (simp add: raise_if_def)

lemma raise_if_eq_Inl [result_simps]: "raise_if c e = Inl e' \<longleftrightarrow> c \<and> e' = e"
  by (auto simp: raise_if_def)

text \<open>
  A \<open>for\<close> loop whose body may raise: \<open>for_each\<close> threads the state the body updates
  through the elements and stops at the first exception.
\<close>

fun for_each :: "('s \<Rightarrow> 'a \<Rightarrow> 's result) \<Rightarrow> 's \<Rightarrow> 'a list \<Rightarrow> 's result" where
  "for_each f s [] = Inr s"
| "for_each f s (x # xs) = rbind (f s x) (\<lambda>s'. for_each f s' xs)"

lemma for_each_append:
  "for_each f s (xs @ ys) = rbind (for_each f s xs) (\<lambda>s'. for_each f s' ys)"
  by (induction xs arbitrary: s) (simp_all add: rbind_assoc)

lemma for_each_invariant:
  assumes "for_each f s xs = Inr t" and "P s"
    and "\<And>s x s'. x \<in> set xs \<Longrightarrow> P s \<Longrightarrow> f s x = Inr s' \<Longrightarrow> P s'"
  shows "P t"
  using assms
proof (induction xs arbitrary: s)
  case Nil
  then show ?case by simp
next
  case (Cons x xs)
  from Cons.prems(1) obtain s' where s': "f s x = Inr s'" "for_each f s' xs = Inr t"
    by (auto simp: result_simps)
  have "P s'" using Cons.prems(2,3) s'(1) by auto
  with s'(2) show ?case using Cons.IH Cons.prems(3) by auto
qed

fun map_result :: "('a \<Rightarrow> 'b result) \<Rightarrow> 'a list \<Rightarrow> 'b list result" where
  "map_result f [] = Inr []"
| "map_result f (x # xs) = rbind (f x) (\<lambda>y. rbind (map_result f xs) (\<lambda>ys. Inr (y # ys)))"

lemma map_result_length: "map_result f xs = Inr ys \<Longrightarrow> length ys = length xs"
  by (induction xs arbitrary: ys) (auto simp: result_simps)

lemma map_result_in_set:
  "map_result f xs = Inr ys \<Longrightarrow> y \<in> set ys \<Longrightarrow> \<exists>x \<in> set xs. f x = Inr y"
  by (induction xs arbitrary: ys) (auto simp: result_simps)

lemma map_result_Inr_map: "(\<And>x. x \<in> set xs \<Longrightarrow> f x = Inr (g x)) \<Longrightarrow> map_result f xs = Inr (map g xs)"
  by (induction xs) auto

lemma map_result_append:
  "map_result f (xs @ ys) = rbind (map_result f xs) (\<lambda>as. rbind (map_result f ys) (\<lambda>bs. Inr (as @ bs)))"
  by (induction xs) (auto simp: rbind_def split: sum.splits)

lemma map_result_mem: "map_result f xs = Inr ys \<Longrightarrow> x \<in> set xs \<Longrightarrow> \<exists>y \<in> set ys. f x = Inr y"
  by (induction xs arbitrary: ys) (auto simp: result_simps)

lemma map_result_zip: "map_result f xs = Inr ys \<Longrightarrow> (\<forall>(y, x) \<in> set (zip ys xs). f x = Inr y)"
  by (induction xs arbitrary: ys) (auto simp: result_simps)

text \<open>A loop, with the elements done so far.\<close>

lemma for_each_history:
  "for_each f s xs = Inr t \<Longrightarrow> P [] s \<Longrightarrow>
     (\<And>us x vs s s'. xs = us @ x # vs \<Longrightarrow> P us s \<Longrightarrow> f s x = Inr s' \<Longrightarrow> P (us @ [x]) s') \<Longrightarrow> P xs t"
proof (induction xs arbitrary: t rule: rev_induct)
  case (snoc x xs)
  from snoc.prems(1) obtain s1 where s1: "for_each f s xs = Inr s1" "f s1 x = Inr t"
    by (auto simp: for_each_append result_simps)
  have "P xs s1" using snoc.prems(2,3) by (intro snoc.IH [OF s1(1)]) auto
  then show ?case using snoc.prems(3) [of xs x "[]"] s1(2) by simp
qed simp

subsection \<open>Generic facts on lists\<close>

lemma take_length_append [simp]: "length xs = n \<Longrightarrow> take n (xs @ ys) = xs"
  by simp

lemma drop_length_append [simp]: "length xs = n \<Longrightarrow> drop n (xs @ ys) = ys"
  by simp

lemma take_drop_middle:
  "length pre = p \<Longrightarrow> length mid = n \<Longrightarrow> take n (drop p (pre @ mid @ post)) = mid"
  by simp

lemma mod_neg_pad: "(n + (- n) mod m) mod m = (0::int)"
  by (simp add: mod_simps)

lemma map_of_key_in_set: "map_of xs k = Some v \<Longrightarrow> k \<in> set (map fst xs)"
  by (induction xs) (auto split: if_splits)

subsection \<open>The interface of a format\<close>

text \<open>
  A writer whose output its reader reads back, for the values that fit the format. Formats are
  put inside each other: the layers together are a format again.
\<close>

locale codec =
  fixes emit :: "'a \<Rightarrow> 'b result" and parse :: "'b \<Rightarrow> 'a result" and fits :: "'a \<Rightarrow> bool"
  assumes parse_emit: "emit x = Inr b \<Longrightarrow> fits x \<Longrightarrow> parse b = Inr x"
begin

lemma emit_inj: "emit x = Inr b \<Longrightarrow> emit y = Inr b \<Longrightarrow> fits x \<Longrightarrow> fits y \<Longrightarrow> x = y"
  by (drule (1) parse_emit)+ simp

end

locale layered = outer: codec wrap unwrap framed + inner: codec pack unpack fits
  for wrap :: "'p \<Rightarrow> 'b result" and unwrap :: "'b \<Rightarrow> 'p result" and framed :: "'p \<Rightarrow> bool"
    and pack :: "'e \<Rightarrow> 'p result" and unpack :: "'p \<Rightarrow> 'e result" and fits :: "'e \<Rightarrow> bool" +
  assumes packed_framed: "pack x = Inr p \<Longrightarrow> fits x \<Longrightarrow> framed p"
begin

lemma read_back: "pack x = Inr p \<Longrightarrow> fits x \<Longrightarrow> wrap p = Inr b \<Longrightarrow> rbind (unwrap b) unpack = Inr x"
  using inner.parse_emit outer.parse_emit packed_framed by simp

end

sublocale layered \<subseteq> both: codec "\<lambda>x. rbind (pack x) wrap" "\<lambda>b. rbind (unwrap b) unpack" fits
proof
  fix x b
  assume "rbind (pack x) wrap = Inr b" "fits x"
  then show "rbind (unwrap b) unpack = Inr x" using read_back by (auto simp: rbind_eq_Inr [of "pack _"])
qed

end
