(* ===== verification/Regex.thy ===== *)
theory Regex
  imports Prelude
begin

text \<open>
  The part of Python's \<open>re\<close> module the scripts use: character classes, sequence,
  alternation and (bounded) repetition, with \<open>re.fullmatch\<close> and \<open>Pattern.search\<close>. None of
  the patterns has a look-around or a back-reference, so a pattern denotes a language and
  \<open>fullmatch\<close> is membership in it. \<open>matches\<close> decides membership by derivatives, so
  that patterns evaluate; \<open>fullmatch_iff_lang\<close> and \<open>search_iff\<close> tie it to the language.
\<close>

datatype regex =
    Zero
  | One
  | Cls "(char \<times> char) list"      \<comment> \<open>\<open>[a-z0-9]\<close>: a list of ranges\<close>
  | NCls "(char \<times> char) list"     \<comment> \<open>\<open>[^...]\<close>\<close>
  | Seq regex regex
  | Alt regex regex
  | Rep nat "nat option" regex    \<comment> \<open>\<open>r{m,n}\<close>; \<open>None\<close> is no upper bound\<close>

definition in_ranges :: "char \<Rightarrow> (char \<times> char) list \<Rightarrow> bool" where
  "in_ranges c rs \<longleftrightarrow> list_ex (\<lambda>(a, b). a \<le> c \<and> c \<le> b) rs"

definition chr1 :: "char \<Rightarrow> regex" where
  "chr1 c = Cls [(c, c)]"

fun lit :: "string \<Rightarrow> regex" where
  "lit [] = One"
| "lit [c] = chr1 c"
| "lit (c # cs) = Seq (chr1 c) (lit cs)"

fun alts :: "regex list \<Rightarrow> regex" where
  "alts [] = Zero"
| "alts [r] = r"
| "alts (r # rs) = Alt r (alts rs)"

fun seqs :: "regex list \<Rightarrow> regex" where
  "seqs [] = One"
| "seqs [r] = r"
| "seqs (r # rs) = Seq r (seqs rs)"

definition star :: "regex \<Rightarrow> regex" where "star r = Rep 0 None r"
definition plus1 :: "regex \<Rightarrow> regex" where "plus1 r = Rep 1 None r"
definition opt :: "regex \<Rightarrow> regex" where "opt r = Rep 0 (Some 1) r"
definition times :: "nat \<Rightarrow> regex \<Rightarrow> regex" where "times n r = Rep n (Some n) r"
definition any_byte :: regex where "any_byte = NCls []"

subsection \<open>The language of a pattern\<close>

definition conc :: "string set \<Rightarrow> string set \<Rightarrow> string set" where
  "conc A B = {u @ v | u v. u \<in> A \<and> v \<in> B}"

lemma concI: "u \<in> A \<Longrightarrow> v \<in> B \<Longrightarrow> u @ v \<in> conc A B"
  by (auto simp: conc_def)

lemma concE:
  assumes "w \<in> conc A B"
  obtains u v where "w = u @ v" "u \<in> A" "v \<in> B"
  using assms by (auto simp: conc_def)

primrec lpow :: "string set \<Rightarrow> nat \<Rightarrow> string set" where
  "lpow A 0 = {[]}"
| "lpow A (Suc k) = conc A (lpow A k)"

definition in_bounds :: "nat \<Rightarrow> nat option \<Rightarrow> nat \<Rightarrow> bool" where
  "in_bounds m n k \<longleftrightarrow> m \<le> k \<and> (case n of None \<Rightarrow> True | Some j \<Rightarrow> k \<le> j)"

primrec lang :: "regex \<Rightarrow> string set" where
  "lang Zero = {}"
| "lang One = {[]}"
| "lang (Cls rs) = {[c] | c. in_ranges c rs}"
| "lang (NCls rs) = {[c] | c. \<not> in_ranges c rs}"
| "lang (Seq r s) = conc (lang r) (lang s)"
| "lang (Alt r s) = lang r \<union> lang s"
| "lang (Rep m n r) = {w. \<exists>k. in_bounds m n k \<and> w \<in> lpow (lang r) k}"

subsection \<open>The matcher\<close>

primrec nullable :: "regex \<Rightarrow> bool" where
  "nullable Zero = False"
| "nullable One = True"
| "nullable (Cls rs) = False"
| "nullable (NCls rs) = False"
| "nullable (Seq r s) = (nullable r \<and> nullable s)"
| "nullable (Alt r s) = (nullable r \<or> nullable s)"
| "nullable (Rep m n r) =
     ((m = 0 \<or> nullable r) \<and> (case n of None \<Rightarrow> True | Some j \<Rightarrow> m \<le> j))"

fun mk_seq :: "regex \<Rightarrow> regex \<Rightarrow> regex" where
  "mk_seq r s = (if r = Zero \<or> s = Zero then Zero else if r = One then s else Seq r s)"

fun mk_alt :: "regex \<Rightarrow> regex \<Rightarrow> regex" where
  "mk_alt r s = (if r = Zero then s else if s = Zero \<or> r = s then r else Alt r s)"

primrec deriv :: "char \<Rightarrow> regex \<Rightarrow> regex" where
  "deriv c Zero = Zero"
| "deriv c One = Zero"
| "deriv c (Cls rs) = (if in_ranges c rs then One else Zero)"
| "deriv c (NCls rs) = (if in_ranges c rs then Zero else One)"
| "deriv c (Seq r s) =
     (if nullable r then mk_alt (mk_seq (deriv c r) s) (deriv c s) else mk_seq (deriv c r) s)"
| "deriv c (Alt r s) = mk_alt (deriv c r) (deriv c s)"
| "deriv c (Rep m n r) =
     (if n = Some 0 then Zero
      else mk_seq (deriv c r) (Rep (m - 1) (map_option (\<lambda>j. j - 1) n) r))"

fun fullmatch :: "regex \<Rightarrow> string \<Rightarrow> bool" where
  "fullmatch r [] = nullable r"
| "fullmatch r (c # cs) = fullmatch (deriv c r) cs"

text \<open>\<open>re.match\<close>: a prefix of the text matches; \<open>search\<close>: some factor of it does.\<close>

definition match_prefix :: "regex \<Rightarrow> string \<Rightarrow> bool" where
  "match_prefix r s = fullmatch (Seq r (star any_byte)) s"

definition search :: "regex \<Rightarrow> string \<Rightarrow> bool" where
  "search r s = fullmatch (Seq (star any_byte) (Seq r (star any_byte))) s"

subsection \<open>The matcher decides the language\<close>

lemma nullable_iff: "nullable r \<longleftrightarrow> [] \<in> lang r"
proof (induction r)
  case (Rep m n r)
  have pow: "[] \<in> lpow A k \<longleftrightarrow> k = 0 \<or> [] \<in> A" for A k
    by (induction k) (auto simp: conc_def)
  have "(\<exists>k. in_bounds m n k \<and> (k = 0 \<or> P)) \<longleftrightarrow>
      (m = 0 \<or> P) \<and> (case n of None \<Rightarrow> True | Some j \<Rightarrow> m \<le> j)" for P
    by (auto simp: in_bounds_def split: option.splits intro: exI [of _ m])
  with Rep show ?case by (simp add: pow)
qed (auto simp: conc_def)

lemma lang_mk_seq [simp]: "lang (mk_seq r s) = conc (lang r) (lang s)"
  by (auto simp: conc_def)

lemma lang_mk_alt [simp]: "lang (mk_alt r s) = lang r \<union> lang s"
  by auto

declare mk_seq.simps [simp del] mk_alt.simps [simp del]

text \<open>The first non-empty factor of a power can be moved to the front.\<close>

lemma Cons_in_lpow:
  "c # w \<in> lpow A k \<Longrightarrow> \<exists>u v. w = u @ v \<and> c # u \<in> A \<and> 0 < k \<and> v \<in> lpow A (k - 1)"
proof (induction k)
  case 0
  then show ?case by simp
next
  case (Suc k)
  from Suc.prems obtain a b where ab: "c # w = a @ b" "a \<in> A" "b \<in> lpow A k"
    by (auto simp: conc_def)
  show ?case
  proof (cases a)
    case Nil
    with ab Suc.IH obtain u v where uv: "w = u @ v" "c # u \<in> A" "0 < k" "v \<in> lpow A (k - 1)"
      by auto
    from Nil ab(2) uv(4) have "v \<in> lpow A (Suc (k - 1))"
      by (auto simp: conc_def intro: exI [of _ "[]"])
    with uv show ?thesis by auto
  next
    case (Cons d u)
    with ab show ?thesis by auto
  qed
qed

lemma lang_deriv: "w \<in> lang (deriv c r) \<longleftrightarrow> c # w \<in> lang r"
proof (induction r arbitrary: w)
  case (Seq r s)
  have "c # w \<in> conc (lang r) (lang s) \<longleftrightarrow>
      (\<exists>u v. w = u @ v \<and> c # u \<in> lang r \<and> v \<in> lang s) \<or> [] \<in> lang r \<and> c # w \<in> lang s"
    by (auto simp: conc_def Cons_eq_append_conv)
  with Seq show ?case by (auto simp: conc_def nullable_iff)
next
  case (Rep m n r)
  let ?n' = "map_option (\<lambda>j. j - 1) n"
  have shift: "n \<noteq> Some 0 \<Longrightarrow> in_bounds (m - 1) ?n' k \<longleftrightarrow> in_bounds m n (Suc k)" for k
    by (auto simp: in_bounds_def split: option.splits)
  show ?case
  proof
    assume "w \<in> lang (deriv c (Rep m n r))"
    then obtain u v k where n: "n \<noteq> Some 0" and w: "w = u @ v" "u \<in> lang (deriv c r)"
      and k: "in_bounds (m - 1) ?n' k" "v \<in> lpow (lang r) k"
      by (auto simp: conc_def split: if_splits)
    have "c # w = (c # u) @ v" "c # u \<in> lang r" using w Rep.IH by simp_all
    with k(2) have "c # w \<in> lpow (lang r) (Suc k)" unfolding lpow.simps conc_def by blast
    with n k(1) show "c # w \<in> lang (Rep m n r)" using shift by auto
  next
    assume "c # w \<in> lang (Rep m n r)"
    then obtain k where k: "in_bounds m n k" "c # w \<in> lpow (lang r) k" by auto
    from Cons_in_lpow [OF k(2)] obtain u v
      where uv: "w = u @ v" "c # u \<in> lang r" "0 < k" "v \<in> lpow (lang r) (k - 1)" by auto
    have n: "n \<noteq> Some 0" using k(1) uv(3) by (auto simp: in_bounds_def)
    have "in_bounds (m - 1) ?n' (k - 1)" using shift [OF n, of "k - 1"] k(1) uv(3) by simp
    with uv n Rep.IH show "w \<in> lang (deriv c (Rep m n r))" by (auto simp: conc_def)
  qed
qed auto

theorem fullmatch_iff_lang: "fullmatch r s \<longleftrightarrow> s \<in> lang r"
  by (induction s arbitrary: r) (auto simp: nullable_iff lang_deriv)

lemma lpow_cls:
  assumes "A = {[c] | c. P c}"
  shows "lpow A k = {w. length w = k \<and> (\<forall>c \<in> set w. P c)}"
proof (induction k)
  case 0
  then show ?case by auto
next
  case (Suc k)
  have cons: "conc {[c] | c. P c} B = {c # v | c v. P c \<and> v \<in> B}" for B
    by (auto simp: conc_def) (metis append_Cons append_Nil)
  show ?case
    unfolding lpow.simps assms cons using Suc by (auto simp: assms length_Suc_conv)
qed

lemma lpow_any: "w \<in> lpow {[c] |c. True} (length w)"
  using lpow_cls [OF refl, of "\<lambda>c. True"] by simp

lemma lang_star_any [simp]: "lang (star any_byte) = UNIV"
  using lpow_any by (auto simp: star_def any_byte_def in_bounds_def in_ranges_def lang.simps(7))

lemma search_iff: "search r s \<longleftrightarrow> (\<exists>u v w. s = u @ v @ w \<and> v \<in> lang r)"
  by (auto simp: search_def fullmatch_iff_lang conc_def)

lemma match_prefix_iff: "match_prefix r s \<longleftrightarrow> (\<exists>u v. s = u @ v \<and> u \<in> lang r)"
  by (auto simp: match_prefix_def fullmatch_iff_lang conc_def)

declare lang.simps(7) [simp del]

subsection \<open>Languages of the common shapes\<close>

named_theorems lang_simps \<open>languages of the pattern builders\<close>

lemma lang_Rep_Cls [lang_simps]:
  "lang (Rep m n (Cls rs)) = {w. in_bounds m n (length w) \<and> (\<forall>c \<in> set w. in_ranges c rs)}"
  using lpow_cls [OF refl, of "\<lambda>c. in_ranges c rs"] by (auto simp: lang.simps(7) simp del: lpow.simps)

lemma lang_Rep_NCls [lang_simps]:
  "lang (Rep m n (NCls rs)) = {w. in_bounds m n (length w) \<and> (\<forall>c \<in> set w. \<not> in_ranges c rs)}"
  using lpow_cls [OF refl, of "\<lambda>c. \<not> in_ranges c rs"] by (auto simp: lang.simps(7) simp del: lpow.simps)

lemma lang_chr1 [lang_simps]: "lang (chr1 c) = {[c]}"
  by (auto simp: chr1_def in_ranges_def)

lemma conc_singleton: "conc {u} B = (\<lambda>v. u @ v) ` B"
  by (auto simp: conc_def)

lemma lang_lit [lang_simps]: "lang (lit s) = {s}"
  by (induction s rule: lit.induct) (auto simp: lang_chr1 conc_singleton)

lemma lang_opt [lang_simps]: "lang (opt r) = insert [] (lang r)"
proof -
  have k: "in_bounds 0 (Some 1) k \<longleftrightarrow> k = 0 \<or> k = Suc 0" for k
    by (auto simp: in_bounds_def)
  have "lang (opt r) = lpow (lang r) 0 \<union> lpow (lang r) (Suc 0)"
    unfolding opt_def lang.simps(7) k by blast
  moreover have "lpow (lang r) (Suc 0) = lang r" by (simp add: conc_def)
  ultimately show ?thesis by simp
qed

lemma lang_times_Cls [lang_simps]:
  "lang (times n (Cls rs)) = {w. length w = n \<and> (\<forall>c \<in> set w. in_ranges c rs)}"
  by (auto simp: times_def lang_Rep_Cls in_bounds_def)

lemma lang_star_Cls [lang_simps]: "lang (star (Cls rs)) = {w. \<forall>c \<in> set w. in_ranges c rs}"
  by (auto simp: star_def lang_Rep_Cls in_bounds_def)

lemma lang_star_NCls [lang_simps]: "lang (star (NCls rs)) = {w. \<forall>c \<in> set w. \<not> in_ranges c rs}"
  by (auto simp: star_def lang_Rep_NCls in_bounds_def)

lemma lang_plus1_Cls [lang_simps]:
  "lang (plus1 (Cls rs)) = {w. w \<noteq> [] \<and> (\<forall>c \<in> set w. in_ranges c rs)}"
  by (auto simp: plus1_def lang_Rep_Cls in_bounds_def Suc_le_eq)

subsection \<open>The characters of matched text\<close>

text \<open>\<open>classes_all Q r\<close>: the pattern has no negated class, and \<open>Q\<close> holds of every class in it.\<close>

primrec classes_all :: "((char \<times> char) list \<Rightarrow> bool) \<Rightarrow> regex \<Rightarrow> bool" where
  "classes_all Q Zero = True"
| "classes_all Q One = True"
| "classes_all Q (Cls rs) = Q rs"
| "classes_all Q (NCls rs) = False"
| "classes_all Q (Seq r s) = (classes_all Q r \<and> classes_all Q s)"
| "classes_all Q (Alt r s) = (classes_all Q r \<and> classes_all Q s)"
| "classes_all Q (Rep m n r) = classes_all Q r"

lemma classes_all_lang:
  assumes "\<And>rs c. Q rs \<Longrightarrow> in_ranges c rs \<Longrightarrow> P c"
  shows "classes_all Q r \<Longrightarrow> w \<in> lang r \<Longrightarrow> list_all P w"
proof (induction r arbitrary: w)
  case (Rep m n r)
  then obtain k where k: "w \<in> lpow (lang r) k" by (auto simp: lang.simps(7))
  have "list_all P w" if "w \<in> lpow (lang r) k" for w k
    using that Rep.IH Rep.prems(1) by (induction k arbitrary: w) (auto simp: conc_def)
  from this [OF k] show ?case .
qed (use assms in \<open>auto simp: conc_def\<close>)

definition ranges_within :: "char \<Rightarrow> char \<Rightarrow> (char \<times> char) list \<Rightarrow> bool" where
  "ranges_within lo hi rs \<longleftrightarrow> list_all (\<lambda>(a, b). lo \<le> a \<and> b \<le> hi) rs"

lemma ranges_within_in: "ranges_within lo hi rs \<Longrightarrow> in_ranges c rs \<Longrightarrow> lo \<le> c \<and> c \<le> hi"
  unfolding ranges_within_def in_ranges_def list_all_iff list_ex_iff by fastforce

lemma fullmatch_within:
  assumes "fullmatch r s" and "classes_all (ranges_within lo hi) r"
  shows "list_all (\<lambda>c. lo \<le> c \<and> c \<le> hi) s"
  using assms ranges_within_in by (intro classes_all_lang [of "ranges_within lo hi" _ r]) (auto simp: fullmatch_iff_lang)

lemma fullmatch_avoids:
  assumes "fullmatch r s" and "classes_all (\<lambda>rs. \<not> in_ranges c rs) r"
  shows "c \<notin> set s"
proof -
  have "list_all (\<lambda>d. d \<noteq> c) s"
    using assms by (intro classes_all_lang [of "\<lambda>rs. \<not> in_ranges c rs" _ r]) (auto simp: fullmatch_iff_lang)
  then show ?thesis by (auto simp: list_all_iff)
qed

subsection \<open>Patterns several components share\<close>

definition hex_digit :: regex where
  "hex_digit = Cls [(CHR ''0'', CHR ''9''), (CHR ''a'', CHR ''f'')]"

definition alnum_ranges :: "(char \<times> char) list" where
  "alnum_ranges = [(CHR ''A'', CHR ''Z''), (CHR ''a'', CHR ''z''), (CHR ''0'', CHR ''9'')]"

text \<open>\<open>[0-9a-f]{40}\<close> and \<open>[0-9a-f]{64}\<close>.\<close>

definition SHA1 :: regex where "SHA1 = times 40 hex_digit"
definition SHA256 :: regex where "SHA256 = times 64 hex_digit"

end
