(* ===== verification/Py_Text.thy ===== *)
theory Py_Text
  imports Regex "HOL-Library.Sublist"
begin

text \<open>
  The operations of Python's \<open>str\<close>, \<open>bytes\<close> and \<open>int\<close> that the scripts use. Text is kept
  as its UTF-8 bytes; white space and line boundaries are therefore given as the list of
  their encodings (\<open>ws_seqs\<close>, \<open>str_nls\<close>), which covers the code points beyond ASCII.
\<close>

subsection \<open>Encodings\<close>

definition is_ascii :: "bytes \<Rightarrow> bool" where
  "is_ascii s \<longleftrightarrow> list_all (\<lambda>c. c \<le> CHR 0x7F) s"

definition cont :: "char \<Rightarrow> bool" where
  "cont c \<longleftrightarrow> CHR 0x80 \<le> c \<and> c \<le> CHR 0xBF"

text \<open>Well-formed UTF-8 (no overlong forms, no surrogates, at most U+10FFFF).\<close>

fun valid_utf8 :: "bytes \<Rightarrow> bool" where
  "valid_utf8 [] = True"
| "valid_utf8 (a # s) =
     (if a \<le> CHR 0x7F then valid_utf8 s
      else if CHR 0xC2 \<le> a \<and> a \<le> CHR 0xDF then
        (case s of b # t \<Rightarrow> cont b \<and> valid_utf8 t | _ \<Rightarrow> False)
      else if CHR 0xE0 \<le> a \<and> a \<le> CHR 0xEF then
        (case s of b # c # t \<Rightarrow> cont b \<and> cont c \<and> (a = CHR 0xE0 \<longrightarrow> CHR 0xA0 \<le> b)
           \<and> (a = CHR 0xED \<longrightarrow> b \<le> CHR 0x9F) \<and> valid_utf8 t | _ \<Rightarrow> False)
      else if CHR 0xF0 \<le> a \<and> a \<le> CHR 0xF4 then
        (case s of b # c # d # t \<Rightarrow> cont b \<and> cont c \<and> cont d \<and> (a = CHR 0xF0 \<longrightarrow> CHR 0x90 \<le> b)
           \<and> (a = CHR 0xF4 \<longrightarrow> b \<le> CHR 0x8F) \<and> valid_utf8 t | _ \<Rightarrow> False)
      else False)"

definition decode_utf8 :: "bytes \<Rightarrow> string result" where
  "decode_utf8 bs = (if valid_utf8 bs then Inr bs else Inl (ValueError ''utf-8''))"

definition decode_ascii :: "bytes \<Rightarrow> string result" where
  "decode_ascii bs = (if is_ascii bs then Inr bs else Inl (ValueError ''ascii''))"

lemma is_ascii_simps [simp]:
  "is_ascii []" "is_ascii (c # s) \<longleftrightarrow> c \<le> CHR 0x7F \<and> is_ascii s"
  "is_ascii (s @ t) \<longleftrightarrow> is_ascii s \<and> is_ascii t"
  by (auto simp: is_ascii_def)

lemma ascii_valid_utf8: "is_ascii s \<Longrightarrow> valid_utf8 s"
  by (induction s) auto

text \<open>\<open>Path.read_text()\<close>: UTF-8, with universal newlines.\<close>

fun translate_newlines :: "bool \<Rightarrow> string \<Rightarrow> string" where
  "translate_newlines cr [] = []"
| "translate_newlines cr (c # s) =
     (if c = CHR 0x0D then CHR 0x0A # translate_newlines True s
      else if c = CHR 0x0A \<and> cr then translate_newlines False s
      else c # translate_newlines False s)"

definition universal_newlines :: "string \<Rightarrow> string" where
  "universal_newlines s = translate_newlines False s"

definition read_text :: "bytes \<Rightarrow> string result" where
  "read_text bs = rbind (decode_utf8 bs) (\<lambda>s. Inr (universal_newlines s))"

subsection \<open>Prefixes, suffixes, slices\<close>

definition startswith :: "string \<Rightarrow> string \<Rightarrow> bool" where
  "startswith p s \<longleftrightarrow> take (length p) s = p"

definition endswith :: "string \<Rightarrow> string \<Rightarrow> bool" where
  "endswith p s \<longleftrightarrow> startswith (rev p) (rev s)"

definition removeprefix :: "string \<Rightarrow> string \<Rightarrow> string" where
  "removeprefix p s = (if startswith p s then drop (length p) s else s)"

lemma startswith_iff: "startswith p s \<longleftrightarrow> (\<exists>t. s = p @ t)"
  unfolding startswith_def by (metis append_eq_conv_conj append_take_drop_id)

lemma startswith_append [simp]: "startswith p (p @ s)"
  by (simp add: startswith_def)

lemma removeprefix_append [simp]: "removeprefix p (p @ s) = s"
  by (simp add: removeprefix_def)

lemma endswith_iff: "endswith p s \<longleftrightarrow> (\<exists>t. s = t @ p)"
  unfolding endswith_def startswith_iff by (metis rev_append rev_rev_ident)

text \<open>\<open>s.replace(old, [])\<close>: every leftmost occurrence goes, without overlaps; \<open>s.strip(chars)\<close>.\<close>

function py_remove :: "string \<Rightarrow> string \<Rightarrow> string" where
  "py_remove old s =
     (if old = [] \<or> s = [] then s
      else if startswith old s then py_remove old (drop (length old) s)
      else hd s # py_remove old (tl s))"
  by pat_completeness auto
termination by (relation "measure (length \<circ> snd)") (auto simp: length_greater_0_conv)

declare py_remove.simps [simp del]

definition strip_chars :: "char set \<Rightarrow> string \<Rightarrow> string" where
  "strip_chars cs s = rev (dropWhile (\<lambda>c. c \<in> cs) (rev (dropWhile (\<lambda>c. c \<in> cs) s)))"

text \<open>\<open>xs[i:j]\<close>: negative indices count from the end, both ends are clipped.\<close>

definition clip_index :: "nat \<Rightarrow> int \<Rightarrow> nat" where
  "clip_index n i = (let j = (if i < 0 then i + int n else i) in nat (max 0 (min j (int n))))"

definition py_slice :: "'a list \<Rightarrow> int \<Rightarrow> int \<Rightarrow> 'a list" where
  "py_slice xs i j =
     (let a = clip_index (length xs) i; b = clip_index (length xs) j in take (b - a) (drop a xs))"

lemma py_slice_nat [simp]: "py_slice xs (int i) (int j) = take (j - i) (drop i xs)"
proof (cases "i \<le> length xs \<and> j \<le> length xs")
  case True
  then show ?thesis by (simp add: py_slice_def clip_index_def Let_def min_def)
next
  case False
  then show ?thesis by (auto simp: py_slice_def clip_index_def Let_def min_def)
qed

lemma length_py_slice_le: "int (length (py_slice xs i j)) \<le> max 0 (j - i) \<or> j < 0"
  by (auto simp: py_slice_def clip_index_def Let_def min_def max_def)

text \<open>\<open>s.split(c)\<close> and \<open>s.split(c, 1)\<close> for a single character, and \<open>c.join\<close>.\<close>

fun split_on :: "char \<Rightarrow> string \<Rightarrow> string list" where
  "split_on c [] = [[]]"
| "split_on c (x # xs) =
     (if x = c then [] # split_on c xs
      else case split_on c xs of [] \<Rightarrow> [[x]] | y # ys \<Rightarrow> (x # y) # ys)"

fun join :: "string \<Rightarrow> string list \<Rightarrow> string" where
  "join sep [] = []"
| "join sep [x] = x"
| "join sep (x # xs) = x @ sep @ join sep xs"

definition split_once :: "char \<Rightarrow> string \<Rightarrow> string list" where
  "split_once c s =
     (if c \<in> set s then [takeWhile (\<lambda>x. x \<noteq> c) s, tl (dropWhile (\<lambda>x. x \<noteq> c) s)] else [s])"

lemma split_on_nonempty [simp]: "split_on c s \<noteq> []"
  by (induction s) (auto split: list.splits)

lemma split_on_no_sep: "p \<in> set (split_on c s) \<Longrightarrow> c \<notin> set p"
  by (induction s arbitrary: p) (auto split: if_splits list.splits)

lemma split_on_set: "p \<in> set (split_on c s) \<Longrightarrow> set p \<subseteq> set s"
  by (induction s arbitrary: p) (fastforce split: if_splits list.splits)+

lemma join_Cons: "xs \<noteq> [] \<Longrightarrow> join sep (x # xs) = x @ sep @ join sep xs"
  by (cases xs) auto

lemma join_split_on: "join [c] (split_on c s) = s"
proof (induction s)
  case Nil
  then show ?case by simp
next
  case (Cons x xs)
  obtain y ys where y: "split_on c xs = y # ys" by (cases "split_on c xs") auto
  from Cons y show ?case by (cases ys) auto
qed

lemma split_on_id: "c \<notin> set s \<Longrightarrow> split_on c s = [s]"
  by (induction s) auto

lemma split_on_append: "c \<notin> set s \<Longrightarrow> split_on c (s @ c # t) = s # split_on c t"
  by (induction s) auto

lemma split_on_join:
  "ps \<noteq> [] \<Longrightarrow> (\<And>p. p \<in> set ps \<Longrightarrow> c \<notin> set p) \<Longrightarrow> split_on c (join [c] ps) = ps"
proof (induction ps)
  case (Cons p ps)
  then show ?case
    by (cases "ps = []") (simp_all add: split_on_id join_Cons split_on_append)
qed simp

lemma split_once_append: "c \<notin> set s \<Longrightarrow> split_once c (s @ c # t) = [s, t]"
  by (induction s) (auto simp: split_once_def)

text \<open>\<open>s.split(sep, 1)\<close> and \<open>s.partition(sep)\<close> for a string: the text before and after its first occurrence.\<close>

fun split_at :: "string \<Rightarrow> string \<Rightarrow> (string \<times> string) option" where
  "split_at sep [] = (if sep = [] then Some ([], []) else None)"
| "split_at sep (c # s) =
     (if startswith sep (c # s) then Some ([], drop (length sep) (c # s))
      else map_option (\<lambda>(a, b). (c # a, b)) (split_at sep s))"

definition partition_after :: "string \<Rightarrow> string \<Rightarrow> string" where
  "partition_after sep s = (case split_at sep s of None \<Rightarrow> [] | Some (a, b) \<Rightarrow> b)"

definition partition_before :: "string \<Rightarrow> string \<Rightarrow> string" where
  "partition_before sep s = (case split_at sep s of None \<Rightarrow> s | Some (a, b) \<Rightarrow> a)"

lemma split_at_append: "split_at sep s = Some (a, b) \<Longrightarrow> s = a @ sep @ b"
  by (induction sep s arbitrary: a rule: split_at.induct) (auto simp: startswith_iff split: if_splits)

lemma split_at_first: "sep \<noteq> [] \<Longrightarrow> split_at sep (sep @ s) = Some ([], s)"
  by (cases sep) (auto simp: startswith_def)

subsection \<open>White space and lines\<close>

definition sep_len :: "string list \<Rightarrow> string \<Rightarrow> nat" where
  "sep_len seps s = (case filter (\<lambda>w. w \<noteq> [] \<and> startswith w s) seps of [] \<Rightarrow> 0 | w # _ \<Rightarrow> length w)"

definition ws_seqs :: "string list" where
  "ws_seqs = [[CHR 0x20], [CHR 0x0A], [CHR 0x09], [CHR 0x0D], [CHR 0x0B], [CHR 0x0C],
     [CHR 0x1C], [CHR 0x1D], [CHR 0x1E], [CHR 0x1F],
     [CHR 0xC2, CHR 0x85], [CHR 0xC2, CHR 0xA0], [CHR 0xE1, CHR 0x9A, CHR 0x80]]
   @ map (\<lambda>c. [CHR 0xE2, CHR 0x80, c])
       [CHR 0x80, CHR 0x81, CHR 0x82, CHR 0x83, CHR 0x84, CHR 0x85, CHR 0x86, CHR 0x87, CHR 0x88,
        CHR 0x89, CHR 0x8A, CHR 0xA8, CHR 0xA9, CHR 0xAF]
   @ [[CHR 0xE2, CHR 0x81, CHR 0x9F], [CHR 0xE3, CHR 0x80, CHR 0x80]]"

text \<open>Line boundaries of \<open>str.splitlines\<close> and of \<open>bytes.splitlines\<close>.\<close>

definition bytes_nls :: "string list" where
  "bytes_nls = [[CHR 0x0D, CHR 0x0A], [CHR 0x0A], [CHR 0x0D]]"

definition str_nls :: "string list" where
  "str_nls = bytes_nls @ [[CHR 0x0B], [CHR 0x0C], [CHR 0x1C], [CHR 0x1D], [CHR 0x1E],
     [CHR 0xC2, CHR 0x85], [CHR 0xE2, CHR 0x80, CHR 0xA8], [CHR 0xE2, CHR 0x80, CHR 0xA9]]"

lemma sep_len_le: "sep_len seps s \<le> length s"
proof (cases "filter (\<lambda>w. w \<noteq> [] \<and> startswith w s) seps")
  case Nil
  then show ?thesis by (simp add: sep_len_def)
next
  case (Cons w ws)
  then have "w \<in> set (filter (\<lambda>w. w \<noteq> [] \<and> startswith w s) seps)" by simp
  then have "startswith w s" by simp
  with Cons show ?thesis by (auto simp: sep_len_def startswith_iff)
qed

fun break_at :: "string list \<Rightarrow> string \<Rightarrow> string \<times> string" where
  "break_at seps [] = ([], [])"
| "break_at seps (c # s) =
     (if sep_len seps (c # s) > 0 then ([], c # s)
      else let (w, t) = break_at seps s in (c # w, t))"

lemma break_at_append: "break_at seps s = (w, t) \<Longrightarrow> s = w @ t"
  by (induction s arbitrary: w) (auto split: if_splits prod.splits)

lemma break_at_rest: "break_at seps s = (w, t) \<Longrightarrow> t = [] \<or> sep_len seps t > 0"
  by (induction s arbitrary: w) (auto split: if_splits prod.splits)

function split_seps :: "string list \<Rightarrow> string \<Rightarrow> (string \<times> string) list" where
  "split_seps seps s =
     (if s = [] then []
      else let (l, t) = break_at seps s; k = sep_len seps t
           in (l, take k t) # split_seps seps (drop k t))"
  by pat_completeness auto
termination
proof (relation "measure (length \<circ> snd)")
  fix seps :: "string list" and s l t :: string and x k
  assume s: "s \<noteq> []" and x: "x = break_at seps s" "(l, t) = x" and k: "k = sep_len seps t"
  from x have b: "break_at seps s = (l, t)" by simp
  have "length s = length l + length t" using break_at_append [OF b] by simp
  moreover have "t = [] \<or> k > 0" using break_at_rest [OF b] k by simp
  ultimately show "((seps, drop k t), (seps, s)) \<in> measure (length \<circ> snd)"
    using s by (cases t) auto
qed simp

declare split_seps.simps [simp del]

definition splitlines :: "string \<Rightarrow> string list" where
  "splitlines s = map fst (split_seps str_nls s)"

definition splitlines_keep :: "string \<Rightarrow> string list" where
  "splitlines_keep s = map (\<lambda>(l, e). l @ e) (split_seps str_nls s)"

definition bytes_splitlines :: "bytes \<Rightarrow> bytes list" where
  "bytes_splitlines s = map fst (split_seps bytes_nls s)"

text \<open>\<open>str.split()\<close>: runs of white space separate, none at the ends.\<close>

definition py_split :: "string \<Rightarrow> string list" where
  "py_split s = filter (\<lambda>w. w \<noteq> []) (map fst (split_seps ws_seqs s))"

function all_ws :: "string \<Rightarrow> bool" where
  "all_ws s =
     (if s = [] then True
      else if sep_len ws_seqs s > 0 then all_ws (drop (sep_len ws_seqs s) s) else False)"
  by pat_completeness auto
termination by (relation "measure length") auto

function lstrip :: "string \<Rightarrow> string" where
  "lstrip s = (if s \<noteq> [] \<and> sep_len ws_seqs s > 0 then lstrip (drop (sep_len ws_seqs s) s) else s)"
  by pat_completeness auto
termination by (relation "measure length") auto

declare all_ws.simps [simp del] lstrip.simps [simp del]

fun rstrip :: "string \<Rightarrow> string" where
  "rstrip [] = []"
| "rstrip (c # s) = (if all_ws (c # s) then [] else c # rstrip s)"

definition strip :: "string \<Rightarrow> string" where
  "strip s = rstrip (lstrip s)"

lemma concat_split_seps: "concat (map (\<lambda>(l, e). l @ e) (split_seps seps s)) = s"
proof (induction seps s rule: split_seps.induct)
  case (1 seps s)
  show ?case
  proof (cases "s = []")
    case True
    then show ?thesis by (simp add: split_seps.simps)
  next
    case False
    obtain l t where b: "break_at seps s = (l, t)" by fastforce
    have "concat (map (\<lambda>(l, e). l @ e) (split_seps seps (drop (sep_len seps t) t)))
        = drop (sep_len seps t) t"
      using 1 [OF False b [symmetric] refl] by simp
    with False b show ?thesis
      using break_at_append [OF b] by (subst split_seps.simps) (simp add: Let_def)
  qed
qed

lemma splitlines_keep_concat [simp]: "concat (splitlines_keep s) = s"
  by (simp add: splitlines_keep_def concat_split_seps)

text \<open>Text free of separators is one piece.\<close>

definition sep_free :: "string list \<Rightarrow> string \<Rightarrow> bool" where
  "sep_free seps s \<longleftrightarrow> (\<forall>c \<in> set s. \<forall>w \<in> set seps. w \<noteq> [] \<longrightarrow> hd w \<noteq> c)"

lemma sep_len_sep_free: "sep_free seps (c # s) \<Longrightarrow> sep_len seps (c # t) = 0"
proof -
  assume "sep_free seps (c # s)"
  then have "filter (\<lambda>w. w \<noteq> [] \<and> startswith w (c # t)) seps = []"
    by (auto simp: sep_free_def startswith_iff filter_empty_conv) (metis hd_append2 list.sel(1))
  then show ?thesis by (simp add: sep_len_def)
qed

lemma sep_free_Cons: "sep_free seps (c # s) \<Longrightarrow> sep_free seps s"
  by (simp add: sep_free_def)

lemma break_at_sep_free:
  "sep_free seps s \<Longrightarrow> t = [] \<or> sep_len seps t > 0 \<Longrightarrow> break_at seps (s @ t) = (s, t)"
proof (induction s)
  case Nil
  then show ?case by (cases t) auto
next
  case (Cons c s)
  then show ?case using sep_len_sep_free [OF Cons.prems(1)] sep_free_Cons by auto
qed

lemma split_seps_Nil [simp]: "split_seps seps [] = []"
  by (simp add: split_seps.simps)

lemma split_seps_cons:
  assumes "sep_free seps l" and "sep_len seps (e @ t) = length e" and "e \<noteq> []"
  shows "split_seps seps (l @ e @ t) = (l, e) # split_seps seps t"
proof -
  have "break_at seps (l @ e @ t) = (l, e @ t)"
    using break_at_sep_free [OF assms(1), of "e @ t"] assms(2,3) by simp
  with assms show ?thesis by (subst split_seps.simps) simp
qed

lemma split_seps_last: "sep_free seps l \<Longrightarrow> l \<noteq> [] \<Longrightarrow> split_seps seps l = [(l, [])]"
  using break_at_sep_free [of seps l "[]"] by (subst split_seps.simps) (simp add: sep_len_def)

text \<open>Printable ASCII holds no line boundary, and without the space no white space.\<close>

definition printable :: "char \<Rightarrow> bool" where
  "printable c \<longleftrightarrow> CHR 0x20 \<le> c \<and> c \<le> CHR 0x7E"

definition visible :: "char \<Rightarrow> bool" where
  "visible c \<longleftrightarrow> CHR 0x21 \<le> c \<and> c \<le> CHR 0x7E"

lemma visible_printable: "list_all visible s \<Longrightarrow> list_all printable s"
  by (auto simp: list_all_iff visible_def printable_def less_eq_char_def)

lemma printable_sep_free: "list_all printable s \<Longrightarrow> sep_free str_nls s"
  by (auto simp: sep_free_def str_nls_def bytes_nls_def list_all_iff printable_def less_eq_char_def)

lemma visible_sep_free: "list_all visible s \<Longrightarrow> sep_free ws_seqs s"
  by (auto simp: sep_free_def ws_seqs_def list_all_iff visible_def less_eq_char_def)

lemma fullmatch_visible: "fullmatch r s \<Longrightarrow> classes_all (ranges_within (CHR 0x21) (CHR 0x7E)) r \<Longrightarrow> list_all visible s"
  unfolding visible_def by (rule fullmatch_within)

text \<open>Words joined by single spaces split into the words again.\<close>

lemma sep_len_space: "sep_len ws_seqs (CHR '' '' # s) = 1"
  by (simp add: sep_len_def ws_seqs_def startswith_def)

lemma split_seps_words:
  "ws \<noteq> [] \<Longrightarrow> list_all (\<lambda>w. w \<noteq> [] \<and> list_all visible w) ws \<Longrightarrow>
     map fst (split_seps ws_seqs (join '' '' ws)) = ws"
proof (induction ws)
  case (Cons w ws)
  then have w: "w \<noteq> []" "sep_free ws_seqs w" by (auto intro: visible_sep_free)
  show ?case
  proof (cases "ws = []")
    case True
    with w split_seps_last [of ws_seqs w] show ?thesis by simp
  next
    case False
    then have "split_seps ws_seqs (w @ '' '' @ join '' '' ws) = (w, '' '') # split_seps ws_seqs (join '' '' ws)"
      using w by (intro split_seps_cons) (simp_all add: sep_len_space)
    with Cons False show ?thesis by (simp add: join_Cons)
  qed
qed simp

lemma py_split_words:
  "list_all (\<lambda>w. w \<noteq> [] \<and> list_all visible w) ws \<Longrightarrow> py_split (join '' '' ws) = ws"
  using split_seps_words [of ws] by (cases "ws = []") (auto simp: py_split_def list_all_iff filter_id_conv)

lemma split_on_char:
  "c \<in> set s \<Longrightarrow> c = d \<or> (\<exists>p \<in> set (split_on d s). c \<in> set p)"
proof (induction s)
  case (Cons x s)
  then show ?case by (cases "split_on d s") auto
qed simp

subsection \<open>Replacing one line\<close>

text \<open>The text of a list of pieces, and the pieces of a text in which one piece is replaced.\<close>

definition unsplit :: "(string \<times> string) list \<Rightarrow> string" where
  "unsplit ps = concat (map (\<lambda>(l, e). l @ e) ps)"

lemma unsplit_simps [simp]:
  "unsplit [] = []" "unsplit (p # ps) = fst p @ snd p @ unsplit ps"
  "unsplit (ps @ qs) = unsplit ps @ unsplit qs"
  by (simp_all add: unsplit_def split: prod.splits)

lemma unsplit_split_seps: "unsplit (split_seps seps s) = s"
  by (simp add: unsplit_def concat_split_seps)

lemma split_seps_unfold:
  assumes "split_seps seps s = (l, e) # ps"
  shows "s = l @ e @ unsplit ps" "break_at seps s = (l, e @ unsplit ps)"
    "sep_len seps (e @ unsplit ps) = length e" "ps = split_seps seps (unsplit ps)"
proof -
  have ne: "s \<noteq> []" using assms by auto
  obtain l' t where b: "break_at seps s = (l', t)" by fastforce
  define k where "k = sep_len seps t"
  have "split_seps seps s = (l', take k t) # split_seps seps (drop k t)"
    using ne b by (subst split_seps.simps) (simp add: Let_def k_def)
  with assms have eq: "l' = l" "e = take k t" "ps = split_seps seps (drop k t)" by simp_all
  then have "unsplit ps = drop k t" by (simp add: unsplit_split_seps)
  then have t: "t = e @ unsplit ps" using eq by simp
  have "length e = k" using eq sep_len_le [of seps t] by (simp add: k_def)
  then show "sep_len seps (e @ unsplit ps) = length e" using t k_def by simp
  show "s = l @ e @ unsplit ps" using break_at_append [OF b] eq(1) t by simp
  show "break_at seps s = (l, e @ unsplit ps)" using b eq(1) t by simp
  show "ps = split_seps seps (unsplit ps)" using eq(3) \<open>unsplit ps = drop k t\<close> by simp
qed

lemma sep_len_cases: "sep_len seps s = 0 \<or> take (sep_len seps s) s \<in> set seps"
proof (cases "filter (\<lambda>w. w \<noteq> [] \<and> startswith w s) seps")
  case (Cons w ws)
  then have "w \<in> set (filter (\<lambda>w. w \<noteq> [] \<and> startswith w s) seps)" by simp
  then have "w \<in> set seps" "take (length w) s = w" by (simp_all add: startswith_def)
  with Cons show ?thesis by (simp add: sep_len_def)
qed (simp add: sep_len_def)

lemma sep_len_single: "[c] \<in> set seps \<Longrightarrow> sep_len seps (c # s) > 0"
proof -
  assume "[c] \<in> set seps"
  then have "[c] \<in> set (filter (\<lambda>w. w \<noteq> [] \<and> startswith w (c # s)) seps)"
    by (simp add: startswith_def)
  then obtain w ws where w: "filter (\<lambda>w. w \<noteq> [] \<and> startswith w (c # s)) seps = w # ws"
    by (cases "filter (\<lambda>w. w \<noteq> [] \<and> startswith w (c # s)) seps") auto
  then have "w \<in> set (filter (\<lambda>w. w \<noteq> [] \<and> startswith w (c # s)) seps)" by simp
  then have "w \<noteq> []" by simp
  with w show ?thesis by (simp add: sep_len_def)
qed

lemma break_at_no_single: "break_at seps s = (l, t) \<Longrightarrow> [c] \<in> set seps \<Longrightarrow> c \<notin> set l"
proof (induction s arbitrary: l)
  case (Cons a s)
  then show ?case
    using sep_len_single [of c seps s] by (cases "a = c") (auto split: if_splits prod.splits)
qed simp

lemma split_seps_piece:
  "(l, e) \<in> set (split_seps seps s) \<Longrightarrow> (e = [] \<or> e \<in> set seps) \<and> (\<forall>c. [c] \<in> set seps \<longrightarrow> c \<notin> set l)"
proof (induction "split_seps seps s" arbitrary: s)
  case (Cons p ps)
  obtain l0 e0 where p: "p = (l0, e0)" by (cases p)
  note u = split_seps_unfold [of seps s l0 e0 ps]
  have s: "split_seps seps s = (l0, e0) # ps" using Cons.hyps(2) p by simp
  show ?case
  proof (cases "(l, e) = p")
    case True
    then show ?thesis
      using break_at_no_single [OF u(2) [OF s]] u(3) [OF s] p
        sep_len_cases [of seps "e0 @ unsplit ps"] by auto
  next
    case False
    then have "(l, e) \<in> set (split_seps seps (unsplit ps))"
      using Cons.prems Cons.hyps(2) u(4) [OF s] by (metis set_ConsD)
    then show ?thesis using Cons.hyps(1) [OF u(4) [OF s]] by blast
  qed
qed simp

text \<open>Separators are short, so a change behind enough common text is not seen before it.\<close>

lemma sep_len_local:
  assumes "list_all (\<lambda>w. length w \<le> n) seps" and "take n s = take n t"
  shows "sep_len seps s = sep_len seps t"
proof -
  have "startswith w s = startswith w t" if "w \<in> set seps" for w
  proof -
    have "take (length w) s = take (length w) (take n s)" "take (length w) t = take (length w) (take n t)"
      using that assms(1) by (simp_all add: list_all_iff min_absorb1)
    then show ?thesis using assms(2) by (simp add: startswith_def)
  qed
  then have "filter (\<lambda>w. w \<noteq> [] \<and> startswith w s) seps = filter (\<lambda>w. w \<noteq> [] \<and> startswith w t) seps"
    by (intro filter_cong) auto
  then show ?thesis by (simp add: sep_len_def)
qed

lemma break_at_local:
  assumes short: "list_all (\<lambda>w. length w \<le> n) seps" and "n \<le> length c" and "e \<noteq> []"
  shows "break_at seps (l @ e @ c @ u) = (l, e @ c @ u) \<Longrightarrow> break_at seps (l @ e @ c @ v) = (l, e @ c @ v)"
proof (induction l)
  case Nil
  obtain a as where e: "e = a # as" using assms(3) by (cases e) auto
  have "sep_len seps (e @ c @ u) = sep_len seps (e @ c @ v)"
    using assms(2) by (intro sep_len_local [OF short]) simp
  with Nil e show ?case by (auto split: if_splits prod.splits)
next
  case (Cons x l)
  have "sep_len seps (x # l @ e @ c @ u) = sep_len seps (x # l @ e @ c @ v)"
    using assms(2) by (intro sep_len_local [OF short]) (cases n; simp)
  with Cons show ?case by (auto split: if_splits prod.splits)
qed

lemma split_seps_swap:
  assumes short: "list_all (\<lambda>w. length w \<le> n) seps" and c: "n \<le> length c" "c \<noteq> []"
    and free: "sep_free seps (c @ l')"
  shows "split_seps seps s = ps @ (c @ l, e) # qs \<Longrightarrow>
    split_seps seps (unsplit ps @ c @ l' @ e @ unsplit qs) = ps @ (c @ l', e) # qs"
proof (induction ps arbitrary: s)
  case Nil
  note u = split_seps_unfold [of seps s "c @ l" e qs]
  have s: "split_seps seps s = (c @ l, e) # qs" using Nil by simp
  show ?case
  proof (cases "e = []")
    case True
    then have "unsplit qs = []" using u(2,3) [OF s] break_at_rest [of seps s] by force
    then have "qs = []" using u(4) [OF s] by simp
    with True free c show ?thesis using split_seps_last [of seps "c @ l'"] by simp
  next
    case False
    then show ?thesis using split_seps_cons [OF free u(3) [OF s]] u(4) [OF s] by simp
  qed
next
  case (Cons p ps)
  obtain l0 e0 where p: "p = (l0, e0)" by (cases p)
  let ?rest = "ps @ (c @ l, e) # qs"
  have s: "split_seps seps s = (l0, e0) # ?rest" using Cons.prems p by simp
  note u = split_seps_unfold [OF s]
  let ?u = "l @ e @ unsplit qs" and ?v = "l' @ e @ unsplit qs"
  have e0: "e0 \<noteq> []"
    using u(3) break_at_rest [OF u(2)] c(2) by (cases e0) auto
  have rest: "unsplit ?rest = (unsplit ps @ c) @ ?u" by simp
  have "n \<le> length (unsplit ps @ c)" using c(1) by simp
  from break_at_local [OF short this e0 u(2) [unfolded u(1) rest]]
  have "break_at seps (l0 @ e0 @ (unsplit ps @ c) @ ?v) = (l0, e0 @ (unsplit ps @ c) @ ?v)" .
  moreover have "sep_len seps (e0 @ unsplit ps @ c @ ?v) = sep_len seps (e0 @ unsplit ps @ c @ ?u)"
    using c by (intro sep_len_local [OF short]) simp
  then have "sep_len seps (e0 @ unsplit ps @ c @ ?v) = length e0" using u(3) by simp
  moreover have "split_seps seps (unsplit ps @ c @ ?v) = ps @ (c @ l', e) # qs"
    using Cons.IH [OF u(4) [symmetric]] by simp
  ultimately show ?case using p e0 by (subst split_seps.simps) simp
qed

subsection \<open>Numbers\<close>

definition digit_char :: "int \<Rightarrow> char" where
  "digit_char n = ''0123456789abcdef'' ! nat n"

function to_base :: "int \<Rightarrow> int \<Rightarrow> string" where
  "to_base b n = (if b < 2 \<or> n < b then [digit_char n] else to_base b (n div b) @ [digit_char (n mod b)])"
  by pat_completeness auto
termination
proof (relation "measure (nat \<circ> snd)")
  fix b n :: int
  assume "\<not> (b < 2 \<or> n < b)"
  then have "2 \<le> b" "b \<le> n" by auto
  then have "n div b < n" by (intro int_div_less_self) auto
  with \<open>2 \<le> b\<close> \<open>b \<le> n\<close> show "((b, n div b), (b, n)) \<in> measure (nat \<circ> snd)" by simp
qed simp

declare to_base.simps [simp del]

definition str_int :: "int \<Rightarrow> string" where
  "str_int n = (if n < 0 then CHR ''-'' # to_base 10 (- n) else to_base 10 n)"

definition zfill :: "nat \<Rightarrow> string \<Rightarrow> string" where
  "zfill w s = replicate (w - length s) (CHR ''0'') @ s"

text \<open>\<open>f'{n:08x}'\<close>: sign-aware zero padding to eight characters, wider when needed.\<close>

definition fmt_08x :: "int \<Rightarrow> string" where
  "fmt_08x n = (if n < 0 then CHR ''-'' # zfill 7 (to_base 16 (- n)) else zfill 8 (to_base 16 n))"

definition hex_val :: "char \<Rightarrow> int option" where
  "hex_val c =
     (if CHR ''0'' \<le> c \<and> c \<le> CHR ''9'' then Some (of_char c - 48)
      else if CHR ''a'' \<le> c \<and> c \<le> CHR ''f'' then Some (of_char c - 87)
      else if CHR ''A'' \<le> c \<and> c \<le> CHR ''F'' then Some (of_char c - 55)
      else None)"

definition c_isspace :: "char \<Rightarrow> bool" where
  "c_isspace c \<longleftrightarrow> c = CHR 0x20 \<or> CHR 0x09 \<le> c \<and> c \<le> CHR 0x0D"

text \<open>
  \<open>int(b, 16)\<close> on bytes. Python accepts more than hexadecimal digits: surrounding white
  space, a sign, an \<open>0x\<close> prefix and single underscores between digits.
\<close>

fun scan16 :: "int \<Rightarrow> bool \<Rightarrow> bool \<Rightarrow> bytes \<Rightarrow> (int \<times> bytes) option" where
  "scan16 acc us seen [] = (if seen \<and> \<not> us then Some (acc, []) else None)"
| "scan16 acc us seen (c # s) =
     (case hex_val c of
        Some d \<Rightarrow> scan16 (16 * acc + d) False True s
      | None \<Rightarrow>
          if c = CHR ''_'' then (if us \<or> \<not> seen then None else scan16 acc True seen s)
          else if seen \<and> \<not> us then Some (acc, c # s) else None)"

definition drop_sign :: "bytes \<Rightarrow> bool \<times> bytes" where
  "drop_sign s = (case s of [] \<Rightarrow> (False, [])
     | c # t \<Rightarrow> if c = CHR ''-'' then (True, t) else if c = CHR ''+'' then (False, t) else (False, s))"

definition drop_0x :: "bytes \<Rightarrow> bytes" where
  "drop_0x s = (case s of
      c # x # t \<Rightarrow>
        if c = CHR ''0'' \<and> (x = CHR ''x'' \<or> x = CHR ''X'')
        then (case t of u # v \<Rightarrow> if u = CHR ''_'' then v else t | [] \<Rightarrow> [])
        else s
    | _ \<Rightarrow> s)"

definition int16 :: "bytes \<Rightarrow> int result" where
  "int16 b =
     (let (neg, s) = drop_sign (dropWhile c_isspace b) in
      case scan16 0 False False (drop_0x s) of
        None \<Rightarrow> Inl (ValueError ''int'')
      | Some (n, rest) \<Rightarrow>
          if dropWhile c_isspace rest = [] then Inr (if neg then - n else n)
          else Inl (ValueError ''int''))"

subsection \<open>Parsing what was formatted\<close>

definition hex_char :: "char \<Rightarrow> bool" where
  "hex_char c \<longleftrightarrow> CHR ''0'' \<le> c \<and> c \<le> CHR ''9'' \<or> CHR ''a'' \<le> c \<and> c \<le> CHR ''f''"

lemma sixteen_digits:
  "list_all (\<lambda>n. hex_val (digit_char n) = Some n \<and> hex_char (digit_char n)) [0..15]"
  by code_simp

lemma hex_val_digit [simp]: "0 \<le> n \<Longrightarrow> n < 16 \<Longrightarrow> hex_val (digit_char n) = Some n"
  and hex_char_digit [simp]: "0 \<le> n \<Longrightarrow> n < 16 \<Longrightarrow> hex_char (digit_char n)"
  using sixteen_digits by (simp_all add: list_all_iff)

lemma hex_char_zero [simp]: "hex_char (CHR ''0'')" "hex_val (CHR ''0'') = Some 0"
  by (simp_all add: hex_char_def hex_val_def)

lemma to_base_nonempty [simp]: "to_base b n \<noteq> []"
  by (subst to_base.simps) simp

lemma to_base_16_props:
  "0 \<le> n \<Longrightarrow> list_all hex_char (to_base 16 n) \<and>
     scan16 acc False seen (to_base 16 n @ s)
       = scan16 (acc * 16 ^ length (to_base 16 n) + n) False True s"
proof (induction "16 :: int" n arbitrary: acc seen s rule: to_base.induct)
  case (1 n)
  show ?case
  proof (cases "n < 16")
    case True
    with "1.prems" show ?thesis by (simp add: to_base.simps [of 16 n] mult.commute)
  next
    case False
    then have "0 \<le> n div 16" using "1.prems" by simp
    note IH = "1.hyps" [OF _ this]
    have hd: "hex_char (digit_char (n mod 16))" "hex_val (digit_char (n mod 16)) = Some (n mod 16)"
      using "1.prems" by simp_all
    have "16 * (acc * 16 ^ k + n div 16) + n mod 16 = acc * 16 ^ Suc k + n" for k
      by (simp add: algebra_simps)
    with False IH hd show ?thesis
      by (subst (1 2 3) to_base.simps) (simp add: algebra_simps)
  qed
qed

lemma scan16_zeros:
  "seen \<or> k > 0 \<or> True \<Longrightarrow> scan16 0 False seen (replicate k (CHR ''0'') @ s)
     = scan16 0 False (seen \<or> k > 0) s"
  by (induction k arbitrary: seen) auto

lemma list_all_zfill [simp]: "list_all hex_char (zfill w s) \<longleftrightarrow> list_all hex_char s"
  by (auto simp: zfill_def list_all_iff)

lemma length_zfill [simp]: "length (zfill w s) = max w (length s)"
  by (simp add: zfill_def)

lemma zfill_nonempty [simp]: "s \<noteq> [] \<Longrightarrow> zfill w s \<noteq> []"
  by (simp add: zfill_def)

lemma scan16_zfill:
  "0 \<le> n \<Longrightarrow> scan16 0 False False (zfill w (to_base 16 n)) = Some (n, [])"
  using to_base_16_props [of n 0 _ "[]"] by (simp add: zfill_def scan16_zeros)

lemma hex_char_plain:
  "hex_char c \<Longrightarrow> \<not> c_isspace c \<and> c \<noteq> CHR ''-'' \<and> c \<noteq> CHR ''+'' \<and> c \<noteq> CHR ''x'' \<and> c \<noteq> CHR ''X''"
  by (auto simp: hex_char_def c_isspace_def less_eq_char_def)

lemma drop_0x_hex: "list_all hex_char s \<Longrightarrow> drop_0x s = s"
  by (auto simp: drop_0x_def split: list.splits dest: hex_char_plain)

theorem int16_fmt_08x: "int16 (fmt_08x n) = Inr n"
proof (cases "n < 0")
  case True
  let ?s = "zfill 7 (to_base 16 (- n))"
  have "list_all hex_char ?s" using to_base_16_props [of "- n"] True by simp
  moreover have "scan16 0 False False ?s = Some (- n, [])" using scan16_zfill True by simp
  ultimately show ?thesis
    using True by (simp add: int16_def fmt_08x_def c_isspace_def drop_sign_def drop_0x_hex less_eq_char_def)
next
  case False
  let ?s = "zfill 8 (to_base 16 n)"
  have all: "list_all hex_char ?s" using to_base_16_props [of n] False by simp
  obtain c t where ct: "?s = c # t" by (cases ?s) auto
  with all have "hex_char c" by simp
  then have "drop_sign (dropWhile c_isspace ?s) = (False, ?s)"
    using hex_char_plain ct by (simp add: drop_sign_def)
  moreover have "scan16 0 False False ?s = Some (n, [])" using scan16_zfill False by simp
  ultimately show ?thesis
    using False all by (simp add: int16_def fmt_08x_def drop_0x_hex)
qed

lemma fmt_08x_ascii: "list_all (\<lambda>c. hex_char c \<or> c = CHR ''-'') (fmt_08x n)"
  using to_base_16_props [of n] to_base_16_props [of "- n"]
  by (auto simp: fmt_08x_def list_all_iff zfill_def)

text \<open>The width is exactly eight for the values that fit.\<close>

lemma length_to_base_16:
  "0 \<le> n \<Longrightarrow> n < 16 ^ Suc k \<Longrightarrow> length (to_base 16 n) \<le> Suc k"
proof (induction k arbitrary: n)
  case 0
  then show ?case by (subst to_base.simps) simp
next
  case (Suc k)
  have "n div 16 < 16 ^ Suc k" using Suc.prems(2) by (simp add: div_less_iff_less_mult mult.commute)
  then have "length (to_base 16 (n div 16)) \<le> Suc k" using Suc by simp
  then show ?case by (subst to_base.simps) simp
qed

definition fits8 :: "int \<Rightarrow> bool" where
  "fits8 n \<longleftrightarrow> - (16 ^ 7) < n \<and> n < 16 ^ 8"

lemma length_fmt_08x [byte_simps]: "fits8 n \<Longrightarrow> length (fmt_08x n) = 8"
  using length_to_base_16 [of n 7] length_to_base_16 [of "- n" 6]
  by (auto simp: fmt_08x_def fits8_def)

end
