(* ===== verification/Cpio.thy ===== *)
theory Cpio
  imports Py_Text
begin

unbundle bit_operations_syntax

text \<open>
  The deterministic newc archive codec of \<open>scripts/cpio_newc.py\<close>: the entry record, the
  path check \<open>safe_name\<close>, the writer \<open>encode\<close> and the reader \<open>decode\<close>.
  The reader's loop is total: every round consumes at least the 110 header bytes.
  The lemmas give the layout the writer produces, the round trip through the reader, and
  what the reader guarantees of any archive it accepts.
\<close>

subsection \<open>Entries and paths\<close>

record entry =
  e_name :: string
  e_mode :: int
  e_data :: bytes
  e_uid :: int
  e_gid :: int
  e_rmajor :: int
  e_rminor :: int

text \<open>\<open>Entry(name, mode, data=b'')\<close> with the defaults of the dataclass.\<close>

definition mk_entry :: "string \<Rightarrow> int \<Rightarrow> bytes \<Rightarrow> entry" where
  "mk_entry name md dat =
     \<lparr>e_name = name, e_mode = md, e_data = dat, e_uid = 0, e_gid = 0, e_rmajor = 0, e_rminor = 0\<rparr>"

definition trailer_name :: string where "trailer_name = ''TRAILER!!!''"
definition trailer :: entry where "trailer = mk_entry trailer_name 0 []"

definition safe_name :: "string \<Rightarrow> string result" where
  "safe_name name0 =
     (if name0 = ''.'' then Inr name0
      else let name = removeprefix ''./'' name0 in
        if name = [] \<or> startswith ''/'' name \<or> CHR 0x5C \<in> set name
            \<or> list_ex (\<lambda>c. c \<in> set name) [CHR 0x0D, CHR 0x0A, CHR 0x00]
            \<or> list_ex (\<lambda>p. p \<in> set [[], ''.'', ''..'']) (split_on (CHR ''/'') name)
        then Inl (ValueError ''unsafe archive path'')
        else Inr name)"

subsection \<open>The writer\<close>

definition zeros :: "int \<Rightarrow> bytes" where
  "zeros n = replicate (nat n) (CHR 0x00)"

text \<open>\<open>bytes(-len(result) % m)\<close>\<close>

definition pad_to :: "int \<Rightarrow> bytes \<Rightarrow> bytes" where
  "pad_to m result = zeros ((- int (length result)) mod m)"

definition magic :: bytes where "magic = ''070701''"

fun encode_loop :: "int \<Rightarrow> string list \<Rightarrow> bytes \<Rightarrow> entry list \<Rightarrow> bytes result" where
  "encode_loop ino seen res [] = Inr res"
| "encode_loop ino seen res (entry # rest) =
     rbind (safe_name (e_name entry)) (\<lambda>name.
       if name \<in> set seen then Inl (ValueError ''duplicate archive path'')
       else
         let encoded = name @ [CHR 0x00];
             vals = [ino, e_mode entry, e_uid entry, e_gid entry, 1, 0, int (length (e_data entry)),
                     0, 0, e_rmajor entry, e_rminor entry, int (length encoded), 0];
             res = res @ magic @ concat (map fmt_08x vals);
             res = res @ encoded;
             res = res @ pad_to 4 res;
             res = res @ e_data entry;
             res = res @ pad_to 4 res
         in encode_loop (ino + 1) (name # seen) res rest)"

definition encode :: "entry list \<Rightarrow> bytes result" where
  "encode entries =
     rbind (encode_loop 1 [] [] (entries @ [trailer])) (\<lambda>res. Inr (res @ pad_to 512 res))"

subsection \<open>The reader\<close>

text \<open>The thirteen header fields, \<open>int(header[6 + n * 8:14 + n * 8], 16)\<close>.\<close>

definition header_fields :: "bytes \<Rightarrow> int list result" where
  "header_fields header =
     map_result (\<lambda>n. int16 (py_slice header (6 + n * 8) (14 + n * 8))) [0, 1, 2, 3, 4, 5, 6, 7, 8, 9, 10, 11, 12]"

text \<open>
  One round of the \<open>while True\<close> loop: the entry that was read (its name checked, its
  payload cut out) and the position after it. The trailer is an entry like the others
  here; \<open>decode_loop\<close> ends at it.
\<close>

definition read_entry :: "bytes \<Rightarrow> int \<Rightarrow> int \<Rightarrow> (entry \<times> int) result" where
  "read_entry dat start pos =
     (let header = py_slice dat pos (pos + 110) in
      if length header \<noteq> 110 \<or> py_slice header 0 6 \<noteq> magic
      then Inl (ValueError ''invalid newc header'')
      else rbind (header_fields header) (\<lambda>fields.
        let md = fields ! 1; uid = fields ! 2; gid = fields ! 3; nlink = fields ! 4;
            size = fields ! 6; rmajor = fields ! 9; rminor = fields ! 10;
            namesize = fields ! 11; check = fields ! 12
        in
          if \<not> (1 \<le> namesize \<and> namesize \<le> 4096) \<or> check \<noteq> 0 \<or> nlink > 2 ^ 20
          then Inl (ValueError ''invalid newc metadata'')
          else
            let pos = pos + 110;
                rawname = py_slice dat pos (pos + namesize)
            in
              if int (length rawname) \<noteq> namesize \<or> last rawname \<noteq> CHR 0x00
                  \<or> CHR 0x00 \<in> set (butlast rawname)
              then Inl (ValueError ''invalid newc name'')
              else rbind (decode_utf8 (butlast rawname)) (\<lambda>decoded.
                rbind (safe_name decoded) (\<lambda>name.
                  let pos = pos + namesize;
                      pos = pos + (- (pos - start)) mod 4;
                      payload = py_slice dat pos (pos + size)
                  in
                    if int (length payload) \<noteq> size
                    then Inl (ValueError ''truncated newc data'')
                    else
                      let pos = pos + size;
                          pos = pos + (- (pos - start)) mod 4
                      in Inr (\<lparr>e_name = name, e_mode = md, e_data = payload, e_uid = uid,
                               e_gid = gid, e_rmajor = rmajor, e_rminor = rminor\<rparr>, pos)))))"

lemma py_slice_full: "length (py_slice xs p (p + 110)) = 110 \<Longrightarrow> p < int (length xs)"
  by (cases "p < 0") (auto simp: py_slice_def clip_index_def Let_def)

lemma read_entry_advances:
  assumes "read_entry dat start pos = Inr (e, pos')"
  shows "pos + 111 \<le> pos' \<and> pos < int (length dat)"
proof -
  have mods: "0 \<le> (- x) mod (4::int)" for x by simp
  show ?thesis
    using assms py_slice_full [of dat pos] mods
    by (auto simp: read_entry_def Let_def result_simps split: if_splits)
qed

function decode_loop :: "bytes \<Rightarrow> int \<Rightarrow> int \<Rightarrow> string list \<Rightarrow> entry list \<Rightarrow> (entry list \<times> int) result" where
  "decode_loop dat start pos seen entries =
     (case read_entry dat start pos of
        Inl e \<Rightarrow> Inl e
      | Inr (e, pos') \<Rightarrow>
          if e_name e = trailer_name then
            (if e_data e \<noteq> [] then Inl (ValueError ''invalid trailer'') else Inr (entries, pos'))
          else if e_name e \<in> set seen then Inl (ValueError ''duplicate archive path'')
          else decode_loop dat start pos' (e_name e # seen) (entries @ [e]))"
  by pat_completeness auto
termination
proof (relation "measure (\<lambda>(dat, start, pos, seen, entries). nat (int (length dat) - pos))")
  fix dat start pos seen entries r e pos'
  assume "read_entry dat start pos = Inr r" "(e, pos') = r"
  then have "pos + 111 \<le> pos' \<and> pos < int (length dat)"
    using read_entry_advances by metis
  then show "((dat, start, pos', e_name e # seen, entries @ [e]), dat, start, pos, seen, entries)
      \<in> measure (\<lambda>(dat, start, pos, seen, entries). nat (int (length dat) - pos))"
    by auto
qed simp

declare decode_loop.simps [simp del]

text \<open>\<open>decode(data, start)\<close>\<close>

definition decode :: "bytes \<Rightarrow> int \<Rightarrow> (entry list \<times> int) result" where
  "decode dat start = decode_loop dat start start [] []"

subsection \<open>The path check\<close>

lemma safe_name_Inr:
  "safe_name n = Inr m \<Longrightarrow>
     m = (if n = ''.'' then n else removeprefix ''./'' n) \<and> m \<noteq> [] \<and> CHR 0x00 \<notin> set m"
  by (auto simp: safe_name_def Let_def split: if_splits)

lemma startswith_split_on:
  "startswith ''./'' n \<Longrightarrow> ''.'' \<in> set (split_on (CHR ''/'') n)"
  using split_on_append [of "CHR ''/''" "''.''"] by (auto simp: startswith_iff)

lemma safe_name_idem: "safe_name n = Inr m \<Longrightarrow> safe_name m = Inr m"
proof (cases "n = ''.''")
  case True
  assume "safe_name n = Inr m"
  with True show ?thesis by (simp add: safe_name_def)
next
  case False
  assume a: "safe_name n = Inr m"
  with False have dots: "''.'' \<notin> set (split_on (CHR ''/'') m)"
    by (auto simp: safe_name_def Let_def list_ex_iff split: if_splits)
  then have "removeprefix ''./'' m = m"
    using startswith_split_on by (auto simp: removeprefix_def)
  with a False show ?thesis by (auto simp: safe_name_def Let_def split: if_splits)
qed

subsection \<open>The layout of one record\<close>

definition header_vals :: "int \<Rightarrow> string \<Rightarrow> entry \<Rightarrow> int list" where
  "header_vals ino name e =
     [ino, e_mode e, e_uid e, e_gid e, 1, 0, int (length (e_data e)), 0, 0,
      e_rmajor e, e_rminor e, int (length (name @ [CHR 0x00])), 0]"

definition record_bytes :: "int \<Rightarrow> string \<Rightarrow> entry \<Rightarrow> bytes" where
  "record_bytes ino name e =
     (magic @ concat (map fmt_08x (header_vals ino name e))) @ (name @ [CHR 0x00])
       @ zeros ((- (111 + int (length name))) mod 4)
       @ e_data e @ zeros ((- int (length (e_data e))) mod 4)"

text \<open>
  The entries whose fields the eight-digit header columns can hold, with a name within the
  reader's limit. (\<open>encode\<close> itself does not check this.)
\<close>

definition encodable :: "entry \<Rightarrow> bool" where
  "encodable e \<longleftrightarrow>
     fits8 (e_mode e) \<and> fits8 (e_uid e) \<and> fits8 (e_gid e) \<and> fits8 (e_rmajor e) \<and> fits8 (e_rminor e)
     \<and> fits8 (int (length (e_data e))) \<and> length (e_name e) \<le> 4095 \<and> valid_utf8 (e_name e)"

lemma length_zeros [byte_simps]: "0 \<le> n \<Longrightarrow> int (length (zeros n)) = n"
  by (simp add: zeros_def)

lemma length_concat_fixed:
  "(\<And>x. x \<in> set vs \<Longrightarrow> length (f x) = k) \<Longrightarrow> length (concat (map f vs)) = length vs * k"
  by (induction vs) auto

lemma take_drop_concat:
  "(\<And>x. x \<in> set vs \<Longrightarrow> length (f x) = k) \<Longrightarrow> n < length vs \<Longrightarrow>
     take k (drop (n * k) (concat (map f vs))) = f (vs ! n)"
proof (induction vs arbitrary: n)
  case Nil
  then show ?case by simp
next
  case (Cons v vs)
  then show ?case by (cases n) auto
qed

lemma length_header:
  assumes "\<And>v. v \<in> set vs \<Longrightarrow> fits8 v" and "length vs = 13"
  shows "length (magic @ concat (map fmt_08x vs)) = 110"
  using length_concat_fixed [of vs fmt_08x 8] assms by (simp add: magic_def length_fmt_08x)

lemma header_fields_header:
  assumes "\<And>v. v \<in> set vs \<Longrightarrow> fits8 v" and "length vs = 13"
  shows "header_fields (magic @ concat (map fmt_08x vs)) = Inr vs"
proof -
  let ?h = "magic @ concat (map fmt_08x vs)"
  have slice: "py_slice ?h (6 + int n * 8) (14 + int n * 8) = fmt_08x (vs ! n)" if "n < 13" for n
  proof -
    have "py_slice ?h (int (6 + n * 8)) (int (14 + n * 8)) = take 8 (drop (6 + n * 8) ?h)"
      by (subst py_slice_nat) simp
    also have "drop (6 + n * 8) ?h = drop (n * 8) (drop 6 ?h)"
      by (simp only: drop_drop add.commute)
    also have "drop 6 ?h = concat (map fmt_08x vs)"
      by (simp add: magic_def)
    also have "take 8 (drop (n * 8) (concat (map fmt_08x vs))) = fmt_08x (vs ! n)"
      using assms that by (intro take_drop_concat) (auto simp: length_fmt_08x)
    finally show ?thesis by simp
  qed
  have "vs = map ((!) vs) [0, 1, 2, 3, 4, 5, 6, 7, 8, 9, 10, 11, 12]"
    using map_nth [of vs] assms(2) by (simp add: upt_rec numeral_eq_Suc)
  then show ?thesis
    using slice [of 0] slice [of 1] slice [of 2] slice [of 3] slice [of 4] slice [of 5]
      slice [of 6] slice [of 7] slice [of 8] slice [of 9] slice [of 10] slice [of 11] slice [of 12]
    by (simp add: header_fields_def int16_fmt_08x)
qed

lemma pad_shift:
  assumes "(a - s) mod 4 = (0::int)"
  shows "(- (a + k - s)) mod 4 = (- k) mod 4"
proof -
  from assms obtain q where "a - s = 4 * q" by auto
  then have "- (a + k - s) = - k + 4 * (- q)" by simp
  then show ?thesis by (simp only: mod_mult_self2)
qed

lemma pad_aligned: "(a - s) mod 4 = (0::int) \<Longrightarrow> (a + k + (- k) mod 4 - s) mod 4 = 0"
  by presburger

lemma header_vals_fits:
  "encodable (e\<lparr>e_name := name\<rparr>) \<Longrightarrow> fits8 ino \<Longrightarrow> v \<in> set (header_vals ino name e) \<Longrightarrow> fits8 v"
  by (auto simp: header_vals_def encodable_def fits8_def)

lemma length_header_vals [simp]: "length (header_vals ino name e) = 13"
  by (simp add: header_vals_def)

lemma length_record_header:
  "encodable (e\<lparr>e_name := name\<rparr>) \<Longrightarrow> fits8 ino \<Longrightarrow>
     length (magic @ concat (map fmt_08x (header_vals ino name e))) = 110"
  by (rule length_header) (auto intro: header_vals_fits)

text \<open>Header, name and data of a record, cut out of the archive around it.\<close>

lemma py_slice_parts:
  fixes A h nm p dat B :: bytes
  defines "all \<equiv> A @ h @ nm @ p @ dat @ B"
  shows "py_slice all (int (length A)) (int (length A) + int (length h)) = h"
    "py_slice all (int (length A) + int (length h)) (int (length A) + int (length h) + int (length nm)) = nm"
    "py_slice all (int (length A) + int (length h) + int (length nm) + int (length p))
      (int (length A) + int (length h) + int (length nm) + int (length p) + int (length dat)) = dat"
  using py_slice_nat [of all "length A" "length A + length h"]
    py_slice_nat [of all "length A + length h" "length A + length h + length nm"]
    py_slice_nat [of all "length A + length h + length nm + length p" "length A + length h + length nm + length p + length dat"]
  by (simp_all add: all_def)

text \<open>The reader recovers one record wherever it stands, up to four-byte alignment.\<close>

lemma read_entry_record:
  assumes e: "encodable (e\<lparr>e_name := name\<rparr>)" and ino: "fits8 ino"
    and name: "safe_name name = Inr name"
    and al: "(int (length A) - start) mod 4 = 0"
  shows "read_entry (A @ record_bytes ino name e @ B) start (int (length A))
    = Inr (e\<lparr>e_name := name\<rparr>, int (length (A @ record_bytes ino name e)))"
proof -
  let ?vs = "header_vals ino name e"
  let ?h = "magic @ concat (map fmt_08x ?vs)"
  let ?nm = "name @ [CHR 0x00]"
  let ?p1 = "zeros ((- (111 + int (length name))) mod 4)"
  let ?p2 = "zeros ((- int (length (e_data e))) mod 4)"
  let ?dat = "A @ record_bytes ino name e @ B"
  let ?a = "length A"
  have len_h: "length ?h = 110" by (rule length_record_header [OF e ino])
  have dat: "?dat = A @ ?h @ ?nm @ ?p1 @ e_data e @ ?p2 @ B" by (simp add: record_bytes_def)
  note s = py_slice_parts [of A ?h ?nm ?p1 "e_data e" "?p2 @ B", folded dat, unfolded len_h]
  have s1: "py_slice ?dat (int ?a) (int ?a + 110) = ?h"
    and s2: "py_slice ?dat (int ?a + 110) (int ?a + 110 + int (length ?nm)) = ?nm"
    using s(1,2) by (simp_all add: ac_simps)
  have al1: "int ?a + 110 + int (length ?nm) + (- (int ?a + 110 + int (length ?nm) - start)) mod 4
      = int (?a + 110 + length ?nm + length ?p1)"
  proof -
    have "int ?a + 110 + int (length ?nm) = int ?a + (111 + int (length name))" by simp
    then show ?thesis
      using pad_shift [OF al, of "111 + int (length name)"] by (simp add: length_zeros ac_simps)
  qed
  have s3: "py_slice ?dat (int (?a + 110 + length ?nm + length ?p1))
      (int (?a + 110 + length ?nm + length ?p1) + int (length (e_data e))) = e_data e"
    using s(3) by (simp add: ac_simps)
  let ?q = "int (?a + 110 + length ?nm + length ?p1)"
  have al2: "?q + int (length (e_data e)) + (- (?q + int (length (e_data e)) - start)) mod 4
      = int (length (A @ record_bytes ino name e))"
  proof -
    have "?q = int ?a + (111 + int (length name)) + (- (111 + int (length name))) mod 4"
      by (simp add: length_zeros)
    then have "(?q - start) mod 4 = 0" using pad_aligned [OF al] by metis
    then have "(- (?q + int (length (e_data e)) - start)) mod 4 = (- int (length (e_data e))) mod 4"
      by (rule pad_shift)
    moreover have "int (length ?p2) = (- int (length (e_data e))) mod 4"
      by (simp add: length_zeros)
    ultimately show ?thesis using len_h by (simp add: record_bytes_def)
  qed
  have fields: "header_fields ?h = Inr ?vs" 
    by (rule header_fields_header) (auto intro: header_vals_fits [OF e ino])
  have magic: "py_slice ?h 0 6 = magic"
    using py_slice_nat [of ?h 0 6] by (simp add: magic_def)
  have nm: "int (length name) + 1 \<le> 4096" "valid_utf8 name" "CHR 0x00 \<notin> set name"
    using e safe_name_Inr [OF name] by (auto simp: encodable_def)
  show ?thesis
    unfolding read_entry_def Let_def s1 fields
    using len_h magic nm name s2 s3 al1 al2
    by (simp add: header_vals_def decode_utf8_def)
qed

subsection \<open>The round trip\<close>

text \<open>The name under which an entry is stored.\<close>

definition stored_name :: "string \<Rightarrow> string" where
  "stored_name n = (if n = ''.'' then n else removeprefix ''./'' n)"

definition stored :: "entry \<Rightarrow> entry" where
  "stored e = e\<lparr>e_name := stored_name (e_name e)\<rparr>"

lemma safe_name_stored: "safe_name n = Inr m \<Longrightarrow> m = stored_name n"
  using safe_name_Inr by (simp add: stored_name_def)

lemma encode_loop_step:
  "int (length res) mod 4 = 0 \<Longrightarrow> fits8 ino \<Longrightarrow> encodable (entry\<lparr>e_name := name\<rparr>) \<Longrightarrow>
   safe_name (e_name entry) = Inr name \<Longrightarrow> name \<notin> set seen \<Longrightarrow>
     encode_loop ino seen res (entry # rest)
       = encode_loop (ino + 1) (name # seen) (res @ record_bytes ino name entry) rest"
proof -
  assume al: "int (length res) mod 4 = 0" and ino: "fits8 ino"
    and ok: "encodable (entry\<lparr>e_name := name\<rparr>)"
    and name: "safe_name (e_name entry) = Inr name" "name \<notin> set seen"
  let ?h = "magic @ concat (map fmt_08x (header_vals ino name entry))"
  have len: "length ?h = 110" by (rule length_record_header [OF ok ino])
  have al': "(int (length res) - 0) mod 4 = 0" using al by simp
  let ?z = "zeros ((- (111 + int (length name))) mod 4)"
  have l1: "int (length (res @ ?h @ name @ [CHR 0x00])) = int (length res) + (111 + int (length name))"
    using len by simp
  have p1: "pad_to 4 (res @ ?h @ name @ [CHR 0x00]) = ?z"
    using pad_shift [OF al', of "111 + int (length name)"] unfolding pad_to_def l1 by simp
  let ?r = "res @ ?h @ name @ [CHR 0x00] @ ?z"
  have "int (length ?r) = int (length res) + (111 + int (length name)) + (- (111 + int (length name))) mod 4"
    using len by (simp add: length_zeros)
  then have "(int (length ?r) - 0) mod 4 = 0" using pad_aligned [OF al'] by (metis diff_zero)
  from pad_shift [OF this, of "int (length (e_data entry))"]
  have p2: "pad_to 4 (?r @ e_data entry) = zeros ((- int (length (e_data entry))) mod 4)"
    by (simp add: pad_to_def ac_simps)
  show ?thesis
    using name p1 p2 by (simp add: header_vals_def record_bytes_def Let_def)
qed

lemma record_bytes_aligned:
  assumes "encodable (e\<lparr>e_name := name\<rparr>)" and "fits8 ino"
  shows "int (length (record_bytes ino name e)) mod 4 = 0"
proof -
  note length_record_header [OF assms]
  then have "int (length (record_bytes ino name e))
      = (111 + int (length name) + (- (111 + int (length name))) mod 4)
        + (int (length (e_data e)) + (- int (length (e_data e))) mod 4)"
    by (simp add: record_bytes_def length_zeros)
  then show ?thesis using mod_neg_pad [of _ 4] by (metis add.right_neutral mod_add_eq mod_0)
qed

lemma encode_loop_extends: "encode_loop ino seen res es = Inr out \<Longrightarrow> \<exists>more. out = res @ more"
proof (induction es arbitrary: ino seen res)
  case (Cons e es)
  then show ?case by (fastforce simp: result_simps Let_def split: if_splits)
qed simp

lemma safe_name_trailer: "safe_name (e_name trailer) = Inr trailer_name"
  by (simp add: trailer_def mk_entry_def trailer_name_def safe_name_def removeprefix_def startswith_def)

lemma encode_loop_trailer_fresh:
  "encode_loop ino seen res (es @ [trailer]) = Inr out \<Longrightarrow> trailer_name \<notin> set seen"
proof (induction es arbitrary: ino seen res)
  case Nil
  then show ?case using safe_name_trailer by (auto split: if_splits)
next
  case (Cons e es)
  then show ?case by (fastforce simp: result_simps Let_def split: if_splits)
qed

lemma encodable_trailer: "encodable (trailer\<lparr>e_name := trailer_name\<rparr>)"
  by (simp add: encodable_def trailer_def mk_entry_def trailer_name_def fits8_def)

text \<open>The reader's loop replays the writer's, from any aligned state of both.\<close>

lemma decode_loop_encode_loop:
  assumes "encode_loop ino seen res (es @ [trailer]) = Inr out"
    and "int (length res) mod 4 = 0" and "0 < ino" and "fits8 (ino + int (length es))"
    and "\<And>e. e \<in> set es \<Longrightarrow> encodable (stored e)"
  shows "decode_loop (junk @ out @ post) (int (length junk)) (int (length (junk @ res))) seen acc
    = Inr (acc @ map stored es, int (length (junk @ out)))"
  using assms
proof (induction es arbitrary: ino seen res acc)
  case Nil
  have ino: "fits8 ino" using Nil.prems(4) by simp
  have ns: "trailer_name \<notin> set seen"
    using encode_loop_trailer_fresh [of ino seen res "[]"] Nil.prems(1) by simp
  have out: "out = res @ record_bytes ino trailer_name trailer"
    using Nil.prems(1) encode_loop_step [OF Nil.prems(2) ino encodable_trailer safe_name_trailer ns, of "[]"]
    by simp
  have "read_entry (junk @ out @ post) (int (length junk)) (int (length (junk @ res)))
      = Inr (trailer, int (length (junk @ out)))"
    using read_entry_record [OF encodable_trailer ino, of "junk @ res" "int (length junk)" post]
      safe_name_trailer Nil.prems(2) out by (simp add: trailer_def mk_entry_def)
  then show ?case
    by (subst decode_loop.simps) (simp add: trailer_def mk_entry_def)
next
  case (Cons e es)
  from Cons.prems(1) obtain name where name: "safe_name (e_name e) = Inr name"
    by (auto simp: result_simps)
  with Cons.prems(1) have ns: "name \<notin> set seen" by (auto split: if_splits)
  have st: "stored e = e\<lparr>e_name := name\<rparr>"
    using safe_name_stored [OF name] by (simp add: stored_def)
  have ok: "encodable (e\<lparr>e_name := name\<rparr>)" using Cons.prems(5) [of e] st by simp
  have ino: "fits8 ino" using Cons.prems(3,4) by (simp add: fits8_def)
  let ?res = "res @ record_bytes ino name e"
  have enc: "encode_loop (ino + 1) (name # seen) ?res (es @ [trailer]) = Inr out"
    using Cons.prems(1) encode_loop_step [OF Cons.prems(2) ino ok name ns] by simp
  have al: "int (length ?res) mod 4 = 0"
    using Cons.prems(2) record_bytes_aligned [OF ok ino]
    by (metis add.right_neutral length_append mod_add_right_eq of_nat_add)
  from encode_loop_extends [OF enc] obtain more where more: "out = ?res @ more" by auto
  have nt: "name \<noteq> trailer_name" using encode_loop_trailer_fresh [OF enc] by auto
  have rd: "read_entry (junk @ out @ post) (int (length junk)) (int (length (junk @ res)))
      = Inr (e\<lparr>e_name := name\<rparr>, int (length (junk @ ?res)))"
    using read_entry_record [OF ok ino safe_name_idem [OF name], of "junk @ res" "int (length junk)" "more @ post"]
      Cons.prems(2) more by simp
  have "decode_loop (junk @ out @ post) (int (length junk)) (int (length (junk @ ?res))) (name # seen)
      (acc @ [stored e]) = Inr ((acc @ [stored e]) @ map stored es, int (length (junk @ out)))"
    using Cons.IH [OF enc al] Cons.prems(3,4,5) by (simp add: ac_simps)
  then show ?case
    using rd st nt ns by (subst decode_loop.simps) simp
qed

lemma decode_encode_frame:
  assumes "encode es = Inr blob" and "int (length es) < 16 ^ 8 - 1"
    and "\<forall>e \<in> set es. encodable (stored e)"
  shows "\<exists>k. k \<le> length blob \<and> list_all (\<lambda>c. c = CHR 0x00) (drop k blob) \<and>
    decode (junk @ blob @ post) (int (length junk)) = Inr (map stored es, int (length junk + k))"
proof -
  from assms(1) obtain out where out: "encode_loop 1 [] [] (es @ [trailer]) = Inr out"
    and blob: "blob = out @ pad_to 512 out"
    by (auto simp: encode_def result_simps)
  have fits: "fits8 (1 + int (length es))" using assms(2) by (simp add: fits8_def)
  have "decode (junk @ blob @ post) (int (length junk)) = Inr (map stored es, int (length (junk @ out)))"
    using decode_loop_encode_loop [OF out _ _ fits, where acc = "[]" and junk = junk and post = "pad_to 512 out @ post"]
      assms(3) blob by (simp add: decode_def)
  then show ?thesis
    by (intro exI [of _ "length out"]) (simp add: blob pad_to_def zeros_def list_all_iff)
qed

text \<open>Encoding fails on names only: safe and distinct names are enough.\<close>

lemma encode_loop_total:
  "list_all (\<lambda>e. safe_name (e_name e) = Inr (e_name e)) es \<Longrightarrow> distinct (map e_name es) \<Longrightarrow>
     set (map e_name es) \<inter> set seen = {} \<Longrightarrow> \<exists>out. encode_loop ino seen res es = Inr out"
  by (induction es arbitrary: ino seen res) (auto simp: Let_def)

lemma encode_total:
  assumes "list_all (\<lambda>e. safe_name (e_name e) = Inr (e_name e)) es" and "distinct (map e_name es)"
    and "trailer_name \<notin> set (map e_name es)"
  shows "\<exists>blob. encode es = Inr blob"
proof -
  have "\<exists>out. encode_loop 1 [] [] (es @ [trailer]) = Inr out"
    using assms safe_name_trailer by (intro encode_loop_total) (auto simp: trailer_def mk_entry_def)
  then show ?thesis by (auto simp: encode_def)
qed

lemma encode_loop_data:
  "encode_loop ino seen res es = Inr out \<Longrightarrow> e \<in> set es \<Longrightarrow> length res + length (e_data e) \<le> length out"
proof (induction es arbitrary: ino seen res)
  case (Cons x es)
  obtain name where name: "safe_name (e_name x) = Inr name" "name \<notin> set seen"
    using Cons.prems(1) by (auto simp: result_simps Let_def split: if_splits)
  define hdr where "hdr = magic @ concat (map fmt_08x [ino, e_mode x, e_uid x, e_gid x, 1, 0, int (length (e_data x)),
      0, 0, e_rmajor x, e_rminor x, int (length (name @ [CHR 0x00])), 0])"
  define named where "named = res @ hdr @ name @ [CHR 0x00]"
  define filled where "filled = named @ pad_to 4 named @ e_data x"
  let ?res = "filled @ pad_to 4 filled"
  have step: "encode_loop (ino + 1) (name # seen) ?res es = Inr out"
    using Cons.prems(1) name by (simp add: Let_def filled_def named_def hdr_def)
  have len: "length res + length (e_data x) \<le> length ?res"
    by (simp add: filled_def named_def)
  show ?case
  proof (cases "e = x")
    case True
    obtain more where "out = ?res @ more" using encode_loop_extends [OF step] by auto
    with True len show ?thesis by simp
  next
    case False
    then have "length ?res + length (e_data e) \<le> length out" using Cons.IH [OF step] Cons.prems(2) by simp
    then show ?thesis using len by simp
  qed
qed simp

lemma encode_data: "encode es = Inr blob \<Longrightarrow> e \<in> set es \<Longrightarrow> length (e_data e) \<le> length blob"
  by (auto simp: encode_def result_simps dest: encode_loop_data)

text \<open>
  C9: The archive round trip, within the limits of the format, which \<open>encode\<close> does not check:
  fewer than \<open>2 ^ 32 - 1\<close> entries, numbers (mode, owner, device, length of the data) of eight
  hexadecimal digits, and names of at most 4095 bytes of UTF-8. Then whatever \<open>encode\<close> writes,
  \<open>decode\<close> reads back: the same entries in the same order, each under its checked name, wherever
  the archive starts in the input and whatever follows it. The reader stops before the padding
  to 512 bytes.
\<close>

theorem decode_encode:
  assumes "encode es = Inr blob" and "int (length es) < 16 ^ 8 - 1"
    and "\<forall>e \<in> set es. encodable (stored e)"
  shows "\<exists>k. k \<le> length blob \<and> list_all (\<lambda>c. c = CHR 0x00) (drop k blob) \<and>
    decode (junk @ blob @ post) (int (length junk)) = Inr (map stored es, int (length junk + k))"
  using assms by (rule decode_encode_frame)

theorem decode_encode_witness:
  "\<exists>blob k. encode [mk_entry ''./etc/motd'' 33188 ''hi''] = Inr blob \<and>
     decode (blob @ ''tail'') 0 = Inr ([mk_entry ''etc/motd'' 33188 ''hi''], int k)"
proof -
  let ?e = "mk_entry ''./etc/motd'' 33188 ''hi''"
  have st: "stored ?e = mk_entry ''etc/motd'' 33188 ''hi''"
    by (simp add: stored_def stored_name_def mk_entry_def removeprefix_def startswith_def)
  have "encodable (stored ?e)"
    unfolding st by (simp add: encodable_def mk_entry_def fits8_def)
  then have ok: "\<forall>e \<in> set [?e]. encodable (stored e)" by simp
  have "safe_name (e_name ?e) = Inr ''etc/motd''" by code_simp
  then obtain blob where b: "encode [?e] = Inr blob"
    using safe_name_trailer by (auto simp: encode_def Let_def trailer_name_def)
  from decode_encode [OF b _ ok, of "[]" "''tail''"] b st show ?thesis by auto
qed

subsection \<open>The archive as a format\<close>

definition unpack_entries :: "bytes \<Rightarrow> entry list result" where
  "unpack_entries payload = rbind (decode payload 0) (\<lambda>(entries, endp). Inr entries)"

definition entries_fit :: "entry list \<Rightarrow> bool" where
  "entries_fit es \<longleftrightarrow> length es < 16 ^ 7 \<and> list_all (\<lambda>e. encodable e \<and> stored e = e) es"

interpretation newc: codec encode unpack_entries entries_fit
proof
  fix es payload
  assume enc: "encode es = Inr payload" and fit: "entries_fit es"
  have n: "int (length es) < 16 ^ 8 - 1" using fit by (simp add: entries_fit_def)
  have ok: "\<forall>e \<in> set es. encodable (stored e)" and id: "map stored es = es"
    using fit by (auto simp: entries_fit_def list_all_iff intro: map_idI)
  from decode_encode_frame [OF enc n ok, of "[]" "[]"] id
  show "unpack_entries payload = Inr es" by (auto simp: unpack_entries_def)
qed

subsection \<open>What the reader guarantees of an archive it accepts\<close>

lemma read_entry_safe: "read_entry dat start pos = Inr (e, pos') \<Longrightarrow> safe_name (e_name e) = Inr (e_name e)"
  by (auto simp: read_entry_def Let_def result_simps split: if_splits dest: safe_name_idem)

lemma decode_loop_guarantee:
  "decode_loop dat start pos seen acc = Inr (es, endpos) \<Longrightarrow>
   set seen = e_name ` set acc \<Longrightarrow> distinct (map e_name acc) \<Longrightarrow>
   (\<forall>e \<in> set acc. safe_name (e_name e) = Inr (e_name e) \<and> e_name e \<noteq> trailer_name) \<Longrightarrow>
     distinct (map e_name es) \<and>
     (\<forall>e \<in> set es. safe_name (e_name e) = Inr (e_name e) \<and> e_name e \<noteq> trailer_name)"
proof (induction dat start pos seen acc rule: decode_loop.induct)
  case (1 dat start pos seen acc)
  from "1.prems"(1) obtain e p where r: "read_entry dat start pos = Inr (e, p)"
    by (subst (asm) decode_loop.simps) (auto split: sum.splits)
  show ?case
  proof (cases "e_name e = trailer_name")
    case True
    with "1.prems" r show ?thesis
      by (subst (asm) decode_loop.simps) (auto split: if_splits)
  next
    case False
    with "1.prems"(1) r have ns: "e_name e \<notin> set seen"
      and rec: "decode_loop dat start p (e_name e # seen) (acc @ [e]) = Inr (es, endpos)"
      by (subst (asm) decode_loop.simps; auto split: if_splits)+
    show ?thesis
      using "1.IH" [OF r refl False ns rec] "1.prems"(2-4) ns read_entry_safe [OF r] False by auto
  qed
qed



text \<open>
  C33: Every archive the reader accepts, from whatever source, has only confined names:
  each is a relative path without empty, \<open>.\<close> or \<open>..\<close> components (or the root itself), no
  backslash, line break or NUL, no two entries share a name, and the end marker is not
  among them.
\<close>

theorem decode_names_safe:
  assumes "decode dat start = Inr (es, endpos)"
  shows "distinct (map e_name es) \<and> (\<forall>e \<in> set es. e_name e \<noteq> trailer_name \<and>
    (e_name e = ''.'' \<or>
       (\<forall>p \<in> set (split_on (CHR ''/'') (e_name e)). p \<notin> {[], ''.'', ''..''})
       \<and> set (e_name e) \<inter> {CHR 0x5C, CHR 0x0D, CHR 0x0A, CHR 0x00} = {}))"
proof -
  have g: "distinct (map e_name es)"
    "\<forall>e \<in> set es. safe_name (e_name e) = Inr (e_name e) \<and> e_name e \<noteq> trailer_name"
    using decode_loop_guarantee [of dat start start "[]" "[]"] assms by (auto simp: decode_def)
  have "n = ''.'' \<or> (\<forall>p \<in> set (split_on (CHR ''/'') n). p \<notin> {[], ''.'', ''..''})
      \<and> set n \<inter> {CHR 0x5C, CHR 0x0D, CHR 0x0A, CHR 0x00} = {}" if "safe_name n = Inr n" for n
    using that safe_name_Inr [OF that]
    by (auto simp: safe_name_def Let_def list_ex_iff split: if_splits)
  with g show ?thesis by blast
qed

theorem decode_names_safe_witness:
  "\<exists>blob e k. encode [mk_entry ''a/b'' 0 []] = Inr blob \<and> decode blob 0 = Inr ([e], k) \<and>
     (\<forall>p \<in> set (split_on (CHR ''/'') (e_name e)). p \<notin> {[], ''.'', ''..''})"
proof -
  let ?e = "mk_entry ''a/b'' 0 []"
  have st: "stored ?e = ?e"
    by (simp add: stored_def stored_name_def mk_entry_def removeprefix_def startswith_def)
  have ok: "encodable ?e" by (simp add: encodable_def mk_entry_def fits8_def)
  have "safe_name (e_name ?e) = Inr ''a/b''" by code_simp
  then obtain out where out: "encode_loop 1 [] [] ([?e] @ [trailer]) = Inr out"
    using safe_name_trailer by (auto simp: Let_def trailer_name_def)
  then have "encode [?e] = Inr (out @ pad_to 512 out)" by (simp add: encode_def)
  moreover have "decode (out @ pad_to 512 out) 0 = Inr ([?e], int (length out))"
    using decode_loop_encode_loop [OF out, where acc = "[]" and junk = "[]" and post = "pad_to 512 out"]
      ok st by (simp add: decode_def fits8_def)
  ultimately show ?thesis
    using decode_names_safe [of "out @ pad_to 512 out" 0 "[?e]" "int (length out)"]
    by (auto simp: mk_entry_def)
qed

end
