(* ===== verification/Crc32.thy ===== *)
theory Crc32
  imports Prelude
begin

unbundle bit_operations_syntax

text \<open>
  \<open>zlib.crc32\<close>, bit by bit on a 32-bit word (reflected polynomial \<open>0xEDB88320\<close>), and what the
  companion's framing relies on: a change confined to four consecutive bytes, in
  particular to one byte, always changes the checksum. The interface \<open>burst_checksum\<close> states
  that law; \<open>zlib\<close> interprets it on this model.
\<close>

definition crc_bit :: "32 word \<Rightarrow> 32 word" where
  "crc_bit c = (if bit c 0 then drop_bit 1 c XOR 0xEDB88320 else drop_bit 1 c)"

definition crc_word :: "32 word \<Rightarrow> 32 word \<Rightarrow> 32 word" where
  "crc_word c w = (crc_bit ^^ 8) (c XOR w)"

definition crc_byte :: "32 word \<Rightarrow> char \<Rightarrow> 32 word" where
  "crc_byte c b = crc_word c (of_char b)"

definition crc32 :: "bytes \<Rightarrow> int" where
  "crc32 bs = uint (NOT (foldl crc_byte (NOT 0) bs))"

lemma crc32_range: "0 \<le> crc32 bs \<and> crc32 bs < 2 ^ 32"
  using uint_lt2p [of "NOT (foldl crc_byte (NOT 0) bs)"] by (simp add: crc32_def)

subsection \<open>Linearity and injectivity of a step\<close>

lemma bit_poly: "bit (0xEDB88320 :: 32 word) 31"
  by simp

lemma crc_bit_xor: "crc_bit (c XOR d) = crc_bit c XOR crc_bit d"
  by (rule bit_word_eqI) (auto simp: crc_bit_def bit_simps)

lemma crc_bits_xor: "(crc_bit ^^ n) (c XOR d) = (crc_bit ^^ n) c XOR (crc_bit ^^ n) d"
  by (induction n) (simp_all add: crc_bit_xor)

lemma crc_word_zero: "crc_word 0 0 = 0"
proof -
  have "(crc_bit ^^ n) 0 = 0" for n by (induction n) (simp_all add: crc_bit_def)
  then show ?thesis by (simp add: crc_word_def)
qed

lemma xor_zero_eq: "c XOR d = 0 \<longleftrightarrow> c = (d :: 32 word)"
  by (auto simp: bit_eq_iff bit_simps)

lemma crc_bit_high: "bit (crc_bit u) 31 = bit u 0"
  using bit_poly by (auto simp: crc_bit_def bit_simps dest: bit_imp_le_length)

lemma crc_bit_back:
  assumes "drop_bit k (crc_bit u) = 0" and "k \<le> 31"
  shows "u = push_bit 1 (crc_bit u)"
proof -
  have "\<not> bit (crc_bit u) 31"
  proof
    assume "bit (crc_bit u) 31"
    then have "bit (drop_bit k (crc_bit u)) (31 - k)" using assms(2) by (simp add: bit_simps)
    with assms(1) show False by simp
  qed
  then have b0: "\<not> bit u 0" by (simp add: crc_bit_high)
  show ?thesis
  proof (rule bit_word_eqI)
    fix n :: nat
    assume "n < LENGTH(32)"
    then show "bit u n \<longleftrightarrow> bit (push_bit 1 (crc_bit u)) n"
      unfolding bit_push_bit_iff using b0 by (cases n) (simp_all add: crc_bit_def bit_simps)
  qed
qed

lemma crc_bits_back:
  "drop_bit k ((crc_bit ^^ n) u) = 0 \<Longrightarrow> k + n \<le> 32 \<Longrightarrow> u = push_bit n ((crc_bit ^^ n) u)"
proof (induction n arbitrary: k)
  case 0
  then show ?case by simp
next
  case (Suc n)
  let ?v = "(crc_bit ^^ n) u"
  have v: "?v = push_bit 1 (crc_bit ?v)"
    using crc_bit_back [of k ?v] Suc.prems by simp
  have "drop_bit (k + 1) ?v = 0"
  proof (rule bit_word_eqI)
    fix i :: nat
    have "\<not> bit (drop_bit k ((crc_bit ^^ Suc n) u)) i" by (simp only: Suc.prems(1)) simp
    then have "\<not> bit (push_bit 1 (crc_bit ?v)) (k + 1 + i)"
      unfolding bit_push_bit_iff by (simp add: bit_simps)
    then show "bit (drop_bit (k + 1) ?v) i \<longleftrightarrow> bit (0 :: 32 word) i"
      using v by (simp add: bit_simps)
  qed
  then have "u = push_bit n ?v" using Suc.IH [of "k + 1"] Suc.prems(2) by simp
  then show ?case using v by (metis add.commute funpow.simps(2) o_apply plus_1_eq_Suc push_bit_push_bit)
qed

subsection \<open>A short difference never cancels\<close>

definition small :: "32 word \<Rightarrow> bool" where
  "small w \<longleftrightarrow> drop_bit 8 w = 0"

lemma unat_of_char: "unat (of_char c :: 32 word) = of_char c"
proof -
  have "(of_char c :: nat) < 2 ^ 32" using nat_of_char_less_256 [of c] by (rule less_trans) simp
  then have "unat (word_of_nat (of_char c) :: 32 word) = of_char c"
    by (simp add: unsigned_of_nat take_bit_nat_eq_self)
  then show ?thesis by (simp only: of_nat_of_char)
qed

lemma small_of_char: "small (of_char c)"
proof -
  have "unat (drop_bit 8 (of_char c :: 32 word)) = 0"
    unfolding unat_drop_bit_eq unat_of_char
    using nat_of_char_less_256 [of c] by (simp add: drop_bit_eq_div)
  then show ?thesis by (simp add: small_def unat_eq_zero)
qed

lemma small_xor: "small v \<Longrightarrow> small w \<Longrightarrow> small (v XOR w)"
  by (simp add: small_def drop_bit_xor)

lemma of_char_word_inj: "(of_char c :: 32 word) = of_char d \<Longrightarrow> c = d"
  by (metis unat_of_char of_char_eq_iff)

lemma crc_word_diff: "crc_word c v XOR crc_word d w = crc_word (c XOR d) (v XOR w)"
proof -
  have "(c XOR v) XOR (d XOR w) = (c XOR d) XOR (v XOR w)" by (simp add: ac_simps)
  then show ?thesis by (simp only: crc_word_def crc_bits_xor [symmetric])
qed

lemma foldl_crc_diff:
  "length x = length y \<Longrightarrow> foldl crc_byte c x XOR foldl crc_byte d y
     = foldl crc_word (c XOR d) (map2 (\<lambda>a b. of_char a XOR of_char b) x y)"
proof (induction x y arbitrary: c d rule: list_induct2)
  case (Cons a x b y)
  then show ?case by (simp add: crc_byte_def crc_word_diff)
qed simp

lemma foldl_crc_zero:
  "drop_bit k (foldl crc_word 0 ws) = 0 \<Longrightarrow> k + 8 * length ws \<le> 32 \<Longrightarrow> list_all small ws \<Longrightarrow>
     list_all (\<lambda>w. w = 0) ws \<and> foldl crc_word 0 ws = 0"
proof (induction ws arbitrary: k rule: rev_induct)
  case Nil
  then show ?case by simp
next
  case (snoc w ws)
  let ?s = "foldl crc_word 0 ws" and ?t = "foldl crc_word 0 (ws @ [w])"
  have t: "?t = (crc_bit ^^ 8) (?s XOR w)" by (simp add: crc_word_def)
  have x: "?s XOR w = push_bit 8 ?t"
    using crc_bits_back [of k 8 "?s XOR w"] snoc.prems(1,2) t by simp
  have wk: "drop_bit (k + 8) w = 0"
    using snoc.prems(3) by (simp add: small_def flip: drop_bit_drop_bit)
  have "drop_bit (k + 8) (push_bit 8 ?t) = 0"
  proof (rule bit_word_eqI)
    fix i :: nat
    have "\<not> bit (drop_bit k ?t) i" by (simp only: snoc.prems(1)) simp
    then show "bit (drop_bit (k + 8) (push_bit 8 ?t)) i \<longleftrightarrow> bit (0 :: 32 word) i"
      by (simp add: bit_simps ac_simps)
  qed
  then have "drop_bit (k + 8) ?s = 0"
    using wk x by (metis drop_bit_xor xor.right_neutral)
  then have s: "list_all (\<lambda>w. w = 0) ws" "?s = 0"
    using snoc.IH [of "k + 8"] snoc.prems(2,3) by simp_all
  have w: "w = push_bit 8 ?t" using x s(2) by simp
  have "w = 0"
  proof (rule bit_word_eqI)
    fix i :: nat
    have "\<not> bit (drop_bit 8 w) (i - 8)" using snoc.prems(3) by (simp add: small_def)
    moreover have "i < 8 \<Longrightarrow> \<not> bit w i" by (subst w) (simp only: bit_push_bit_iff, simp)
    ultimately show "bit w i \<longleftrightarrow> bit (0 :: 32 word) i" by (cases "i < 8") (simp_all add: bit_simps)
  qed
  then show ?case using s by (simp add: crc_word_zero)
qed

lemma foldl_crc_burst:
  assumes "length x = length y" and "length x \<le> 4" and "foldl crc_byte c x = foldl crc_byte c y"
  shows "x = y"
proof -
  let ?ws = "map2 (\<lambda>a b. of_char a XOR of_char b) x y :: 32 word list"
  have "foldl crc_word 0 ?ws = 0"
    using foldl_crc_diff [OF assms(1), of c c] assms(3) by simp
  moreover have "list_all small ?ws"
    using small_of_char small_xor by (auto simp: list_all_iff)
  ultimately have "list_all (\<lambda>w. w = 0) ?ws"
    using foldl_crc_zero [of 0 ?ws] assms(1,2) by simp
  with assms(1) show ?thesis
  proof (induction x y rule: list_induct2)
    case (Cons a x b y)
    then have "(of_char a :: 32 word) = of_char b" by (simp add: xor_zero_eq)
    with Cons show ?case using of_char_word_inj by simp
  qed simp
qed

lemma crc_byte_inj: "crc_byte c b = crc_byte d b \<Longrightarrow> c = d"
proof -
  assume "crc_byte c b = crc_byte d b"
  then have "(crc_bit ^^ 8) (c XOR d) = 0"
    using crc_bits_xor [of 8 "c XOR of_char b" "d XOR of_char b"]
    by (simp add: crc_byte_def crc_word_def ac_simps)
  then have "c XOR d = 0" using crc_bits_back [of 0 8 "c XOR d"] by simp
  then show "c = d" by (simp add: xor_zero_eq)
qed

lemma foldl_crc_inj: "foldl crc_byte c s = foldl crc_byte d s \<Longrightarrow> c = d"
  by (induction s arbitrary: c d) (auto dest: crc_byte_inj)

subsection \<open>The interface\<close>

text \<open>What a client of a checksum relies on: short bursts are always detected.\<close>

locale burst_checksum =
  fixes crc :: "bytes \<Rightarrow> int"
  assumes burst: "length x = length y \<Longrightarrow> length x \<le> 4 \<Longrightarrow>
    crc (pre @ x @ post) = crc (pre @ y @ post) \<Longrightarrow> x = y"
begin

lemma one_byte: "i < length bs \<Longrightarrow> crc (bs[i := c]) = crc bs \<Longrightarrow> c = bs ! i"
  using burst [of "[c]" "[bs ! i]" "take i bs" "drop (Suc i) bs"]
  by (simp add: upd_conv_take_nth_drop id_take_nth_drop [symmetric])

lemma one_byte_changed: "i < length bs \<Longrightarrow> c \<noteq> bs ! i \<Longrightarrow> crc (bs[i := c]) \<noteq> crc bs"
  using one_byte by blast

end

interpretation zlib: burst_checksum crc32
proof
  fix x y pre post :: bytes
  assume "length x = length y" "length x \<le> 4" and eq: "crc32 (pre @ x @ post) = crc32 (pre @ y @ post)"
  from eq have "foldl crc_byte (NOT 0) (pre @ x @ post) = foldl crc_byte (NOT 0) (pre @ y @ post)"
    by (simp only: crc32_def word_eq_iff_unsigned [symmetric] bit.compl_eq_compl_iff)
  then have "foldl crc_byte (foldl crc_byte (NOT 0) pre) x = foldl crc_byte (foldl crc_byte (NOT 0) pre) y"
    unfolding foldl_append by (rule foldl_crc_inj)
  with \<open>length x = length y\<close> \<open>length x \<le> 4\<close> show "x = y" by (rule foldl_crc_burst)
qed

end
