(* ===== verification/Ramdisk.thy ===== *)
theory Ramdisk
  imports Crc32 Py_Text
begin

unbundle bit_operations_syntax

text \<open>
  The legacy uImage framing of \<open>scripts/cpio_newc.py\<close>: \<open>wrap_ramdisk\<close> puts a 64-byte
  header with two CRCs before the archive, \<open>unwrap_ramdisk\<close> checks and removes it. The
  byte layout is \<open>struct.pack('>7I4B32s', ...)\<close>: seven big-endian words, four bytes and
  a 32-byte name.
\<close>

subsection \<open>Big-endian words\<close>

definition be32 :: "int \<Rightarrow> bytes" where
  "be32 n = [char_of (n div 2 ^ 24), char_of (n div 2 ^ 16), char_of (n div 2 ^ 8), char_of n]"

definition be_val :: "bytes \<Rightarrow> int" where
  "be_val bs = foldl (\<lambda>n c. n * 256 + of_char c) 0 bs"

lemma length_be32 [simp]: "length (be32 n) = 4"
  by (simp add: be32_def)

lemma of_char_byte: "0 \<le> (of_char c :: int) \<and> (of_char c :: int) < 256"
  using nat_of_char_less_256 [of c] by (metis of_nat_0_le_iff of_nat_less_numeral_iff of_nat_of_char)

lemma byte_step_inj:
  assumes "x * 256 + of_char c = y * 256 + (of_char d :: int)"
  shows "x = y \<and> c = d"
proof -
  have "(x * 256 + of_char c) div 256 = x" "(y * 256 + of_char d) div 256 = y"
    using of_char_byte [of c] of_char_byte [of d] by simp_all
  with assms have "x = y" by simp
  with assms show ?thesis by simp
qed

lemma be_val_inj: "length xs = length ys \<Longrightarrow> be_val xs = be_val ys \<Longrightarrow> xs = ys"
proof (induction xs arbitrary: ys rule: rev_induct)
  case Nil
  then show ?case by simp
next
  case (snoc x xs)
  then obtain y zs where y: "ys = zs @ [y]" by (cases ys rule: rev_cases) auto
  with snoc.prems(2) have "be_val xs = be_val zs \<and> x = y"
    by (auto simp: be_val_def dest: byte_step_inj)
  with snoc y show ?case by simp
qed

lemma be_val_be32 [simp]:
  assumes "0 \<le> n" "n < 2 ^ 32"
  shows "be_val (be32 n) = n"
proof -
  define n1 where "n1 = n div 256"
  define n2 where "n2 = n1 div 256"
  define n3 where "n3 = n2 div 256"
  have e: "n div 2 ^ 8 = n1" "n div 2 ^ 16 = n2" "n div 2 ^ 24 = n3"
    by (simp_all add: n1_def n2_def n3_def zdiv_zmult2_eq [symmetric])
  have "0 \<le> n3" "n3 < 256"
    using assms by (simp_all add: e(3) [symmetric] pos_imp_zdiv_nonneg_iff div_less_iff_less_mult)
  then have "n3 mod 256 = n3" by simp
  moreover have "n3 * 256 + n2 mod 256 = n2" "n2 * 256 + n1 mod 256 = n1" "n1 * 256 + n mod 256 = n"
    by (simp_all add: n1_def n2_def n3_def)
  ultimately show ?thesis by (simp only: be_val_def be32_def e foldl.simps of_char_of) simp
qed

subsection \<open>The frame\<close>

definition uimage_magic :: int where "uimage_magic = 0x27051956"

definition image_name :: bytes where
  "image_name = ''LS420D deployment CPIO'' @ replicate 10 (CHR 0x00)"

definition os_arch_type_comp :: bytes where
  "os_arch_type_comp = [CHR 0x05, CHR 0x02, CHR 0x03, CHR 0x00]"

text \<open>\<open>struct.pack('>7I4B32s', ...)\<close> raises \<open>struct.error\<close> when a word does not fit.\<close>

definition pack_header :: "int list \<Rightarrow> bytes result" where
  "pack_header ws =
     (if list_all (\<lambda>w. 0 \<le> w \<and> w < 2 ^ 32) ws
      then Inr (concat (map be32 ws) @ os_arch_type_comp @ image_name)
      else Inl StructError)"

definition wrap_ramdisk :: "bytes \<Rightarrow> bytes result" where
  "wrap_ramdisk payload =
     rbind (pack_header [uimage_magic, 0, 0, int (length payload), 0, 0, crc32 payload]) (\<lambda>header.
     rbind (pack_header [uimage_magic, crc32 header, 0, int (length payload), 0, 0, crc32 payload]) (\<lambda>header.
     Inr (header @ payload)))"

text \<open>The unpacked word \<open>f[i]\<close> of the header.\<close>

definition word_at :: "bytes \<Rightarrow> nat \<Rightarrow> int" where
  "word_at blob i = be_val (take 4 (drop (4 * i) blob))"

definition unwrap_ramdisk :: "bytes \<Rightarrow> bytes result" where
  "unwrap_ramdisk blob =
     (if length blob < 64 then Inl (ValueError ''short ramdisk'')
      else if word_at blob 0 \<noteq> uimage_magic \<or> take 4 (drop 28 blob) \<noteq> os_arch_type_comp
          \<or> int (length blob) \<noteq> 64 + word_at blob 3
      then Inl (ValueError ''wrong ramdisk format'')
      else if word_at blob 1 \<noteq> crc32 (take 4 blob @ replicate 4 (CHR 0x00) @ take 56 (drop 8 blob))
          \<or> word_at blob 6 \<noteq> crc32 (drop 64 blob)
      then Inl (ValueError ''ramdisk CRC mismatch'')
      else Inr (drop 64 blob))"

subsection \<open>Round trip\<close>

lemma length_image_name [simp]: "length image_name = 32" "length os_arch_type_comp = 4"
  by (simp_all add: image_name_def os_arch_type_comp_def)

lemma pack_header_7:
  "pack_header [a, b, c, d, e, f, g] = Inr h \<Longrightarrow>
     h = be32 a @ be32 b @ be32 c @ be32 d @ be32 e @ be32 f @ be32 g @ os_arch_type_comp @ image_name"
  by (simp add: pack_header_def split: if_splits)

lemma take_drop_be32 [simp]: "take 4 (be32 n @ s) = be32 n" "drop 4 (be32 n @ s) = s"
  by simp_all

lemma drop_be32_more [simp]: "4 \<le> k \<Longrightarrow> drop k (be32 n @ s) = drop (k - 4) s"
  by simp

lemma wrap_ramdisk_layout:
  assumes "wrap_ramdisk payload = Inr blob"
  shows "\<exists>hcrc. 0 \<le> hcrc \<and> hcrc < 2 ^ 32 \<and> int (length payload) < 2 ^ 32 \<and>
    hcrc = crc32 (be32 uimage_magic @ be32 0 @ be32 0 @ be32 (int (length payload)) @ be32 0 @ be32 0
              @ be32 (crc32 payload) @ os_arch_type_comp @ image_name) \<and>
    blob = be32 uimage_magic @ be32 hcrc @ be32 0 @ be32 (int (length payload)) @ be32 0 @ be32 0
              @ be32 (crc32 payload) @ os_arch_type_comp @ image_name @ payload"
proof -
  from assms obtain h where
    h: "pack_header [uimage_magic, 0, 0, int (length payload), 0, 0, crc32 payload] = Inr h"
    and b: "pack_header [uimage_magic, crc32 h, 0, int (length payload), 0, 0, crc32 payload]
              = Inr (take (length blob - length payload) blob)" "\<exists>h'. blob = h' @ payload"
    by (auto simp: wrap_ramdisk_def result_simps)
  from b obtain h' where h': "blob = h' @ payload"
    "pack_header [uimage_magic, crc32 h, 0, int (length payload), 0, 0, crc32 payload] = Inr h'" by auto
  have "int (length payload) < 2 ^ 32" using h by (simp add: pack_header_def split: if_splits)
  then show ?thesis
    using pack_header_7 [OF h] pack_header_7 [OF h'(2)] h'(1) crc32_range [of h]
    by (intro exI [of _ "crc32 h"]) simp
qed

lemma wrap_ramdisk_header:
  "wrap_ramdisk payload = Inr blob \<Longrightarrow> \<exists>h. blob = h @ payload \<and> length h = 64"
  using wrap_ramdisk_layout by fastforce

lemma unwrap_wrap_frame:
  assumes "wrap_ramdisk payload = Inr blob"
  shows "unwrap_ramdisk blob = Inr payload"
proof -
  from wrap_ramdisk_layout [OF assms] obtain hcrc where
    h: "0 \<le> hcrc" "hcrc < 2 ^ 32" "int (length payload) < 2 ^ 32"
      "hcrc = crc32 (be32 uimage_magic @ be32 0 @ be32 0 @ be32 (int (length payload)) @ be32 0 @ be32 0
              @ be32 (crc32 payload) @ os_arch_type_comp @ image_name)"
    and b: "blob = be32 uimage_magic @ be32 hcrc @ be32 0 @ be32 (int (length payload)) @ be32 0 @ be32 0
              @ be32 (crc32 payload) @ os_arch_type_comp @ image_name @ payload"
    by blast
  have z: "be32 0 = replicate 4 (CHR 0x00)" by (simp add: be32_def numeral_eq_Suc char_of_def)
  have w: "word_at blob 0 = uimage_magic" "word_at blob 1 = hcrc"
    "word_at blob 3 = int (length payload)" "word_at blob 6 = crc32 payload"
    using h(1-3) crc32_range [of payload] by (simp_all add: b word_at_def uimage_magic_def)
  have k: "take 4 (drop 28 blob) = os_arch_type_comp" "drop 64 blob = payload" by (simp_all add: b)
  have "take 4 blob @ replicate 4 (CHR 0x00) @ take 56 (drop 8 blob)
      = be32 uimage_magic @ be32 0 @ be32 0 @ be32 (int (length payload)) @ be32 0 @ be32 0
              @ be32 (crc32 payload) @ os_arch_type_comp @ image_name"
    by (simp add: b z)
  then have "hcrc = crc32 (take 4 blob @ replicate 4 (CHR 0x00) @ take 56 (drop 8 blob))"
    using h(4) by simp
  moreover have "length blob = 64 + length payload" by (simp add: b)
  ultimately show ?thesis using w k by (simp add: unwrap_ramdisk_def)
qed

text \<open>
  The frame round trip. Unwrapping what \<open>wrap_ramdisk\<close> made gives the payload back, and
  the frame adds exactly the 64 header bytes.
\<close>

theorem unwrap_wrap_ramdisk:
  assumes "wrap_ramdisk payload = Inr blob"
  shows "unwrap_ramdisk blob = Inr payload \<and> length blob = 64 + length payload"
  using unwrap_wrap_frame [OF assms] wrap_ramdisk_header [OF assms] by auto

lemma wrap_ramdisk_total: "int (length payload) < 2 ^ 32 \<Longrightarrow> \<exists>blob. wrap_ramdisk payload = Inr blob"
  using crc32_range by (simp add: wrap_ramdisk_def pack_header_def uimage_magic_def)

theorem unwrap_wrap_ramdisk_witness:
  "\<exists>blob. wrap_ramdisk ''abc'' = Inr blob \<and> unwrap_ramdisk blob = Inr ''abc'' \<and> length blob = 67"
proof -
  obtain blob where b: "wrap_ramdisk ''abc'' = Inr blob" using wrap_ramdisk_total [of "''abc''"] by auto
  from unwrap_wrap_ramdisk [OF b] b show ?thesis by simp
qed

subsection \<open>Corruption\<close>

lemma unwrap_ramdisk_Inr:
  "unwrap_ramdisk blob = Inr payload \<longleftrightarrow>
     64 \<le> length blob \<and> word_at blob 0 = uimage_magic \<and> take 4 (drop 28 blob) = os_arch_type_comp
     \<and> int (length blob) = 64 + word_at blob 3
     \<and> word_at blob 1 = crc32 (take 4 blob @ replicate 4 (CHR 0x00) @ take 56 (drop 8 blob))
     \<and> word_at blob 6 = crc32 (drop 64 blob) \<and> payload = drop 64 blob"
  by (auto simp: unwrap_ramdisk_def)

lemma unwrap_ramdisk_cases:
  "(\<exists>m. unwrap_ramdisk blob = Inl (ValueError m)) \<or> (\<exists>p. unwrap_ramdisk blob = Inr p)"
  by (auto simp: unwrap_ramdisk_def)

lemma word_at_update_other:
  "i < 4 * k \<or> 4 * k + 4 \<le> i \<Longrightarrow> word_at (blob[i := c]) k = word_at blob k"
  by (auto simp: word_at_def drop_update_swap take_update_swap list_update_beyond)

lemma word_at_update_same:
  assumes "4 * k \<le> i" "i < 4 * k + 4" "4 * k + 4 \<le> length blob" "c \<noteq> blob ! i"
  shows "word_at (blob[i := c]) k \<noteq> word_at blob k"
proof
  let ?w = "take 4 (drop (4 * k) blob)"
  assume "word_at (blob[i := c]) k = word_at blob k"
  then have "be_val (?w[i - 4 * k := c]) = be_val ?w"
    using assms(1) by (simp add: word_at_def drop_update_swap take_update_swap)
  then have "?w[i - 4 * k := c] = ?w" by (intro be_val_inj) simp_all
  moreover have "i - 4 * k < length ?w" using assms(1-3) by simp
  ultimately have "c = ?w ! (i - 4 * k)" by (metis nth_list_update_eq)
  also have "\<dots> = blob ! i" using assms(1-3) by simp
  finally show False using assms(4) by simp
qed

text \<open>
  C17: One corrupted byte is always noticed. If the reader accepts an image, then every
  image that differs from it in exactly one byte, in the header or in the payload, is
  rejected with \<open>ValueError\<close>.
\<close>

theorem unwrap_detects_byte:
  assumes "unwrap_ramdisk blob = Inr payload" and "i < length blob" and "c \<noteq> blob ! i"
  shows "\<exists>m. unwrap_ramdisk (blob[i := c]) = Inl (ValueError m)"
proof -
  let ?b = "blob[i := c]"
  let ?h = "\<lambda>b. take 4 b @ replicate 4 (CHR 0x00) @ take 56 (drop 8 b)"
  note ok = assms(1) [unfolded unwrap_ramdisk_Inr]
  have "\<nexists>p. unwrap_ramdisk ?b = Inr p"
  proof
    assume "\<exists>p. unwrap_ramdisk ?b = Inr p"
    then have bad: "word_at ?b 0 = uimage_magic" "word_at ?b 1 = crc32 (?h ?b)" "word_at ?b 6 = crc32 (drop 64 ?b)"
      by (auto simp: unwrap_ramdisk_Inr)
    consider "i < 4" | "4 \<le> i" "i < 8" | "8 \<le> i" "i < 64" | "64 \<le> i" by linarith
    then show False
    proof cases
      case 1
      then show False using word_at_update_same [of 0 i blob c] bad(1) ok assms(3) by simp
    next
      case 2
      then have "?h ?b = ?h blob" by (simp add: drop_update_cancel)
      then show False using word_at_update_same [of 1 i blob c] 2 bad(2) ok assms(3) by simp
    next
      case 3
      then have ix: "\<not> i < 4" "\<not> i - 4 < 4" "i - 4 - 4 = i - 8" by linarith+
      have lb: "min (length blob - 8) 56 = 56" using ok by linarith
      from ix 3 ok have "?h ?b = (?h blob)[i := c]"
        by (simp add: list_update_append drop_update_swap take_update_swap list_update_beyond)
      moreover have "(?h blob) ! i = blob ! i" "length (?h blob) = 64"
        using 3 ok ix lb by (simp_all add: nth_append)
      ultimately have "crc32 (?h ?b) \<noteq> crc32 (?h blob)"
        using zlib.one_byte_changed [of i "?h blob" c] 3 assms(3) by simp
      then show False using word_at_update_other [of i 1 blob c] 3 bad(2) ok by simp
    next
      case 4
      then have "drop 64 ?b = (drop 64 blob)[i - 64 := c]" by (simp add: drop_update_swap)
      then have "crc32 (drop 64 ?b) \<noteq> crc32 (drop 64 blob)"
        using zlib.one_byte_changed [of "i - 64" "drop 64 blob" c] 4 assms(2,3) by simp
      then show False using word_at_update_other [of i 6 blob c] 4 bad(3) ok by simp
    qed
  qed
  with unwrap_ramdisk_cases [of ?b] show ?thesis by auto
qed

theorem unwrap_detects_byte_witness:
  "\<exists>blob m. wrap_ramdisk ''abc'' = Inr blob \<and> unwrap_ramdisk (blob[66 := CHR ''d'']) = Inl (ValueError m)"
proof -
  obtain blob where b: "wrap_ramdisk ''abc'' = Inr blob" using wrap_ramdisk_total [of "''abc''"] by auto
  from wrap_ramdisk_header [OF b] obtain h where "blob = h @ ''abc''" "length h = 64" by blast
  then have "blob ! 66 = CHR ''c''" "66 < length blob" by (simp_all add: nth_append)
  with unwrap_detects_byte [of blob "''abc''" 66 "CHR ''d''"] b \<open>blob = h @ ''abc''\<close> show ?thesis
    using unwrap_wrap_frame [OF b] by auto
qed

text \<open>
  C34: A corrupted run of up to four payload bytes is always noticed.
\<close>

theorem unwrap_detects_payload_burst:
  assumes "unwrap_ramdisk (hdr @ pre @ x @ post) = Inr payload" and "length hdr = 64"
    and "length x = length y" and "length x \<le> 4" and "x \<noteq> y"
  shows "\<exists>m. unwrap_ramdisk (hdr @ pre @ y @ post) = Inl (ValueError m)"
proof -
  have "crc32 (pre @ y @ post) \<noteq> crc32 (pre @ x @ post)"
    using zlib.burst [of y x pre post] assms(3-5) by auto
  moreover have "word_at (hdr @ t) 6 = word_at hdr 6" for t
    using assms(2) by (simp add: word_at_def)
  ultimately have "\<nexists>p. unwrap_ramdisk (hdr @ pre @ y @ post) = Inr p"
    using assms(1,2) by (simp add: unwrap_ramdisk_Inr)
  with unwrap_ramdisk_cases show ?thesis by auto
qed

theorem unwrap_detects_payload_burst_witness:
  "\<exists>h m. unwrap_ramdisk (h @ ''a'' @ ''bcd'' @ ''e'') = Inr ''abcde'' \<and>
     unwrap_ramdisk (h @ ''a'' @ ''xyz'' @ ''e'') = Inl (ValueError m)"
proof -
  obtain blob where b: "wrap_ramdisk ''abcde'' = Inr blob" using wrap_ramdisk_total [of "''abcde''"] by auto
  from wrap_ramdisk_header [OF b] obtain h where h: "blob = h @ ''abcde''" "length h = 64" by blast
  then have "unwrap_ramdisk (h @ ''a'' @ ''bcd'' @ ''e'') = Inr ''abcde''"
    using unwrap_wrap_frame [OF b] by simp
  from this unwrap_detects_payload_burst [OF this h(2), of "''xyz''"] show ?thesis by auto
qed

subsection \<open>The frame as a format\<close>

interpretation uimage: codec wrap_ramdisk unwrap_ramdisk "\<lambda>_. True"
  by unfold_locales (rule unwrap_wrap_frame)

end
