(* ===== verification/Footprint.thy ===== *)
theory Footprint
  imports Ramdisk
begin

text \<open>
  \<open>scripts/check-kernel-footprint.py\<close>: the ELF program header reader \<open>load_footprint\<close>, the
  arithmetic of \<open>check\<close>, the evidence text of \<open>report\<close> and the verdicts of \<open>main\<close>.
  The lemmas relate the loop to the extremes over the loadable segments, and the verdict
  to the memory map of the boot: an accepted kernel stays below the initrd.
\<close>

definition KERNEL_PHYS :: int where "KERNEL_PHYS = 0x00008000"
definition INITRD_LOAD :: int where "INITRD_LOAD = 0x02600000"
definition DECOMPRESSOR_SCRATCH :: int where "DECOMPRESSOR_SCRATCH = 1024 * 1024"

subsection \<open>Reading the program headers\<close>

text \<open>An unsigned field of \<open>struct.unpack\<close> in the file's byte order.\<close>

definition unpack_field :: "bool \<Rightarrow> bytes \<Rightarrow> nat \<Rightarrow> nat \<Rightarrow> int" where
  "unpack_field little bs off n =
     (let raw = take n (drop off bs) in be_val (if little then rev raw else raw))"

type_synonym extent = "(int \<times> int \<times> int) option"

text \<open>
  One round of the loop over the program headers. \<open>lowest\<close>, \<open>highest\<close> and \<open>highest_file\<close>
  start as \<open>None\<close> and are set together by the first loadable segment.
\<close>

definition segment_step :: "bool \<Rightarrow> bytes \<Rightarrow> int \<Rightarrow> int \<Rightarrow> extent \<Rightarrow> int \<Rightarrow> extent result" where
  "segment_step little vmlinux e_phoff e_phentsize ext index =
     (let offset = e_phoff + index * e_phentsize;
          hdr = py_slice vmlinux offset (offset + 32)
      in if length hdr \<noteq> 32 then Inl (ValueError ''truncated program header table'')
         else
           let p_type = unpack_field little hdr 0 4; p_paddr = unpack_field little hdr 12 4;
               p_filesz = unpack_field little hdr 16 4; p_memsz = unpack_field little hdr 20 4
           in if p_type \<noteq> 1 \<or> p_memsz = 0 then Inr ext
              else Inr (Some (case ext of
                  None \<Rightarrow> (p_paddr, p_paddr + p_memsz, p_paddr + p_filesz)
                | Some (lowest, highest, highest_file) \<Rightarrow>
                    (min lowest p_paddr, max highest (p_paddr + p_memsz),
                     max highest_file (p_paddr + p_filesz)))))"

definition load_footprint :: "bytes \<Rightarrow> (int \<times> int \<times> int) result" where
  "load_footprint vmlinux =
     (let header = take 52 vmlinux in
      if length header \<noteq> 52 \<or> take 4 header \<noteq> CHR 0x7F # ''ELF'' \<or> header ! 4 \<noteq> CHR 0x01
      then Inl (ValueError ''vmlinux is not a 32-bit ELF file'')
      else
        let little = (header ! 5 = CHR 0x01) in
        if header ! 5 \<noteq> CHR 0x01 \<and> header ! 5 \<noteq> CHR 0x02
        then Inl (ValueError ''vmlinux has an invalid ELF data encoding'')
        else
          let e_type = unpack_field little header 16 2; e_machine = unpack_field little header 18 2 in
          if e_type \<noteq> 2 \<or> e_machine \<noteq> 40
          then Inl (ValueError ''vmlinux is not an executable ARM ELF file'')
          else
            let e_phoff = unpack_field little header 28 4;
                e_phentsize = unpack_field little header 42 2; e_phnum = unpack_field little header 44 2
            in if e_phentsize \<noteq> 32 \<or> e_phnum = 0
               then Inl (ValueError ''vmlinux has no usable program headers'')
               else rbind (for_each (segment_step little vmlinux e_phoff e_phentsize) None
                             (map int [0..<nat e_phnum])) (\<lambda>ext.
                 case ext of
                   None \<Rightarrow> Inl (ValueError ''vmlinux has no PT_LOAD segment'')
                 | Some r \<Rightarrow> Inr r))"

subsection \<open>The memory map and the verdict\<close>

definition check :: "bytes \<Rightarrow> int \<Rightarrow> (int \<times> int \<times> int \<times> int) result" where
  "check vmlinux uimage_size =
     rbind (load_footprint vmlinux) (\<lambda>(lowest, highest, highest_file).
       let img = highest_file - lowest;
           footprint = highest - lowest;
           decompressor_end = KERNEL_PHYS + img + uimage_size + DECOMPRESSOR_SCRATCH;
           worst_case_end = KERNEL_PHYS + max footprint (img + uimage_size + DECOMPRESSOR_SCRATCH)
       in Inr (img, footprint, decompressor_end, worst_case_end))"

definition hex_const :: "int \<Rightarrow> string" where
  "hex_const n = ''0x'' @ fmt_08x n"

definition report :: "int \<Rightarrow> int \<Rightarrow> int \<Rightarrow> int \<Rightarrow> int \<Rightarrow> string" where
  "report img footprint uimage_size decompressor_end endp =
     ''KERNEL_LOAD_ADDRESS='' @ hex_const KERNEL_PHYS @ [CHR 0x0A] @
     ''KERNEL_IMAGE_BYTES='' @ str_int img @ [CHR 0x0A] @
     ''KERNEL_FOOTPRINT_BYTES='' @ str_int footprint @ [CHR 0x0A] @
     ''UIMAGE_BYTES='' @ str_int uimage_size @ [CHR 0x0A] @
     ''DECOMPRESSOR_SCRATCH_BYTES='' @ str_int DECOMPRESSOR_SCRATCH @ [CHR 0x0A] @
     ''DECOMPRESSOR_END='' @ hex_const decompressor_end @ [CHR 0x0A] @
     ''KERNEL_WORST_CASE_END='' @ hex_const endp @ [CHR 0x0A] @
     ''INITRD_LOAD_ADDRESS='' @ hex_const INITRD_LOAD @ [CHR 0x0A] @
     ''INITRD_HEADROOM_BYTES='' @ str_int (INITRD_LOAD - endp) @ [CHR 0x0A]"

text \<open>
  \<open>main(argv)\<close>, over the contents of the first file and the size of the second: what it
  prints on standard output, and how it ends (\<open>SystemExit\<close> carries the message for
  standard error).
\<close>

definition footprint_main :: "string list \<Rightarrow> bytes \<Rightarrow> int \<Rightarrow> string \<times> unit result" where
  "footprint_main argv vmlinux uimage_size =
     (if length argv \<noteq> 3 then ([], Inl (SystemExit ''usage: check-kernel-footprint.py VMLINUX UIMAGE''))
      else case check vmlinux uimage_size of
        Inl e \<Rightarrow> ([], Inl e)
      | Inr (img, footprint, decompressor_end, endp) \<Rightarrow>
          let txt = report img footprint uimage_size decompressor_end endp;
              fail = (\<lambda>verdict. (txt, Inl (SystemExit (verdict
                @ ''; shrink the package set or compress the embedded initramfs'' @ [CHR 0x0A] @ txt))))
          in if decompressor_end \<ge> INITRD_LOAD
             then fail ''the zImage decompressor would overwrite the Buffalo initrd''
             else if endp \<ge> INITRD_LOAD
             then fail ''the kernel reservation (.bss) would cover the initrd and Linux would disable it''
             else (txt, Inr ()))"

subsection \<open>The loadable segments, as a specification\<close>

text \<open>
  The file's header words that locate the table, and the list of (physical address, file
  size, memory size) of its loadable, non-empty segments.
\<close>

definition little_endian :: "bytes \<Rightarrow> bool" where
  "little_endian vmlinux \<longleftrightarrow> vmlinux ! 5 = CHR 0x01"

definition program_header :: "bytes \<Rightarrow> nat \<Rightarrow> bytes" where
  "program_header vmlinux i =
     take 32 (drop (nat (unpack_field (little_endian vmlinux) vmlinux 28 4) + 32 * i) vmlinux)"

definition segments_upto :: "bytes \<Rightarrow> nat \<Rightarrow> (int \<times> int \<times> int) list" where
  "segments_upto vmlinux n =
     map (\<lambda>h. (unpack_field (little_endian vmlinux) h 12 4, unpack_field (little_endian vmlinux) h 16 4,
                 unpack_field (little_endian vmlinux) h 20 4))
       (filter (\<lambda>h. unpack_field (little_endian vmlinux) h 0 4 = 1
                    \<and> unpack_field (little_endian vmlinux) h 20 4 \<noteq> 0)
         (map (program_header vmlinux) [0..<n]))"

definition segments :: "bytes \<Rightarrow> (int \<times> int \<times> int) list" where
  "segments vmlinux = segments_upto vmlinux (nat (unpack_field (little_endian vmlinux) vmlinux 44 2))"

definition extremes :: "(int \<times> int \<times> int) list \<Rightarrow> extent" where
  "extremes segs =
     (if segs = [] then None
      else Some (Min ((\<lambda>(p, f, m). p) ` set segs), Max ((\<lambda>(p, f, m). p + m) ` set segs),
                 Max ((\<lambda>(p, f, m). p + f) ` set segs)))"

lemma be_val_nonneg: "0 \<le> be_val bs"
proof (induction bs rule: rev_induct)
  case (snoc c bs)
  then show ?case using of_char_byte [of c] by (simp add: be_val_def)
qed (simp add: be_val_def)

lemma unpack_field_nonneg [simp]: "0 \<le> unpack_field little bs off n"
  by (simp add: unpack_field_def be_val_nonneg Let_def)

lemma segments_upto_Suc:
  "segments_upto vm (Suc n) = segments_upto vm n @
     (let h = program_header vm n; l = little_endian vm in
      if unpack_field l h 0 4 = 1 \<and> unpack_field l h 20 4 \<noteq> 0
      then [(unpack_field l h 12 4, unpack_field l h 16 4, unpack_field l h 20 4)] else [])"
  by (simp add: segments_upto_def Let_def)

lemma extremes_snoc:
  "extremes (segs @ [(p, f, m)]) = Some (case extremes segs of
       None \<Rightarrow> (p, p + m, p + f)
     | Some (lo, hi, hf) \<Rightarrow> (min lo p, max hi (p + m), max hf (p + f)))"
proof (cases "segs = []")
  case True
  then show ?thesis by (simp add: extremes_def)
next
  case False
  then have ne: "g ` set segs \<noteq> {}" for g :: "int \<times> int \<times> int \<Rightarrow> int" by simp
  have "Min (insert x A) = min (Min A) x" "Max (insert x A) = max (Max A) x"
    if "finite A" "A \<noteq> {}" for x :: int and A using that by (simp_all add: min.commute max.commute)
  with False ne show ?thesis by (simp add: extremes_def)
qed

lemma segment_step_Inr:
  assumes "segment_step (little_endian vm) vm (unpack_field (little_endian vm) vm 28 4) 32
             (extremes (segments_upto vm n)) (int n) = Inr ext"
  shows "ext = extremes (segments_upto vm (Suc n))"
proof -
  let ?off = "unpack_field (little_endian vm) vm 28 4"
  have "?off + int n * 32 = int (nat ?off + 32 * n)" by simp
  then have "py_slice vm (?off + int n * 32) (?off + int n * 32 + 32) = program_header vm n"
    using py_slice_nat [of vm "nat ?off + 32 * n" "nat ?off + 32 * n + 32"]
    by (simp add: program_header_def mult.commute)
  with assms show ?thesis
    by (auto simp: segment_step_def segments_upto_Suc Let_def extremes_snoc split: if_splits)
qed

lemma segment_loop_Inr:
  "for_each (segment_step (little_endian vm) vm (unpack_field (little_endian vm) vm 28 4) 32) None
     (map int [0..<n]) = Inr ext \<Longrightarrow> ext = extremes (segments_upto vm n)"
proof (induction n arbitrary: ext)
  case 0
  then show ?case by (simp add: segments_upto_def extremes_def)
next
  case (Suc n)
  then show ?case by (auto simp: for_each_append result_simps dest: segment_step_Inr)
qed

text \<open>
  C35: \<open>load_footprint\<close> computes the extremes over the loadable segments: the lowest
  physical address, the highest memory end and the highest file-backed end.
\<close>

theorem load_footprint_extremes:
  assumes "load_footprint vmlinux = Inr (lowest, highest, highest_file)"
  shows "segments vmlinux \<noteq> [] \<and>
    lowest = Min ((\<lambda>(p, f, m). p) ` set (segments vmlinux)) \<and>
    highest = Max ((\<lambda>(p, f, m). p + m) ` set (segments vmlinux)) \<and>
    highest_file = Max ((\<lambda>(p, f, m). p + f) ` set (segments vmlinux))"
proof -
  have fld: "unpack_field l (take 52 vmlinux) off n = unpack_field l vmlinux off n" if "off + n \<le> 52" for l off n
    using that by (simp add: unpack_field_def drop_take)
  from assms have "for_each (segment_step (little_endian vmlinux) vmlinux
      (unpack_field (little_endian vmlinux) vmlinux 28 4) 32) None
      (map int [0..<nat (unpack_field (little_endian vmlinux) vmlinux 44 2)])
      = Inr (Some (lowest, highest, highest_file))"
    by (auto simp: load_footprint_def Let_def fld result_simps little_endian_def
        split: if_splits option.splits)
  from segment_loop_Inr [OF this] show ?thesis
    by (auto simp: segments_def extremes_def split: if_splits)
qed

text \<open>A minimal ARM ELF file with one loadable segment of 1 MiB at 0x8000.\<close>

definition tiny_elf :: bytes where
  "tiny_elf = [CHR 0x7F, CHR ''E'', CHR ''L'', CHR ''F'', CHR 0x01, CHR 0x01] @ replicate 10 (CHR 0x00)
     @ [CHR 0x02, CHR 0x00, CHR 0x28, CHR 0x00] @ replicate 8 (CHR 0x00) @ [CHR 0x34, CHR 0x00, CHR 0x00, CHR 0x00] @ replicate 10 (CHR 0x00)
     @ [CHR 0x20, CHR 0x00, CHR 0x01, CHR 0x00] @ replicate 6 (CHR 0x00)
     @ [CHR 0x01, CHR 0x00, CHR 0x00, CHR 0x00] @ replicate 8 (CHR 0x00)
     @ [CHR 0x00, CHR 0x80, CHR 0x00, CHR 0x00, CHR 0x00, CHR 0x00, CHR 0x10, CHR 0x00,
        CHR 0x00, CHR 0x00, CHR 0x10, CHR 0x00] @ replicate 8 (CHR 0x00)"

lemma tiny_elf_footprint: "load_footprint tiny_elf = Inr (0x8000, 0x108000, 0x108000)"
  by code_simp

theorem load_footprint_extremes_witness:
  "load_footprint tiny_elf = Inr (0x8000, 0x108000, 0x108000) \<and>
     0x108000 = Max ((\<lambda>(p, f, m). p + m) ` set (segments tiny_elf))"
  using load_footprint_extremes [OF tiny_elf_footprint] tiny_elf_footprint by simp

subsection \<open>The verdict\<close>

lemma extremes_Inr: "load_footprint vmlinux = Inr r \<Longrightarrow> extremes (segments vmlinux) = Some r"
proof -
  assume r: "load_footprint vmlinux = Inr r"
  have fld: "unpack_field l (take 52 vmlinux) off n = unpack_field l vmlinux off n" if "off + n \<le> 52" for l off n
    using that by (simp add: unpack_field_def drop_take)
  from r have "for_each (segment_step (little_endian vmlinux) vmlinux
      (unpack_field (little_endian vmlinux) vmlinux 28 4) 32) None
      (map int [0..<nat (unpack_field (little_endian vmlinux) vmlinux 44 2)]) = Inr (Some r)"
    by (auto simp: load_footprint_def Let_def fld result_simps little_endian_def
        split: if_splits option.splits)
  from segment_loop_Inr [OF this] show ?thesis by (simp add: segments_def)
qed

text \<open>Where the decompressor puts a segment: the lowest one goes to \<open>KERNEL_PHYS\<close>.\<close>

definition relocated :: "bytes \<Rightarrow> int \<Rightarrow> int" where
  "relocated vmlinux p = KERNEL_PHYS + (p - Min ((\<lambda>(p, f, m). p) ` set (segments vmlinux)))"

lemma Max_image_less: "finite A \<Longrightarrow> A \<noteq> {} \<Longrightarrow> Max (g ` A) < (k :: int) \<longleftrightarrow> (\<forall>x \<in> A. g x < k)"
  by simp

text \<open>
  C10: The verdict is exactly memory safety. For a readable kernel, \<open>main\<close> succeeds if and
  only if every loadable segment, moved to where the decompressor puts it, ends below the
  initrd with its \<open>.bss\<close>, and its file-backed part does so even with the relocated zImage
  and the decompressor's scratch area behind it.
\<close>

theorem footprint_main_iff:
  assumes "load_footprint vmlinux = Inr r" and "length argv = 3"
  shows "snd (footprint_main argv vmlinux uimage_size) = Inr () \<longleftrightarrow>
    (\<forall>(p, f, m) \<in> set (segments vmlinux).
       relocated vmlinux p + m < INITRD_LOAD \<and>
       relocated vmlinux p + f + uimage_size + DECOMPRESSOR_SCRATCH < INITRD_LOAD)"
proof -
  obtain lo hi hf where r: "r = (lo, hi, hf)" by (cases r)
  have ext: "extremes (segments vmlinux) = Some (lo, hi, hf)" using extremes_Inr [OF assms(1)] r by simp
  then have ne: "set (segments vmlinux) \<noteq> {}"
    and lo: "lo = Min ((\<lambda>(p, f, m). p) ` set (segments vmlinux))"
    and hi: "hi = Max ((\<lambda>(p, f, m). p + m) ` set (segments vmlinux))"
    and hf: "hf = Max ((\<lambda>(p, f, m). p + f) ` set (segments vmlinux))"
    by (auto simp: extremes_def split: if_splits)
  have "hi < k \<longleftrightarrow> (\<forall>(p, f, m) \<in> set (segments vmlinux). p + m < k)" for k
    unfolding hi by (subst Max_image_less [OF _ ne]) auto
  moreover have "hf < k \<longleftrightarrow> (\<forall>(p, f, m) \<in> set (segments vmlinux). p + f < k)" for k
    unfolding hf by (subst Max_image_less [OF _ ne]) auto
  moreover have "snd (footprint_main argv vmlinux uimage_size) = Inr () \<longleftrightarrow>
      hi < INITRD_LOAD - KERNEL_PHYS + lo \<and>
      hf < INITRD_LOAD - KERNEL_PHYS - uimage_size - DECOMPRESSOR_SCRATCH + lo"
    using assms r by (auto simp: footprint_main_def check_def Let_def)
  ultimately have "snd (footprint_main argv vmlinux uimage_size) = Inr () \<longleftrightarrow>
      (\<forall>(p, f, m) \<in> set (segments vmlinux). p + m < INITRD_LOAD - KERNEL_PHYS + lo) \<and>
      (\<forall>(p, f, m) \<in> set (segments vmlinux).
         p + f < INITRD_LOAD - KERNEL_PHYS - uimage_size - DECOMPRESSOR_SCRATCH + lo)"
    by simp
  also have "\<dots> \<longleftrightarrow> (\<forall>(p, f, m) \<in> set (segments vmlinux).
       relocated vmlinux p + m < INITRD_LOAD \<and>
       relocated vmlinux p + f + uimage_size + DECOMPRESSOR_SCRATCH < INITRD_LOAD)"
    unfolding relocated_def lo [symmetric] by (force simp: algebra_simps)
  finally show ?thesis .
qed

theorem footprint_main_iff_witness:
  "snd (footprint_main [''check'', ''vmlinux'', ''uImage''] tiny_elf 4096) = Inr () \<and>
     list_all (\<lambda>(p, f, m). relocated tiny_elf p + m < INITRD_LOAD) (segments tiny_elf)"
proof -
  have "snd (footprint_main [''check'', ''vmlinux'', ''uImage''] tiny_elf 4096) = Inr ()"
    by (simp add: footprint_main_def check_def tiny_elf_footprint Let_def KERNEL_PHYS_def INITRD_LOAD_def
        DECOMPRESSOR_SCRATCH_def)
  with footprint_main_iff [OF tiny_elf_footprint, of "[''check'', ''vmlinux'', ''uImage'']" 4096]
  show ?thesis by (auto simp: list_all_iff)
qed

text \<open>
  Every run of \<open>main\<close> ends in one of five ways, and the two refusals tell the cause
  apart: a decompressor that would overwrite the initrd, or only a reservation that would
  cover it. The numbers are printed whenever they exist, success or not.
\<close>

theorem footprint_main_outcomes:
  "footprint_main argv vmlinux uimage_size = (
     if length argv \<noteq> 3
     then ([], Inl (SystemExit ''usage: check-kernel-footprint.py VMLINUX UIMAGE''))
     else case load_footprint vmlinux of
       Inl e \<Rightarrow> ([], Inl e)
     | Inr (lowest, highest, highest_file) \<Rightarrow>
         let image_end = KERNEL_PHYS + (highest_file - lowest) + uimage_size + DECOMPRESSOR_SCRATCH;
             bss_end = KERNEL_PHYS + (highest - lowest);
             txt = report (highest_file - lowest) (highest - lowest) uimage_size image_end (max bss_end image_end)
         in (txt,
             if image_end < INITRD_LOAD \<and> bss_end < INITRD_LOAD then Inr ()
             else Inl (SystemExit ((if INITRD_LOAD \<le> image_end
                 then ''the zImage decompressor would overwrite the Buffalo initrd''
                 else ''the kernel reservation (.bss) would cover the initrd and Linux would disable it'')
               @ ''; shrink the package set or compress the embedded initramfs'' @ [CHR 0x0A] @ txt))))"
proof (cases "load_footprint vmlinux")
  case (Inl e)
  then show ?thesis by (simp add: footprint_main_def check_def)
next
  case (Inr r)
  obtain lo hi hf where r: "r = (lo, hi, hf)" by (cases r)
  have "KERNEL_PHYS + max (hi - lo) (hf - lo + uimage_size + DECOMPRESSOR_SCRATCH)
      = max (KERNEL_PHYS + (hi - lo)) (KERNEL_PHYS + (hf - lo) + uimage_size + DECOMPRESSOR_SCRATCH)"
    by linarith
  with Inr r show ?thesis by (auto simp: footprint_main_def check_def Let_def)
qed

end
