(* ===== verification/Sha256.thy ===== *)
theory Sha256
  imports Ramdisk
begin

unbundle bit_operations_syntax

text \<open>
  \<open>hashlib.sha256(data).hexdigest()\<close> on 32-bit words. The scripts compare such digests and
  match them against \<open>[0-9a-f]{64}\<close>; \<open>sha256_hex_form\<close> is the one fact about the digest
  that the rest of the development uses.
\<close>

type_synonym w32 = "32 word"

definition rotr :: "nat \<Rightarrow> w32 \<Rightarrow> w32" where
  "rotr n x = drop_bit n x OR push_bit (32 - n) x"

text \<open>
  The constants, as the standard defines them: the first 32 bits of the fractional parts of
  the cube roots of the first 64 primes, and of the square roots of the first eight.
  \<open>int_root k n\<close> is the integer \<open>k\<close>-th root, built bit by bit from the top.
\<close>

definition int_root :: "nat \<Rightarrow> int \<Rightarrow> int" where
  "int_root k n = foldl (\<lambda>r b. if (r + 2 ^ b) ^ k \<le> n then r + 2 ^ b else r) 0 (rev [0..<40])"

definition frac_root :: "nat \<Rightarrow> nat \<Rightarrow> w32" where
  "frac_root k p = word_of_int (int_root k (int p * 2 ^ (32 * k)))"

definition first_primes :: "nat list" where
  "first_primes = filter (\<lambda>p. list_all (\<lambda>d. p mod d \<noteq> 0) [2..<p]) [2..<312]"

definition round_constants :: "w32 list" where
  "round_constants = map (frac_root 3) first_primes"

definition initial_state :: "w32 list" where
  "initial_state = map (frac_root 2) [2, 3, 5, 7, 11, 13, 17, 19]"

text \<open>Padding: a one bit, zeros, and the length in bits as 64 bits, to blocks of 64 bytes.\<close>

definition sha_pad :: "bytes \<Rightarrow> bytes" where
  "sha_pad bs =
     (let n = int (length bs) in
      bs @ [CHR 0x80] @ replicate (nat ((- (n + 9)) mod 64)) (CHR 0x00)
         @ be32 (8 * n div 2 ^ 32) @ be32 (8 * n))"

text \<open>The message schedule, newest word first while it is built.\<close>

fun extend_schedule :: "nat \<Rightarrow> w32 list \<Rightarrow> w32 list" where
  "extend_schedule 0 ws = ws"
| "extend_schedule (Suc k) ws =
     (let a = ws ! 14; b = ws ! 1;
          s0 = rotr 7 a XOR rotr 18 a XOR drop_bit 3 a;
          s1 = rotr 17 b XOR rotr 19 b XOR drop_bit 10 b
      in extend_schedule k ((ws ! 15 + s0 + ws ! 6 + s1) # ws))"

fun block_words :: "nat \<Rightarrow> bytes \<Rightarrow> w32 list" where
  "block_words 0 bs = []"
| "block_words (Suc k) bs = word_of_int (be_val (take 4 bs)) # block_words k (drop 4 bs)"

definition schedule :: "bytes \<Rightarrow> w32 list" where
  "schedule block = rev (extend_schedule 48 (rev (block_words 16 block)))"

definition sha_round :: "w32 list \<Rightarrow> w32 \<times> w32 \<Rightarrow> w32 list" where
  "sha_round st kw =
     (let a = st ! 0; b = st ! 1; c = st ! 2; d = st ! 3; e = st ! 4; f = st ! 5; g = st ! 6; h = st ! 7;
          s1 = rotr 6 e XOR rotr 11 e XOR rotr 25 e;
          ch = (e AND f) XOR (NOT e AND g);
          t1 = h + s1 + ch + fst kw + snd kw;
          s0 = rotr 2 a XOR rotr 13 a XOR rotr 22 a;
          maj = (a AND b) XOR (a AND c) XOR (b AND c)
      in [t1 + s0 + maj, a, b, c, d + t1, e, f, g])"

definition sha_block :: "w32 list \<Rightarrow> bytes \<Rightarrow> w32 list" where
  "sha_block st block = map2 (+) st (foldl sha_round st (zip round_constants (schedule block)))"

fun sha_blocks :: "nat \<Rightarrow> w32 list \<Rightarrow> bytes \<Rightarrow> w32 list" where
  "sha_blocks 0 st bs = st"
| "sha_blocks (Suc k) st bs = sha_blocks k (sha_block st (take 64 bs)) (drop 64 bs)"

definition sha256_hex :: "bytes \<Rightarrow> string" where
  "sha256_hex bs =
     (let padded = sha_pad bs
      in concat (map (\<lambda>w. fmt_08x (uint w)) (sha_blocks (length padded div 64) initial_state padded)))"

subsection \<open>The form of a digest\<close>

lemma length_sha_round [simp]: "length (sha_round st kw) = 8"
  by (simp add: sha_round_def Let_def)

lemma length_foldl_sha_round [simp]: "length st = 8 \<Longrightarrow> length (foldl sha_round st kws) = 8"
  by (induction kws arbitrary: st) auto

lemma length_sha_blocks: "length st = 8 \<Longrightarrow> length (sha_blocks k st bs) = 8"
  by (induction k arbitrary: st bs) (simp_all add: sha_block_def)

lemma fmt_08x_word:
  "length (fmt_08x (uint (w :: w32))) = 8 \<and> list_all hex_char (fmt_08x (uint w))"
proof -
  have "- 268435456 < uint w" by (rule less_le_trans [of _ 0]) simp_all
  moreover have "uint w < 4294967296" using uint_lt2p [of w] by simp
  ultimately have "fits8 (uint w)" by (simp add: fits8_def)
  then have "length (fmt_08x (uint w)) = 8" by (rule length_fmt_08x)
  moreover have "list_all hex_char (fmt_08x (uint w))"
    using to_base_16_props [of "uint w"] by (simp add: fmt_08x_def)
  ultimately show ?thesis by simp
qed

lemma hex_digit_lang: "s \<in> lang (times n hex_digit) \<longleftrightarrow> length s = n \<and> list_all hex_char s"
  by (auto simp: hex_digit_def lang_times_Cls in_ranges_def hex_char_def list_all_iff)

theorem sha256_hex_form: "fullmatch SHA256 (sha256_hex bs)"
proof -
  define ws where "ws = sha_blocks (length (sha_pad bs) div 64) initial_state (sha_pad bs)"
  have "length ws = 8" unfolding ws_def by (rule length_sha_blocks) (simp add: initial_state_def)
  then have "length (concat (map (\<lambda>w. fmt_08x (uint w)) ws)) = 64"
    using fmt_08x_word by (simp add: length_concat comp_def sum_list_triv)
  moreover have "list_all hex_char (concat (map (\<lambda>w. fmt_08x (uint w)) ws))"
    using fmt_08x_word by (auto simp: list_all_iff)
  ultimately show ?thesis
    by (simp add: SHA256_def fullmatch_iff_lang hex_digit_lang sha256_hex_def Let_def ws_def)
qed

end
