(* ===== verification/Py_Path.thy ===== *)
theory Py_Path
  imports Py_Text
begin

text \<open>
  \<open>pathlib.PurePosixPath\<close>: a root (empty, \<open>/\<close> or exactly \<open>//\<close>) and the parts after it.
  Parsing drops empty and \<open>.\<close> parts and keeps \<open>..\<close>, as pathlib does.
\<close>

record ppath =
  p_root :: string
  p_tail :: "string list"

definition parse_path :: "string \<Rightarrow> ppath" where
  "parse_path s =
     \<lparr>p_root = (if startswith ''//'' s \<and> \<not> startswith ''///'' s then ''//''
               else if startswith ''/'' s then ''/'' else []),
      p_tail = filter (\<lambda>p. p \<noteq> [] \<and> p \<noteq> ''.'') (split_on (CHR ''/'') s)\<rparr>"

definition as_posix :: "ppath \<Rightarrow> string" where
  "as_posix p = (if p_root p = [] \<and> p_tail p = [] then ''.'' else p_root p @ join ''/'' (p_tail p))"

definition is_absolute :: "ppath \<Rightarrow> bool" where
  "is_absolute p \<longleftrightarrow> p_root p \<noteq> []"

text \<open>\<open>path.parts\<close> (the root is a part), \<open>path.name\<close> and \<open>path.parents\<close>.\<close>

definition parts :: "ppath \<Rightarrow> string list" where
  "parts p = (if p_root p = [] then p_tail p else p_root p # p_tail p)"

definition p_name :: "ppath \<Rightarrow> string" where
  "p_name p = (if p_tail p = [] then [] else last (p_tail p))"

definition parents :: "ppath \<Rightarrow> ppath list" where
  "parents p = map (\<lambda>n. p\<lparr>p_tail := take n (p_tail p)\<rparr>) (rev [0..<length (p_tail p)])"

text \<open>\<open>p / q\<close>\<close>

definition p_join :: "ppath \<Rightarrow> ppath \<Rightarrow> ppath" where
  "p_join p q = (if is_absolute q then q else p\<lparr>p_tail := p_tail p @ p_tail q\<rparr>)"

definition wf_path :: "ppath \<Rightarrow> bool" where
  "wf_path p \<longleftrightarrow> p_root p \<in> {[], ''/'', ''//''} \<and>
     (\<forall>c \<in> set (p_tail p). c \<noteq> [] \<and> c \<noteq> ''.'' \<and> CHR ''/'' \<notin> set c)"

lemma wf_parse_path [simp]: "wf_path (parse_path s)"
  by (auto simp: wf_path_def parse_path_def dest: split_on_no_sep)

lemma wf_p_join: "wf_path p \<Longrightarrow> wf_path q \<Longrightarrow> wf_path (p_join p q)"
  by (auto simp: wf_path_def p_join_def)

lemma split_on_Cons_sep: "split_on c (c # s) = [] # split_on c s"
  by simp

lemma parse_as_posix:
  assumes "wf_path p"
  shows "parse_path (as_posix p) = p"
proof -
  have tail: "filter (\<lambda>c. c \<noteq> [] \<and> c \<noteq> ''.'') (p_tail p) = p_tail p"
    using assms by (auto simp: wf_path_def intro: filter_True)
  have split: "p_tail p \<noteq> [] \<Longrightarrow> split_on (CHR ''/'') (join ''/'' (p_tail p)) = p_tail p"
    using assms by (intro split_on_join) (auto simp: wf_path_def)
  have head: "p_tail p \<noteq> [] \<Longrightarrow> \<exists>c s. join ''/'' (p_tail p) = c # s \<and> c \<noteq> CHR ''/''"
  proof (cases "p_tail p")
    case (Cons x xs)
    then obtain c cs where "x = c # cs" "c \<noteq> CHR ''/''"
      using assms by (cases x) (auto simp: wf_path_def)
    then show ?thesis using Cons by (cases xs) auto
  qed simp
  have roots: "p_root p = [] \<or> p_root p = ''/'' \<or> p_root p = ''//''"
    using assms by (auto simp: wf_path_def)
  show ?thesis
  proof (cases "p_tail p = []")
    case True
    with roots show ?thesis
      by (elim disjE) (cases p; simp add: as_posix_def parse_path_def startswith_def)+
  next
    case False
    from head [OF False] obtain c s where cs: "join ''/'' (p_tail p) = c # s" "c \<noteq> CHR ''/''" by auto
    have sp: "split_on (CHR ''/'') (c # s) = p_tail p" using split [OF False] cs by simp
    from roots False cs sp tail show ?thesis
      by (elim disjE) (cases p; simp add: as_posix_def parse_path_def startswith_def del: split_on.simps(2);
        simp add: split_on_Cons_sep del: split_on.simps(2))+
  qed
qed

text \<open>\<open>path.parent\<close>\<close>

definition p_parent :: "ppath \<Rightarrow> ppath" where
  "p_parent p = p\<lparr>p_tail := butlast (p_tail p)\<rparr>"

text \<open>A path without root and without \<open>..\<close> stays below the directory it is joined to.\<close>

definition confined :: "ppath \<Rightarrow> bool" where
  "confined p \<longleftrightarrow> \<not> is_absolute p \<and> ''..'' \<notin> set (p_tail p)"

lemma p_join_confined: "confined q \<Longrightarrow> p_tail (p_join p q) = p_tail p @ p_tail q \<and> p_root (p_join p q) = p_root p"
  by (simp add: confined_def p_join_def)

end
