(* ===== verification/Kernel_Config.thy ===== *)
theory Kernel_Config
  imports Sha256 Py_Path
begin

text \<open>
  \<open>scripts/compare-kernel-config.py\<close>: two kernel configurations are compared after the
  host-dependent root of the two initramfs inputs has been validated and replaced.
  The lemmas show that the replacement leaves every other line alone, so that a match
  means equality up to that one validated setting.
\<close>

subsection \<open>The normalisation\<close>

definition KEY :: string where "KEY = ''CONFIG_INITRAMFS_SOURCE=''"
definition BASE :: string where "BASE = ''/target/linux/generic/image/initramfs-base-files.txt''"

text \<open>\<open>CONFIG_INITRAMFS_SOURCE="([^"\\]*)"\n?\<close> and \<open>/build_dir/target-[A-Za-z0-9_+.-]+/root-mvebu\<close>\<close>

definition quote :: char where "quote = CHR 0x22"

definition source_pattern :: regex where
  "source_pattern = seqs [lit (KEY @ [quote]), star (NCls [(quote, quote), (CHR 0x5C, CHR 0x5C)]),
     chr1 quote, opt (chr1 (CHR 0x0A))]"

definition suffix_pattern :: regex where
  "suffix_pattern = seqs [lit ''/build_dir/target-'',
     plus1 (Cls (alnum_ranges @ [(CHR ''_'', CHR ''_''), (CHR ''+'', CHR ''+''), (CHR ''.'', CHR ''.''), (CHR ''-'', CHR ''-'')])),
     lit ''/root-mvebu'']"

definition canonical_root :: "string \<Rightarrow> bool" where
  "canonical_root root \<longleftrightarrow> startswith ''/'' root \<and> root \<noteq> ''/'' \<and>
     as_posix (parse_path root) = root \<and> ''..'' \<notin> set (parts (parse_path root))"

definition rebased :: "string \<Rightarrow> string" where
  "rebased sfx = KEY @ [quote] @ ''@OPENWRT_SOURCE@'' @ sfx @ '' @OPENWRT_SOURCE@'' @ BASE @ [quote]"

definition normalized :: "string \<Rightarrow> ppath option \<Rightarrow> string result" where
  "normalized txt required_root =
     (let lines = splitlines_keep txt;
          positions = filter (\<lambda>i. startswith KEY (lines ! i)) [0..<length lines]
      in if length positions \<noteq> 1 then Inl (ValueError ''expected exactly one initramfs source setting'')
         else
           let index = hd positions; line = lines ! index in
           if \<not> fullmatch source_pattern line then Inl (ValueError ''unsupported initramfs source syntax'')
           else
             let paths = py_split (takeWhile (\<lambda>c. c \<noteq> quote) (drop (length KEY + 1) line)) in
             if length paths \<noteq> 2 \<or> \<not> endswith BASE (paths ! 1)
             then Inl (ValueError ''unexpected initramfs source inputs'')
             else
               let root = take (length (paths ! 1) - length BASE) (paths ! 1) in
               if \<not> canonical_root root then Inl (ValueError ''noncanonical source root'')
               else if required_root \<noteq> None \<and> root \<noteq> as_posix (the required_root)
               then Inl (ValueError ''rebuilt initramfs source is outside the expected checkout'')
               else
                 let sfx = removeprefix root (paths ! 0) in
                 if \<not> fullmatch suffix_pattern sfx then Inl (ValueError ''unexpected rootfs input'')
                 else if paths ! 0 \<noteq> root @ sfx
                 then Inl (ValueError ''initramfs inputs have different roots'')
                 else
                   let ending = (if endswith [CHR 0x0A] line then [CHR 0x0A] else []) in
                   Inr (concat (lines[index := rebased sfx @ ending])))"

subsection \<open>The report\<close>

record config_report =
  valid_inputs :: bool
  cmp_match :: bool
  expected_sha256 :: string
  actual_sha256 :: string
  differences :: "string list"
  validation_error :: "string option"

text \<open>
  \<open>except ValueError as error\<close>: \<open>normalized\<close> raises nothing else. The diff of the two
  texts is the argument \<open>unified_diff\<close> (\<open>difflib\<close> with its labels); nothing is decided by it.
\<close>

definition error_text :: "exn \<Rightarrow> string" where
  "error_text e = (case e of ValueError m \<Rightarrow> m | _ \<Rightarrow> [])"

definition comparison_report ::
  "(string list \<Rightarrow> string list \<Rightarrow> string list) \<Rightarrow> string \<Rightarrow> string \<Rightarrow> ppath option \<Rightarrow> config_report" where
  "comparison_report unified_diff expected actual actual_root =
     (let rep = \<lparr>valid_inputs = False, cmp_match = False, expected_sha256 = sha256_hex expected,
                 actual_sha256 = sha256_hex actual, differences = [], validation_error = None\<rparr>
      in case rbind (normalized expected None) (\<lambda>left.
              rbind (normalized actual actual_root) (\<lambda>right. Inr (left, right))) of
           Inl e \<Rightarrow> rep\<lparr>validation_error := Some (error_text e)\<rparr>
         | Inr (left, right) \<Rightarrow>
             rep\<lparr>valid_inputs := True, cmp_match := (left = right),
                 differences := unified_diff (splitlines left) (splitlines right)\<rparr>)"

definition compare ::
  "(string list \<Rightarrow> string list \<Rightarrow> string list) \<Rightarrow> string \<Rightarrow> string \<Rightarrow> ppath option \<Rightarrow> unit result" where
  "compare unified_diff expected actual actual_root =
     (let rep = comparison_report unified_diff expected actual actual_root in
      if \<not> valid_inputs rep then Inl (ValueError (the (validation_error rep)))
      else if \<not> cmp_match rep
      then Inl (ValueError ''kernel configurations differ beyond validated source-root relocation'')
      else Inr ())"

text \<open>The script: what it prints, and the exit status (0 for a normal end).\<close>

definition compare_script ::
  "(string list \<Rightarrow> string list \<Rightarrow> string list) \<Rightarrow> bytes \<Rightarrow> bytes \<Rightarrow> ppath \<Rightarrow> (config_report \<times> string \<times> int) result" where
  "compare_script unified_diff expected actual source_root =
     rbind (read_text expected) (\<lambda>expected.
     rbind (read_text actual) (\<lambda>actual.
       let rep = comparison_report unified_diff expected actual (Some source_root) in
       Inr (rep,
         if \<not> valid_inputs rep then (the (validation_error rep) @ [CHR 0x0A], 2)
         else if \<not> cmp_match rep then (join [CHR 0x0A] (differences rep) @ [CHR 0x0A], 1)
         else (''Kernel configs match after validating and rebasing initramfs source roots'' @ [CHR 0x0A], 0))))"

subsection \<open>What the normalisation accepts, and what it leaves alone\<close>

text \<open>
  A well-formed setting: both inputs under one canonical root, the first a target root
  directory, the second the base file list.
\<close>

definition source_setting :: "string \<Rightarrow> string \<Rightarrow> string \<Rightarrow> string \<Rightarrow> bool" where
  "source_setting line root sfx nl \<longleftrightarrow>
     (\<exists>g. line = KEY @ [quote] @ g @ [quote] @ nl \<and> quote \<notin> set g \<and> CHR 0x5C \<notin> set g \<and>
        py_split g = [root @ sfx, root @ BASE] \<and> canonical_root root \<and>
        fullmatch suffix_pattern sfx \<and> (nl = [] \<or> nl = [CHR 0x0A]))"

definition only_setting :: "string \<Rightarrow> string list \<Rightarrow> string \<Rightarrow> string list \<Rightarrow> bool" where
  "only_setting txt before line after \<longleftrightarrow>
     splitlines_keep txt = before @ line # after \<and> list_all (\<lambda>l. \<not> startswith KEY l) (before @ after)"

lemma filter_index_single:
  "filter (\<lambda>i. P (xs ! i)) [0..<length xs] = [k] \<longleftrightarrow>
     k < length xs \<and> P (xs ! k) \<and> list_all (\<lambda>x. \<not> P x) (take k xs @ drop (Suc k) xs)"
proof
  assume eq: "filter (\<lambda>i. P (xs ! i)) [0..<length xs] = [k]"
  then have "set (filter (\<lambda>i. P (xs ! i)) [0..<length xs]) = {k}" by simp
  then have all: "{i. i < length xs \<and> P (xs ! i)} = {k}" by auto
  then have k: "k < length xs" "P (xs ! k)" by auto
  have only: "i = k" if "i < length xs" "P (xs ! i)" for i using all that by auto
  have "\<not> P x" if "x \<in> set (take k xs)" for x
  proof -
    from that obtain j where "j < k" "x = xs ! j" by (auto simp: in_set_conv_nth)
    with only [of j] k(1) show ?thesis by auto
  qed
  moreover have "\<not> P x" if "x \<in> set (drop (Suc k) xs)" for x
  proof -
    from that obtain j where "j < length xs - Suc k" "x = xs ! (Suc k + j)"
      by (auto simp: in_set_conv_nth)
    moreover from this have "Suc k + j < length xs" by simp
    ultimately show ?thesis using only [of "Suc k + j"] by auto
  qed
  ultimately show "k < length xs \<and> P (xs ! k) \<and> list_all (\<lambda>x. \<not> P x) (take k xs @ drop (Suc k) xs)"
    using k by (auto simp: list_all_iff)
next
  assume k: "k < length xs \<and> P (xs ! k) \<and> list_all (\<lambda>x. \<not> P x) (take k xs @ drop (Suc k) xs)"
  have split: "[0..<length xs] = [0..<k] @ k # [Suc k..<length xs]"
  proof -
    obtain m where m: "length xs = Suc (k + m)" using k by (auto simp: less_iff_Suc_add)
    show ?thesis
      using upt_add_eq_append [of 0 k "Suc m"] by (simp add: m upt_conv_Cons del: upt.simps)
  qed
  have "\<not> P (xs ! i)" if "i < k" for i
  proof -
    have "xs ! i \<in> set (take k xs)" using k that by (auto simp: in_set_conv_nth)
    with k show ?thesis by (auto simp: list_all_iff)
  qed
  moreover have "\<not> P (xs ! i)" if "k < i" "i < length xs" for i
  proof -
    have "xs ! i \<in> set (drop (Suc k) xs)"
      using that by (auto simp: in_set_conv_nth intro!: exI [of _ "i - Suc k"])
    with k show ?thesis by (auto simp: list_all_iff)
  qed
  ultimately show "filter (\<lambda>i. P (xs ! i)) [0..<length xs] = [k]"
    using k by (simp add: split filter_empty_conv)
qed

lemma source_pattern_iff:
  "fullmatch source_pattern line \<longleftrightarrow>
     (\<exists>g nl. line = KEY @ [quote] @ g @ [quote] @ nl \<and> quote \<notin> set g \<and> CHR 0x5C \<notin> set g \<and>
        (nl = [] \<or> nl = [CHR 0x0A]))"
  by (auto simp: source_pattern_def fullmatch_iff_lang conc_def lang_simps in_ranges_def)

lemma setting_text:
  assumes "quote \<notin> set g"
  shows "takeWhile (\<lambda>c. c \<noteq> quote) (drop (length KEY + 1) (KEY @ [quote] @ g @ [quote] @ nl)) = g"
proof -
  have "takeWhile (\<lambda>c. c \<noteq> quote) (g @ quote # nl) = g" using assms by (induction g) auto
  then show ?thesis by simp
qed

lemma endswith_single: "endswith [c] (xs @ [d]) \<longleftrightarrow> c = d"
  by (auto simp: endswith_iff)

lemma setting_ending:
  "nl = [] \<or> nl = [CHR 0x0A] \<Longrightarrow>
     (if endswith [CHR 0x0A] (KEY @ [quote] @ g @ [quote] @ nl) then [CHR 0x0A] else []) = nl"
  using endswith_single [of "CHR 0x0A" "KEY @ [quote] @ g" quote]
    endswith_single [of "CHR 0x0A" "KEY @ [quote] @ g @ [quote]" "CHR 0x0A"]
  by (auto simp: quote_def)

lemma normalizedD:
  assumes "normalized txt req = Inr out"
  shows "\<exists>before line after root sfx nl. only_setting txt before line after \<and>
    source_setting line root sfx nl \<and> (\<forall>r. req = Some r \<longrightarrow> root = as_posix r) \<and>
    out = concat before @ rebased sfx @ nl @ concat after"
proof -
  let ?lines = "splitlines_keep txt"
  let ?pos = "filter (\<lambda>i. startswith KEY (?lines ! i)) [0..<length ?lines]"
  note def = assms [unfolded normalized_def Let_def]
  from def have "length ?pos = 1" by (auto split: if_splits)
  then obtain k where pos: "?pos = [k]" by (auto simp: length_Suc_conv)
  define line where "line = ?lines ! k"
  have k: "k < length ?lines" "list_all (\<lambda>l. \<not> startswith KEY l) (take k ?lines @ drop (Suc k) ?lines)"
    using pos [unfolded filter_index_single] by auto
  have "?lines = take k ?lines @ line # drop (Suc k) ?lines"
    using id_take_nth_drop [OF k(1)] by (simp add: line_def)
  then have only: "only_setting txt (take k ?lines) line (drop (Suc k) ?lines)"
    using k(2) by (simp add: only_setting_def)
  note def = def [unfolded pos list.sel line_def [symmetric]]
  from def have "fullmatch source_pattern line" by (auto split: if_splits)
  then obtain g nl where g: "line = KEY @ [quote] @ g @ [quote] @ nl" "quote \<notin> set g" "CHR 0x5C \<notin> set g"
      "nl = [] \<or> nl = [CHR 0x0A]"
    by (auto simp: source_pattern_iff)
  have inner: "takeWhile (\<lambda>c. c \<noteq> quote) (drop (length KEY + 1) line) = g"
    using setting_text [OF g(2)] g(1) by simp
  note def = def [unfolded inner setting_ending [OF g(4), of g, folded g(1)]]
  from def have "length (py_split g) = 2" by (auto split: if_splits)
  then obtain p q where pq: "py_split g = [p, q]" by (auto simp: length_Suc_conv numeral_2_eq_2)
  from def have "endswith BASE q" by (auto split: if_splits simp: pq)
  then obtain root where q: "q = root @ BASE" by (auto simp: endswith_iff)
  define sfx where "sfx = removeprefix root p"
  from def have rest: "canonical_root root" "req \<noteq> None \<Longrightarrow> root = as_posix (the req)"
      "fullmatch suffix_pattern sfx" "p = root @ sfx"
      "out = concat (?lines[k := rebased sfx @ nl])"
    by (auto split: if_splits simp: pq q sfx_def)
  have "source_setting line root sfx nl"
    using g pq q rest by (auto simp: source_setting_def)
  moreover have "out = concat (take k ?lines) @ rebased sfx @ nl @ concat (drop (Suc k) ?lines)"
    using rest(5) k(1) by (simp add: upd_conv_take_nth_drop)
  ultimately show ?thesis using only rest(2) by (metis option.distinct(1) option.sel)
qed

lemma normalizedI:
  assumes only: "only_setting txt before line after" and set: "source_setting line root sfx nl"
    and req: "\<And>r. req = Some r \<Longrightarrow> root = as_posix r"
  shows "normalized txt req = Inr (concat before @ rebased sfx @ nl @ concat after)"
proof -
  let ?lines = "splitlines_keep txt" and ?k = "length before"
  from set obtain g where g: "line = KEY @ [quote] @ g @ [quote] @ nl" "quote \<notin> set g" "CHR 0x5C \<notin> set g"
      "py_split g = [root @ sfx, root @ BASE]" "canonical_root root" "fullmatch suffix_pattern sfx"
      "nl = [] \<or> nl = [CHR 0x0A]"
    by (auto simp: source_setting_def)
  have lines: "?lines = before @ line # after" using only by (simp add: only_setting_def)
  have "startswith KEY line" using g(1) by simp
  then have pos: "filter (\<lambda>i. startswith KEY (?lines ! i)) [0..<length ?lines] = [?k]"
    using only by (subst filter_index_single) (auto simp: only_setting_def list_all_iff)
  have line: "?lines ! ?k = line" "\<And>x. concat (?lines[?k := x]) = concat before @ x @ concat after"
    by (simp_all add: lines)
  have "fullmatch source_pattern line" using g by (auto simp: source_pattern_iff)
  moreover have "takeWhile (\<lambda>c. c \<noteq> quote) (drop (length KEY + 1) line) = g"
    using setting_text [OF g(2)] g(1) by simp
  moreover have "(if endswith [CHR 0x0A] line then [CHR 0x0A] else []) = nl"
    using setting_ending [OF g(7)] g(1) by simp
  moreover have "endswith BASE (root @ BASE)" by (auto simp: endswith_iff)
  moreover have "req = None \<or> root = as_posix (the req)" using req by (cases req) auto
  ultimately show ?thesis
    using g(4-6) by (auto simp: normalized_def pos line Let_def)
qed

subsection \<open>The replacement does not move a line boundary\<close>

lemma suffix_printable: "fullmatch suffix_pattern sfx \<Longrightarrow> list_all printable sfx"
  by (rule visible_printable, erule fullmatch_visible)
    (simp add: suffix_pattern_def chr1_def plus1_def alnum_ranges_def ranges_within_def)

lemma rebased_printable: "fullmatch suffix_pattern sfx \<Longrightarrow> list_all printable (rebased sfx)"
  using suffix_printable by (simp add: rebased_def KEY_def BASE_def quote_def printable_def)

lemma setting_piece:
  assumes "(l, e) \<in> set (split_seps str_nls txt)" and "l @ e = KEY @ [quote] @ g @ [quote] @ nl"
    and "nl = [] \<or> nl = [CHR 0x0A]"
  shows "e = nl \<and> l = KEY @ [quote] @ g @ [quote]"
proof -
  have l: "CHR 0x0A \<notin> set l" and e: "e = [] \<or> e \<in> set str_nls"
    using split_seps_piece [OF assms(1)] by (auto simp: str_nls_def bytes_nls_def)
  show ?thesis
  proof (cases "nl = []")
    case True
    then have "e \<noteq> [] \<Longrightarrow> last e = quote" using assms(2) by (metis append_assoc append_Nil2 last_appendR last_snoc)
    then have "e = []" using e by (auto simp: str_nls_def bytes_nls_def quote_def)
    with True assms(2) show ?thesis by simp
  next
    case False
    then have nl: "nl = [CHR 0x0A]" using assms(3) by simp
    then have ne: "e \<noteq> []" using l assms(2) by auto
    then have "last e = CHR 0x0A" using assms(2) nl by (metis append_assoc last_appendR last_snoc)
    then have "e = [CHR 0x0A] \<or> e = [CHR 0x0D, CHR 0x0A]"
      using e ne by (auto simp: str_nls_def bytes_nls_def)
    moreover have "e \<noteq> [CHR 0x0D, CHR 0x0A]"
    proof
      assume "e = [CHR 0x0D, CHR 0x0A]"
      then have "(l @ [CHR 0x0D]) @ [CHR 0x0A] = ((KEY @ [quote] @ g) @ [quote]) @ [CHR 0x0A]"
        using assms(2) nl by simp
      then show False by (simp add: quote_def)
    qed
    ultimately show ?thesis using assms(2) nl by auto
  qed
qed

lemma normalized_lines:
  assumes "only_setting txt before line after" and "source_setting line root sfx nl"
  shows "only_setting (concat before @ rebased sfx @ nl @ concat after) before (rebased sfx @ nl) after"
proof -
  let ?cat = "\<lambda>(l, e). l @ e" and ?rest = "[quote] @ ''@OPENWRT_SOURCE@'' @ sfx @ '' @OPENWRT_SOURCE@'' @ BASE @ [quote]"
  from assms(2) obtain g where g: "line = KEY @ [quote] @ g @ [quote] @ nl"
      "fullmatch suffix_pattern sfx" "nl = [] \<or> nl = [CHR 0x0A]"
    by (auto simp: source_setting_def)
  from assms(1) obtain ps l e qs where pieces: "split_seps str_nls txt = ps @ (l, e) # qs"
      "before = map ?cat ps" "line = l @ e" "after = map ?cat qs"
    by (auto simp: only_setting_def splitlines_keep_def map_eq_append_conv)
  have le: "e = nl" "l = KEY @ [quote] @ g @ [quote]"
    using setting_piece [of l e "txt" g nl] pieces g by simp_all
  have "split_seps str_nls (unsplit ps @ KEY @ ?rest @ nl @ unsplit qs) = ps @ (KEY @ ?rest, nl) # qs"
  proof (rule split_seps_swap)
    show "list_all (\<lambda>w. length w \<le> 3) str_nls" by (simp add: str_nls_def bytes_nls_def)
    show "3 \<le> length KEY" "KEY \<noteq> []" by (simp_all add: KEY_def)
    show "sep_free str_nls (KEY @ ?rest)"
      using printable_sep_free [OF rebased_printable [OF g(2)]] by (simp add: rebased_def)
    show "split_seps str_nls txt = ps @ (KEY @ [quote] @ g @ [quote], nl) # qs" using pieces le by simp
  qed
  then have "splitlines_keep (concat before @ rebased sfx @ nl @ concat after) = before @ (rebased sfx @ nl) # after"
    using pieces by (simp add: splitlines_keep_def unsplit_def rebased_def)
  with assms(1) show ?thesis by (simp add: only_setting_def)
qed

lemma only_setting_unique:
  assumes "only_setting txt xs l bs" "only_setting txt xs' l' bs'" "startswith KEY l" "startswith KEY l'"
  shows "xs = xs' \<and> l = l' \<and> bs = bs'"
proof -
  have eq: "xs @ l # bs = xs' @ l' # bs'" using assms(1,2) by (simp add: only_setting_def)
  have no: "\<And>x. x \<in> set xs \<union> set xs' \<Longrightarrow> \<not> startswith KEY x" "\<And>x. x \<in> set bs \<union> set bs' \<Longrightarrow> \<not> startswith KEY x"
    using assms(1,2) by (auto simp: only_setting_def list_all_iff)
  have "dropWhile (\<lambda>x. \<not> startswith KEY x) (xs @ l # bs) = l # bs"
    "dropWhile (\<lambda>x. \<not> startswith KEY x) (xs' @ l' # bs') = l' # bs'"
    using no(1) assms(3,4) by (simp_all add: dropWhile_append2)
  with eq show ?thesis by auto
qed

text \<open>
  C16: A match means equality up to the validated setting. \<open>compare\<close> succeeds exactly when
  the two configurations have the same lines before and after one well-formed initramfs
  setting each, the settings name the same target directory, and the rebuilt one's root is
  the expected checkout. Nothing else is forgiven, and every such pair is accepted.
\<close>

theorem compare_iff:
  "compare unified_diff expected actual actual_root = Inr () \<longleftrightarrow>
     (\<exists>before after line line' root root' sfx nl.
        only_setting expected before line after \<and> source_setting line root sfx nl \<and>
        only_setting actual before line' after \<and> source_setting line' root' sfx nl \<and>
        (case actual_root of None \<Rightarrow> True | Some r \<Rightarrow> root' = as_posix r))"
  (is "?L \<longleftrightarrow> ?R")
proof
  assume ?L
  then obtain out where out: "normalized expected None = Inr out" "normalized actual actual_root = Inr out"
    by (auto simp: compare_def comparison_report_def Let_def result_simps split: if_splits sum.splits)
  from normalizedD [OF out(1)] obtain before line after root sfx nl
    where 1: "only_setting expected before line after" "source_setting line root sfx nl"
      "out = concat before @ rebased sfx @ nl @ concat after" by blast
  from normalizedD [OF out(2)] obtain before' line' after' root' sfx' nl'
    where 2: "only_setting actual before' line' after'" "source_setting line' root' sfx' nl'"
      "\<forall>r. actual_root = Some r \<longrightarrow> root' = as_posix r"
      "out = concat before' @ rebased sfx' @ nl' @ concat after'" by blast
  have "startswith KEY (rebased s @ n)" for s n by (simp add: rebased_def)
  with only_setting_unique [of out before "rebased sfx @ nl" after before' "rebased sfx' @ nl'" after']
  have same: "before = before'" "rebased sfx @ nl = rebased sfx' @ nl'" "after = after'"
    using normalized_lines [OF 1(1,2)] normalized_lines [OF 2(1,2)] 1(3) 2(4) by simp_all
  have "sfx = sfx' \<and> nl = nl'"
    using same(2) 1(2) 2(2) by (auto simp: rebased_def source_setting_def quote_def)
  with 1 2 same show ?R by (fastforce split: option.splits)
next
  assume ?R
  then obtain before after line line' root root' sfx nl
    where R: "only_setting expected before line after" "source_setting line root sfx nl"
      "only_setting actual before line' after" "source_setting line' root' sfx nl"
      "case actual_root of None \<Rightarrow> True | Some r \<Rightarrow> root' = as_posix r" by blast
  have "normalized expected None = Inr (concat before @ rebased sfx @ nl @ concat after)"
    using R(1,2) by (rule normalizedI) simp
  moreover have "normalized actual actual_root = Inr (concat before @ rebased sfx @ nl @ concat after)"
    using R(3,4) by (rule normalizedI) (use R(5) in simp)
  ultimately show ?L by (simp add: compare_def comparison_report_def Let_def)
qed

end
