(* ===== verification/Py_Json.thy ===== *)
theory Py_Json
  imports Py_Text
begin

text \<open>
  The values \<open>json.loads\<close> gives, and Python dictionaries as association lists in insertion
  order: lookup by subscript, \<open>in\<close>, assignment and \<open>update\<close>.
\<close>

datatype json =
    JNull
  | JBool bool
  | JInt int
  | JFloat string
  | JStr string
  | JArr "json list"
  | JObj "(string \<times> json) list"

type_synonym 'a dict = "(string \<times> 'a) list"

definition dict_keys :: "'a dict \<Rightarrow> string list" where
  "dict_keys d = map fst d"

fun dict_set :: "string \<Rightarrow> 'a \<Rightarrow> 'a dict \<Rightarrow> 'a dict" where
  "dict_set k v [] = [(k, v)]"
| "dict_set k v ((k', v') # d) = (if k = k' then (k, v) # d else (k', v') # dict_set k v d)"

definition dict_update :: "'a dict \<Rightarrow> 'a dict \<Rightarrow> 'a dict" where
  "dict_update d e = foldl (\<lambda>d (k, v). dict_set k v d) d e"

text \<open>\<open>d[k]\<close> on a dictionary, and on any value.\<close>

definition dict_get :: "'a dict \<Rightarrow> string \<Rightarrow> 'a result" where
  "dict_get d k = (case map_of d k of None \<Rightarrow> Inl (KeyError k) | Some v \<Rightarrow> Inr v)"

definition getitem :: "json \<Rightarrow> string \<Rightarrow> json result" where
  "getitem j k = (case j of JObj d \<Rightarrow> dict_get d k | _ \<Rightarrow> Inl (TypeError ''subscript''))"

text \<open>\<open>set(j)\<close>: the keys, the elements (which must be hashable), the characters.\<close>

definition hashable :: "json \<Rightarrow> bool" where
  "hashable j = (case j of JArr _ \<Rightarrow> False | JObj _ \<Rightarrow> False | _ \<Rightarrow> True)"

text \<open>The characters of a string, each with its UTF-8 continuation bytes.\<close>

fun code_points :: "string \<Rightarrow> string list" where
  "code_points [] = []"
| "code_points (c # s) =
     (case code_points s of
        [] \<Rightarrow> [[c]]
      | p # ps \<Rightarrow> if cont (hd p) then (c # p) # ps else [c] # p # ps)"

definition py_set :: "json \<Rightarrow> json list result" where
  "py_set j =
     (case j of
        JObj d \<Rightarrow> Inr (map JStr (dict_keys d))
      | JArr xs \<Rightarrow> (if list_all hashable xs then Inr xs else Inl (TypeError ''unhashable''))
      | JStr s \<Rightarrow> Inr (map JStr (code_points s))
      | _ \<Rightarrow> Inl (TypeError ''not iterable''))"

text \<open>\<open>iter(j)\<close>, and \<open>j[k]\<close> that must be a string.\<close>

definition py_iter :: "json \<Rightarrow> json list result" where
  "py_iter j = (case j of
     JArr xs \<Rightarrow> Inr xs
   | JObj d \<Rightarrow> Inr (map JStr (dict_keys d))
   | JStr s \<Rightarrow> Inr (map JStr (code_points s))
   | _ \<Rightarrow> Inl (TypeError ''not iterable''))"

definition str_field :: "json \<Rightarrow> string \<Rightarrow> string result" where
  "str_field j k = rbind (getitem j k) (\<lambda>v. case v of JStr s \<Rightarrow> Inr s | _ \<Rightarrow> Inl (TypeError ''expected string''))"

subsection \<open>Dictionary facts\<close>

lemma map_of_dict_set [simp]: "map_of (dict_set k v d) = (map_of d)(k \<mapsto> v)"
  by (induction k v d rule: dict_set.induct) (auto simp: fun_eq_iff)

lemma keys_dict_set: "set (dict_keys (dict_set k v d)) = insert k (set (dict_keys d))"
  by (induction k v d rule: dict_set.induct) (auto simp: dict_keys_def)

lemma distinct_dict_set: "distinct (dict_keys d) \<Longrightarrow> distinct (dict_keys (dict_set k v d))"
proof (induction k v d rule: dict_set.induct)
  case (2 k v k' v' d)
  then show ?case using keys_dict_set [of k v d] by (auto simp: dict_keys_def)
qed (simp add: dict_keys_def)

lemma dict_set_new: "k \<notin> set (dict_keys d) \<Longrightarrow> dict_set k v d = d @ [(k, v)]"
  by (induction k v d rule: dict_set.induct) (auto simp: dict_keys_def)

lemma dict_update_new:
  "distinct (dict_keys e) \<Longrightarrow> set (dict_keys d) \<inter> set (dict_keys e) = {} \<Longrightarrow> dict_update d e = d @ e"
proof (induction e arbitrary: d)
  case (Cons p e)
  then have "dict_update (d @ [p]) e = (d @ [p]) @ e" by (intro Cons.IH) (auto simp: dict_keys_def)
  moreover have "dict_set (fst p) (snd p) d = d @ [p]"
    using Cons.prems by (subst dict_set_new) (auto simp: dict_keys_def)
  ultimately show ?case by (cases p) (simp add: dict_update_def)
qed (simp add: dict_update_def)

lemma dict_get_Inr [result_simps]: "dict_get d k = Inr v \<longleftrightarrow> map_of d k = Some v"
  by (simp add: dict_get_def split: option.splits)

lemma str_field_Inr [result_simps]: "str_field j k = Inr s \<longleftrightarrow> getitem j k = Inr (JStr s)"
proof (cases "getitem j k")
  case (Inr v)
  then show ?thesis by (cases v) (simp_all add: str_field_def)
qed (simp add: str_field_def)

text \<open>\<open>value.get(key, default)\<close>\<close>

definition json_get :: "json \<Rightarrow> string \<Rightarrow> json \<Rightarrow> json result" where
  "json_get j k def = (case j of JObj d \<Rightarrow> Inr (case map_of d k of None \<Rightarrow> def | Some v \<Rightarrow> v) | _ \<Rightarrow> Inl (AttributeError ''get''))"

end
