(* ===== verification/File_System.thy ===== *)
theory File_System
  imports Py_Path
begin

text \<open>
  The file system as the scripts use it through \<open>pathlib\<close> and \<open>os\<close>: a map from absolute
  component lists to nodes, and path resolution as the kernel does it (symbolic links,
  \<open>..\<close>, at most forty links), and the operations that read and change it. Permission checks
  and hard links are not part of it: the scripts run as the owner of every file they touch.
\<close>

datatype node =
    File int bytes      \<comment> \<open>permission bits, contents\<close>
  | Dir int             \<comment> \<open>permission bits\<close>
  | Link string         \<comment> \<open>target\<close>

text \<open>
  The nodes are an association list from absolute component lists, so that a directory can
  be listed; a location has the node of its first entry. \<open>umask\<close> are the permission bits a
  new file does not get.
\<close>

record fsys =
  fs_entries :: "(string list \<times> node) list"
  cwd :: "string list"
  umask :: int

definition nodes :: "fsys \<Rightarrow> string list \<Rightarrow> node option" where
  "nodes fs = map_of (fs_entries fs)"

definition ENOENT :: exn where "ENOENT = OSError ''ENOENT''"
definition ENOTDIR :: exn where "ENOTDIR = OSError ''ENOTDIR''"
definition ELOOP :: exn where "ELOOP = OSError ''ELOOP''"
definition EEXIST :: exn where "EEXIST = OSError ''EEXIST''"
definition EISDIR :: exn where "EISDIR = OSError ''EISDIR''"

text \<open>
  \<open>walk\<close> resolves the remaining components from the directory \<open>cur\<close>. The last component
  may be missing (for creation); a link there is followed when \<open>follow\<close> is set.
\<close>

function walk :: "fsys \<Rightarrow> bool \<Rightarrow> nat \<Rightarrow> string list \<Rightarrow> string list \<Rightarrow> (string list) result" where
  "walk fs follow fuel cur [] = Inr cur"
| "walk fs follow fuel cur (c # cs) =
     (if c = ''..'' then walk fs follow fuel (butlast cur) cs
      else case nodes fs (cur @ [c]) of
          None \<Rightarrow> if cs = [] then Inr (cur @ [c]) else Inl ENOENT
        | Some (Dir _) \<Rightarrow> walk fs follow fuel (cur @ [c]) cs
        | Some (File _ _) \<Rightarrow> if cs = [] then Inr (cur @ [c]) else Inl ENOTDIR
        | Some (Link target) \<Rightarrow>
            if cs = [] \<and> \<not> follow then Inr (cur @ [c])
            else if fuel = 0 then Inl ELOOP
            else
              let p = parse_path target in
              walk fs follow (fuel - 1) (if is_absolute p then [] else cur) (p_tail p @ cs))"
  by pat_completeness auto
termination
  by (relation "measures [\<lambda>(fs, follow, fuel, cur, cs). fuel, \<lambda>(fs, follow, fuel, cur, cs). length cs]") auto

definition MAX_LINKS :: nat where "MAX_LINKS = 40"

definition resolve :: "fsys \<Rightarrow> bool \<Rightarrow> ppath \<Rightarrow> (string list) result" where
  "resolve fs follow p = walk fs follow MAX_LINKS (if is_absolute p then [] else cwd fs) (p_tail p)"

text \<open>The root is a directory that needs no entry.\<close>

definition node_at :: "fsys \<Rightarrow> string list \<Rightarrow> node result" where
  "node_at fs loc =
     (if loc = [] then Inr (Dir 493)
      else case nodes fs loc of None \<Rightarrow> Inl ENOENT | Some n \<Rightarrow> Inr n)"

definition lstat :: "fsys \<Rightarrow> ppath \<Rightarrow> node result" where
  "lstat fs p = rbind (resolve fs False p) (node_at fs)"

definition stat :: "fsys \<Rightarrow> ppath \<Rightarrow> node result" where
  "stat fs p = rbind (resolve fs True p) (node_at fs)"

text \<open>The predicates of \<open>pathlib\<close> answer \<open>False\<close> where \<open>stat\<close> fails.\<close>

definition is_symlink :: "fsys \<Rightarrow> ppath \<Rightarrow> bool" where
  "is_symlink fs p = (case lstat fs p of Inr (Link _) \<Rightarrow> True | _ \<Rightarrow> False)"

definition is_file :: "fsys \<Rightarrow> ppath \<Rightarrow> bool" where
  "is_file fs p = (case stat fs p of Inr (File _ _) \<Rightarrow> True | _ \<Rightarrow> False)"

definition is_dir :: "fsys \<Rightarrow> ppath \<Rightarrow> bool" where
  "is_dir fs p = (case stat fs p of Inr (Dir _) \<Rightarrow> True | _ \<Rightarrow> False)"

definition exists :: "fsys \<Rightarrow> ppath \<Rightarrow> bool" where
  "exists fs p = (case stat fs p of Inr _ \<Rightarrow> True | Inl _ \<Rightarrow> False)"

definition st_size :: "node \<Rightarrow> int" where
  "st_size n = (case n of File _ bs \<Rightarrow> int (length bs) | Link t \<Rightarrow> int (length t) | Dir _ \<Rightarrow> 4096)"

definition st_perm :: "node \<Rightarrow> int" where
  "st_perm n = (case n of File m _ \<Rightarrow> m | Dir m \<Rightarrow> m | Link _ \<Rightarrow> 511)"

definition read_bytes :: "fsys \<Rightarrow> ppath \<Rightarrow> bytes result" where
  "read_bytes fs p = rbind (stat fs p) (\<lambda>n.
     case n of File _ bs \<Rightarrow> Inr bs | Dir _ \<Rightarrow> Inl EISDIR | Link _ \<Rightarrow> Inl ELOOP)"

definition read_string :: "fsys \<Rightarrow> ppath \<Rightarrow> string result" where
  "read_string fs p = rbind (read_bytes fs p) read_text"

text \<open>\<open>path.iterdir()\<close>, as the names in the directory, and \<open>path.rglob('*')\<close>, as the components below it.\<close>

definition children :: "fsys \<Rightarrow> string list \<Rightarrow> string list" where
  "children fs loc =
     remdups (map last (filter (\<lambda>l. l \<noteq> [] \<and> butlast l = loc) (map fst (fs_entries fs))))"

definition iterdir :: "fsys \<Rightarrow> ppath \<Rightarrow> (string list) result" where
  "iterdir fs p =
     rbind (resolve fs True p) (\<lambda>loc.
     rbind (node_at fs loc) (\<lambda>n.
       case n of Dir _ \<Rightarrow> Inr (children fs loc) | _ \<Rightarrow> Inl ENOTDIR))"

definition below :: "fsys \<Rightarrow> string list \<Rightarrow> string list list" where
  "below fs loc =
     remdups (map (drop (length loc))
       (filter (\<lambda>l. length loc < length l \<and> take (length loc) l = loc) (map fst (fs_entries fs))))"

definition rglob :: "fsys \<Rightarrow> ppath \<Rightarrow> (string list list) result" where
  "rglob fs p = rbind (resolve fs True p) (\<lambda>loc. Inr (below fs loc))"

text \<open>
  \<open>path.resolve()\<close> (not strict): every link is replaced, what is missing is kept as it is
  written, and \<open>..\<close> removes a component of what is resolved so far. \<open>busy\<close> are the links
  being resolved; meeting one of them again is a loop, which \<open>pathlib\<close> reports as
  \<open>RuntimeError\<close>.
\<close>

lemma busy_decreases:
  assumes "nodes fs l = Some n" "l \<notin> set busy"
  shows "card (set (map fst (fs_entries fs)) - set (l # busy)) < card (set (map fst (fs_entries fs)) - set busy)"
proof -
  have "l \<in> set (map fst (fs_entries fs))" using assms(1) map_of_key_in_set by (auto simp: nodes_def)
  then show ?thesis using assms(2) by (intro psubset_card_mono) auto
qed

function realpath :: "fsys \<Rightarrow> string list list \<Rightarrow> string list \<Rightarrow> string list \<Rightarrow> (string list) option" where
  "realpath fs busy cur [] = Some cur"
| "realpath fs busy cur (c # cs) =
     (if c = ''..'' then realpath fs busy (butlast cur) cs
      else case nodes fs (cur @ [c]) of
          Some (Link target) \<Rightarrow>
            if cur @ [c] \<in> set busy then None
            else (case realpath fs ((cur @ [c]) # busy) (if is_absolute (parse_path target) then [] else cur)
                    (p_tail (parse_path target)) of
                None \<Rightarrow> None
              | Some cur' \<Rightarrow> realpath fs busy cur' cs)
        | _ \<Rightarrow> realpath fs busy (cur @ [c]) cs)"
  by pat_completeness auto

termination
  by (relation "measures [\<lambda>(fs, busy, cur, cs). card (set (map fst (fs_entries fs)) - set busy),
       \<lambda>(fs, busy, cur, cs). length cs]")
    (auto dest: busy_decreases)

definition py_resolve :: "fsys \<Rightarrow> ppath \<Rightarrow> (string list) result" where
  "py_resolve fs p =
     (case realpath fs [] (if is_absolute p then [] else cwd fs) (p_tail p) of
        None \<Rightarrow> Inl (RuntimeError ''Symlink loop'')
      | Some loc \<Rightarrow> Inr loc)"

definition is_relative_to :: "string list \<Rightarrow> string list \<Rightarrow> bool" where
  "is_relative_to loc base \<longleftrightarrow> take (length base) loc = base"

text \<open>\<open>p / name\<close> for one component.\<close>

definition child :: "ppath \<Rightarrow> string \<Rightarrow> ppath" where
  "child p name = p\<lparr>p_tail := p_tail p @ [name]\<rparr>"

text \<open>\<open>any(p.is_symlink() for p in (path, *path.parents))\<close>\<close>

definition symlinked :: "fsys \<Rightarrow> ppath \<Rightarrow> bool" where
  "symlinked fs p \<longleftrightarrow> list_ex (is_symlink fs) (p # parents p)"

subsection \<open>Changes\<close>

definition fs_put :: "string list \<Rightarrow> node \<Rightarrow> fsys \<Rightarrow> fsys" where
  "fs_put loc n fs = fs\<lparr>fs_entries := (loc, n) # filter (\<lambda>e. fst e \<noteq> loc) (fs_entries fs)\<rparr>"

definition perm_for :: "fsys \<Rightarrow> int \<Rightarrow> int" where
  "perm_for fs mode = and mode (not (umask fs))"

text \<open>\<open>os.mkdir\<close>, \<open>open('xb')\<close> and \<open>symlink_to\<close> create what does not exist, not even as a link.\<close>

definition create :: "fsys \<Rightarrow> ppath \<Rightarrow> node \<Rightarrow> fsys result" where
  "create fs p n =
     rbind (resolve fs False p) (\<lambda>loc.
       case node_at fs loc of
         Inr _ \<Rightarrow> Inl EEXIST
       | Inl _ \<Rightarrow> Inr (fs_put loc n fs))"

definition os_mkdir :: "fsys \<Rightarrow> ppath \<Rightarrow> fsys result" where
  "os_mkdir fs p = create fs p (Dir (perm_for fs 511))"

definition open_xb :: "fsys \<Rightarrow> ppath \<Rightarrow> bytes \<Rightarrow> fsys result" where
  "open_xb fs p bs = create fs p (File (perm_for fs 438) bs)"

definition symlink_to :: "fsys \<Rightarrow> ppath \<Rightarrow> string \<Rightarrow> fsys result" where
  "symlink_to fs p target = create fs p (Link target)"

text \<open>\<open>open('wb')\<close> follows links and keeps the permissions of a file that exists.\<close>

definition write_bytes :: "fsys \<Rightarrow> ppath \<Rightarrow> bytes \<Rightarrow> fsys result" where
  "write_bytes fs p bs =
     rbind (resolve fs True p) (\<lambda>loc.
       case node_at fs loc of
         Inr (File m _) \<Rightarrow> Inr (fs_put loc (File m bs) fs)
       | Inr _ \<Rightarrow> Inl EISDIR
       | Inl _ \<Rightarrow> Inr (fs_put loc (File (perm_for fs 438) bs) fs))"

definition chmod :: "fsys \<Rightarrow> ppath \<Rightarrow> int \<Rightarrow> fsys result" where
  "chmod fs p mode =
     rbind (resolve fs True p) (\<lambda>loc.
     rbind (node_at fs loc) (\<lambda>n.
       Inr (fs_put loc (case n of File _ bs \<Rightarrow> File mode bs | Dir _ \<Rightarrow> Dir mode | Link t \<Rightarrow> Link t) fs)))"

text \<open>
  \<open>path.mkdir()\<close>: with \<open>exist_ok\<close> a directory that is already there is no error; with
  \<open>parents\<close> a missing parent is made first (the path loses a component each time).
\<close>

definition tolerate :: "bool \<Rightarrow> fsys \<Rightarrow> ppath \<Rightarrow> exn \<Rightarrow> fsys result" where
  "tolerate exist_ok fs p e = (if exist_ok \<and> is_dir fs p then Inr fs else Inl e)"

definition mkdir :: "bool \<Rightarrow> fsys \<Rightarrow> ppath \<Rightarrow> fsys result" where
  "mkdir exist_ok fs p =
     (case os_mkdir fs p of
        Inr fs' \<Rightarrow> Inr fs'
      | Inl e \<Rightarrow> if e = ENOENT then Inl e else tolerate exist_ok fs p e)"

fun mkdir_at :: "nat \<Rightarrow> bool \<Rightarrow> fsys \<Rightarrow> ppath \<Rightarrow> fsys result" where
  "mkdir_at 0 exist_ok fs p = mkdir exist_ok fs p"
| "mkdir_at (Suc k) exist_ok fs p =
     (case os_mkdir fs p of
        Inr fs' \<Rightarrow> Inr fs'
      | Inl e \<Rightarrow>
          if e = ENOENT
          then rbind (mkdir_at k True fs (p\<lparr>p_tail := butlast (p_tail p)\<rparr>)) (\<lambda>fs'. mkdir exist_ok fs' p)
          else tolerate exist_ok fs p e)"

definition mkdir_parents :: "bool \<Rightarrow> fsys \<Rightarrow> ppath \<Rightarrow> fsys result" where
  "mkdir_parents exist_ok fs p = mkdir_at (length (p_tail p)) exist_ok fs p"

text \<open>\<open>shutil.copyfile\<close>: the same file is refused.\<close>

definition copyfile :: "fsys \<Rightarrow> ppath \<Rightarrow> ppath \<Rightarrow> fsys result" where
  "copyfile fs src dst =
     (if exists fs src \<and> exists fs dst \<and> resolve fs True src = resolve fs True dst
      then Inl (OSError ''SameFileError'')
      else rbind (read_bytes fs src) (\<lambda>bs. write_bytes fs dst bs))"

subsection \<open>Facts\<close>

lemma nodes_fs_put [simp]: "nodes (fs_put loc n fs) = (nodes fs)(loc \<mapsto> n)"
proof (rule ext)
  fix l
  have "map_of (filter (\<lambda>e. fst e \<noteq> loc) es) l = (if l = loc then None else map_of es l)" for es :: "(string list \<times> node) list"
    by (induction es) auto
  then show "nodes (fs_put loc n fs) l = ((nodes fs)(loc \<mapsto> n)) l"
    by (simp add: nodes_def fs_put_def)
qed

lemma fs_put_fields [simp]: "cwd (fs_put loc n fs) = cwd fs" "umask (fs_put loc n fs) = umask fs"
  by (simp_all add: fs_put_def)


lemma is_fileE: "is_file fs p \<Longrightarrow> (\<And>m bs. stat fs p = Inr (File m bs) \<Longrightarrow> P) \<Longrightarrow> P"
  by (auto simp: is_file_def split: sum.splits node.splits)

text \<open>What is no link is reached the same way whether or not a last link is followed.\<close>

lemma walk_follow:
  "walk fs False fuel cur cs = Inr loc \<Longrightarrow> (\<nexists>t. node_at fs loc = Inr (Link t)) \<Longrightarrow> walk fs True fuel cur cs = Inr loc"
proof (induction fs False fuel cur cs rule: walk.induct)
  case (2 fs fuel cur c cs)
  show ?case
  proof (cases "c = ''..''")
    case True
    then show ?thesis using 2 by simp
  next
    case False
    show ?thesis
    proof (cases "nodes fs (cur @ [c])")
      case None
      then show ?thesis using 2 False by simp
    next
      case (Some n)
      show ?thesis
      proof (cases n)
        case (Link t)
        have "cs \<noteq> []" "fuel \<noteq> 0"
          using 2(4,5) Some Link False by (auto simp: node_at_def split: if_splits)
        then show ?thesis using 2(3) [of n t "parse_path t"] 2(4,5) Some Link False by (simp add: Let_def)
      qed (use 2 Some False in auto)
    qed
  qed
qed simp

lemma stat_lstat: "lstat fs p = Inr n \<Longrightarrow> (\<nexists>t. n = Link t) \<Longrightarrow> stat fs p = Inr n"
  by (auto simp: lstat_def stat_def resolve_def result_simps dest!: walk_follow)

lemma read_bytes_file: "stat fs p = Inr (File m bs) \<Longrightarrow> read_bytes fs p = Inr bs"
  by (simp add: read_bytes_def)

text \<open>What is created was not there.\<close>

lemma create_new:
  "create fs p n = Inr fs' \<Longrightarrow> \<exists>loc. resolve fs False p = Inr loc \<and> loc \<noteq> [] \<and> nodes fs loc = None \<and> fs' = fs_put loc n fs"
  by (auto simp: create_def rbind_eq_Inr node_at_def split: if_splits option.splits)

end
