(* ===== verification/Base64.thy ===== *)
theory Base64
  imports Py_Text
begin

unbundle bit_operations_syntax

text \<open>
  \<open>base64.b64decode(s, validate=True)\<close>, the strict mode of \<open>binascii.a2b_base64\<close>, as the
  scan over the characters with its pending bits, and \<open>encode64\<close> as its specification: every
  canonical encoding decodes to what was encoded.
\<close>

definition alphabet :: string where
  "alphabet = ''ABCDEFGHIJKLMNOPQRSTUVWXYZabcdefghijklmnopqrstuvwxyz0123456789+/''"

definition sextet :: "char \<Rightarrow> int option" where
  "sextet c =
     (if CHR ''A'' \<le> c \<and> c \<le> CHR ''Z'' then Some (of_char c - 65)
      else if CHR ''a'' \<le> c \<and> c \<le> CHR ''z'' then Some (of_char c - 71)
      else if CHR ''0'' \<le> c \<and> c \<le> CHR ''9'' then Some (of_char c + 4)
      else if c = CHR ''+'' then Some 62 else if c = CHR ''/'' then Some 63 else None)"

text \<open>
  The state is the position in the quad, the bits left over from the last character, the
  number of pads and whether padding has begun. A pad that completes the quad must be the
  last character.
\<close>

fun scan64 :: "nat \<Rightarrow> int \<Rightarrow> nat \<Rightarrow> bool \<Rightarrow> bytes \<Rightarrow> bytes result" where
  "scan64 quad left pads padding [] =
     (if quad = 0 then Inr []
      else if quad = 1 then Inl (ValueError ''Invalid base64-encoded string'')
      else Inl (ValueError ''Incorrect padding''))"
| "scan64 quad left pads padding (c # s) =
     (if c = CHR ''='' then
        (if 2 \<le> quad then
           (if 4 \<le> quad + (pads + 1)
            then (if s \<noteq> [] then Inl (ValueError ''Excess data after padding'') else Inr [])
            else scan64 quad left (pads + 1) True s)
         else scan64 quad left pads True s)
      else case sextet c of
        None \<Rightarrow> Inl (ValueError ''Only base64 data is allowed'')
      | Some v \<Rightarrow>
          if padding then Inl (ValueError ''Discontinuous padding not allowed'')
          else if quad = 0 then scan64 1 v 0 padding s
          else if quad = 1 then
            rbind (scan64 2 (v mod 16) 0 padding s) (\<lambda>r. Inr (char_of (left * 4 + v div 16) # r))
          else if quad = 2 then
            rbind (scan64 3 (v mod 4) 0 padding s) (\<lambda>r. Inr (char_of (left * 16 + v div 4) # r))
          else rbind (scan64 0 0 0 padding s) (\<lambda>r. Inr (char_of (left * 64 + v) # r)))"

definition b64decode :: "string \<Rightarrow> bytes result" where
  "b64decode s =
     (if \<not> is_ascii s then Inl (ValueError ''string argument should contain only ASCII characters'')
      else if startswith ''='' s then Inl (ValueError ''Leading padding not allowed'')
      else scan64 0 0 0 False s)"

subsection \<open>The encoder, and the round trip\<close>

definition sym64 :: "int \<Rightarrow> char" where
  "sym64 v = alphabet ! nat (v mod 64)"

definition triple :: "char \<Rightarrow> char \<Rightarrow> char \<Rightarrow> int" where
  "triple a b c = of_char a * 65536 + of_char b * 256 + of_char c"

fun encode64 :: "bytes \<Rightarrow> string" where
  "encode64 [] = []"
| "encode64 [a] =
     (let n = triple a (CHR 0x00) (CHR 0x00)
      in [sym64 (n div 262144), sym64 (n div 4096), CHR ''='', CHR ''=''])"
| "encode64 [a, b] =
     (let n = triple a b (CHR 0x00)
      in [sym64 (n div 262144), sym64 (n div 4096), sym64 (n div 64), CHR ''=''])"
| "encode64 (a # b # c # s) =
     (let n = triple a b c
      in sym64 (n div 262144) # sym64 (n div 4096) # sym64 (n div 64) # sym64 n # encode64 s)"

lemma sym64_table:
  "list_all (\<lambda>v. sextet (sym64 v) = Some v \<and> sym64 v \<noteq> CHR ''='' \<and> sym64 v \<le> CHR 0x7F) [0..63]"
  by code_simp

lemma sym64_mod: "sym64 v = sym64 (v mod 64)"
  by (simp add: sym64_def)

lemma sym64_props [simp]:
  "sextet (sym64 v) = Some (v mod 64)" "sym64 v \<noteq> CHR ''=''" "sym64 v \<le> CHR 0x7F"
  using sym64_table sym64_mod [of v] by (simp_all add: list_all_iff)

lemma quotient_mod: "0 < b \<Longrightarrow> 0 \<le> c \<Longrightarrow> k = b * c \<Longrightarrow> m mod k div b = m div b mod (c :: int)"
  by (simp add: zmod_zmult2_eq)

lemma quotient_div: "0 \<le> c \<Longrightarrow> k = b * c \<Longrightarrow> n div b div c = n div (k :: int)"
  by (simp add: zdiv_zmult2_eq)

lemma join_digits: "0 \<le> c \<Longrightarrow> k = b * c \<Longrightarrow> x div b mod c * b + x mod b = x mod (k :: int)"
  by (simp add: zmod_zmult2_eq mult.commute)

text \<open>Four sextets hold the three bytes of a triple.\<close>

lemma sextets_bytes:
  fixes n :: int
  shows "n div 262144 mod 64 * 4 + n div 4096 mod 64 div 16 = n div 65536 mod 256"
    "n div 4096 mod 64 mod 16 * 16 + n div 64 mod 64 div 4 = n div 256 mod 256"
    "n div 64 mod 64 mod 4 * 64 + n mod 64 = n mod 256"
proof -
  have d: "n div 4096 div 16 = n div 65536" "n div 65536 div 4 = n div 262144"
    "n div 256 div 16 = n div 4096" "n div 64 div 4 = n div 256"
    by (rule quotient_div; simp)+
  have q: "x mod 64 div 16 = x div 16 mod 4" "x mod 64 div 4 = x div 4 mod 16" for x :: int
    by (rule quotient_mod; simp)+
  have m: "x mod 64 mod 16 = x mod 16" "x mod 64 mod 4 = x mod 4" for x :: int
    by (rule mod_mod_cancel; simp)+
  have j: "x div 4 mod 64 * 4 + x mod 4 = x mod 256" "x div 16 mod 16 * 16 + x mod 16 = x mod 256"
    "x div 64 mod 4 * 64 + x mod 64 = x mod 256" for x :: int
    by (rule join_digits; simp)+
  show "n div 262144 mod 64 * 4 + n div 4096 mod 64 div 16 = n div 65536 mod 256"
    unfolding q(1) d(1) d(2) [symmetric] by (rule j(1))
  show "n div 4096 mod 64 mod 16 * 16 + n div 64 mod 64 div 4 = n div 256 mod 256"
    unfolding q(2) d(4) m(1) d(3) [symmetric] by (rule j(2))
  show "n div 64 mod 64 mod 4 * 64 + n mod 64 = n mod 256"
    unfolding m(2) by (rule j(3))
qed

lemma char_bounds: "0 \<le> (of_char c :: int)" "(of_char c :: int) < 256"
  using nat_of_char_less_256 [of c] by (metis of_nat_0_le_iff of_nat_of_char,
    metis of_nat_less_numeral_iff of_nat_of_char)

lemma triple_bytes:
  "char_of (triple a b c div 65536) = a" "char_of (triple a b c div 256) = b" "char_of (triple a b c) = c"
proof -
  note bounds = char_bounds [of a] char_bounds [of b] char_bounds [of c]
  have t: "triple a b c = of_char c + 256 * (of_char b + 256 * of_char a)" by (simp add: triple_def)
  have q: "triple a b c div 256 = of_char b + 256 * of_char a"
    unfolding t using bounds by (subst div_mult_self2) simp_all
  have "triple a b c div 65536 = triple a b c div 256 div 256" by (rule quotient_div [symmetric]; simp)
  also have "\<dots> = of_char a" unfolding q using bounds by (subst div_mult_self2) simp_all
  finally show "char_of (triple a b c div 65536) = a" by simp
  have "triple a b c div 256 mod 256 = of_char b" unfolding q using bounds by simp
  then have "char_of (triple a b c div 256 mod 256) = b" by (simp only: char_of_char)
  then show "char_of (triple a b c div 256) = b" by simp
  have "triple a b c mod 256 = of_char c" unfolding t mod_mult_self2 using bounds by simp
  then have "char_of (triple a b c mod 256) = c" by (simp only: char_of_char)
  then show "char_of (triple a b c) = c" by simp
qed

lemma scan64_encode64: "scan64 0 l p False (encode64 bs) = Inr bs"
proof (induction bs arbitrary: l p rule: encode64.induct)
  case (4 a b c s)
  then show ?case by (simp add: Let_def sextets_bytes triple_bytes)
qed (simp_all add: Let_def sextets_bytes triple_bytes)

lemma encode64_ascii: "is_ascii (encode64 bs)"
  by (induction bs rule: encode64.induct) (simp_all add: Let_def)

lemma encode64_head: "\<not> startswith ''='' (encode64 bs)"
  by (cases bs rule: encode64.cases) (simp_all add: Let_def startswith_def)

theorem b64decode_encode64: "b64decode (encode64 bs) = Inr bs"
  by (simp add: b64decode_def encode64_ascii encode64_head scan64_encode64)

interpretation base64: codec "\<lambda>bs. Inr (encode64 bs)" b64decode "\<lambda>_. True"
  by unfold_locales (auto simp: b64decode_encode64)

text \<open>Accepted text has no character that could end a word, a line or a quotation.\<close>

definition base64_ranges :: "(char \<times> char) list" where
  "base64_ranges = alnum_ranges @ [(CHR ''+'', CHR ''+''), (CHR ''/'', CHR ''/''), (CHR ''='', CHR ''='')]"

lemma sextet_alphabet: "sextet c = Some v \<Longrightarrow> in_ranges c base64_ranges"
  by (auto simp: sextet_def base64_ranges_def alnum_ranges_def in_ranges_def split: if_splits)

lemma scan64_alphabet: "scan64 q l p pd s = Inr r \<Longrightarrow> c \<in> set s \<Longrightarrow> in_ranges c base64_ranges"
proof (induction q l p pd s arbitrary: r rule: scan64.induct)
  case (2 q l p pd d s)
  show ?case
  proof (cases "d = CHR ''=''")
    case True
    then have "in_ranges d base64_ranges" by (simp add: base64_ranges_def in_ranges_def alnum_ranges_def)
    with 2 True show ?thesis by (auto split: if_splits)
  next
    case False
    then obtain v where "sextet d = Some v" using "2.prems"(1) by (auto split: option.splits)
    with 2 False sextet_alphabet [of d v] show ?thesis
      by (auto simp: result_simps split: if_splits)
  qed
qed simp

lemma b64decode_alphabet: "b64decode s = Inr r \<Longrightarrow> c \<in> set s \<Longrightarrow> in_ranges c base64_ranges"
  by (auto simp: b64decode_def split: if_splits dest: scan64_alphabet)

end
