(* ===== verification/Uuid.thy ===== *)
theory Uuid
  imports Py_Text
begin

text \<open>
  \<open>uuid.UUID(text)\<close> and \<open>str\<close> of it. The constructor accepts much more than the canonical
  form (a \<open>urn:\<close> prefix, braces, no hyphens, what \<open>int(hex, 16)\<close> accepts); the scripts
  compare \<open>str(uuid.UUID(v))\<close> with \<open>v\<close>, and \<open>uuid_canonical_iff\<close> shows that this comparison
  selects exactly the lower-case hyphenated form. Text with characters beyond ASCII is never
  canonical; the model rejects it at once (Python does so in \<open>int\<close> or in the comparison).
\<close>

definition uuid_hex :: "string \<Rightarrow> string" where
  "uuid_hex s =
     filter (\<lambda>c. c \<noteq> CHR ''-'') (strip_chars {CHR ''{'', CHR ''}''} (py_remove ''uuid:'' (py_remove ''urn:'' s)))"

definition uuid_int :: "string \<Rightarrow> int result" where
  "uuid_int s =
     (let h = uuid_hex s in
      if \<not> is_ascii s \<or> length h \<noteq> 32 then Inl (ValueError ''badly formed hexadecimal UUID string'')
      else rbind (int16 h) (\<lambda>n.
        if n < 0 \<or> n \<ge> 2 ^ 128 then Inl (ValueError ''int is out of range (need a 128-bit value)'') else Inr n))"

definition uuid_str :: "int \<Rightarrow> string" where
  "uuid_str n =
     (let h = zfill 32 (to_base 16 n) in
      take 8 h @ ''-'' @ take 4 (drop 8 h) @ ''-'' @ take 4 (drop 12 h) @ ''-'' @ take 4 (drop 16 h) @ ''-'' @ drop 20 h)"

text \<open>\<open>str(uuid.UUID(v)) == v\<close>; the constructor may raise.\<close>

definition uuid_canonical :: "string \<Rightarrow> bool result" where
  "uuid_canonical v = rbind (uuid_int v) (\<lambda>n. Inr (uuid_str n = v))"

definition UUID :: regex where
  "UUID = seqs [times 8 hex_digit, lit ''-'', times 4 hex_digit, lit ''-'', times 4 hex_digit, lit ''-'',
     times 4 hex_digit, lit ''-'', times 12 hex_digit]"

lemma UUID_iff:
  "fullmatch UUID v \<longleftrightarrow> (\<exists>a b c d e. v = a @ ''-'' @ b @ ''-'' @ c @ ''-'' @ d @ ''-'' @ e \<and>
     length a = 8 \<and> length b = 4 \<and> length c = 4 \<and> length d = 4 \<and> length e = 12 \<and>
     list_all hex_char (a @ b @ c @ d @ e))"
proof -
  have times: "lang (times k hex_digit) = {w. length w = k \<and> list_all hex_char w}" for k
    by (auto simp: hex_digit_def lang_times_Cls in_ranges_def hex_char_def list_all_iff)
  note parts = fullmatch_iff_lang UUID_def seqs.simps lang.simps lang_lit times
  show ?thesis (is "?L \<longleftrightarrow> ?R")
  proof
    assume ?L
    then show ?R
      unfolding parts by (elim concE CollectE singletonE conjE, intro exI conjI) (hypsubst, rule refl, simp_all)
  next
    assume ?R
    then show ?L unfolding parts by (elim exE conjE, hypsubst, intro concI) simp_all
  qed
qed

lemma uuid_str_form:
  assumes "0 \<le> n" "n < 2 ^ 128"
  shows "fullmatch UUID (uuid_str n)"
proof -
  let ?h = "zfill 32 (to_base 16 n)"
  have "length (to_base 16 n) \<le> Suc 31" using assms by (intro length_to_base_16) simp_all
  then have len: "length ?h = 32" by simp
  have hex: "list_all hex_char ?h" using to_base_16_props [OF assms(1)] by simp
  have part: "list_all hex_char (take k (drop j ?h))" "list_all hex_char (drop j ?h)" for j k
    using hex by (auto simp: list_all_iff dest: in_set_takeD in_set_dropD)
  show ?thesis
    unfolding UUID_iff uuid_str_def Let_def
    using len part part [where j = 0, unfolded drop_0]
    by (intro exI conjI) (rule refl, simp_all)
qed

text \<open>The other direction: hexadecimal text is what its value prints as.\<close>

definition hex_number :: "string \<Rightarrow> int" where
  "hex_number s = foldl (\<lambda>n c. 16 * n + the (hex_val c)) 0 s"

lemma hex_char_val:
  assumes "hex_char c"
  obtains v where "hex_val c = Some v" "0 \<le> v" "v < 16" "digit_char v = c"
proof -
  let ?digits = "''0123456789abcdef''"
  have tab: "list_all (\<lambda>d. case hex_val d of None \<Rightarrow> False
      | Some v \<Rightarrow> 0 \<le> v \<and> v < 16 \<and> digit_char v = d) ?digits"
    by code_simp
  have "of_char c \<in> set ([48..<58] @ [97..<103])"
    unfolding set_append Un_iff set_upt atLeastLessThan_iff
    using assms by (auto simp: hex_char_def less_eq_char_def)
  then have "char_of (of_char c :: nat) \<in> char_of ` set ([48..<58] @ [97..<103])" by (rule imageI)
  also have "char_of ` set ([48..<58] @ [97..<103]) = set ?digits" by code_simp
  finally have "c \<in> set ?digits" by simp
  with tab have "case hex_val c of None \<Rightarrow> False | Some v \<Rightarrow> 0 \<le> v \<and> v < 16 \<and> digit_char v = c"
    unfolding list_all_iff by blast
  then show ?thesis using that by (auto split: option.splits)
qed

lemma scan16_hex:
  "list_all hex_char s \<Longrightarrow> s \<noteq> [] \<or> seen \<Longrightarrow>
     scan16 acc False seen s = Some (foldl (\<lambda>n c. 16 * n + the (hex_val c)) acc s, [])"
proof (induction s arbitrary: acc seen)
  case (Cons c s)
  then obtain v where "hex_val c = Some v" by (auto elim: hex_char_val)
  with Cons show ?case by simp
qed simp

lemma zfill_snoc: "zfill (Suc k) (t @ [c]) = zfill k t @ [c]"
  by (simp add: zfill_def)

lemma hex_number_nonneg: "list_all hex_char s \<Longrightarrow> 0 \<le> hex_number s \<and> hex_number s < 16 ^ length s"
proof (induction s rule: rev_induct)
  case (snoc c s)
  then obtain v where "hex_val c = Some v" "0 \<le> v" "v < 16" by (auto elim: hex_char_val)
  with snoc show ?case by (simp add: hex_number_def)
qed (simp add: hex_number_def)

lemma zfill_hex_number:
  "list_all hex_char s \<Longrightarrow> s \<noteq> [] \<Longrightarrow> zfill (length s) (to_base 16 (hex_number s)) = s"
proof (induction s rule: rev_induct)
  case (snoc c s)
  then obtain v where v: "hex_val c = Some v" "0 \<le> v" "v < 16" "digit_char v = c"
    by (auto elim: hex_char_val)
  have n: "hex_number (s @ [c]) = 16 * hex_number s + v" using v by (simp add: hex_number_def)
  have pos: "0 \<le> hex_number s" using snoc.prems by (simp add: hex_number_nonneg)
  show ?case
  proof (cases "s = []")
    case True
    with v n show ?thesis by (simp add: hex_number_def to_base.simps [of 16 v] zfill_def)
  next
    case False
    then have IH: "zfill (length s) (to_base 16 (hex_number s)) = s" using snoc by simp
    show ?thesis
    proof (cases "hex_number s = 0")
      case True
      then have "zfill (length s) ''0'' = s" using IH by (simp add: to_base.simps [of 16 0] digit_char_def)
      then have "s = replicate (length s) (CHR ''0'')"
        using False by (cases "length s") (simp_all add: zfill_def replicate_append_same)
      then show ?thesis using True n v by (simp add: to_base.simps [of 16 v] zfill_def)
    next
      case False
      then have "to_base 16 (16 * hex_number s + v) = to_base 16 (hex_number s) @ [c]"
        using pos v by (subst to_base.simps) simp
      then show ?thesis using n IH zfill_snoc by simp
    qed
  qed
qed simp

lemma hex_char_ascii: "hex_char c \<Longrightarrow> c \<le> CHR 0x7F \<and> c \<noteq> CHR ''-'' \<and> c \<noteq> CHR ''{'' \<and> c \<noteq> CHR ''}'' \<and> c \<noteq> CHR '':'' \<and> c \<noteq> CHR ''u''"
  by (auto simp: hex_char_def less_eq_char_def)

lemma py_remove_none: "hd old \<notin> set s \<Longrightarrow> py_remove old s = s"
proof (induction s)
  case Nil
  then show ?case by (simp add: py_remove.simps)
next
  case (Cons c s)
  then have "old \<noteq> [] \<Longrightarrow> \<not> startswith old (c # s)" by (auto simp: startswith_iff Cons_eq_append_conv)
  with Cons show ?case by (subst py_remove.simps) auto
qed

lemma int16_hex: "list_all hex_char h \<Longrightarrow> h \<noteq> [] \<Longrightarrow> int16 h = Inr (hex_number h)"
proof -
  assume h: "list_all hex_char h" "h \<noteq> []"
  then obtain c t where ct: "h = c # t" "hex_char c" by (cases h) auto
  then have "drop_sign (dropWhile c_isspace h) = (False, h)" using hex_char_plain by (simp add: drop_sign_def)
  with h scan16_hex [OF h(1), of False 0] show ?thesis
    by (simp add: int16_def drop_0x_hex hex_number_def)
qed

theorem uuid_canonical_iff: "uuid_canonical v = Inr True \<longleftrightarrow> fullmatch UUID v"
proof
  assume "uuid_canonical v = Inr True"
  then show "fullmatch UUID v"
    using uuid_str_form
    by (auto simp: uuid_canonical_def uuid_int_def Let_def result_simps split: if_splits)
next
  assume "fullmatch UUID v"
  then obtain a b c d e where v: "v = a @ ''-'' @ b @ ''-'' @ c @ ''-'' @ d @ ''-'' @ e"
    and len: "length a = 8" "length b = 4" "length c = 4" "length d = 4" "length e = 12"
    and hex: "list_all hex_char (a @ b @ c @ d @ e)"
    unfolding UUID_iff by blast
  let ?h = "a @ b @ c @ d @ e"
  have ch: "x \<in> set v \<Longrightarrow> x \<le> CHR 0x7F \<and> x \<noteq> CHR ''{'' \<and> x \<noteq> CHR ''}'' \<and> x \<noteq> CHR ''u''" for x
  proof -
    assume "x \<in> set v"
    then have "x = CHR ''-'' \<or> hex_char x" using hex unfolding v list_all_iff by auto
    then show ?thesis using hex_char_ascii [of x] by auto
  qed
  have drop: "dropWhile (\<lambda>c. c \<in> {CHR ''{'', CHR ''}''}) w = w" if "set w \<subseteq> set v" for w
    using that ch by (cases w) auto
  have "strip_chars {CHR ''{'', CHR ''}''} v = v"
    unfolding strip_chars_def using drop [of v] drop [of "rev v"] by (simp del: insert_iff)
  moreover have "py_remove ''uuid:'' (py_remove ''urn:'' v) = v"
  proof -
    have u: "CHR ''u'' \<notin> set v" using ch [of "CHR ''u''"] by blast
    have "py_remove ''urn:'' v = v" by (rule py_remove_none) (use u in simp)
    moreover have "py_remove ''uuid:'' v = v" by (rule py_remove_none) (use u in simp)
    ultimately show ?thesis by simp
  qed
  ultimately have "uuid_hex v = filter (\<lambda>c. c \<noteq> CHR ''-'') v" by (simp add: uuid_hex_def)
  also have "\<dots> = ?h"
  proof -
    have "filter (\<lambda>c. c \<noteq> CHR ''-'') w = w" if "list_all hex_char w" for w
      using that by (auto simp: list_all_iff filter_id_conv dest: hex_char_ascii)
    then show ?thesis using hex by (simp add: v)
  qed
  finally have h: "uuid_hex v = ?h" .
  have asc: "is_ascii v" using ch by (auto simp: is_ascii_def list_all_iff)
  have ne: "?h \<noteq> []" and lh: "length ?h = 32" using len by auto
  have zf: "zfill 32 (to_base 16 (hex_number ?h)) = ?h"
    using zfill_hex_number [OF hex ne] unfolding lh .
  have str: "uuid_str (hex_number ?h) = v" unfolding uuid_str_def Let_def zf v by (simp add: len)
  define hh where "hh = ?h"
  have "length hh = 32" "int16 hh = Inr (hex_number hh)" "0 \<le> hex_number hh" "hex_number hh < 2 ^ 128"
    using hex_number_nonneg [OF hex] lh int16_hex [OF hex ne] unfolding hh_def by simp_all
  then have "uuid_int v = Inr (hex_number hh)"
    using asc h [folded hh_def] by (simp add: uuid_int_def)
  then show "uuid_canonical v = Inr True"
    using str [folded hh_def] by (simp add: uuid_canonical_def)
qed

end
