(* ===== verification/Uci.thy ===== *)
theory Uci
  imports Py_Text
begin

text \<open>
  The text of an OpenWrt UCI file: the lines the scripts write, and a reader that serves as
  the specification of what such a text means. The round-trip lemmas hold for values
  without a quotation mark or a line break; a theorem that reads a generated file back
  therefore shows that no value reached the file that could add or end an option.
\<close>

datatype uci_item =
    Config string "string option"
  | Option string string
  | ListItem string string

definition nl :: char where "nl = CHR 0x0A"
definition tab :: char where "tab = CHR 0x09"
definition q1 :: char where "q1 = CHR 0x27"

definition quoted :: "string \<Rightarrow> string" where
  "quoted v = [q1] @ v @ [q1]"

definition config_line :: "string \<Rightarrow> string \<Rightarrow> string" where
  "config_line t n = ''config '' @ t @ '' '' @ quoted n @ [nl]"

definition anonymous_line :: "string \<Rightarrow> string" where
  "anonymous_line t = ''config '' @ t @ [nl]"

definition option_line :: "string \<Rightarrow> string \<Rightarrow> string" where
  "option_line k v = tab # ''option '' @ k @ '' '' @ quoted v @ [nl]"

definition list_line :: "string \<Rightarrow> string \<Rightarrow> string" where
  "list_line k v = tab # ''list '' @ k @ '' '' @ quoted v @ [nl]"

subsection \<open>The reader\<close>

definition unquote :: "string \<Rightarrow> string option" where
  "unquote s =
     (if 2 \<le> length s \<and> hd s = q1 \<and> last s = q1 \<and> q1 \<notin> set (butlast (tl s))
      then Some (butlast (tl s)) else None)"

definition key_value :: "(string \<Rightarrow> string \<Rightarrow> uci_item) \<Rightarrow> string \<Rightarrow> uci_item option" where
  "key_value mk s =
     (case split_once (CHR '' '') s of
        [k, v] \<Rightarrow> map_option (mk k) (unquote v)
      | _ \<Rightarrow> None)"

definition uci_line :: "string \<Rightarrow> uci_item option" where
  "uci_line l =
     (if startswith ''config '' l then
        (let r = removeprefix ''config '' l in
         if CHR '' '' \<in> set r then key_value (\<lambda>t n. Config t (Some n)) r else Some (Config r None))
      else if startswith (tab # ''option '') l then key_value Option (removeprefix (tab # ''option '') l)
      else if startswith (tab # ''list '') l then key_value ListItem (removeprefix (tab # ''list '') l)
      else None)"

definition uci_items :: "string \<Rightarrow> uci_item list option" where
  "uci_items s = those (map uci_line (filter (\<lambda>l. l \<noteq> []) (split_on nl s)))"

subsection \<open>Reading back what was written\<close>

definition uci_safe :: "string \<Rightarrow> bool" where
  "uci_safe v \<longleftrightarrow> q1 \<notin> set v \<and> nl \<notin> set v"

definition uci_word :: "string \<Rightarrow> bool" where
  "uci_word k \<longleftrightarrow> CHR '' '' \<notin> set k \<and> nl \<notin> set k"

lemma unquote_quoted [simp]: "q1 \<notin> set v \<Longrightarrow> unquote (quoted v) = Some v"
  by (simp add: unquote_def quoted_def)

lemma uci_items_Nil [simp]: "uci_items [] = Some []"
  by (simp add: uci_items_def)

lemma uci_items_line:
  "uci_line l = Some i \<Longrightarrow> nl \<notin> set l \<Longrightarrow> l \<noteq> [] \<Longrightarrow>
     uci_items (l @ nl # s) = map_option ((#) i) (uci_items s)"
  by (simp add: uci_items_def split_on_append)

lemma uci_items_blank: "uci_items (nl # s) = uci_items s"
  by (simp add: uci_items_def)

lemma key_value_word:
  "uci_word k \<Longrightarrow> q1 \<notin> set v \<Longrightarrow> key_value mk (k @ '' '' @ quoted v) = Some (mk k v)"
  by (simp add: key_value_def uci_word_def split_once_append)

lemma uci_line_words:
  assumes "uci_word k" "uci_safe v"
  shows "uci_line (''config '' @ k @ '' '' @ quoted v) = Some (Config k (Some v))"
    and "uci_line (''config '' @ k) = Some (Config k None)"
    and "uci_line ((tab # ''option '') @ k @ '' '' @ quoted v) = Some (Option k v)"
    and "uci_line ((tab # ''list '') @ k @ '' '' @ quoted v) = Some (ListItem k v)"
proof -
  have kv: "key_value mk (k @ '' '' @ quoted v) = Some (mk k v)" for mk
    by (rule key_value_word) (use assms in \<open>simp_all add: uci_safe_def\<close>)
  have no: "CHR '' '' \<notin> set k" using assms by (simp add: uci_word_def)
  show "uci_line (''config '' @ k @ '' '' @ quoted v) = Some (Config k (Some v))"
    by (simp only: uci_line_def startswith_append removeprefix_append if_True Let_def kv) simp
  show "uci_line (''config '' @ k) = Some (Config k None)"
    using no by (simp only: uci_line_def startswith_append removeprefix_append if_True if_False Let_def)
  have "\<not> startswith ''config '' ((tab # ''option '') @ w)" "\<not> startswith ''config '' ((tab # ''list '') @ w)"
    "\<not> startswith (tab # ''option '') ((tab # ''list '') @ w)" for w
    by (simp_all add: startswith_def tab_def)
  then show "uci_line ((tab # ''option '') @ k @ '' '' @ quoted v) = Some (Option k v)"
    "uci_line ((tab # ''list '') @ k @ '' '' @ quoted v) = Some (ListItem k v)"
    unfolding uci_line_def by (simp_all only: startswith_append removeprefix_append if_True if_False kv)
qed

lemma quoted_nl [simp]: "nl \<in> set (quoted v) \<longleftrightarrow> nl \<in> set v"
  by (auto simp: quoted_def nl_def q1_def)

lemma uci_items_lines [simp]:
  assumes "uci_word k"
  shows "uci_safe v \<Longrightarrow> uci_items (config_line k v @ s) = map_option ((#) (Config k (Some v))) (uci_items s)"
    and "uci_items (anonymous_line k @ s) = map_option ((#) (Config k None)) (uci_items s)"
    and "uci_safe v \<Longrightarrow> uci_items (option_line k v @ s) = map_option ((#) (Option k v)) (uci_items s)"
    and "uci_safe v \<Longrightarrow> uci_items (list_line k v @ s) = map_option ((#) (ListItem k v)) (uci_items s)"
proof -
  have e: "uci_safe []" by (simp add: uci_safe_def)
  note w = uci_line_words [OF assms]
  have no: "nl \<notin> set k" using assms by (simp add: uci_word_def)
  have "uci_safe v \<Longrightarrow> nl \<notin> set (''config '' @ k @ '' '' @ quoted v)"
    "nl \<notin> set (''config '' @ k)"
    "uci_safe v \<Longrightarrow> nl \<notin> set ((tab # ''option '') @ k @ '' '' @ quoted v)"
    "uci_safe v \<Longrightarrow> nl \<notin> set ((tab # ''list '') @ k @ '' '' @ quoted v)"
    using no by (simp_all add: uci_safe_def) (simp_all add: nl_def tab_def)
  note l = uci_items_line [OF w(1) this(1)] uci_items_line [OF w(2) [OF e] this(2)]
    uci_items_line [OF w(3) this(3)] uci_items_line [OF w(4) this(4)]
  show "uci_safe v \<Longrightarrow> uci_items (config_line k v @ s) = map_option ((#) (Config k (Some v))) (uci_items s)"
    using l(1) [of s] by (simp add: config_line_def)
  show "uci_items (anonymous_line k @ s) = map_option ((#) (Config k None)) (uci_items s)"
    using l(2) [of s] by (simp add: anonymous_line_def)
  show "uci_safe v \<Longrightarrow> uci_items (option_line k v @ s) = map_option ((#) (Option k v)) (uci_items s)"
    using l(3) [of s] by (simp add: option_line_def)
  show "uci_safe v \<Longrightarrow> uci_items (list_line k v @ s) = map_option ((#) (ListItem k v)) (uci_items s)"
    using l(4) [of s] by (simp add: list_line_def)
qed

text \<open>The last line of a file.\<close>

lemmas uci_items_last [simp] = uci_items_lines [where s = "[]", simplified]

end
