(* ===== verification/Backup_Config.thy ===== *)
theory Backup_Config
  imports Ramdisk Py_Json File_System Base64 Uuid Uci
begin

text \<open>
  \<open>scripts/backup_config.py\<close>: the validation of one backup job and the five files it turns
  into. The main facts: what an accepted job looks like, that the UCI files read back as
  exactly the validated values, that the crontab is one entry of the documented command,
  and that the client key is copied from a private, bounded, regular file.
\<close>

subsection \<open>Patterns\<close>

definition lower_alnum :: "(char \<times> char) list" where
  "lower_alnum = [(CHR ''a'', CHR ''z''), (CHR ''0'', CHR ''9'')]"

text \<open>\<open>[a-z0-9](?:[a-z0-9-]{0,61}[a-z0-9])?\<close>\<close>

definition dns_label :: regex where
  "dns_label = Seq (Cls lower_alnum)
     (opt (Seq (Rep 0 (Some 61) (Cls (lower_alnum @ [(CHR ''-'', CHR ''-'')]))) (Cls lower_alnum)))"

text \<open>\<open>[a-z_][a-z0-9_-]{0,31}\<close> and \<open>/[A-Za-z0-9_./-]{1,1023}/\<close>\<close>

definition login_name :: regex where
  "login_name = Seq (Cls [(CHR ''a'', CHR ''z''), (CHR ''_'', CHR ''_'')])
     (Rep 0 (Some 31) (Cls (lower_alnum @ [(CHR ''_'', CHR ''_''), (CHR ''-'', CHR ''-'')])))"

definition source_ranges :: "(char \<times> char) list" where
  "source_ranges = alnum_ranges @ [(CHR ''_'', CHR ''_''), (CHR ''.'', CHR ''.''), (CHR ''/'', CHR ''/''), (CHR ''-'', CHR ''-'')]"

definition source_path :: regex where
  "source_path = seqs [chr1 (CHR ''/''), Rep 1 (Some 1023) (Cls source_ranges), chr1 (CHR ''/'')]"

subsection \<open>The checks, in order\<close>

definition backup_fields :: "string list" where
  "backup_fields = [''host'', ''user'', ''source'', ''volume_uuid'', ''hour'', ''minute'', ''client_key'', ''host_public_key'']"

definition as_str :: "json \<Rightarrow> string option" where
  "as_str j = (case j of JStr s \<Rightarrow> Some s | _ \<Rightarrow> None)"

definition valid_host :: "string \<Rightarrow> bool" where
  "valid_host host \<longleftrightarrow> length (code_points host) \<le> 253 \<and> list_all (fullmatch dns_label) (split_on (CHR ''.'') host)"

definition valid_source :: "string \<Rightarrow> bool" where
  "valid_source source \<longleftrightarrow> fullmatch source_path source \<and>
     list_all (\<lambda>part. part \<notin> {[], ''.'', ''..''}) (split_on (CHR ''/'') (py_slice source 1 (- 1)))"

text \<open>\<open>read_key(name, private)\<close>: a bounded regular file, not a symbolic link.\<close>

definition MAX_KEY :: int where "MAX_KEY = 16384"

definition group_or_other :: "int \<Rightarrow> bool" where
  "group_or_other mode \<longleftrightarrow> mode mod 64 \<noteq> 0"

definition read_key :: "fsys \<Rightarrow> ppath \<Rightarrow> json dict \<Rightarrow> string \<Rightarrow> bool \<Rightarrow> bytes result" where
  "read_key fs root job name private =
     rbind (dict_get job name) (\<lambda>value.
     case as_str value of
       None \<Rightarrow> Inl (ValueError ''key path must be a nonempty string'')
     | Some s \<Rightarrow>
         if s = [] then Inl (ValueError ''key path must be a nonempty string'')
         else
           let path = p_join root (parse_path s) in
           if is_symlink fs path \<or> \<not> is_file fs path
           then Inl (ValueError ''key must be a bounded regular file, not a symlink'')
           else rbind (stat fs path) (\<lambda>st.
             if \<not> (0 < st_size st \<and> st_size st \<le> MAX_KEY)
             then Inl (ValueError ''key must be a bounded regular file, not a symlink'')
             else if private \<and> group_or_other (st_perm st)
             then Inl (ValueError ''private client key requires mode 0600 or stricter'')
             else read_bytes fs path))"

text \<open>\<open>struct.pack('>I', 11) + b'ssh-ed25519'\<close>\<close>

definition ssh_ed25519 :: bytes where "ssh_ed25519 = ''ssh-ed25519''"
definition key_prefix :: bytes where "key_prefix = be32 11 @ ssh_ed25519"

text \<open>The blob of an Ed25519 public key: the algorithm name and 32 bytes of key.\<close>

definition ed25519_blob :: "bytes \<Rightarrow> bool" where
  "ed25519_blob blob \<longleftrightarrow> length blob = 51 \<and> take 19 blob = key_prefix @ be32 32"

text \<open>\<open>if not isinstance(v, str) or not good(v): raise ValueError(m)\<close>\<close>

definition check_str :: "json \<Rightarrow> (string \<Rightarrow> bool) \<Rightarrow> string \<Rightarrow> string result" where
  "check_str j good m =
     (case as_str j of
        None \<Rightarrow> Inl (ValueError m)
      | Some s \<Rightarrow> if good s then Inr s else Inl (ValueError m))"

definition check_hour :: "json dict \<Rightarrow> string \<Rightarrow> int \<Rightarrow> int result" where
  "check_hour job name limit =
     rbind (dict_get job name) (\<lambda>j.
       case j of
         JInt n \<Rightarrow> if 0 \<le> n \<and> n \<le> limit then Inr n else Inl (ValueError ''invalid daily schedule'')
       | _ \<Rightarrow> Inl (ValueError ''invalid daily schedule''))"

type_synonym job_values = "string \<times> string \<times> string \<times> string \<times> int \<times> int"

definition backup_values :: "json dict \<Rightarrow> job_values result" where
  "backup_values job =
     rbind (dict_get job ''host'') (\<lambda>host.
     rbind (dict_get job ''user'') (\<lambda>user.
     rbind (dict_get job ''source'') (\<lambda>source.
     rbind (check_str host valid_host ''backup host must be an IPv4 address or DNS name'') (\<lambda>host.
     rbind (check_str user (fullmatch login_name) ''invalid backup login name'') (\<lambda>user.
     rbind (check_str source valid_source
       ''source must be an absolute directory with a trailing slash and simple path components'') (\<lambda>source.
     rbind (dict_get job ''volume_uuid'') (\<lambda>volume.
     rbind (check_str volume (\<lambda>v. True) ''volume_uuid must be a canonical Btrfs UUID'') (\<lambda>volume.
     rbind (uuid_canonical volume) (\<lambda>same.
     rbind (raise_if (\<not> same) (ValueError ''volume_uuid must be a canonical Btrfs UUID'')) (\<lambda>_.
     rbind (check_hour job ''hour'' 23) (\<lambda>hour.
     rbind (check_hour job ''minute'' 59) (\<lambda>minute.
     Inr (host, user, source, volume, hour, minute)))))))))))))"

definition server_key :: "bytes \<Rightarrow> string result" where
  "server_key raw =
     rbind (decode_ascii raw) (\<lambda>txt.
       let lines = splitlines txt in
       if length lines \<noteq> 1
       then Inl (ValueError ''supply one independently verified source-server public key'')
       else
         let words = py_split (hd lines) in
         if length words < 2 \<or> words ! 0 \<noteq> ssh_ed25519
         then Inl (ValueError ''source-server key must be Ed25519'')
         else rbind (b64decode (words ! 1)) (\<lambda>blob.
           if \<not> ed25519_blob blob then Inl (ValueError ''invalid source-server public key encoding'')
           else Inr (words ! 1)))"

subsection \<open>The files\<close>

definition settings_text :: "string \<Rightarrow> string \<Rightarrow> string \<Rightarrow> string \<Rightarrow> string" where
  "settings_text host user source volume =
     config_line ''backup'' ''main''
     @ concat (map (\<lambda>(name, value). option_line name value)
         [(''host'', host), (''user'', user), (''source'', source), (''volume_uuid'', volume)])"

definition fstab_text :: "string \<Rightarrow> string" where
  "fstab_text volume =
     anonymous_line ''global'' @ option_line ''anon_mount'' ''0'' @ option_line ''anon_swap'' ''0''
     @ option_line ''auto_mount'' ''0'' @ option_line ''auto_swap'' ''0'' @ [nl]
     @ config_line ''mount'' ''backup'' @ option_line ''target'' ''/mnt/backup''
     @ option_line ''uuid'' volume @ option_line ''fstype'' ''btrfs''
     @ option_line ''options'' ''rw,noatime'' @ option_line ''enabled'' ''1''"

definition crontab_text :: "int \<Rightarrow> int \<Rightarrow> string" where
  "crontab_text hour minute =
     str_int minute @ '' '' @ str_int hour @ '' * * * /usr/sbin/ls420d-pull'' @ [nl]"

definition backup_files :: "fsys \<Rightarrow> json \<Rightarrow> ppath \<Rightarrow> bytes dict result" where
  "backup_files fs job root =
     (case job of
        JObj d \<Rightarrow>
          if set (dict_keys d) \<noteq> set backup_fields
          then Inl (ValueError ''backup requires exactly the documented job fields'')
          else rbind (backup_values d) (\<lambda>(host, user, source, volume, hour, minute).
            rbind (read_key fs root d ''client_key'' True) (\<lambda>client.
            if length client < 64 \<or> \<not> startswith key_prefix client
            then Inl (ValueError ''client key must be a Dropbear Ed25519 private key'')
            else rbind (read_key fs root d ''host_public_key'' False) (\<lambda>raw.
            rbind (server_key raw) (\<lambda>key.
            Inr [(''etc/config/ls420d-backup'', settings_text host user source volume),
                 (''etc/config/fstab'', fstab_text volume),
                 (''etc/crontabs/root'', crontab_text hour minute),
                 (''root/.ssh/backup_ed25519'', client),
                 (''root/.ssh/known_hosts'', host @ '' '' @ ssh_ed25519 @ '' '' @ key @ [nl])]))))
      | _ \<Rightarrow> Inl (ValueError ''backup requires exactly the documented job fields''))"

subsection \<open>Accepted values\<close>

lemma check_str_Inr [result_simps]: "check_str j good m = Inr s \<longleftrightarrow> j = JStr s \<and> good s"
  by (auto simp: check_str_def as_str_def split: json.splits)

lemma check_hour_Inr [result_simps]:
  "check_hour job name limit = Inr n \<longleftrightarrow> map_of job name = Some (JInt n) \<and> 0 \<le> n \<and> n \<le> limit"
proof (cases "map_of job name")
  case (Some j)
  then show ?thesis by (cases j) (auto simp: check_hour_def dict_get_def)
qed (simp add: check_hour_def dict_get_def)

definition valid_job :: "job_values \<Rightarrow> bool" where
  "valid_job = (\<lambda>(host, user, source, volume, hour, minute).
     valid_host host \<and> fullmatch login_name user \<and> valid_source source \<and> fullmatch UUID volume \<and>
     0 \<le> hour \<and> hour \<le> 23 \<and> 0 \<le> minute \<and> minute \<le> 59)"

lemma backup_values_Inr:
  "backup_values d = Inr (host, user, source, volume, hour, minute) \<longleftrightarrow>
     map_of d ''host'' = Some (JStr host) \<and> map_of d ''user'' = Some (JStr user) \<and>
     map_of d ''source'' = Some (JStr source) \<and> map_of d ''volume_uuid'' = Some (JStr volume) \<and>
     map_of d ''hour'' = Some (JInt hour) \<and> map_of d ''minute'' = Some (JInt minute) \<and>
     valid_job (host, user, source, volume, hour, minute)"
  unfolding backup_values_def valid_job_def uuid_canonical_iff [symmetric] by (auto simp: result_simps)

lemma dns_label_visible: "fullmatch dns_label s \<Longrightarrow> list_all visible s \<and> q1 \<notin> set s"
  using fullmatch_visible [of dns_label s] fullmatch_avoids [of dns_label s q1]
  by (simp add: dns_label_def opt_def lower_alnum_def ranges_within_def in_ranges_def q1_def)

lemma dns_label_nonempty: "\<not> nullable dns_label" "fullmatch dns_label s \<Longrightarrow> s \<noteq> []"
  by (auto simp: dns_label_def)

lemma valid_host_word:
  assumes "valid_host host"
  shows "list_all visible host \<and> q1 \<notin> set host \<and> host \<noteq> []"
proof -
  have "visible c \<and> c \<noteq> q1" if "c \<in> set host" for c
    using split_on_char [OF that, of "CHR ''.''"] assms dns_label_visible
    by (auto simp: valid_host_def list_all_iff visible_def q1_def)
  moreover have "host \<noteq> []" using assms dns_label_nonempty by (auto simp: valid_host_def)
  ultimately show ?thesis by (auto simp: list_all_iff)
qed

lemma login_name_word: "fullmatch login_name s \<Longrightarrow> list_all visible s \<and> q1 \<notin> set s"
  using fullmatch_visible [of login_name s] fullmatch_avoids [of login_name s q1]
  by (simp add: login_name_def lower_alnum_def ranges_within_def in_ranges_def q1_def)

lemma source_word: "valid_source s \<Longrightarrow> list_all visible s \<and> q1 \<notin> set s"
  using fullmatch_visible [of source_path s] fullmatch_avoids [of source_path s q1]
  by (simp add: valid_source_def source_path_def source_ranges_def alnum_ranges_def chr1_def
      ranges_within_def in_ranges_def q1_def)

lemma uuid_word: "fullmatch UUID s \<Longrightarrow> list_all visible s \<and> q1 \<notin> set s"
  using fullmatch_visible [of UUID s] fullmatch_avoids [of UUID s q1]
  by (simp add: UUID_def hex_digit_def times_def chr1_def ranges_within_def in_ranges_def q1_def)

lemma visible_uci_safe: "list_all visible s \<and> q1 \<notin> set s \<Longrightarrow> uci_safe s"
  by (auto simp: uci_safe_def list_all_iff visible_def nl_def)

lemmas job_words = valid_host_word login_name_word source_word uuid_word

subsection \<open>The properties\<close>

definition bounded_key :: "fsys \<Rightarrow> ppath \<Rightarrow> bool \<Rightarrow> bytes \<Rightarrow> bool" where
  "bounded_key fs path private bs \<longleftrightarrow>
     \<not> is_symlink fs path \<and> 0 < length bs \<and> int (length bs) \<le> MAX_KEY \<and>
     (\<exists>mode. stat fs path = Inr (File mode bs) \<and> \<not> (private \<and> group_or_other mode))"

lemma read_key_Inr:
  "read_key fs root job name private = Inr bs \<longleftrightarrow>
     (\<exists>s. map_of job name = Some (JStr s) \<and> s \<noteq> [] \<and> bounded_key fs (p_join root (parse_path s)) private bs)"
proof (cases "\<exists>s. map_of job name = Some (JStr s) \<and> s \<noteq> []")
  case True
  then obtain s where s: "map_of job name = Some (JStr s)" "s \<noteq> []" by blast
  let ?p = "p_join root (parse_path s)"
  show ?thesis
  proof (cases "is_file fs ?p")
    case True
    then obtain m bs' where "stat fs ?p = Inr (File m bs')" by (rule is_fileE)
    with s True show ?thesis
      by (auto simp: read_key_def as_str_def dict_get_def bounded_key_def st_size_def st_perm_def
          read_bytes_file Let_def split: if_splits)
  next
    case False
    then have "stat fs ?p \<noteq> Inr (File m b)" for m b by (auto simp: is_file_def)
    with s False show ?thesis by (auto simp: read_key_def as_str_def dict_get_def bounded_key_def Let_def)
  qed
next
  case False
  then show ?thesis
    by (auto simp: read_key_def as_str_def dict_get_def split: option.splits json.splits)
qed

lemma base64_word: "b64decode s = Inr r \<Longrightarrow> list_all visible s"
  using b64decode_alphabet [of s r] ranges_within_in [of "CHR 0x21" "CHR 0x7E" base64_ranges]
  by (simp add: list_all_iff visible_def) (simp add: base64_ranges_def alnum_ranges_def ranges_within_def)

definition server_line :: "string \<Rightarrow> bool" where
  "server_line key \<longleftrightarrow> (\<exists>blob. b64decode key = Inr blob \<and> ed25519_blob blob)"

lemma server_line_word: "server_line key \<Longrightarrow> list_all visible key \<and> key \<noteq> []"
  by (auto simp: server_line_def ed25519_blob_def b64decode_def startswith_def intro: base64_word)

text \<open>A file of one line: the key type, the key, and perhaps a comment.\<close>

definition names_key :: "bytes \<Rightarrow> string \<Rightarrow> bool" where
  "names_key raw key \<longleftrightarrow> (\<exists>txt line comment. decode_ascii raw = Inr txt \<and> splitlines txt = [line] \<and>
     py_split line = ssh_ed25519 # key # comment)"

lemma server_key_Inr: "server_key raw = Inr key \<Longrightarrow> server_line key"
  by (auto simp: server_key_def server_line_def result_simps Let_def split: if_splits)

lemma server_key_names:
  assumes "server_key raw = Inr key"
  shows "names_key raw key"
proof -
  from assms obtain t where p: "decode_ascii raw = Inr t" "length (splitlines t) = 1"
    "2 \<le> length (py_split (hd (splitlines t)))" "py_split (hd (splitlines t)) ! 0 = ssh_ed25519"
    "key = py_split (hd (splitlines t)) ! 1"
    by (auto simp: server_key_def result_simps Let_def split: if_splits)
  from p(2) obtain line where "splitlines t = [line]" by (auto simp: length_Suc_conv)
  moreover from p(3) obtain a b c where "py_split (hd (splitlines t)) = a # b # c"
    by (metis Suc_le_length_iff numeral_2_eq_2)
  ultimately show ?thesis using p by (auto simp: names_key_def)
qed

lemma uci_word_simps [simp]: "uci_word k \<longleftrightarrow> list_all (\<lambda>c. c \<noteq> CHR '' '' \<and> c \<noteq> CHR 0x0A) k"
  by (auto simp: uci_word_def list_all_iff nl_def)

lemma settings_items:
  assumes "uci_safe host" "uci_safe user" "uci_safe source" "uci_safe volume"
  shows "uci_items (settings_text host user source volume) =
    Some [Config ''backup'' (Some ''main''), Option ''host'' host, Option ''user'' user,
      Option ''source'' source, Option ''volume_uuid'' volume]"
proof -
  have "uci_safe ''main''" by (simp add: uci_safe_def q1_def nl_def)
  with assms show ?thesis by (simp add: settings_text_def)
qed

lemma fstab_items:
  assumes "uci_safe volume"
  shows "uci_items (fstab_text volume) =
    Some [Config ''global'' None, Option ''anon_mount'' ''0'', Option ''anon_swap'' ''0'',
      Option ''auto_mount'' ''0'', Option ''auto_swap'' ''0'',
      Config ''mount'' (Some ''backup''), Option ''target'' ''/mnt/backup'', Option ''uuid'' volume,
      Option ''fstype'' ''btrfs'', Option ''options'' ''rw,noatime'', Option ''enabled'' ''1'']"
proof -
  have "uci_safe ''0''" "uci_safe ''1''" "uci_safe ''backup''" "uci_safe ''/mnt/backup''"
    "uci_safe ''btrfs''" "uci_safe ''rw,noatime''" by (simp_all add: uci_safe_def q1_def nl_def)
  with assms show ?thesis by (simp add: fstab_text_def uci_items_blank)
qed

text \<open>The words of one line of space-separated words.\<close>

definition line_words :: "string \<Rightarrow> string list list" where
  "line_words txt = map py_split (split_on nl txt)"

lemma line_words_one:
  assumes "list_all (\<lambda>w. w \<noteq> [] \<and> list_all visible w) ws"
  shows "line_words (join '' '' ws @ [nl]) = [ws, []]"
proof -
  have "list_all printable (join '' '' ws)"
    using assms by (induction "'' ''" ws rule: join.induct) (auto simp: visible_printable printable_def)
  then have "nl \<notin> set (join '' '' ws)" by (auto simp: list_all_iff printable_def nl_def)
  then have "split_on nl (join '' '' ws @ nl # []) = [join '' '' ws, []]" by (simp add: split_on_append)
  moreover have "py_split [] = []" by (simp add: py_split_def)
  ultimately show ?thesis using py_split_words [OF assms] by (simp add: line_words_def)
qed

lemma to_base_10_visible: "0 \<le> n \<Longrightarrow> list_all visible (to_base 10 n)"
proof (induction "10 :: int" n rule: to_base.induct)
  case (1 n)
  have dig: "list_all (\<lambda>k. visible (digit_char k)) [0..9]" by code_simp
  show ?case
  proof (cases "n < 10")
    case True
    with 1 dig show ?thesis by (subst to_base.simps) (simp add: list_all_iff)
  next
    case False
    with 1 dig show ?thesis by (subst to_base.simps) (simp add: list_all_iff)
  qed
qed

lemma str_int_word: "0 \<le> n \<Longrightarrow> str_int n \<noteq> [] \<and> list_all visible (str_int n)"
  by (simp add: str_int_def to_base_10_visible)

lemma crontab_words:
  assumes "0 \<le> hour" "0 \<le> minute"
  shows "line_words (crontab_text hour minute) =
    [[str_int minute, str_int hour, ''*'', ''*'', ''*'', ''/usr/sbin/ls420d-pull''], []]"
proof -
  have "crontab_text hour minute =
      join '' '' [str_int minute, str_int hour, ''*'', ''*'', ''*'', ''/usr/sbin/ls420d-pull''] @ [nl]"
    by (simp add: crontab_text_def)
  then show ?thesis using assms str_int_word by (simp only:) (subst line_words_one, simp_all add: visible_def)
qed

lemma known_hosts_words:
  assumes "valid_host host" "server_line key"
  shows "line_words (host @ '' '' @ ssh_ed25519 @ '' '' @ key @ [nl]) = [[host, ssh_ed25519, key], []]"
proof -
  have "host @ '' '' @ ssh_ed25519 @ '' '' @ key @ [nl] = join '' '' [host, ssh_ed25519, key] @ [nl]"
    by simp
  then show ?thesis
    using valid_host_word [OF assms(1)] server_line_word [OF assms(2)]
    by (simp only:) (subst line_words_one, simp_all add: visible_def ssh_ed25519_def)
qed

text \<open>A success has checked every value of the job and gives the five files made of them.\<close>

definition backup_texts :: "string \<Rightarrow> string \<Rightarrow> string \<Rightarrow> string \<Rightarrow> int \<Rightarrow> int \<Rightarrow> bytes \<Rightarrow> string \<Rightarrow> bytes dict" where
  "backup_texts host user source volume hour minute client key =
     [(''etc/config/ls420d-backup'', settings_text host user source volume),
      (''etc/config/fstab'', fstab_text volume), (''etc/crontabs/root'', crontab_text hour minute),
      (''root/.ssh/backup_ed25519'', client),
      (''root/.ssh/known_hosts'', host @ '' '' @ ssh_ed25519 @ '' '' @ key @ [nl])]"

lemma backup_files_Inr:
  assumes "backup_files fs job root = Inr files"
  obtains d host user source volume hour minute client raw key where "job = JObj d"
    "backup_values d = Inr (host, user, source, volume, hour, minute)"
    "read_key fs root d ''client_key'' True = Inr client" "64 \<le> length client" "startswith key_prefix client"
    "read_key fs root d ''host_public_key'' False = Inr raw" "server_key raw = Inr key"
    "files = backup_texts host user source volume hour minute client key"
proof -
  from assms obtain d where "job = JObj d" by (auto simp: backup_files_def split: json.splits)
  then show thesis
    using assms that by (auto simp: backup_files_def backup_texts_def result_simps split: if_splits)
qed

text \<open>
  C27: What an accepted backup job becomes. The five files are exactly the documented ones;
  the UCI files, read back, contain the validated values and nothing else; the crontab is
  one daily entry for \<open>/usr/sbin/ls420d-pull\<close> at the hour and minute of the job; \<open>known_hosts\<close>
  is one line that pins, for the host, the Ed25519 key of the one line of the bounded regular
  file \<open>host_public_key\<close> names; the client key is the content of a private, bounded, regular file.
\<close>

theorem backup_files_meaning:
  assumes "backup_files fs job root = Inr files"
  shows "\<exists>d host user source volume hour minute path client server raw key.
    job = JObj d \<and> valid_job (host, user, source, volume, hour, minute) \<and>
    map_of d ''host'' = Some (JStr host) \<and> map_of d ''user'' = Some (JStr user) \<and>
    map_of d ''source'' = Some (JStr source) \<and> map_of d ''volume_uuid'' = Some (JStr volume) \<and>
    map_of d ''hour'' = Some (JInt hour) \<and> map_of d ''minute'' = Some (JInt minute) \<and>
    map_of d ''client_key'' = Some (JStr path) \<and> map_of d ''host_public_key'' = Some (JStr server) \<and>
    dict_keys files = [''etc/config/ls420d-backup'', ''etc/config/fstab'', ''etc/crontabs/root'',
      ''root/.ssh/backup_ed25519'', ''root/.ssh/known_hosts''] \<and>
    Option.bind (map_of files ''etc/config/ls420d-backup'') uci_items =
      Some [Config ''backup'' (Some ''main''), Option ''host'' host, Option ''user'' user,
        Option ''source'' source, Option ''volume_uuid'' volume] \<and>
    Option.bind (map_of files ''etc/config/fstab'') uci_items =
      Some [Config ''global'' None, Option ''anon_mount'' ''0'', Option ''anon_swap'' ''0'',
        Option ''auto_mount'' ''0'', Option ''auto_swap'' ''0'',
        Config ''mount'' (Some ''backup''), Option ''target'' ''/mnt/backup'', Option ''uuid'' volume,
        Option ''fstype'' ''btrfs'', Option ''options'' ''rw,noatime'', Option ''enabled'' ''1''] \<and>
    map_option line_words (map_of files ''etc/crontabs/root'') =
      Some [[str_int minute, str_int hour, ''*'', ''*'', ''*'', ''/usr/sbin/ls420d-pull''], []] \<and>
    map_option line_words (map_of files ''root/.ssh/known_hosts'') = Some [[host, ssh_ed25519, key], []] \<and>
    server_line key \<and> names_key raw key \<and> bounded_key fs (p_join root (parse_path server)) False raw \<and>
    map_of files ''root/.ssh/backup_ed25519'' = Some client \<and>
    bounded_key fs (p_join root (parse_path path)) True client \<and>
    64 \<le> length client \<and> startswith key_prefix client"
proof -
  obtain d host user source volume hour minute client raw key where job: "job = JObj d"
    and vals: "backup_values d = Inr (host, user, source, volume, hour, minute)"
    and client: "read_key fs root d ''client_key'' True = Inr client" "64 \<le> length client" "startswith key_prefix client"
    and server: "read_key fs root d ''host_public_key'' False = Inr raw" and key: "server_key raw = Inr key" and files: "files = backup_texts host user source volume hour minute client key"
    using assms by (rule backup_files_Inr)
  note v = vals [unfolded backup_values_Inr]
  then have valid: "valid_host host" "fullmatch login_name user" "valid_source source" "fullmatch UUID volume"
      "0 \<le> hour" "0 \<le> minute"
    by (auto simp: valid_job_def)
  then have safe: "uci_safe host" "uci_safe user" "uci_safe source" "uci_safe volume"
    using job_words visible_uci_safe by blast+
  from client(1) obtain path where path: "map_of d ''client_key'' = Some (JStr path)"
      "bounded_key fs (p_join root (parse_path path)) True client"
    by (auto simp: read_key_Inr)
  from server obtain hp where hp: "map_of d ''host_public_key'' = Some (JStr hp)"
      "bounded_key fs (p_join root (parse_path hp)) False raw"
    by (auto simp: read_key_Inr)
  have line: "server_line key" "names_key raw key" using key by (rule server_key_Inr server_key_names)+
  have of: "dict_keys files = [''etc/config/ls420d-backup'', ''etc/config/fstab'', ''etc/crontabs/root'',
      ''root/.ssh/backup_ed25519'', ''root/.ssh/known_hosts'']"
    "map_of files ''etc/config/ls420d-backup'' = Some (settings_text host user source volume)"
    "map_of files ''etc/config/fstab'' = Some (fstab_text volume)"
    "map_of files ''etc/crontabs/root'' = Some (crontab_text hour minute)"
    "map_of files ''root/.ssh/known_hosts'' = Some (host @ '' '' @ ssh_ed25519 @ '' '' @ key @ [nl])"
    "map_of files ''root/.ssh/backup_ed25519'' = Some client"
    unfolding files backup_texts_def by (simp_all add: dict_keys_def)
  note reads = settings_items [OF safe] fstab_items [OF safe(4)] crontab_words [OF valid(5,6)]
    known_hosts_words [OF valid(1) line(1)]
  show ?thesis
    unfolding of
    by (rule exI [of _ d], rule exI [of _ host], rule exI [of _ user], rule exI [of _ source],
        rule exI [of _ volume], rule exI [of _ hour], rule exI [of _ minute], rule exI [of _ path],
        rule exI [of _ client], rule exI [of _ hp], rule exI [of _ raw], rule exI [of _ key])
      (simp only: option.simps bind.simps reads, use job v path client(2,3) hp line in blast)
qed

subsection \<open>A concrete job\<close>

definition sample_blob :: bytes where "sample_blob = key_prefix @ be32 32 @ replicate 32 (CHR ''k'')"
definition sample_key :: string where "sample_key = encode64 sample_blob"

definition sample_job :: "json dict" where
  "sample_job = [(''host'', JStr ''nas.lan''), (''user'', JStr ''backup''), (''source'', JStr ''/srv/data/''),
     (''volume_uuid'', JStr ''01234567-89ab-cdef-0123-456789abcdef''), (''hour'', JInt 3), (''minute'', JInt 30),
     (''client_key'', JStr ''client''), (''host_public_key'', JStr ''server.pub'')]"

definition sample_fs :: fsys where
  "sample_fs = \<lparr>fs_entries =
     [([''cfg''], Dir 493), ([''cfg'', ''client''], File 384 (key_prefix @ replicate 64 (CHR ''s''))),
      ([''cfg'', ''server.pub''], File 420 (ssh_ed25519 @ '' '' @ sample_key @ [nl])),
      ([''cfg'', ''host''], File 384 (key_prefix @ replicate 64 (CHR ''h''))),
      ([''cfg'', ''id.pub''], File 420 (ssh_ed25519 @ '' '' @ sample_key @ '' me@home'' @ [nl]))],
     cwd = [], umask = 18\<rparr>"

definition sample_root :: ppath where "sample_root = parse_path ''/cfg''"

lemma sample_values:
  "backup_values sample_job =
     Inr (''nas.lan'', ''backup'', ''/srv/data/'', ''01234567-89ab-cdef-0123-456789abcdef'', 3, 30)"
proof -
  have "valid_host ''nas.lan''" by code_simp
  moreover have "fullmatch login_name ''backup''" by code_simp
  moreover have "fullmatch UUID ''01234567-89ab-cdef-0123-456789abcdef''" by code_simp
  moreover have "valid_source ''/srv/data/''"
    by (simp add: valid_source_def) code_simp
  ultimately show ?thesis by (simp add: backup_values_Inr valid_job_def sample_job_def)
qed

lemma sample_path:
  "CHR ''/'' \<notin> set n \<Longrightarrow> n \<noteq> [] \<Longrightarrow> n \<noteq> ''.'' \<Longrightarrow> n \<noteq> ''..'' \<Longrightarrow>
     p_join sample_root (parse_path n) = \<lparr>p_root = ''/'', p_tail = [''cfg'', n]\<rparr>"
  by (auto simp: sample_root_def parse_path_def p_join_def is_absolute_def split_on_id startswith_iff)

lemma sample_stat:
  "n \<noteq> ''..'' \<Longrightarrow> nodes sample_fs [''cfg'', n] = Some (File m bs) \<Longrightarrow>
     lstat sample_fs \<lparr>p_root = ''/'', p_tail = [''cfg'', n]\<rparr> = Inr (File m bs) \<and>
     stat sample_fs \<lparr>p_root = ''/'', p_tail = [''cfg'', n]\<rparr> = Inr (File m bs)"
proof -
  assume n: "n \<noteq> ''..''" "nodes sample_fs [''cfg'', n] = Some (File m bs)"
  have "nodes sample_fs [''cfg''] = Some (Dir 493)" by (simp add: sample_fs_def nodes_def)
  with n show ?thesis by (simp add: lstat_def stat_def resolve_def is_absolute_def node_at_def)
qed

lemma length_key_prefix [simp]: "length key_prefix = 15"
  by (simp add: key_prefix_def ssh_ed25519_def)

lemma sample_bounded:
  assumes "CHR ''/'' \<notin> set n" "n \<noteq> []" "n \<noteq> ''.''" "n \<noteq> ''..''"
    and "nodes sample_fs [''cfg'', n] = Some (File m bs)"
    and "0 < length bs" "int (length bs) \<le> MAX_KEY" "\<not> (private \<and> group_or_other m)"
  shows "bounded_key sample_fs (p_join sample_root (parse_path n)) private bs"
  using sample_path [OF assms(1-4)] sample_stat [OF assms(4,5)] assms(6-8)
  by (simp add: bounded_key_def is_symlink_def)

lemma length_sample_key: "length sample_key = 68"
  by code_simp

lemma private_modes: "\<not> group_or_other 384"
  by code_simp

lemma sample_keys:
  "bounded_key sample_fs (p_join sample_root (parse_path ''client'')) True (key_prefix @ replicate 64 (CHR ''s''))"
  "bounded_key sample_fs (p_join sample_root (parse_path ''server.pub'')) False (ssh_ed25519 @ '' '' @ sample_key @ [nl])"
  "bounded_key sample_fs (p_join sample_root (parse_path ''host'')) True (key_prefix @ replicate 64 (CHR ''h''))"
  "bounded_key sample_fs (p_join sample_root (parse_path ''id.pub'')) False
     (ssh_ed25519 @ '' '' @ sample_key @ '' me@home'' @ [nl])"
  by (rule sample_bounded [where m = 384] sample_bounded [where m = 420];
      simp add: sample_fs_def nodes_def MAX_KEY_def private_modes length_sample_key ssh_ed25519_def)+

lemma sample_server_line: "server_line sample_key"
  by (simp add: server_line_def sample_key_def b64decode_encode64 ed25519_blob_def sample_blob_def)

lemma sample_key_visible: "list_all visible sample_key" "sample_key \<noteq> []"
  using server_line_word [OF sample_server_line] by simp_all

lemma sample_server_key: "server_key (ssh_ed25519 @ '' '' @ sample_key @ [nl]) = Inr sample_key"
proof -
  let ?line = "join '' '' [ssh_ed25519, sample_key]"
  have "list_all printable ?line" "list_all visible ssh_ed25519"
    using visible_printable [OF sample_key_visible(1)]
    by (simp_all add: ssh_ed25519_def printable_def visible_def)
  then have free: "sep_free str_nls ?line" by (intro printable_sep_free)
  have "sep_len str_nls ([nl] @ []) = length [nl]" by (simp add: nl_def) code_simp
  from split_seps_cons [OF free this]
  have "split_seps str_nls (?line @ [nl] @ []) = [(?line, [nl])]" by simp
  moreover have "py_split ?line = [ssh_ed25519, sample_key]"
    using sample_key_visible \<open>list_all visible ssh_ed25519\<close> by (intro py_split_words) (simp add: ssh_ed25519_def)
  moreover have "is_ascii (?line @ [nl])"
    using sample_key_visible(1) by (auto simp: is_ascii_def list_all_iff visible_def ssh_ed25519_def nl_def less_eq_char_def)
  ultimately show ?thesis
    using sample_server_line
    by (auto simp: server_key_def decode_ascii_def splitlines_def Let_def server_line_def)
qed

lemma sample_backup:
  "backup_files sample_fs (JObj sample_job) sample_root = Inr
     [(''etc/config/ls420d-backup'', settings_text ''nas.lan'' ''backup'' ''/srv/data/'' ''01234567-89ab-cdef-0123-456789abcdef''),
      (''etc/config/fstab'', fstab_text ''01234567-89ab-cdef-0123-456789abcdef''),
      (''etc/crontabs/root'', crontab_text 3 30),
      (''root/.ssh/backup_ed25519'', key_prefix @ replicate 64 (CHR ''s'')),
      (''root/.ssh/known_hosts'', ''nas.lan'' @ '' '' @ ssh_ed25519 @ '' '' @ sample_key @ [nl])]"
proof -
  have keys: "dict_keys sample_job = backup_fields"
    by (simp add: dict_keys_def sample_job_def backup_fields_def)
  have "read_key sample_fs sample_root sample_job ''client_key'' True = Inr (key_prefix @ replicate 64 (CHR ''s''))"
    using sample_keys(1) by (simp add: read_key_Inr) (simp add: sample_job_def)
  moreover have "read_key sample_fs sample_root sample_job ''host_public_key'' False =
      Inr (ssh_ed25519 @ '' '' @ sample_key @ [nl])"
    using sample_keys(2) by (simp add: read_key_Inr) (simp add: sample_job_def)
  ultimately show ?thesis
    by (simp only: backup_files_def json.case keys sample_values rbind_Inr prod.case sample_server_key) simp
qed

theorem backup_files_meaning_witness:
  "(\<exists>files. backup_files sample_fs (JObj sample_job) sample_root = Inr files) \<and>
   (\<exists>client. bounded_key sample_fs (p_join sample_root (parse_path ''client'')) True client \<and>
      64 \<le> length client \<and> startswith key_prefix client)"
proof -
  have path: "map_of sample_job ''client_key'' = Some (JStr ''client'')" by (simp add: sample_job_def)
  from backup_files_meaning [OF sample_backup] obtain d path client
    where "JObj sample_job = JObj d" "map_of d ''client_key'' = Some (JStr path)"
      "bounded_key sample_fs (p_join sample_root (parse_path path)) True client"
      "64 \<le> length client" "startswith key_prefix client"
    by blast
  with path sample_backup show ?thesis by auto
qed

end
