(* ===== verification/Ipv4.thy ===== *)
theory Ipv4
  imports Py_Text "HOL-Library.Word"
begin

unbundle bit_operations_syntax

text \<open>
  \<open>ipaddress.IPv4Address\<close> and \<open>ipaddress.IPv4Interface\<close> on 32-bit words: the parser of
  dotted quads, of prefix lengths, net masks and host masks, the printer, and membership of
  an address in the interface's network.
\<close>

type_synonym ipv4 = "32 word"

text \<open>\<open>AddressValueError\<close> and \<open>NetmaskValueError\<close> are subclasses of \<open>ValueError\<close>.\<close>

definition bad_address :: exn where "bad_address = ValueError ''ipaddress''"

subsection \<open>Addresses\<close>

definition is_digit :: "char \<Rightarrow> bool" where
  "is_digit c \<longleftrightarrow> CHR ''0'' \<le> c \<and> c \<le> CHR ''9''"

definition decimal_value :: "string \<Rightarrow> int" where
  "decimal_value s = foldl (\<lambda>n c. 10 * n + (of_char c - 48)) 0 s"

text \<open>\<open>isascii() and isdigit()\<close> holds of non-empty strings of ASCII digits.\<close>

definition ascii_digits :: "string \<Rightarrow> bool" where
  "ascii_digits s \<longleftrightarrow> s \<noteq> [] \<and> list_all is_digit s"

definition parse_octet :: "string \<Rightarrow> int result" where
  "parse_octet s =
     (if \<not> ascii_digits s \<or> length s > 3 \<or> s \<noteq> ''0'' \<and> hd s = CHR ''0'' \<or> decimal_value s > 255
      then Inl bad_address else Inr (decimal_value s))"

definition ip_from_string :: "string \<Rightarrow> ipv4 result" where
  "ip_from_string s =
     (let octets = split_on (CHR ''.'') s in
      if s = [] \<or> length octets \<noteq> 4 then Inl bad_address
      else rbind (map_result parse_octet octets) (\<lambda>ns.
        Inr (word_of_int (foldl (\<lambda>n b. n * 256 + b) 0 ns))))"

definition octet_of :: "ipv4 \<Rightarrow> nat \<Rightarrow> int" where
  "octet_of w k = uint w div 256 ^ k mod 256"

definition str_ipv4 :: "ipv4 \<Rightarrow> string" where
  "str_ipv4 w = join ''.'' (map (\<lambda>k. str_int (octet_of w k)) [3, 2, 1, 0])"

subsection \<open>Masks\<close>

definition ip_from_prefix :: "nat \<Rightarrow> ipv4" where
  "ip_from_prefix p = (- 1) XOR drop_bit p (- 1)"

fun right_zeros :: "nat \<Rightarrow> ipv4 \<Rightarrow> nat" where
  "right_zeros 0 w = 0"
| "right_zeros (Suc k) w = (if bit w 0 then 0 else Suc (right_zeros k (drop_bit 1 w)))"

definition prefix_from_ip :: "ipv4 \<Rightarrow> nat option" where
  "prefix_from_ip w =
     (let z = right_zeros 32 w; p = 32 - z
      in if drop_bit z w = mask p then Some p else None)"

definition prefix_from_prefix_string :: "string \<Rightarrow> nat option" where
  "prefix_from_prefix_string s =
     (if ascii_digits s \<and> decimal_value s \<le> 32 then Some (nat (decimal_value s)) else None)"

definition prefix_from_ip_string :: "string \<Rightarrow> nat result" where
  "prefix_from_ip_string s =
     (case ip_from_string s of
        Inl e \<Rightarrow> Inl bad_address
      | Inr w \<Rightarrow> (case prefix_from_ip w of
            Some p \<Rightarrow> Inr p
          | None \<Rightarrow> (case prefix_from_ip (NOT w) of Some p \<Rightarrow> Inr p | None \<Rightarrow> Inl bad_address)))"

definition make_netmask :: "string \<Rightarrow> nat result" where
  "make_netmask s = (case prefix_from_prefix_string s of Some p \<Rightarrow> Inr p | None \<Rightarrow> prefix_from_ip_string s)"

subsection \<open>Interfaces\<close>

record ipv4_interface =
  if_ip :: ipv4
  if_prefix :: nat

definition if_netmask :: "ipv4_interface \<Rightarrow> ipv4" where
  "if_netmask i = ip_from_prefix (if_prefix i)"

definition interface_from_string :: "string \<Rightarrow> ipv4_interface result" where
  "interface_from_string s =
     (case split_on (CHR ''/'') s of
        [addr] \<Rightarrow> rbind (ip_from_string addr) (\<lambda>ip. Inr \<lparr>if_ip = ip, if_prefix = 32\<rparr>)
      | [addr, m] \<Rightarrow> rbind (ip_from_string addr) (\<lambda>ip.
          rbind (make_netmask m) (\<lambda>p. Inr \<lparr>if_ip = ip, if_prefix = p\<rparr>))
      | _ \<Rightarrow> Inl bad_address)"

definition address_from_string :: "string \<Rightarrow> ipv4 result" where
  "address_from_string s = (if CHR ''/'' \<in> set s then Inl bad_address else ip_from_string s)"

text \<open>The efficient constructor from an integer (\<open>IPv4Interface\<close> then has the full prefix).\<close>

definition ip_from_int :: "int \<Rightarrow> ipv4 result" where
  "ip_from_int n = (if n < 0 \<or> n > 4294967295 then Inl bad_address else Inr (word_of_int n))"

text \<open>\<open>address in interface.network\<close>\<close>

definition in_network :: "ipv4 \<Rightarrow> ipv4_interface \<Rightarrow> bool" where
  "in_network a i \<longleftrightarrow> a AND if_netmask i = if_ip i AND if_netmask i"

subsection \<open>Membership in the network is equality of the leading bits\<close>

lemma bit_ip_from_prefix:
  "p \<le> 32 \<Longrightarrow> bit (ip_from_prefix p) n \<longleftrightarrow> n < 32 \<and> 32 - p \<le> n"
  by (auto simp: ip_from_prefix_def bit_simps)

lemma in_network_iff:
  assumes "if_prefix i \<le> 32"
  shows "in_network a i \<longleftrightarrow> drop_bit (32 - if_prefix i) a = drop_bit (32 - if_prefix i) (if_ip i)"
proof -
  let ?p = "if_prefix i"
  have "in_network a i \<longleftrightarrow> (\<forall>n < 32. bit (a AND if_netmask i) n = bit (if_ip i AND if_netmask i) n)"
    by (simp add: in_network_def bit_eq_iff)
  also have "\<dots> \<longleftrightarrow> (\<forall>n < 32. 32 - ?p \<le> n \<longrightarrow> bit a n = bit (if_ip i) n)"
    using assms by (auto simp: bit_and_iff if_netmask_def bit_ip_from_prefix)
  also have "\<dots> \<longleftrightarrow> (\<forall>n < 32. bit (drop_bit (32 - ?p) a) n = bit (drop_bit (32 - ?p) (if_ip i)) n)"
  proof (rule iffI; intro allI impI)
    fix n :: nat assume h: "\<forall>n < 32. 32 - ?p \<le> n \<longrightarrow> bit a n = bit (if_ip i) n" and n: "n < 32"
    show "bit (drop_bit (32 - ?p) a) n = bit (drop_bit (32 - ?p) (if_ip i)) n"
      using h by (cases "32 - ?p + n < 32") (auto simp: bit_simps dest: bit_imp_le_length)
  next
    fix n :: nat assume h: "\<forall>n < 32. bit (drop_bit (32 - ?p) a) n = bit (drop_bit (32 - ?p) (if_ip i)) n"
      and n: "n < 32" "32 - ?p \<le> n"
    show "bit a n = bit (if_ip i) n"
      using h [rule_format, of "n - (32 - ?p)"] n by (simp add: bit_simps)
  qed
  finally show ?thesis by (simp add: bit_eq_iff)
qed

lemma prefix_from_ip_le: "prefix_from_ip w = Some p \<Longrightarrow> p \<le> 32"
  by (auto simp: prefix_from_ip_def Let_def split: if_splits)

lemma make_netmask_le: "make_netmask s = Inr p \<Longrightarrow> p \<le> 32"
  by (auto simp: make_netmask_def prefix_from_prefix_string_def prefix_from_ip_string_def
      split: if_splits option.splits sum.splits dest: prefix_from_ip_le)

lemma interface_prefix_le: "interface_from_string s = Inr i \<Longrightarrow> if_prefix i \<le> 32"
  by (auto simp: interface_from_string_def result_simps dest: make_netmask_le split: list.splits)

subsection \<open>The printed address is read back\<close>

definition octet_ok :: "int \<Rightarrow> bool" where
  "octet_ok n \<longleftrightarrow> parse_octet (str_int n) = Inr n \<and> list_all is_digit (str_int n)"

lemma octet_table: "list_all octet_ok [0..255]"
  by code_simp

lemma octet_of_ok: "octet_ok (octet_of w k)"
  using octet_table by (simp add: list_all_iff octet_of_def)

lemma not_dot: "list_all is_digit s \<Longrightarrow> CHR ''.'' \<notin> set s"
  by (auto simp: list_all_iff is_digit_def)

lemma octets_value:
  assumes "0 \<le> n" "n < 4294967296"
  shows "((n div 16777216 mod 256 * 256 + n div 65536 mod 256) * 256 + n div 256 mod 256) * 256 + n mod 256 = (n :: int)"
proof -
  have "n div 16777216 mod 256 = n div 16777216"
    using assms by (intro mod_pos_pos_trivial) (simp_all add: pos_imp_zdiv_nonneg_iff div_less_iff_less_mult)
  also have "\<dots> = n div 256 div 256 div 256"
    by (subst zdiv_zmult2_eq [symmetric], simp)+ simp
  finally have top: "n div 16777216 mod 256 = n div 256 div 256 div 256" .
  have "n div 65536 = n div 256 div 256" by (subst zdiv_zmult2_eq [symmetric]) simp_all
  then show ?thesis by (simp only: top div_mult_mod_eq)
qed

theorem ip_from_string_str: "ip_from_string (str_ipv4 w) = Inr w"
proof -
  let ?octets = "map (\<lambda>k. str_int (octet_of w k)) [3, 2, 1, 0]"
  have "split_on (CHR ''.'') (str_ipv4 w) = ?octets"
    unfolding str_ipv4_def using octet_of_ok [of w] by (intro split_on_join) (auto simp: octet_ok_def not_dot)
  moreover have "map_result parse_octet ?octets = Inr (map (octet_of w) [3, 2, 1, 0])"
    using octet_of_ok [of w] by (simp add: octet_ok_def)
  moreover have "foldl (\<lambda>n b. n * 256 + b) 0 (map (octet_of w) [3, 2, 1, 0]) = uint w"
  proof -
    have p: "(256 :: int) ^ 3 = 16777216" "(256 :: int) ^ 2 = 65536" "(256 :: int) ^ 1 = 256" "(256 :: int) ^ 0 = 1"
      by simp_all
    have "uint w < 4294967296" using uint_lt2p [of w] by simp
    then show ?thesis
      by (simp only: octet_of_def p list.map foldl_Cons foldl_Nil div_by_1 mult_zero_left add_0
          octets_value [OF uint_ge_0])
  qed
  moreover have "str_ipv4 w \<noteq> []" by (simp add: str_ipv4_def)
  ultimately show ?thesis by (simp add: ip_from_string_def Let_def)
qed

text \<open>The characters of a printed address.\<close>

lemma str_ipv4_chars: "c \<in> set (str_ipv4 w) \<Longrightarrow> is_digit c \<or> c = CHR ''.''"
  using octet_of_ok [of w] by (auto simp: str_ipv4_def octet_ok_def list_all_iff)

end
