(* ===== verification/Make_Initrd.thy ===== *)
theory Make_Initrd
  imports Cpio Backup_Config Ipv4
begin

text \<open>
  \<open>scripts/make_initrd.py\<close>: a deployment configuration is validated and turned into the
  files of the companion (\<open>config_files\<close>), and these into the archive inside its frame
  (\<open>image\<close>). The configuration is the value \<open>json.loads\<close> gave; \<open>root\<close> is the directory the
  key paths are relative to.
\<close>

definition MAX_PAYLOAD :: int where "MAX_PAYLOAD = 1024 * 1024"

subsection \<open>The network file\<close>

text \<open>
  The constructors of \<open>ipaddress\<close> on a JSON value: integers (and Booleans, which are
  integers) are taken as the address, strings are parsed. The text of any other value is
  no address.
\<close>

definition json_address :: "json \<Rightarrow> ipv4 result" where
  "json_address j =
     (case j of
        JInt n \<Rightarrow> ip_from_int n
      | JBool b \<Rightarrow> ip_from_int (of_bool b)
      | JStr s \<Rightarrow> address_from_string s
      | _ \<Rightarrow> Inl bad_address)"

definition json_interface :: "json \<Rightarrow> ipv4_interface result" where
  "json_interface j =
     (case j of
        JStr s \<Rightarrow> interface_from_string s
      | _ \<Rightarrow> rbind (json_address j) (\<lambda>ip. Inr \<lparr>if_ip = ip, if_prefix = 32\<rparr>))"

definition loopback_text :: string where
  "loopback_text =
     config_line ''interface'' ''loopback'' @ option_line ''device'' ''lo'' @ option_line ''proto'' ''static''
     @ option_line ''ipaddr'' ''127.0.0.1'' @ option_line ''netmask'' ''255.0.0.0'' @ [nl]
     @ config_line ''interface'' ''lan'' @ option_line ''device'' ''eth0''"

definition gateway_text :: "json dict \<Rightarrow> ipv4_interface \<Rightarrow> string result" where
  "gateway_text network i =
     (case map_of network ''gateway'' of
        None \<Rightarrow> Inr []
      | Some j \<Rightarrow> rbind (json_address j) (\<lambda>gateway.
          if \<not> in_network gateway i then Inl (ValueError ''gateway must be in the configured subnet'')
          else Inr (option_line ''gateway'' (str_ipv4 gateway))))"

definition dns_text :: "json dict \<Rightarrow> string result" where
  "dns_text network =
     (case (case map_of network ''dns'' of None \<Rightarrow> JArr [] | Some j \<Rightarrow> j) of
        JArr xs \<Rightarrow> for_each (\<lambda>acc j. rbind (json_address j) (\<lambda>dns. Inr (acc @ list_line ''dns'' (str_ipv4 dns)))) [] xs
      | _ \<Rightarrow> Inl (ValueError ''dns must be an array of IPv4 addresses''))"

definition network_text :: "json \<Rightarrow> string result" where
  "network_text j =
     (case j of
        JObj network \<Rightarrow>
          (let mode = map_of network ''mode''; fields = set (dict_keys network) in
           if mode = Some (JStr ''dhcp'') \<and> fields = {''mode''}
           then Inr (loopback_text @ option_line ''proto'' ''dhcp'')
           else if mode = Some (JStr ''static'') \<and> fields \<subseteq> {''mode'', ''address'', ''gateway'', ''dns''} then
             rbind (dict_get network ''address'') (\<lambda>address.
             rbind (json_interface address) (\<lambda>i.
             rbind (gateway_text network i) (\<lambda>gateway.
             rbind (dns_text network) (\<lambda>dns.
             Inr (loopback_text @ option_line ''proto'' ''static'' @ option_line ''ipaddr'' (str_ipv4 (if_ip i))
               @ option_line ''netmask'' (str_ipv4 (if_netmask i)) @ gateway @ dns)))))
           else Inl (ValueError ''invalid network mode or fields''))
      | _ \<Rightarrow> Inl (AttributeError ''get''))"

subsection \<open>Key files\<close>

definition input_file :: "fsys \<Rightarrow> ppath \<Rightarrow> json dict \<Rightarrow> string \<Rightarrow> bool \<Rightarrow> bytes result" where
  "input_file fs root config name private =
     rbind (dict_get config name) (\<lambda>value.
     rbind (check_str value (\<lambda>s. s \<noteq> []) ''key paths must be nonempty strings'') (\<lambda>s.
       let path = p_join root (parse_path s) in
       if is_symlink fs path \<or> \<not> is_file fs path
       then Inl (ValueError ''key must be a regular, non-symlink file'')
       else rbind (stat fs path) (\<lambda>st.
         if private \<and> group_or_other (st_perm st)
         then Inl (ValueError ''private host key requires mode 0600 or stricter'')
         else if \<not> (0 < st_size st \<and> st_size st \<le> MAX_KEY)
         then Inl (ValueError ''key file size outside bounds'')
         else read_bytes fs path)))"

text \<open>One line of the key file: skipped, appended, or already present.\<close>

definition authorize :: "string list \<Rightarrow> string \<Rightarrow> string list result" where
  "authorize authorized line =
     (let words = py_split (strip line) in
      if words = [] \<or> startswith ''#'' (words ! 0) then Inr authorized
      else if length words < 2 \<or> words ! 0 \<noteq> ssh_ed25519
      then Inl (ValueError ''supply Ed25519 OpenSSH PUBLIC keys, one per line'')
      else rbind (b64decode (words ! 1)) (\<lambda>blob.
        if \<not> ed25519_blob blob then Inl (ValueError ''invalid Ed25519 public key encoding'')
        else
          let normalized = words ! 0 @ '' '' @ words ! 1 in
          Inr (if normalized \<in> set authorized then authorized else authorized @ [normalized])))"

definition authorized_keys :: "bytes \<Rightarrow> string result" where
  "authorized_keys raw =
     rbind (decode_ascii raw) (\<lambda>txt.
     rbind (for_each authorize [] (splitlines txt)) (\<lambda>authorized.
       if authorized = [] then Inl (ValueError ''at least one Ed25519 public key is required'')
       else Inr (join [nl] authorized @ [nl])))"

subsection \<open>\<open>config_files\<close>\<close>

definition allowed_fields :: "bool \<Rightarrow> string set" where
  "allowed_fields example =
     {''hostname'', ''network''} \<union> (if example then {} else {''ssh_public_key'', ''dropbear_host_key''})"

definition dropbear_text :: "bool \<Rightarrow> string" where
  "dropbear_text example =
     config_line ''dropbear'' ''main'' @ option_line ''enable'' (if example then ''0'' else ''1'')
     @ option_line ''Interface'' ''lan'' @ option_line ''PasswordAuth'' ''off''
     @ option_line ''RootPasswordAuth'' ''off'' @ option_line ''Port'' ''22''"

definition common_files :: "string \<Rightarrow> string \<Rightarrow> bool \<Rightarrow> bytes dict" where
  "common_files hostname network example =
     [(''etc/config/network'', network),
      (''etc/ls420d-site.uci'', ''set system.@system[0].hostname='' @ quoted hostname @ [nl]),
      (''etc/config/dropbear'', dropbear_text example),
      (''etc/ls420d-deployment'', ''format=2'' @ [nl] @ ''example='' @ (if example then ''1'' else ''0'') @ [nl]
         @ ''hostname='' @ hostname @ [nl])]"

definition key_files :: "fsys \<Rightarrow> ppath \<Rightarrow> json dict \<Rightarrow> bytes dict \<Rightarrow> bytes dict result" where
  "key_files fs root config files =
     rbind (input_file fs root config ''ssh_public_key'' False) (\<lambda>raw.
     rbind (authorized_keys raw) (\<lambda>keys.
     let files = dict_set ''etc/dropbear/authorized_keys'' keys files in
     rbind (input_file fs root config ''dropbear_host_key'' True) (\<lambda>host_key.
     if length host_key < 64 \<or> \<not> startswith key_prefix host_key
     then Inl (ValueError ''host key must be a Dropbear Ed25519 private key, not an OpenSSH key'')
     else Inr (dict_set ''etc/dropbear/dropbear_ed25519_host_key'' host_key files))))"

definition config_files :: "fsys \<Rightarrow> json \<Rightarrow> ppath \<Rightarrow> bool \<Rightarrow> bytes dict result" where
  "config_files fs config root example =
     rbind (py_set config) (\<lambda>keys.
     if set keys - (if example then {} else {JStr ''backup''}) \<noteq> JStr ` allowed_fields example
     then Inl (ValueError ''unexpected or missing configuration fields'')
     else case config of
       JObj d \<Rightarrow>
         rbind (dict_get d ''hostname'') (\<lambda>hostname.
         rbind (check_str hostname (fullmatch dns_label) ''hostname must be a single DNS label'') (\<lambda>hostname.
         rbind (dict_get d ''network'') (\<lambda>network.
         rbind (network_text network) (\<lambda>network.
         rbind (if example then Inr (common_files hostname network example)
                else key_files fs root d (common_files hostname network example)) (\<lambda>files.
         case map_of d ''backup'' of
           None \<Rightarrow> Inr files
         | Some job \<Rightarrow> rbind (backup_files fs job root) (\<lambda>more. Inr (dict_update files more)))))))
     | _ \<Rightarrow> Inl (TypeError ''subscript''))"

subsection \<open>\<open>image\<close>\<close>

definition S_IFDIR :: int where "S_IFDIR = 16384"
definition S_IFREG :: int where "S_IFREG = 32768"

definition secret_name :: "string \<Rightarrow> bool" where
  "secret_name name \<longleftrightarrow>
     startswith ''etc/dropbear/'' name \<or> startswith ''root/.ssh/'' name \<or> startswith ''etc/crontabs/'' name
     \<or> name = ''etc/config/ls420d-backup''"

definition has_backup :: "json \<Rightarrow> bool" where
  "has_backup config = (case config of JObj d \<Rightarrow> ''backup'' \<in> set (dict_keys d) | _ \<Rightarrow> False)"

definition dir_entries :: "bool \<Rightarrow> bool \<Rightarrow> entry list" where
  "dir_entries example backup =
     [mk_entry ''etc'' (S_IFDIR + 493) [], mk_entry ''etc/config'' (S_IFDIR + 493) []]
     @ (if example then [] else [mk_entry ''etc/dropbear'' (S_IFDIR + 448) []])
     @ (if backup
        then [mk_entry ''etc/crontabs'' (S_IFDIR + 448) [], mk_entry ''root'' (S_IFDIR + 448) [],
              mk_entry ''root/.ssh'' (S_IFDIR + 448) []]
        else [])"

definition file_entry :: "string \<times> bytes \<Rightarrow> entry" where
  "file_entry = (\<lambda>(name, dat). mk_entry name (S_IFREG + (if secret_name name then 384 else 420)) dat)"

definition image_entries :: "bytes dict \<Rightarrow> bool \<Rightarrow> bool \<Rightarrow> entry list" where
  "image_entries files example backup = dir_entries example backup @ map file_entry (sort_key fst files)"

definition image :: "fsys \<Rightarrow> json \<Rightarrow> ppath \<Rightarrow> bool \<Rightarrow> bytes result" where
  "image fs config root example =
     rbind (config_files fs config root example) (\<lambda>files.
     let entries = image_entries files example (has_backup config) in
     rbind (encode entries) (\<lambda>payload.
     if int (length payload) > MAX_PAYLOAD then Inl (ValueError ''companion exceeds pilot memory budget'')
     else rbind (wrap_ramdisk payload) (\<lambda>res.
     rbind (unwrap_ramdisk res) (\<lambda>inner.
     rbind (decode inner 0) (\<lambda>(entries', endp).
     if entries' \<noteq> entries then Inl (ValueError ''archive round-trip mismatch'')
     else Inr res)))))"

subsection \<open>The network file, read back\<close>

lemma str_ipv4_safe [simp]: "uci_safe (str_ipv4 w)"
  using str_ipv4_chars [of q1 w] str_ipv4_chars [of nl w]
  by (auto simp: uci_safe_def q1_def nl_def is_digit_def less_eq_char_def)

lemma json_interface_prefix: "json_interface j = Inr i \<Longrightarrow> if_prefix i \<le> 32"
  by (auto simp: json_interface_def result_simps dest: interface_prefix_le split: json.splits)

text \<open>The gateway of a network description, which has to be in the subnet of the interface, and its DNS servers.\<close>

definition gateway_option :: "json dict \<Rightarrow> ipv4_interface \<Rightarrow> uci_item list \<Rightarrow> bool" where
  "gateway_option network i gs \<longleftrightarrow>
     (case map_of network ''gateway'' of
        None \<Rightarrow> gs = []
      | Some j \<Rightarrow> \<exists>g. json_address j = Inr g \<and> gs = [Option ''gateway'' (str_ipv4 g)] \<and>
          drop_bit (32 - if_prefix i) g = drop_bit (32 - if_prefix i) (if_ip i))"

definition dns_options :: "json dict \<Rightarrow> uci_item list \<Rightarrow> bool" where
  "dns_options network ds \<longleftrightarrow>
     (case map_of network ''dns'' of
        None \<Rightarrow> ds = []
      | Some j \<Rightarrow> \<exists>xs ws. j = JArr xs \<and> map_result json_address xs = Inr ws \<and> ds = map (\<lambda>w. ListItem ''dns'' (str_ipv4 w)) ws)"

lemma gateway_items:
  assumes "gateway_text network i = Inr gw" and p: "if_prefix i \<le> 32"
  shows "\<exists>gs. gateway_option network i gs \<and> (\<forall>s. uci_items (gw @ s) = map_option ((@) gs) (uci_items s))"
proof (cases "map_of network ''gateway''")
  case None
  moreover have "map_option ((@) []) o' = o'" for o' :: "uci_item list option" by (cases o') simp_all
  ultimately show ?thesis using assms by (intro exI [of _ "[]"]) (simp add: gateway_text_def gateway_option_def)
next
  case (Some j)
  with assms obtain g where "gw = option_line ''gateway'' (str_ipv4 g)" "in_network g i" "json_address j = Inr g"
    by (auto simp: gateway_text_def result_simps split: if_splits)
  moreover have "map_option ((#) a) o' = map_option ((@) [a]) o'" for a :: uci_item and o'
    by (cases o') simp_all
  ultimately show ?thesis using Some p
    by (intro exI [of _ "[Option ''gateway'' (str_ipv4 g)]"]) (auto simp: gateway_option_def in_network_iff)
qed

lemma dns_loop_items:
  "for_each (\<lambda>acc j. rbind (json_address j) (\<lambda>dns. Inr (acc @ list_line ''dns'' (str_ipv4 dns)))) acc xs = Inr txt \<Longrightarrow>
     \<exists>ws more. txt = acc @ more \<and> uci_items more = Some (map (\<lambda>w. ListItem ''dns'' (str_ipv4 w)) ws) \<and>
       map_result json_address xs = Inr ws"
proof (induction xs arbitrary: acc)
  case (Cons j xs)
  then obtain w where w: "json_address j = Inr w" by (auto simp: result_simps)
  with Cons.prems Cons.IH [of "acc @ list_line ''dns'' (str_ipv4 w)"] obtain ws more
    where "txt = (acc @ list_line ''dns'' (str_ipv4 w)) @ more"
      "uci_items more = Some (map (\<lambda>w. ListItem ''dns'' (str_ipv4 w)) ws)"
      "map_result json_address xs = Inr ws" by auto
  with w show ?case
    by (intro exI [of _ "w # ws"] exI [of _ "list_line ''dns'' (str_ipv4 w) @ more"]) simp
qed simp

lemma dns_items:
  assumes "dns_text network = Inr t"
  shows "\<exists>ds. dns_options network ds \<and> uci_items t = Some ds"
proof (cases "map_of network ''dns''")
  case None
  then show ?thesis using assms by (simp add: dns_text_def dns_options_def)
next
  case (Some j)
  with assms obtain xs where xs: "j = JArr xs"
    "for_each (\<lambda>acc j. rbind (json_address j) (\<lambda>dns. Inr (acc @ list_line ''dns'' (str_ipv4 dns)))) [] xs = Inr t"
    by (auto simp: dns_text_def split: json.splits)
  from dns_loop_items [OF xs(2)] show ?thesis using Some xs(1) by (auto simp: dns_options_def)
qed

lemma loopback_items:
  "uci_items (loopback_text @ s) = map_option ((@)
     [Config ''interface'' (Some ''loopback''), Option ''device'' ''lo'', Option ''proto'' ''static'',
      Option ''ipaddr'' ''127.0.0.1'', Option ''netmask'' ''255.0.0.0'',
      Config ''interface'' (Some ''lan''), Option ''device'' ''eth0'']) (uci_items s)"
proof -
  have "uci_safe ''loopback''" "uci_safe ''lo''" "uci_safe ''static''" "uci_safe ''127.0.0.1''"
    "uci_safe ''255.0.0.0''" "uci_safe ''lan''" "uci_safe ''eth0''" by (simp_all add: uci_safe_def q1_def nl_def)
  then show ?thesis by (cases "uci_items s") (simp_all add: loopback_text_def uci_items_blank)
qed

text \<open>The options of the \<open>lan\<close> interface that an accepted network description stands for.\<close>

definition lan_options :: "json dict \<Rightarrow> uci_item list \<Rightarrow> bool" where
  "lan_options network opts \<longleftrightarrow>
     (map_of network ''mode'' = Some (JStr ''dhcp'') \<and> set (dict_keys network) = {''mode''} \<and> opts = [Option ''proto'' ''dhcp'']) \<or>
     (map_of network ''mode'' = Some (JStr ''static'') \<and> set (dict_keys network) \<subseteq> {''mode'', ''address'', ''gateway'', ''dns''} \<and>
       (\<exists>a i gs ds. map_of network ''address'' = Some a \<and> json_interface a = Inr i \<and> if_prefix i \<le> 32 \<and>
          gateway_option network i gs \<and> dns_options network ds \<and>
          opts = [Option ''proto'' ''static'', Option ''ipaddr'' (str_ipv4 (if_ip i)),
             Option ''netmask'' (str_ipv4 (ip_from_prefix (if_prefix i)))] @ gs @ ds))"

lemma network_items:
  assumes "network_text j = Inr txt"
  shows "\<exists>network opts. j = JObj network \<and> lan_options network opts \<and>
    uci_items txt = Some
      ([Config ''interface'' (Some ''loopback''), Option ''device'' ''lo'', Option ''proto'' ''static'',
        Option ''ipaddr'' ''127.0.0.1'', Option ''netmask'' ''255.0.0.0'',
        Config ''interface'' (Some ''lan''), Option ''device'' ''eth0''] @ opts)"
proof -
  from assms obtain network where j: "j = JObj network" by (auto simp: network_text_def split: json.splits)
  have safe: "uci_safe ''dhcp''" "uci_safe ''static''" by (simp_all add: uci_safe_def q1_def nl_def)
  from assms consider
    (dhcp) "map_of network ''mode'' = Some (JStr ''dhcp'')" "set (dict_keys network) = {''mode''}" "txt = loopback_text @ option_line ''proto'' ''dhcp''"
  | (static) a i gw dns where "map_of network ''mode'' = Some (JStr ''static'')"
      "map_of network ''address'' = Some a" "json_interface a = Inr i"
      "gateway_text network i = Inr gw" "dns_text network = Inr dns"
      "txt = loopback_text @ option_line ''proto'' ''static'' @ option_line ''ipaddr'' (str_ipv4 (if_ip i))
               @ option_line ''netmask'' (str_ipv4 (if_netmask i)) @ gw @ dns"
      "set (dict_keys network) \<subseteq> {''mode'', ''address'', ''gateway'', ''dns''}"
    by (auto simp: j network_text_def result_simps Let_def split: if_splits)
  then show ?thesis
  proof cases
    case dhcp
    then show ?thesis
      using safe by (simp add: j loopback_items lan_options_def)
  next
    case static
    have p: "if_prefix i \<le> 32" using static(3) by (rule json_interface_prefix)
    from gateway_items [OF static(4) p] obtain gs where gs: "gateway_option network i gs"
      "\<And>s. uci_items (gw @ s) = map_option ((@) gs) (uci_items s)" by blast
    from dns_items [OF static(5)] obtain ds where dns: "dns_options network ds" "uci_items dns = Some ds" by blast
    let ?opts = "[Option ''proto'' ''static'', Option ''ipaddr'' (str_ipv4 (if_ip i)),
        Option ''netmask'' (str_ipv4 (ip_from_prefix (if_prefix i)))] @ gs @ ds"
    have "lan_options network ?opts"
      using static(1,2,3,7) gs(1) dns(1) p by (auto simp: lan_options_def)
    moreover have "uci_items txt = Some
      ([Config ''interface'' (Some ''loopback''), Option ''device'' ''lo'', Option ''proto'' ''static'',
        Option ''ipaddr'' ''127.0.0.1'', Option ''netmask'' ''255.0.0.0'',
        Config ''interface'' (Some ''lan''), Option ''device'' ''eth0''] @ ?opts)"
      unfolding static(6) loopback_items using safe gs(2) dns(2) by (simp add: if_netmask_def)
    ultimately show ?thesis using j by blast
  qed
qed

subsection \<open>Authorized keys\<close>

text \<open>The key a line supplies: its second word, unless the line is blank or a comment.\<close>

definition line_key :: "string \<Rightarrow> string option" where
  "line_key line =
     (case py_split (strip line) of
        w # k # _ \<Rightarrow> if startswith ''#'' w then None else Some k
      | _ \<Rightarrow> None)"

definition key_line :: "string \<Rightarrow> string" where
  "key_line k = ssh_ed25519 @ '' '' @ k"

lemma inj_key_line: "key_line a = key_line b \<longleftrightarrow> a = b"
  by (simp add: key_line_def)

lemma authorize_Inr:
  assumes "authorize ks line = Inr ks'"
  shows "(line_key line = None \<and> ks' = ks) \<or>
    (\<exists>k. line_key line = Some k \<and> server_line k \<and>
       ks' = (if key_line k \<in> set ks then ks else ks @ [key_line k]))"
proof (cases "py_split (strip line)")
  case Nil
  with assms show ?thesis by (simp add: authorize_def line_key_def)
next
  case (Cons w ws)
  show ?thesis
  proof (cases "startswith ''#'' w")
    case True
    with Cons assms show ?thesis by (auto simp: authorize_def line_key_def split: list.splits)
  next
    case False
    with Cons assms obtain k rest where "ws = k # rest" "w = ssh_ed25519" "server_line k"
        "ks' = (if key_line k \<in> set ks then ks else ks @ [key_line k])"
      by (cases ws) (auto simp: authorize_def Let_def result_simps server_line_def key_line_def split: if_splits)
    with Cons False show ?thesis by (simp add: line_key_def)
  qed
qed

lemma authorize_loop:
  "for_each authorize (map key_line ks) lines = Inr out \<Longrightarrow> distinct ks \<Longrightarrow> list_all server_line ks \<Longrightarrow>
     \<exists>ks'. out = map key_line ks' \<and> distinct ks' \<and> list_all server_line ks' \<and>
       set ks' = set ks \<union> {k. \<exists>l \<in> set lines. line_key l = Some k}"
proof (induction lines arbitrary: ks)
  case (Cons l lines)
  then obtain mid where mid: "authorize (map key_line ks) l = Inr mid" "for_each authorize mid lines = Inr out"
    by (auto simp: result_simps)
  have mem: "key_line k \<in> set (map key_line ks) \<longleftrightarrow> k \<in> set ks" for k
    by (auto simp: inj_key_line)
  from authorize_Inr [OF mid(1)] show ?case
  proof
    assume "line_key l = None \<and> mid = map key_line ks"
    with Cons.IH [of ks] Cons.prems mid(2) show ?thesis by auto
  next
    assume "\<exists>k. line_key l = Some k \<and> server_line k \<and>
       mid = (if key_line k \<in> set (map key_line ks) then map key_line ks else map key_line ks @ [key_line k])"
    then obtain k where k: "line_key l = Some k" "server_line k"
      "mid = map key_line (if k \<in> set ks then ks else ks @ [k])" unfolding mem by auto
    let ?ks = "if k \<in> set ks then ks else ks @ [k]"
    have "distinct ?ks" "list_all server_line ?ks" "set ?ks = insert k (set ks)"
      using Cons.prems(2,3) k(2) by auto
    with Cons.IH [of ?ks] mid(2) k(3) obtain ks'
      where "out = map key_line ks'" "distinct ks'" "list_all server_line ks'"
        "set ks' = insert k (set ks) \<union> {k. \<exists>l \<in> set lines. line_key l = Some k}" by auto
    with k(1) show ?thesis by (intro exI [of _ ks']) auto
  qed
qed auto

text \<open>
  C28: The login keys. Every accepted key file gives exactly its keys, each once, without
  comments or options: the file written consists of one \<open>ssh-ed25519\<close> line per key, the keys
  are those of the input's key lines, each decodes to an Ed25519 blob of the right length,
  and there is at least one.
\<close>

theorem authorized_keys_exact:
  assumes "authorized_keys raw = Inr out"
  shows "\<exists>ks. out = concat (map (\<lambda>k. key_line k @ [nl]) ks) \<and> ks \<noteq> [] \<and> distinct ks \<and>
    list_all server_line ks \<and> set ks = {k. \<exists>l \<in> set (splitlines raw). line_key l = Some k}"
proof -
  from assms obtain auth where auth: "for_each authorize (map key_line []) (splitlines raw) = Inr auth"
    "auth \<noteq> []" "out = join [nl] auth @ [nl]"
    by (auto simp: authorized_keys_def decode_ascii_def result_simps split: if_splits)
  from authorize_loop [OF auth(1)] obtain ks where ks: "auth = map key_line ks" "distinct ks"
      "list_all server_line ks" "set ks = {k. \<exists>l \<in> set (splitlines raw). line_key l = Some k}" by auto
  have join: "xs \<noteq> [] \<Longrightarrow> join [nl] xs @ [nl] = concat (map (\<lambda>x. x @ [nl]) xs)" for xs
  proof (induction xs)
    case (Cons x xs)
    then show ?case by (cases "xs = []") (simp_all add: join_Cons)
  qed simp
  show ?thesis using ks auth join [of auth] by (intro exI [of _ ks]) (auto simp: comp_def)
qed

lemma sample_authorized:
  "authorized_keys (ssh_ed25519 @ '' '' @ sample_key @ '' me@home'' @ [nl]) = Inr (key_line sample_key @ [nl])"
  by code_simp

theorem authorized_keys_exact_witness:
  "\<exists>ks. concat (map (\<lambda>k. key_line k @ [nl]) ks) = key_line sample_key @ [nl] \<and> distinct ks \<and>
     list_all server_line ks"
  using authorized_keys_exact [OF sample_authorized] by auto

subsection \<open>What \<open>config_files\<close> returns\<close>

definition common_names :: "string list" where
  "common_names = [''etc/config/network'', ''etc/ls420d-site.uci'', ''etc/config/dropbear'', ''etc/ls420d-deployment'']"

definition key_names :: "string list" where
  "key_names = [''etc/dropbear/authorized_keys'', ''etc/dropbear/dropbear_ed25519_host_key'']"

definition backup_names :: "string list" where
  "backup_names = [''etc/config/ls420d-backup'', ''etc/config/fstab'', ''etc/crontabs/root'',
     ''root/.ssh/backup_ed25519'', ''root/.ssh/known_hosts'']"

definition file_names :: "bool \<Rightarrow> bool \<Rightarrow> string list" where
  "file_names example backup =
     common_names @ (if example then [] else key_names) @ (if backup then backup_names else [])"

lemma backup_files_keys: "backup_files fs job root = Inr files \<Longrightarrow> dict_keys files = backup_names"
  by (auto simp: backup_files_def result_simps dict_keys_def backup_names_def split: json.splits if_splits)

lemma common_keys: "dict_keys (common_files h n e) = common_names"
  by (simp add: common_files_def dict_keys_def common_names_def)

lemma dict_keys_append [simp]: "dict_keys (d @ e) = dict_keys d @ dict_keys e"
  by (simp add: dict_keys_def)

lemma all_names_distinct: "distinct (common_names @ key_names @ backup_names)"
  by (simp add: common_names_def key_names_def backup_names_def)

lemma key_files_Inr:
  assumes "key_files fs root d files = Inr out" and "dict_keys files = common_names"
  shows "\<exists>raw keys host_key. input_file fs root d ''ssh_public_key'' False = Inr raw \<and>
    authorized_keys raw = Inr keys \<and> input_file fs root d ''dropbear_host_key'' True = Inr host_key \<and>
    64 \<le> length host_key \<and> startswith key_prefix host_key \<and>
    out = files @ [(''etc/dropbear/authorized_keys'', keys), (''etc/dropbear/dropbear_ed25519_host_key'', host_key)]"
proof -
  from assms(1) obtain raw keys host_key where k: "input_file fs root d ''ssh_public_key'' False = Inr raw"
    "authorized_keys raw = Inr keys" "input_file fs root d ''dropbear_host_key'' True = Inr host_key"
    "64 \<le> length host_key" "startswith key_prefix host_key"
    "out = dict_set ''etc/dropbear/dropbear_ed25519_host_key'' host_key (dict_set ''etc/dropbear/authorized_keys'' keys files)"
    by (auto simp: key_files_def result_simps Let_def split: if_splits)
  have "dict_set ''etc/dropbear/authorized_keys'' keys files = files @ [(''etc/dropbear/authorized_keys'', keys)]"
    using assms(2) by (intro dict_set_new) (simp add: common_names_def)
  moreover have "dict_set ''etc/dropbear/dropbear_ed25519_host_key'' host_key (files @ [(''etc/dropbear/authorized_keys'', keys)])
      = (files @ [(''etc/dropbear/authorized_keys'', keys)]) @ [(''etc/dropbear/dropbear_ed25519_host_key'', host_key)]"
    using assms(2) by (intro dict_set_new) (simp add: common_names_def dict_keys_def)
  ultimately show ?thesis using k by auto
qed

lemma config_files_Inr:
  assumes "config_files fs config root example = Inr files"
  obtains d h net nw base more where "config = JObj d" "map_of d ''hostname'' = Some (JStr h)"
    "fullmatch dns_label h" "map_of d ''network'' = Some net" "network_text net = Inr nw"
    "if example then base = common_files h nw True else key_files fs root d (common_files h nw False) = Inr base"
    "if has_backup config then (\<exists>job. map_of d ''backup'' = Some job \<and> backup_files fs job root = Inr more)
       else more = []"
    "files = base @ more" "dict_keys files = file_names example (has_backup config)"
proof -
  from assms obtain d where d: "config = JObj d"
    by (auto simp: config_files_def result_simps split: json.splits if_splits)
  from assms obtain h net nw base where 1: "map_of d ''hostname'' = Some (JStr h)"
    "fullmatch dns_label h" "map_of d ''network'' = Some net" "network_text net = Inr nw"
    "(if example then Inr (common_files h nw example) else key_files fs root d (common_files h nw example)) = Inr base"
    "(case map_of d ''backup'' of None \<Rightarrow> Inr base
       | Some job \<Rightarrow> rbind (backup_files fs job root) (\<lambda>more. Inr (dict_update base more))) = Inr files"
    unfolding d config_files_def json.case by (auto simp: result_simps split: if_splits)
  have base: "dict_keys base = common_names @ (if example then [] else key_names)"
  proof (cases example)
    case True
    with 1(5) show ?thesis by (simp add: common_keys) (metis common_keys)
  next
    case False
    with 1(5) have "key_files fs root d (common_files h nw False) = Inr base" by simp
    from key_files_Inr [OF this common_keys] obtain keys host_key
      where "base = common_files h nw False @
        [(''etc/dropbear/authorized_keys'', keys), (''etc/dropbear/dropbear_ed25519_host_key'', host_key)]"
      by blast
    with False show ?thesis by (simp add: common_keys) (simp add: key_names_def dict_keys_def)
  qed
  show ?thesis
  proof (cases "map_of d ''backup''")
    case None
    then have hb: "\<not> has_backup config" by (auto simp: d has_backup_def dict_keys_def map_of_eq_None_iff)
    show ?thesis
      by (rule that [of d h net nw base "[]"]) (use 1 None d hb base in \<open>auto simp: file_names_def\<close>)
  next
    case (Some job)
    then have hb: "has_backup config" by (auto simp: d has_backup_def dict_keys_def dest: map_of_key_in_set)
    from 1(6) Some obtain more where more: "backup_files fs job root = Inr more" "files = dict_update base more"
      by (auto simp: result_simps)
    have keys: "dict_keys more = backup_names" using more(1) by (rule backup_files_keys)
    have "files = base @ more"
      unfolding more(2) using all_names_distinct by (intro dict_update_new) (auto simp: keys base)
    then show ?thesis
      by (intro that [of d h net nw base more]) (use 1 Some d hb base keys more in \<open>auto simp: file_names_def\<close>)
  qed
qed

subsection \<open>The archive\<close>

text \<open>The archive inside its frame.\<close>

interpretation initrd: layered wrap_ramdisk unwrap_ramdisk "\<lambda>_. True" encode unpack_entries entries_fit
  by unfold_locales simp

definition dir_names :: "string list" where
  "dir_names = [''etc'', ''etc/config'', ''etc/dropbear'', ''etc/crontabs'', ''root'', ''root/.ssh'']"

lemma image_names_table:
  "list_all (\<lambda>n. safe_name n = Inr n \<and> stored_name n = n \<and> length n \<le> 4095 \<and> valid_utf8 n \<and> n \<noteq> trailer_name)
     (dir_names @ common_names @ key_names @ backup_names)"
  by code_simp

lemma image_names_distinct: "distinct (dir_names @ common_names @ key_names @ backup_names)"
  by code_simp

lemma file_names_subset: "set (file_names example backup) \<subseteq> set (common_names @ key_names @ backup_names)"
  by (auto simp: file_names_def)

lemma distinct_file_names: "distinct (file_names example backup)"
  using image_names_distinct by (auto simp: file_names_def)

lemma dir_entries_names:
  "set (map e_name (dir_entries example backup)) \<subseteq> set dir_names" "distinct (map e_name (dir_entries example backup))"
  by (auto simp: dir_entries_def mk_entry_def dir_names_def)

lemma file_entry_name [simp]: "e_name (file_entry f) = fst f"
  by (simp add: file_entry_def mk_entry_def split: prod.splits)

lemma image_entry_names:
  "map e_name (image_entries files example backup) =
     map e_name (dir_entries example backup) @ map fst (sort_key fst files)"
  by (simp add: image_entries_def comp_def)

lemma image_names:
  assumes "dict_keys files = file_names example backup"
  shows "set (map e_name (image_entries files example backup)) \<subseteq> set (dir_names @ common_names @ key_names @ backup_names)"
    and "distinct (map e_name (image_entries files example backup))"
proof -
  have fst: "set (map fst (sort_key fst files)) = set (file_names example backup)"
    using assms by (simp add: dict_keys_def flip: assms)
  show "set (map e_name (image_entries files example backup)) \<subseteq> set (dir_names @ common_names @ key_names @ backup_names)"
    unfolding image_entry_names set_append fst using dir_entries_names(1) [of example backup] file_names_subset by fastforce
  have "distinct (map fst (sort_key fst files))"
  proof -
    have "distinct (map fst files)" using assms distinct_file_names [of example backup] by (simp add: dict_keys_def)
    then show ?thesis by (simp add: distinct_map)
  qed
  moreover have "set (map e_name (dir_entries example backup)) \<inter> set (file_names example backup) = {}"
    using dir_entries_names(1) [of example backup] file_names_subset [of example backup] image_names_distinct
    by fastforce
  ultimately show "distinct (map e_name (image_entries files example backup))"
    unfolding image_entry_names distinct_append fst using dir_entries_names(2) by blast
qed

lemma image_encode_total:
  assumes "dict_keys files = file_names example backup"
  shows "\<exists>payload. encode (image_entries files example backup) = Inr payload"
proof (rule encode_total)
  let ?names = "map e_name (image_entries files example backup)"
  have ok: "n \<in> set ?names \<Longrightarrow> safe_name n = Inr n \<and> n \<noteq> trailer_name" for n
    using image_names(1) [OF assms] image_names_table unfolding list_all_iff by blast
  then show "list_all (\<lambda>e. safe_name (e_name e) = Inr (e_name e)) (image_entries files example backup)"
    by (simp add: list_all_iff)
  show "trailer_name \<notin> set ?names" using ok by blast
  show "distinct ?names" using image_names(2) [OF assms] .
qed

lemma entry_fields:
  assumes "e \<in> set (image_entries files example backup)"
  shows "e_uid e = 0 \<and> e_gid e = 0 \<and> e_rmajor e = 0 \<and> e_rminor e = 0 \<and>
    e_mode e \<in> {S_IFDIR + 493, S_IFDIR + 448, S_IFREG + 384, S_IFREG + 420}"
  using assms by (auto simp: image_entries_def dir_entries_def file_entry_def mk_entry_def split: if_splits)

lemma image_entries_fit:
  assumes "dict_keys files = file_names example backup"
    and "encode (image_entries files example backup) = Inr payload" and "int (length payload) \<le> MAX_PAYLOAD"
  shows "entries_fit (image_entries files example backup)"
proof -
  let ?es = "image_entries files example backup"
  have "length ?es = length (dir_entries example backup) + length files"
    by (simp add: image_entries_def)
  also have "length files = length (file_names example backup)"
    using arg_cong [OF assms(1), of length] by (simp add: dict_keys_def)
  finally have "length ?es < 16 ^ 7"
    by (simp add: dir_entries_def file_names_def common_names_def key_names_def backup_names_def)
  moreover have "encodable e \<and> stored e = e" if e: "e \<in> set ?es" for e
  proof -
    have "e_name e \<in> set (dir_names @ common_names @ key_names @ backup_names)"
      using image_names(1) [OF assms(1)] e by auto
    then have "stored_name (e_name e) = e_name e \<and> length (e_name e) \<le> 4095 \<and> valid_utf8 (e_name e)"
      using image_names_table unfolding list_all_iff by blast
    moreover have "int (length (e_data e)) \<le> MAX_PAYLOAD" using encode_data [OF assms(2) e] assms(3) by simp
    ultimately show ?thesis
      using entry_fields [OF e]
      by (auto simp: encodable_def stored_def fits8_def MAX_PAYLOAD_def S_IFDIR_def S_IFREG_def)
  qed
  ultimately show ?thesis by (simp add: entries_fit_def list_all_iff)
qed

text \<open>
  C7: The companion is built or refused for one reason. Once the configuration is
  accepted, the archive can always be written; the image is refused exactly when it
  exceeds the memory budget, and otherwise it is the framed archive, which reads back as
  the entries that went in. The round-trip check of the script never fires.
\<close>

theorem image_result:
  assumes "config_files fs config root example = Inr files"
  shows "\<exists>payload. encode (image_entries files example (has_backup config)) = Inr payload \<and>
    (if MAX_PAYLOAD < int (length payload)
     then image fs config root example = Inl (ValueError ''companion exceeds pilot memory budget'')
     else \<exists>blob. image fs config root example = Inr blob \<and> wrap_ramdisk payload = Inr blob \<and>
       rbind (unwrap_ramdisk blob) unpack_entries = Inr (image_entries files example (has_backup config)))"
proof -
  let ?es = "image_entries files example (has_backup config)"
  have keys: "dict_keys files = file_names example (has_backup config)"
    using assms by (rule config_files_Inr)
  obtain payload where enc: "encode ?es = Inr payload" using image_encode_total [OF keys] by blast
  show ?thesis
  proof (cases "MAX_PAYLOAD < int (length payload)")
    case True
    then show ?thesis using assms enc by (simp add: image_def Let_def)
  next
    case False
    then obtain blob where wrap: "wrap_ramdisk payload = Inr blob"
      using wrap_ramdisk_total [of payload] by (auto simp: MAX_PAYLOAD_def)
    have "entries_fit ?es" using image_entries_fit [OF keys enc] False by simp
    from initrd.read_back [OF enc this wrap]
    have reads: "rbind (unwrap_ramdisk blob) unpack_entries = Inr ?es" .
    then have "image fs config root example = Inr blob"
      using assms enc wrap False
      by (auto simp: image_def Let_def unpack_entries_def result_simps split: prod.splits)
    with reads enc wrap False show ?thesis by auto
  qed
qed

subsection \<open>The layout of the archive\<close>

definition parent_name :: "string \<Rightarrow> string" where
  "parent_name n = join ''/'' (butlast (split_on (CHR ''/'') n))"

definition is_directory :: "entry \<Rightarrow> bool" where
  "is_directory e \<longleftrightarrow> e_mode e div 4096 = 4"

definition is_regular :: "entry \<Rightarrow> bool" where
  "is_regular e \<longleftrightarrow> e_mode e div 4096 = 8"

text \<open>Every entry comes after an entry for the directory that holds it.\<close>

fun parents_first :: "string list \<Rightarrow> entry list \<Rightarrow> bool" where
  "parents_first dirs [] = True"
| "parents_first dirs (e # es) =
     ((parent_name (e_name e) = [] \<or> parent_name (e_name e) \<in> set dirs) \<and>
      parents_first (if is_directory e then e_name e # dirs else dirs) es)"

text \<open>The names that carry credentials or run commands.\<close>

definition sensitive :: "string list" where
  "sensitive = [''etc/dropbear/authorized_keys'', ''etc/dropbear/dropbear_ed25519_host_key'', ''root/.ssh/backup_ed25519'',
     ''root/.ssh/known_hosts'', ''etc/crontabs/root'', ''etc/config/ls420d-backup'', ''etc/dropbear'', ''root/.ssh'', ''etc/crontabs'', ''root'']"

definition safe_mode :: "entry \<Rightarrow> bool" where
  "safe_mode e \<longleftrightarrow>
     (is_directory e \<or> is_regular e) \<and> e_uid e = 0 \<and> e_gid e = 0 \<and>
     e_mode e mod 4096 \<in> {493, 448, 384, 420} \<and>
     (e_name e \<in> set sensitive \<longrightarrow> \<not> group_or_other (e_mode e)) \<and>
     (is_regular e \<longrightarrow> e_mode e mod 4096 \<in> {384, 420})"

lemma parents_first_append:
  "parents_first dirs (xs @ ys) \<longleftrightarrow>
     parents_first dirs xs \<and> parents_first (rev (map e_name (filter is_directory xs)) @ dirs) ys"
  by (induction xs arbitrary: dirs) auto

lemma file_entry_regular: "is_regular (file_entry f)" "\<not> is_directory (file_entry f)"
  by (simp_all add: is_regular_def is_directory_def file_entry_def mk_entry_def S_IFREG_def split: prod.splits)

lemma parents_first_files:
  "list_all (\<lambda>f. parent_name (fst f) \<in> set dirs) fs \<Longrightarrow> parents_first dirs (map file_entry fs)"
  by (induction fs) (simp_all add: file_entry_regular)

lemma dir_entries_table:
  "parents_first [] (dir_entries example backup) \<and> list_all is_directory (dir_entries example backup) \<and>
   list_all safe_mode (dir_entries example backup) \<and>
   list_all (\<lambda>n. parent_name n = [] \<or> parent_name n \<in> set (map e_name (dir_entries example backup))) (file_names example backup)"
  by (cases example; cases backup; simp only: ; code_simp)

lemma secret_names_table:
  "list_all (\<lambda>n. (n \<in> set sensitive \<longrightarrow> secret_name n) \<and> parent_name n \<noteq> []) (common_names @ key_names @ backup_names)"
  by code_simp

lemma file_entry_safe:
  assumes "fst f \<in> set (common_names @ key_names @ backup_names)"
  shows "safe_mode (file_entry f)"
proof -
  have "fst f \<in> set sensitive \<longrightarrow> secret_name (fst f)"
    using secret_names_table assms unfolding list_all_iff by blast
  then show ?thesis
    by (cases f) (auto simp: safe_mode_def is_regular_def file_entry_def mk_entry_def S_IFREG_def group_or_other_def)
qed

text \<open>
  C19: The layout of every companion. Each directory precedes what it holds; every entry
  is a directory or a regular file (no links, no devices) owned by root, without set-id
  bits, not executable if regular and not writable by others; every name that carries a
  credential, and every directory above one, is closed to group and others; the names
  are distinct.
\<close>

theorem image_layout:
  assumes "config_files fs config root example = Inr files"
  shows "parents_first [] (image_entries files example (has_backup config)) \<and>
    list_all safe_mode (image_entries files example (has_backup config)) \<and>
    distinct (map e_name (image_entries files example (has_backup config)))"
proof -
  let ?b = "has_backup config"
  let ?dirs = "dir_entries example ?b"
  have keys: "dict_keys files = file_names example ?b" using assms by (rule config_files_Inr)
  have names: "fst f \<in> set (file_names example ?b)" if "f \<in> set (sort_key fst files)" for f
    using that keys by (auto simp: dict_keys_def simp flip: keys)
  have "filter is_directory ?dirs = ?dirs" using dir_entries_table [of example ?b] by (simp add: list_all_iff filter_id_conv)
  moreover have "parent_name (fst f) \<in> set (map e_name ?dirs)" if f: "f \<in> set (sort_key fst files)" for f
  proof -
    have "parent_name (fst f) \<noteq> []"
      using secret_names_table names [OF f] file_names_subset [of example ?b] unfolding list_all_iff by blast
    then show ?thesis using dir_entries_table [of example ?b] names [OF f] unfolding list_all_iff by blast
  qed
  then have "parents_first (rev (map e_name ?dirs)) (map file_entry (sort_key fst files))"
    by (intro parents_first_files) (simp add: list_all_iff)
  ultimately have "parents_first [] (image_entries files example ?b)"
    using dir_entries_table [of example ?b] by (simp add: image_entries_def parents_first_append)
  moreover have "safe_mode (file_entry f)" if "f \<in> set (sort_key fst files)" for f
    using file_entry_safe names [OF that] file_names_subset by blast
  then have "list_all safe_mode (image_entries files example ?b)"
    using dir_entries_table [of example ?b] by (auto simp: image_entries_def list_all_iff)
  ultimately show ?thesis using image_names(2) [OF keys] by blast
qed

subsection \<open>What an accepted configuration becomes\<close>

lemma input_file_Inr:
  "input_file fs root d name private = Inr bs \<longleftrightarrow>
     (\<exists>s. map_of d name = Some (JStr s) \<and> s \<noteq> [] \<and> bounded_key fs (p_join root (parse_path s)) private bs)"
proof (cases "\<exists>s. map_of d name = Some (JStr s) \<and> s \<noteq> []")
  case True
  then obtain s where s: "map_of d name = Some (JStr s)" "s \<noteq> []" by blast
  let ?p = "p_join root (parse_path s)"
  show ?thesis
  proof (cases "is_file fs ?p")
    case True
    then obtain m bs' where "stat fs ?p = Inr (File m bs')" by (rule is_fileE)
    with s True show ?thesis
      by (auto simp: input_file_def check_str_def as_str_def dict_get_def bounded_key_def st_size_def st_perm_def
          read_bytes_file Let_def split: if_splits)
  next
    case False
    then have "stat fs ?p \<noteq> Inr (File m b)" for m b by (auto simp: is_file_def)
    with s False show ?thesis
      by (auto simp: input_file_def check_str_def as_str_def dict_get_def bounded_key_def Let_def)
  qed
next
  case False
  then show ?thesis by (auto simp: input_file_def result_simps)
qed

lemma dropbear_items:
  "uci_items (dropbear_text example) = Some
     [Config ''dropbear'' (Some ''main''), Option ''enable'' (if example then ''0'' else ''1''),
      Option ''Interface'' ''lan'', Option ''PasswordAuth'' ''off'', Option ''RootPasswordAuth'' ''off'',
      Option ''Port'' ''22'']"
proof -
  have "uci_safe ''main''" "uci_safe ''0''" "uci_safe ''1''" "uci_safe ''lan''" "uci_safe ''off''" "uci_safe ''22''"
    by (simp_all add: uci_safe_def q1_def nl_def)
  then show ?thesis by (simp add: dropbear_text_def)
qed

lemma hostname_words:
  assumes "fullmatch dns_label h"
  shows "line_words (''set system.@system[0].hostname='' @ quoted h @ [nl]) =
    [[''set'', ''system.@system[0].hostname='' @ quoted h], []]"
proof -
  have "''set system.@system[0].hostname='' @ quoted h @ [nl] =
      join '' '' [''set'', ''system.@system[0].hostname='' @ quoted h] @ [nl]"
    by simp
  then show ?thesis
    using dns_label_visible [OF assms]
    by (simp only:) (subst line_words_one, simp_all add: visible_def quoted_def q1_def)
qed

lemma common_files_map:
  "map_of (common_files h nw example @ rest) ''etc/config/network'' = Some nw"
  "map_of (common_files h nw example @ rest) ''etc/ls420d-site.uci'' = Some (''set system.@system[0].hostname='' @ quoted h @ [nl])"
  "map_of (common_files h nw example @ rest) ''etc/config/dropbear'' = Some (dropbear_text example)"
  "map_of (common_files h nw example @ rest) ''etc/ls420d-deployment'' = Some (''format=2'' @ [nl] @ ''example='' @
     (if example then ''1'' else ''0'') @ [nl] @ ''hostname='' @ h @ [nl])"
  by (simp_all add: common_files_def)

definition lan_prefix :: "uci_item list" where
  "lan_prefix = [Config ''interface'' (Some ''loopback''), Option ''device'' ''lo'', Option ''proto'' ''static'',
     Option ''ipaddr'' ''127.0.0.1'', Option ''netmask'' ''255.0.0.0'',
     Config ''interface'' (Some ''lan''), Option ''device'' ''eth0'']"

lemma key_files_meaning:
  assumes "key_files fs root d (common_files h nw False) = Inr base" "files = base @ rest"
  shows "\<exists>s raw s' host_key. map_of d ''ssh_public_key'' = Some (JStr s) \<and>
       bounded_key fs (p_join root (parse_path s)) False raw \<and>
       authorized_keys raw = Inr (the (map_of files ''etc/dropbear/authorized_keys'')) \<and>
       map_of d ''dropbear_host_key'' = Some (JStr s') \<and>
       bounded_key fs (p_join root (parse_path s')) True host_key \<and>
       map_of files ''etc/dropbear/dropbear_ed25519_host_key'' = Some host_key"
    "base = common_files h nw False @ drop 4 base"
proof -
  from key_files_Inr [OF assms(1) common_keys] obtain raw keys host_key
    where k: "input_file fs root d ''ssh_public_key'' False = Inr raw" "authorized_keys raw = Inr keys"
      "input_file fs root d ''dropbear_host_key'' True = Inr host_key"
      "base = common_files h nw False @
         [(''etc/dropbear/authorized_keys'', keys), (''etc/dropbear/dropbear_ed25519_host_key'', host_key)]"
    by blast
  have "map_of files ''etc/dropbear/authorized_keys'' = Some keys"
    "map_of files ''etc/dropbear/dropbear_ed25519_host_key'' = Some host_key"
    by (simp_all add: assms(2) k(4) common_files_def)
  with k(1-3) show "\<exists>s raw s' host_key. map_of d ''ssh_public_key'' = Some (JStr s) \<and>
       bounded_key fs (p_join root (parse_path s)) False raw \<and>
       authorized_keys raw = Inr (the (map_of files ''etc/dropbear/authorized_keys'')) \<and>
       map_of d ''dropbear_host_key'' = Some (JStr s') \<and>
       bounded_key fs (p_join root (parse_path s')) True host_key \<and>
       map_of files ''etc/dropbear/dropbear_ed25519_host_key'' = Some host_key"
    unfolding input_file_Inr by auto
  show "base = common_files h nw False @ drop 4 base" by (simp add: k(4) common_files_def)
qed

text \<open>
  C18: What an accepted configuration becomes. The network file, read back, is the loopback
  interface and a \<open>lan\<close> interface with exactly the described options: DHCP and nothing else, or
  the address and netmask, the gateway when one is configured (from the interface's own subnet)
  and each configured DNS server, in order; the host name reaches one UCI command as one quoted
  label, and the deployment record; password logins are off, and SSH is on only in a deployment, whose host key and login keys
  come from bounded regular files, the host key from one closed to group and others.
\<close>

theorem config_files_meaning:
  assumes "config_files fs config root example = Inr files"
  shows "\<exists>d h network opts. config = JObj d \<and> map_of d ''hostname'' = Some (JStr h) \<and> fullmatch dns_label h \<and>
    map_of d ''network'' = Some (JObj network) \<and> lan_options network opts \<and>
    dict_keys files = file_names example (has_backup config) \<and>
    Option.bind (map_of files ''etc/config/network'') uci_items = Some (lan_prefix @ opts) \<and>
    map_option line_words (map_of files ''etc/ls420d-site.uci'') =
      Some [[''set'', ''system.@system[0].hostname='' @ quoted h], []] \<and>
    Option.bind (map_of files ''etc/config/dropbear'') uci_items = Some
      [Config ''dropbear'' (Some ''main''), Option ''enable'' (if example then ''0'' else ''1''),
       Option ''Interface'' ''lan'', Option ''PasswordAuth'' ''off'', Option ''RootPasswordAuth'' ''off'',
       Option ''Port'' ''22''] \<and>
    map_of files ''etc/ls420d-deployment'' = Some (''format=2'' @ [nl] @ ''example='' @ (if example then ''1'' else ''0'') @ [nl]
      @ ''hostname='' @ h @ [nl]) \<and>
    (example \<or> (\<exists>s raw s' host_key. map_of d ''ssh_public_key'' = Some (JStr s) \<and>
       bounded_key fs (p_join root (parse_path s)) False raw \<and>
       authorized_keys raw = Inr (the (map_of files ''etc/dropbear/authorized_keys'')) \<and>
       map_of d ''dropbear_host_key'' = Some (JStr s') \<and>
       bounded_key fs (p_join root (parse_path s')) True host_key \<and>
       map_of files ''etc/dropbear/dropbear_ed25519_host_key'' = Some host_key))"
proof -
  from assms obtain d h net nw base more where c: "config = JObj d" "map_of d ''hostname'' = Some (JStr h)"
    "fullmatch dns_label h" "map_of d ''network'' = Some net" "network_text net = Inr nw"
    "if example then base = common_files h nw True else key_files fs root d (common_files h nw False) = Inr base"
    "files = base @ more" "dict_keys files = file_names example (has_backup config)"
    by (rule config_files_Inr)
  from network_items [OF c(5)] obtain network opts where n: "net = JObj network" "lan_options network opts"
    "uci_items nw = Some (lan_prefix @ opts)"
    unfolding lan_prefix_def by blast
  have keys: "\<not> example \<Longrightarrow> key_files fs root d (common_files h nw False) = Inr base" using c(6) by simp
  note keyed = key_files_meaning [OF keys c(7)]
  have "base = common_files h nw example @ drop 4 base"
  proof (cases example)
    case True
    with c(6) show ?thesis by (simp add: common_files_def)
  next
    case False
    then show ?thesis using keyed(2) by simp
  qed
  then have files: "files = common_files h nw example @ drop 4 base @ more" using c(7) by (metis append_assoc)
  have maps: "Option.bind (map_of files ''etc/config/network'') uci_items = Some (lan_prefix @ opts)"
    "map_option line_words (map_of files ''etc/ls420d-site.uci'') =
       Some [[''set'', ''system.@system[0].hostname='' @ quoted h], []]"
    "Option.bind (map_of files ''etc/config/dropbear'') uci_items = Some
      [Config ''dropbear'' (Some ''main''), Option ''enable'' (if example then ''0'' else ''1''),
       Option ''Interface'' ''lan'', Option ''PasswordAuth'' ''off'', Option ''RootPasswordAuth'' ''off'',
       Option ''Port'' ''22'']"
    "map_of files ''etc/ls420d-deployment'' = Some (''format=2'' @ [nl] @ ''example='' @ (if example then ''1'' else ''0'') @ [nl]
      @ ''hostname='' @ h @ [nl])"
    unfolding files common_files_map using n(3) hostname_words [OF c(3)] dropbear_items by simp_all
  show ?thesis
    by (rule exI [of _ d], rule exI [of _ h], rule exI [of _ network], rule exI [of _ opts])
      (use c(1-4,8) n(1,2) maps keyed(1) in blast)
qed

text \<open>
  C36: The public example needs no secrets. With \<open>--example\<close> nothing of the file system and
  no directory is consulted, and what is built has the four public files only, with SSH
  disabled.
\<close>

theorem example_files_public:
  "config_files fs config root True = config_files fs' config root' True \<and>
   (case config_files fs config root True of
      Inl e \<Rightarrow> True
    | Inr files \<Rightarrow> dict_keys files = common_names \<and> \<not> has_backup config \<and>
        Option.bind (map_of files ''etc/config/dropbear'') uci_items = Some
          [Config ''dropbear'' (Some ''main''), Option ''enable'' ''0'', Option ''Interface'' ''lan'',
           Option ''PasswordAuth'' ''off'', Option ''RootPasswordAuth'' ''off'', Option ''Port'' ''22''])"
proof (rule conjI)
  have none: "config = JObj d \<Longrightarrow> set (map JStr (dict_keys d)) = JStr ` allowed_fields True \<Longrightarrow>
      map_of d ''backup'' = None" for d
  proof -
    assume "set (map JStr (dict_keys d)) = JStr ` allowed_fields True"
    then have "set (dict_keys d) = allowed_fields True" by (simp add: inj_image_eq_iff inj_def)
    then have "''backup'' \<notin> set (dict_keys d)" by (simp add: allowed_fields_def)
    then show ?thesis by (simp add: dict_keys_def map_of_eq_None_iff)
  qed
  show same: "config_files fs config root True = config_files fs' config root' True"
    using none by (auto simp: config_files_def py_set_def intro!: rbind_cong split: json.splits)
  have hb: "\<not> has_backup config" if "config_files fs config root True = Inr files" for files
    using that none
    by (auto simp: config_files_def py_set_def result_simps has_backup_def dict_keys_def map_of_eq_None_iff split: json.splits if_splits)
  show "case config_files fs config root True of
      Inl e \<Rightarrow> True
    | Inr files \<Rightarrow> dict_keys files = common_names \<and> \<not> has_backup config \<and>
        Option.bind (map_of files ''etc/config/dropbear'') uci_items = Some
          [Config ''dropbear'' (Some ''main''), Option ''enable'' ''0'', Option ''Interface'' ''lan'',
           Option ''PasswordAuth'' ''off'', Option ''RootPasswordAuth'' ''off'', Option ''Port'' ''22'']"
  proof (cases "config_files fs config root True")
    case (Inr files)
    from Inr obtain d h net nw base more where c: "files = base @ more" "base = common_files h nw True"
      "dict_keys files = file_names True (has_backup config)"
      using config_files_Inr [OF Inr] by (metis (full_types))
    have "map_of files ''etc/config/dropbear'' = Some (dropbear_text True)"
      unfolding c(1,2) by (rule common_files_map)
    then show ?thesis
      using hb [OF Inr] Inr dropbear_items [of True] c(3) by (simp add: file_names_def)
  qed simp
qed

subsection \<open>A concrete deployment\<close>

definition sample_network :: json where
  "sample_network = JObj [(''mode'', JStr ''static''), (''address'', JStr ''192.168.1.10/24''),
     (''gateway'', JStr ''192.168.1.1''), (''dns'', JArr [JStr ''9.9.9.9''])]"

definition sample_config :: json where
  "sample_config = JObj [(''hostname'', JStr ''ls420d''), (''network'', sample_network), (''ssh_public_key'', JStr ''id.pub''),
     (''dropbear_host_key'', JStr ''host''), (''backup'', JObj sample_job)]"

definition sample_network_text :: string where
  "sample_network_text = loopback_text @ option_line ''proto'' ''static'' @ option_line ''ipaddr'' ''192.168.1.10''
     @ option_line ''netmask'' ''255.255.255.0'' @ option_line ''gateway'' ''192.168.1.1'' @ list_line ''dns'' ''9.9.9.9''"

lemma sample_network_ok: "network_text sample_network = Inr sample_network_text"
  by code_simp

lemma sample_config_ok: "\<exists>files. config_files sample_fs sample_config sample_root False = Inr files"
proof -
  let ?d = "[(''hostname'', JStr ''ls420d''), (''network'', sample_network), (''ssh_public_key'', JStr ''id.pub''),
     (''dropbear_host_key'', JStr ''host''), (''backup'', JObj sample_job)]"
  have label: "fullmatch dns_label ''ls420d''" by code_simp
  have pub: "input_file sample_fs sample_root ?d ''ssh_public_key'' False =
      Inr (ssh_ed25519 @ '' '' @ sample_key @ '' me@home'' @ [nl])"
    unfolding input_file_Inr using sample_keys(4) by simp
  have host: "input_file sample_fs sample_root ?d ''dropbear_host_key'' True = Inr (key_prefix @ replicate 64 (CHR ''h''))"
    unfolding input_file_Inr using sample_keys(3) by simp
  have keys: "\<exists>files. key_files sample_fs sample_root ?d base = Inr files" for base
    by (simp only: key_files_def pub rbind_Inr sample_authorized Let_def host) simp
  have fields: "set (map JStr (dict_keys ?d)) - {JStr ''backup''} = JStr ` allowed_fields False"
    by (auto simp: dict_keys_def allowed_fields_def)
  from keys [of "common_files ''ls420d'' sample_network_text False"] obtain base
    where base: "key_files sample_fs sample_root ?d (common_files ''ls420d'' sample_network_text False) = Inr base"
    by blast
  have gets: "dict_get ?d ''hostname'' = Inr (JStr ''ls420d'')" "dict_get ?d ''network'' = Inr sample_network"
    "map_of ?d ''backup'' = Some (JObj sample_job)"
    by (simp_all add: dict_get_def)
  have host_ok: "check_str (JStr ''ls420d'') (fullmatch dns_label) m = Inr ''ls420d''" for m
    using label by (simp add: check_str_def as_str_def)
  have keyset: "py_set (JObj ?d) = Inr (map JStr (dict_keys ?d))" by (simp add: py_set_def)
  show ?thesis
    unfolding sample_config_def config_files_def keyset rbind_Inr
    using fields by (simp only: if_False json.case gets rbind_Inr host_ok sample_network_ok base sample_backup
        option.case simp_thms sum.inject ex_simps)
qed

theorem config_files_meaning_witness:
  "\<exists>files opts. config_files sample_fs sample_config sample_root False = Inr files \<and>
     Option.bind (map_of files ''etc/config/network'') uci_items = Some (lan_prefix @ opts)"
proof -
  obtain files where files: "config_files sample_fs sample_config sample_root False = Inr files"
    using sample_config_ok by blast
  from config_files_meaning [OF files] files show ?thesis by blast
qed

theorem image_result_witness:
  "\<exists>files payload. config_files sample_fs sample_config sample_root False = Inr files \<and>
     encode (image_entries files False (has_backup sample_config)) = Inr payload"
proof -
  obtain files where files: "config_files sample_fs sample_config sample_root False = Inr files"
    using sample_config_ok by blast
  from image_result [OF files] files show ?thesis by blast
qed

theorem image_layout_witness:
  "\<exists>files. config_files sample_fs sample_config sample_root False = Inr files \<and>
     parents_first [] (image_entries files False (has_backup sample_config))"
proof -
  obtain files where files: "config_files sample_fs sample_config sample_root False = Inr files"
    using sample_config_ok by blast
  from image_layout [OF files] files show ?thesis by blast
qed

end
