(* ===== verification/License_Review.thy ===== *)
theory License_Review
  imports Py_Json
begin

text \<open>
  \<open>scripts/review-package-licenses.py\<close>: the package metadata is scanned line by line into
  records, and every installed package is matched with exactly one of them or becomes a
  finding. The lemmas show that free text (descriptions) cannot supply license fields and
  when exactly a package is left without a finding.
\<close>

subsection \<open>The metadata scanner\<close>

type_synonym pkg_record = "string dict"

text \<open>The variables of the loop in \<open>metadata_records\<close>.\<close>

record scan =
  s_records :: "pkg_record list"
  s_record :: "pkg_record option"
  s_recipe :: string
  s_desc :: bool

definition scan_start :: scan where
  "scan_start = \<lparr>s_records = [], s_record = None, s_recipe = [], s_desc = False\<rparr>"

text \<open>\<open>^[A-Za-z][A-Za-z-]*:\<close>\<close>

definition letters :: "(char \<times> char) list" where
  "letters = [(CHR ''A'', CHR ''Z''), (CHR ''a'', CHR ''z'')]"

definition field_pattern :: regex where
  "field_pattern = seqs [Cls letters, star (Cls (letters @ [(CHR ''-'', CHR ''-'')])), chr1 (CHR '':'')]"

definition flush :: "scan \<Rightarrow> pkg_record list" where
  "flush st = s_records st @ (case s_record st of None \<Rightarrow> [] | Some r \<Rightarrow> [r])"

definition scan_line :: "scan \<Rightarrow> string \<Rightarrow> scan" where
  "scan_line st line =
     (if line = ''@@'' then st\<lparr>s_desc := False\<rparr>
      else if s_desc st then st
      else
        let st = (if startswith ''Source-Makefile: '' line
                  then st\<lparr>s_recipe := partition_after '': '' line\<rparr> else st)
        in if startswith ''Package: '' line
           then st\<lparr>s_records := flush st,
                   s_record := Some [(''recipe'', s_recipe st), (''Package'', partition_after '': '' line)]\<rparr>
           else case s_record st of
             None \<Rightarrow> st
           | Some record \<Rightarrow>
               if match_prefix field_pattern line
               then st\<lparr>s_record := Some (dict_set (partition_before '':'' line) (strip (partition_after '':'' line)) record),
                       s_desc := (partition_before '':'' line = ''Description'')\<rparr>
               else st)"

definition metadata_records :: "string \<Rightarrow> pkg_record list" where
  "metadata_records txt = flush (foldl scan_line scan_start (splitlines txt))"

subsection \<open>Matching installed packages\<close>

definition dict_default :: "pkg_record \<Rightarrow> string \<Rightarrow> string" where
  "dict_default r k = (case map_of r k of None \<Rightarrow> [] | Some v \<Rightarrow> v)"

definition digit_end :: "string \<Rightarrow> bool" where
  "digit_end name \<longleftrightarrow> in_ranges (last name) [(CHR ''0'', CHR ''9'')]"

text \<open>
  \<open>name[-1]\<close> raises on an empty name. (\<open>str.isdigit\<close> also holds of digits beyond ASCII; a
  name ending in one never equals an installed name, which is ASCII.)
\<close>

definition binary_name :: "pkg_record \<Rightarrow> string result" where
  "binary_name r =
     rbind (dict_get r ''Package'') (\<lambda>name.
       let abi = dict_default r ''ABI-Version'' in
       if startswith ''kmod-'' name then Inr name
       else if abi = [] then Inr name
       else if name = [] then Inl (IndexError ''string index out of range'')
       else Inr (name @ (if digit_end name then ''-'' else []) @ abi))"

record pkg_declaration =
  d_recipe :: string
  d_license :: string
  d_license_files :: "string list"
  d_source :: string
  d_version :: string

record review_item =
  r_package :: string
  r_version :: string
  r_complete :: bool
  r_finding :: "string option"
  r_declared :: "pkg_declaration option"

record license_report =
  l_count :: nat
  l_packages :: "review_item list"
  l_kernel_complete :: bool
  l_review_complete :: bool
  l_authorized :: bool

definition package_pattern :: regex where
  "package_pattern = Seq (Cls (alnum_ranges))
     (star (Cls (alnum_ranges @ [(CHR ''.'', CHR ''.''), (CHR ''+'', CHR ''+''), (CHR ''_'', CHR ''_''), (CHR ''-'', CHR ''-'')])))"

fun filter_result :: "('a \<Rightarrow> bool result) \<Rightarrow> 'a list \<Rightarrow> 'a list result" where
  "filter_result p [] = Inr []"
| "filter_result p (x # xs) =
     rbind (p x) (\<lambda>keep. rbind (filter_result p xs) (\<lambda>ys. Inr (if keep then x # ys else ys)))"

definition candidates :: "pkg_record list \<Rightarrow> string \<Rightarrow> pkg_record list result" where
  "candidates records name =
     rbind (filter_result (\<lambda>r. rbind (binary_name r) (\<lambda>b. Inr (b = name))) records) (\<lambda>found.
       if found = [] then filter_result (\<lambda>r. rbind (dict_get r ''Package'') (\<lambda>p. Inr (p = name))) records
       else Inr found)"

definition declare_item :: "string \<Rightarrow> string \<Rightarrow> pkg_record list \<Rightarrow> review_item result" where
  "declare_item name version found =
     (let item = \<lparr>r_package = name, r_version = version, r_complete = False, r_finding = None, r_declared = None\<rparr>
      in case found of
        [] \<Rightarrow> Inr (item\<lparr>r_finding := Some ''missing metadata''\<rparr>)
      | [record] \<Rightarrow>
          rbind (dict_get record ''recipe'') (\<lambda>recipe.
            let d = \<lparr>d_recipe = recipe, d_license = dict_default record ''License'',
                    d_license_files = py_split (dict_default record ''LicenseFiles''),
                    d_source = dict_default record ''Source'', d_version = dict_default record ''Version''\<rparr>
            in Inr (item\<lparr>r_declared := Some d,
                 r_finding := (if d_license d = [] then Some ''missing license declaration''
                   else if d_license_files d = [] then Some ''no explicit LicenseFiles field; inspect source notices''
                   else None)\<rparr>))
      | _ \<Rightarrow> Inr (item\<lparr>r_finding := Some ''ambiguous metadata''\<rparr>))"

definition review_line :: "pkg_record list \<Rightarrow> review_item list \<Rightarrow> string \<Rightarrow> review_item list result" where
  "review_line records selected line =
     (case split_at '' - '' line of
        None \<Rightarrow> Inl (ValueError ''not enough values to unpack'')
      | Some (name, version) \<Rightarrow>
          if name \<in> set (map r_package selected) \<or> \<not> fullmatch package_pattern name
          then Inl (ValueError ''invalid or duplicate installed package'')
          else rbind (candidates records name) (\<lambda>found.
               rbind (declare_item name version found) (\<lambda>item. Inr (selected @ [item]))))"

definition review :: "string \<Rightarrow> string \<Rightarrow> license_report result" where
  "review manifest metadata =
     (let records = metadata_records metadata in
      rbind (for_each (review_line records) [] (splitlines manifest)) (\<lambda>selected.
        Inr \<lparr>l_count = length selected, l_packages = selected, l_kernel_complete = False, l_review_complete = False, l_authorized = False\<rparr>))"

subsection \<open>Descriptions are opaque\<close>

lemma scan_description:
  "s_desc st \<Longrightarrow> ''@@'' \<notin> set ds \<Longrightarrow> foldl scan_line st ds = st"
  by (induction ds arbitrary: st) (auto simp: scan_line_def)

lemma description_line:
  assumes "s_record st \<noteq> None" "\<not> s_desc st" "startswith ''Description:'' line"
  shows "s_desc (scan_line st line)"
proof -
  obtain t where t: "line = ''Description:'' @ t" using assms(3) by (auto simp: startswith_iff)
  have "fullmatch field_pattern ''Description:''" by code_simp
  then have "match_prefix field_pattern line"
    unfolding match_prefix_iff fullmatch_iff_lang t by blast
  moreover have "partition_before '':'' line = ''Description''"
    by (simp add: t partition_before_def startswith_def)
  moreover have "line \<noteq> ''@@''" "\<not> startswith ''Source-Makefile: '' line" "\<not> startswith ''Package: '' line"
    by (simp_all add: t startswith_def)
  ultimately show ?thesis using assms by (auto simp: scan_line_def)
qed

lemma scan_line_record: "s_record st \<noteq> None \<Longrightarrow> s_record (scan_line st line) \<noteq> None"
  by (auto simp: scan_line_def Let_def split: option.splits)

lemma scan_record: "s_record st \<noteq> None \<Longrightarrow> s_record (foldl scan_line st ls) \<noteq> None"
proof (induction ls arbitrary: st)
  case (Cons l ls)
  then show ?case using scan_line_record [of st l] by (auto simp del: not_None_eq)
qed simp

text \<open>Only a known package can be in its description.\<close>

definition scan_inv :: "scan \<Rightarrow> bool" where
  "scan_inv st \<longleftrightarrow> (s_desc st \<longrightarrow> s_record st \<noteq> None)"

lemma scan_line_inv: "scan_inv st \<Longrightarrow> scan_inv (scan_line st line)"
  by (auto simp: scan_inv_def scan_line_def Let_def split: option.splits)

lemma scan_invariant: "scan_inv st \<Longrightarrow> scan_inv (foldl scan_line st ls)"
  by (induction ls arbitrary: st) (auto intro: scan_line_inv)

lemma scan_package:
  assumes "l \<in> set ls" "startswith ''Package: '' l"
  shows "s_record (foldl scan_line scan_start ls) \<noteq> None"
proof -
  from assms(1) obtain xs ys where ls: "ls = xs @ l # ys" by (meson split_list)
  let ?st = "foldl scan_line scan_start xs"
  have inv: "scan_inv ?st" by (rule scan_invariant) (simp add: scan_inv_def scan_start_def)
  have "s_record (scan_line ?st l) \<noteq> None"
  proof (cases "s_record ?st = None")
    case True
    then have "\<not> s_desc ?st" using inv by (simp add: scan_inv_def)
    moreover have "l \<noteq> ''@@''" using assms(2) by (auto simp: startswith_def)
    ultimately show ?thesis using assms(2) by (simp add: scan_line_def Let_def)
  next
    case False
    then show ?thesis by (rule scan_line_record)
  qed
  then show ?thesis unfolding ls foldl_append foldl_Cons by (rule scan_record)
qed

text \<open>
  C40: Free text cannot declare a license. The lines of a package description, whatever
  they look like, have no influence on the records: removing them changes nothing.
\<close>

theorem description_opaque:
  assumes "splitlines txt = before @ line # ds @ ''@@'' # after" and "startswith ''Description:'' line"
    and "splitlines txt' = before @ line # ''@@'' # after"
    and "''@@'' \<notin> set ds" and "l \<in> set before" and "startswith ''Package: '' l"
  shows "metadata_records txt = metadata_records txt'"
proof -
  let ?st = "foldl scan_line scan_start before"
  have rec: "s_record ?st \<noteq> None" using assms(5,6) by (rule scan_package)
  have "s_desc (scan_line ?st line)"
  proof (cases "s_desc ?st")
    case True
    moreover have "line \<noteq> ''@@''" using assms(2) by (auto simp: startswith_def)
    ultimately show ?thesis by (simp add: scan_line_def)
  next
    case False
    with rec show ?thesis using assms(2) by (intro description_line) simp_all
  qed
  then have "foldl scan_line (scan_line ?st line) ds = scan_line ?st line"
    using assms(4) by (rule scan_description)
  then show ?thesis using assms(1,3) by (simp add: metadata_records_def)
qed

theorem description_opaque_witness:
  "metadata_records (''Package: a'' @ [CHR 0x0A] @ ''Description: d'' @ [CHR 0x0A] @ ''License: invented'' @ [CHR 0x0A] @ ''@@'')
   = metadata_records (''Package: a'' @ [CHR 0x0A] @ ''Description: d'' @ [CHR 0x0A] @ ''@@'')"
proof (rule description_opaque [where l = "''Package: a''"])
  show "splitlines (''Package: a'' @ [CHR 0x0A] @ ''Description: d'' @ [CHR 0x0A] @ ''License: invented'' @ [CHR 0x0A] @ ''@@'')
      = [''Package: a''] @ ''Description: d'' # [''License: invented''] @ ''@@'' # []"
    by code_simp
  show "splitlines (''Package: a'' @ [CHR 0x0A] @ ''Description: d'' @ [CHR 0x0A] @ ''@@'')
      = [''Package: a''] @ ''Description: d'' # ''@@'' # []"
    by code_simp
qed (simp_all add: startswith_def)

subsection \<open>Findings\<close>

text \<open>
  The records that describe an installed package: those with its binary name, or, when
  there are none, those whose \<open>Package\<close> field is its name.
\<close>

definition matching :: "pkg_record list \<Rightarrow> string \<Rightarrow> pkg_record list" where
  "matching records name =
     (let b = filter (\<lambda>r. binary_name r = Inr name) records in
      if b = [] then filter (\<lambda>r. map_of r ''Package'' = Some name) records else b)"

lemma filter_result_Inr:
  "filter_result p xs = Inr ys \<Longrightarrow> ys = filter (\<lambda>x. p x = Inr True) xs"
  by (induction xs arbitrary: ys) (auto simp: result_simps)

lemma rbind_eq_test: "rbind r (\<lambda>b. Inr (b = v)) = Inr True \<longleftrightarrow> r = Inr v"
  by (cases r) auto

lemma candidates_Inr: "candidates records name = Inr found \<Longrightarrow> found = matching records name"
  by (auto simp: candidates_def matching_def result_simps Let_def rbind_eq_test dict_get_Inr
      dest!: filter_result_Inr split: if_splits)

definition declared :: "pkg_record \<Rightarrow> bool" where
  "declared r \<longleftrightarrow> dict_default r ''License'' \<noteq> [] \<and> py_split (dict_default r ''LicenseFiles'') \<noteq> []"

lemma declare_item_Inr:
  assumes "declare_item name version found = Inr i"
  shows "r_package i = name \<and> r_version i = version \<and> \<not> r_complete i \<and>
    (r_finding i = None \<longleftrightarrow> (\<exists>r. found = [r] \<and> declared r))"
proof (cases found)
  case Nil
  with assms show ?thesis by (auto simp: declare_item_def)
next
  case (Cons r rs)
  with assms show ?thesis
    by (cases rs) (auto simp: declare_item_def declared_def result_simps Let_def split: if_splits)
qed

definition reviewed :: "pkg_record list \<Rightarrow> review_item \<Rightarrow> bool" where
  "reviewed records i \<longleftrightarrow>
     fullmatch package_pattern (r_package i) \<and> \<not> r_complete i \<and>
     (r_finding i = None \<longleftrightarrow> (\<exists>r. matching records (r_package i) = [r] \<and> declared r))"

lemma review_loop:
  "for_each (review_line records) sel lines = Inr out \<Longrightarrow> distinct (map r_package sel) \<Longrightarrow>
     list_all (reviewed records) sel \<Longrightarrow>
     distinct (map r_package out) \<and> list_all (reviewed records) out \<and>
     map (\<lambda>i. Some (r_package i, r_version i)) out =
       map (\<lambda>i. Some (r_package i, r_version i)) sel @ map (split_at '' - '') lines"
proof (induction lines arbitrary: sel)
  case (Cons line lines)
  from Cons.prems(1) obtain sel' where sel': "review_line records sel line = Inr sel'"
    "for_each (review_line records) sel' lines = Inr out" by (auto simp: result_simps)
  from sel'(1) obtain name version found i where l: "split_at '' - '' line = Some (name, version)"
    "name \<notin> set (map r_package sel)" "fullmatch package_pattern name"
    "candidates records name = Inr found" "declare_item name version found = Inr i" "sel' = sel @ [i]"
    by (auto simp: review_line_def result_simps split: option.splits if_splits)
  have i: "r_package i = name" "r_version i = version" "reviewed records i"
    using declare_item_Inr [OF l(5)] candidates_Inr [OF l(4)] l(3) by (auto simp: reviewed_def)
  have "distinct (map r_package sel')" "list_all (reviewed records) sel'"
    using Cons.prems(2,3) l(2,6) i by auto
  from Cons.IH [OF sel'(2) this] show ?case using l(1,6) i by simp
qed simp

text \<open>The items of a report, in the order of the manifest.\<close>

lemma review_exact:
  assumes "review manifest metadata = Inr rep"
  shows "map (\<lambda>i. Some (r_package i, r_version i)) (l_packages rep) = map (split_at '' - '') (splitlines manifest) \<and>
    distinct (map r_package (l_packages rep)) \<and>
    list_all (reviewed (metadata_records metadata)) (l_packages rep) \<and> l_count rep = length (splitlines manifest) \<and>
    \<not> l_kernel_complete rep \<and> \<not> l_review_complete rep \<and> \<not> l_authorized rep"
proof -
  from assms obtain out where "for_each (review_line (metadata_records metadata)) [] (splitlines manifest) = Inr out"
    "rep = \<lparr>l_count = length out, l_packages = out, l_kernel_complete = False, l_review_complete = False, l_authorized = False\<rparr>"
    by (auto simp: review_def result_simps Let_def)
  moreover have "length out = length (splitlines manifest)"
    using arg_cong [of _ _ length, OF conjunct2 [OF conjunct2 [OF review_loop [OF calculation(1)]]]] by simp
  ultimately show ?thesis using review_loop [of "metadata_records metadata" "[]"] by auto
qed

definition sample_manifest :: string where
  "sample_manifest = ''libexample1 - 2-r1'' @ [CHR 0x0A] @ ''kernel - 6.12''"

definition sample_metadata :: string where
  "sample_metadata = ''Package: libexample'' @ [CHR 0x0A] @ ''ABI-Version: 1'' @ [CHR 0x0A] @ ''License: MIT'' @ [CHR 0x0A]
     @ ''LicenseFiles: COPYING''"

lemma sample_review:
  "review sample_manifest sample_metadata = Inr
     \<lparr>l_count = 2, l_packages =
        [\<lparr>r_package = ''libexample1'', r_version = ''2-r1'', r_complete = False, r_finding = None,
          r_declared = Some \<lparr>d_recipe = [], d_license = ''MIT'', d_license_files = [''COPYING''], d_source = [], d_version = []\<rparr>\<rparr>,
         \<lparr>r_package = ''kernel'', r_version = ''6.12'', r_complete = False, r_finding = Some ''missing metadata'',
          r_declared = None\<rparr>],
      l_kernel_complete = False, l_review_complete = False, l_authorized = False\<rparr>"
  by code_simp

end
