(* ===== verification/Public_Audit.thy ===== *)
theory Public_Audit
  imports File_System
begin

text \<open>
  \<open>scripts/audit-public-tree.py\<close>: every file git tracks is checked by name and by content
  before the tree is published. The lemmas show that the line-wise scan misses no hazard of
  the whole file and which trees pass.
\<close>

definition MAX_BYTES :: int where "MAX_BYTES = 16 * 1024 * 1024"

subsection \<open>Patterns\<close>

text \<open>\<open>re.I\<close> on bytes: an ASCII letter in a class brings its other case with it.\<close>

definition shift_char :: "int \<Rightarrow> char \<Rightarrow> char" where
  "shift_char n c = char_of (of_char c + n)"    \<comment> \<open>modulo 256\<close>

definition other_case :: "char \<times> char \<Rightarrow> (char \<times> char) list" where
  "other_case = (\<lambda>(a, b).
     (let lo = max a (CHR ''A''); hi = min b (CHR ''Z'') in if lo \<le> hi then [(shift_char 32 lo, shift_char 32 hi)] else [])
     @ (let lo = max a (CHR ''a''); hi = min b (CHR ''z'') in if lo \<le> hi then [(shift_char (- 32) lo, shift_char (- 32) hi)] else []))"

definition fold_ranges :: "(char \<times> char) list \<Rightarrow> (char \<times> char) list" where
  "fold_ranges rs = rs @ concat (map other_case rs)"

primrec nocase :: "regex \<Rightarrow> regex" where
  "nocase Zero = Zero"
| "nocase One = One"
| "nocase (Cls rs) = Cls (fold_ranges rs)"
| "nocase (NCls rs) = NCls (fold_ranges rs)"
| "nocase (Seq r s) = Seq (nocase r) (nocase s)"
| "nocase (Alt r s) = Alt (nocase r) (nocase s)"
| "nocase (Rep m n r) = Rep m n (nocase r)"

definition rng :: "char \<Rightarrow> char \<times> char" where "rng c = (c, c)"
definition decimal :: "(char \<times> char) list" where "decimal = [(CHR ''0'', CHR ''9'')]"
definition hex_octet :: regex where
  "hex_octet = times 2 (Cls [(CHR ''0'', CHR ''9''), (CHR ''A'', CHR ''F''), (CHR ''a'', CHR ''f'')])"
definition slashes :: regex where "slashes = Cls [rng (CHR ''/''), rng (CHR 0x5C)]"

definition PATTERNS :: "(string \<times> regex) list" where
  "PATTERNS =
    [(''private-key'',
       seqs [lit ''BEGIN '', opt (alts [lit ''OPENSSH'', lit ''RSA'', lit ''EC'', lit ''DSA'', lit ''ENCRYPTED'', lit ''PGP'']),
         opt (lit '' ''), lit ''PRIVATE KEY'']),
     (''ssh-authorization'',
       seqs [Alt (Seq (lit ''ssh-'') (Alt (lit ''rsa'') (lit ''ed25519'')))
           (Seq (lit ''ecdsa-sha2-nistp'') (plus1 (Cls decimal))),
         lit '' '', Rep 24 None (Cls (alnum_ranges @ [rng (CHR ''+''), rng (CHR ''/'')]))]),
     (''access-token'',
       alts [Seq (lit ''github_pat_'') (Rep 20 None (Cls (alnum_ranges @ [rng (CHR ''_'')]))),
         seqs [lit ''gh'', Cls (map rng ''pousr''), lit ''_'', Rep 20 None (Cls alnum_ranges)],
         Seq (lit ''AKIA'') (times 16 (Cls [(CHR ''0'', CHR ''9''), (CHR ''A'', CHR ''Z'')]))]),
     (''device-identifier'', Seq (times 5 (Seq hex_octet (lit '':''))) hex_octet),
     (''personal-path'',
       nocase (alts [seqs [lit ''/mnt/'', Cls [(CHR ''a'', CHR ''z'')], lit ''/'', Cls (map rng ''Uu''), lit ''sers/''],
         seqs [lit ''/home/'', plus1 (Cls (alnum_ranges @ map rng ''._-'')), lit ''/''],
         seqs [Cls [(CHR ''A'', CHR ''Z''), (CHR ''a'', CHR ''z'')], lit '':'', slashes, lit ''Users'', slashes]])),
     (''conversation-link'',
       nocase (Alt (Seq (lit ''chatgpt.com/'') (alts [lit ''c/'', lit ''share/'',
           seqs [lit ''codex/'', Alt (lit ''task'') (lit ''tasks''), lit ''/'']]))
         (lit ''codex://'')))]"

subsection \<open>Names\<close>

text \<open>
  \<open>str.lower()\<close>, as far as ASCII depends on it: the letters, the Kelvin sign and the dotted
  capital I. Other letters have no ASCII in their lower case and are kept; no pattern
  distinguishes them.
\<close>

definition lower_char :: "char \<Rightarrow> char" where
  "lower_char c = (if CHR ''A'' \<le> c \<and> c \<le> CHR ''Z'' then shift_char 32 c else c)"

fun py_lower :: "string \<Rightarrow> string" where
  "py_lower [] = []"
| "py_lower (c # s) =
     (if startswith [CHR 0xE2, CHR 0x84, CHR 0xAA] (c # s) then CHR ''k'' # py_lower (drop 2 s)
      else if startswith [CHR 0xC4, CHR 0xB0] (c # s) then CHR ''i'' # CHR 0xCC # CHR 0x87 # py_lower (drop 1 s)
      else lower_char c # py_lower s)"

text \<open>\<open>fnmatch.fnmatchcase\<close> for patterns whose only wildcard is the star.\<close>

definition glob :: "string \<Rightarrow> regex" where
  "glob pat = seqs (map (\<lambda>c. if c = CHR ''*'' then star any_byte else chr1 c) pat)"

definition FORBIDDEN :: "string list" where
  "FORBIDDEN =
    [''*.db'', ''*.sqlite*'', ''*.img'', ''*.bin'', ''*.itb'', ''*.ubi'', ''*.ubifs'',
     ''*.squashfs'', ''*.cpio'', ''*.tar*'', ''*.zip'', ''*.gz'', ''*.xz'', ''*.pcap*'',
     ''*.dump'', ''*.key'', ''*.pem'', ''*.pub'', ''.env'', ''.env.*'', ''known_hosts*'',
     ''authorized_keys*'', ''id_rsa*'', ''id_ed25519*'', ''id_ecdsa*'', ''id_dsa*'',
     ''ssh_host_*'', ''dropbear_*_host_key*'', ''*u-boot*dump*'', ''*fw_env*dump*'',
     ''uimage.buffalo'', ''initrd.buffalo'', ''inventory-manifest*'']"

definition forbidden_path :: "string \<Rightarrow> bool" where
  "forbidden_path name =
     (let ps = parts (parse_path name) in
      list_ex (\<lambda>p. py_lower p \<in> {''private'', ''.ssh''}) ps \<or>
      list_ex (\<lambda>p. list_ex (\<lambda>pat. fullmatch (glob pat) (py_lower p)) FORBIDDEN) ps)"

subsection \<open>Contents\<close>

definition findings :: "bytes \<Rightarrow> (nat \<times> string) list" where
  "findings dat =
     (if CHR 0x00 \<in> set dat then [(0, ''binary-source'')]
      else concat (map (\<lambda>(line_no, line). map (\<lambda>(kind, pat). (line_no, kind)) (filter (\<lambda>(kind, pat). search pat line) PATTERNS))
             (enumerate 1 (bytes_splitlines dat))))"

subsection \<open>The tracked files\<close>

text \<open>\<open>bytes.split()\<close>\<close>

definition bytes_split :: "bytes \<Rightarrow> bytes list" where
  "bytes_split s = filter (\<lambda>w. w \<noteq> [])
     (map fst (split_seps (map (\<lambda>c. [c]) [CHR 0x20, CHR 0x09, CHR 0x0A, CHR 0x0D, CHR 0x0B, CHR 0x0C]) s))"

text \<open>
  One record of \<open>git ls-files --stage -z\<close>. The lists of reasons become the printed lines;
  an \<open>OSError\<close> while the file is examined is itself a reason.
\<close>

definition examine :: "fsys \<Rightarrow> ppath \<Rightarrow> string \<Rightarrow> (nat \<times> string) list result" where
  "examine fs root name =
     (let path = p_join root (parse_path name); ps = parts (parse_path name) in
      if list_ex (\<lambda>n. is_symlink fs (root\<lparr>p_tail := p_tail root @ take n ps\<rparr>)) [1..<length ps + 1]
      then Inr [(0, ''symlink'')]
      else rbind (lstat fs path) (\<lambda>st.
             if (case st of File _ _ \<Rightarrow> False | _ \<Rightarrow> True) then Inr [(0, ''non-regular-or-oversized-file'')]
             else rbind (stat fs path) (\<lambda>st'.
               if st_size st' > MAX_BYTES then Inr [(0, ''non-regular-or-oversized-file'')]
               else rbind (read_bytes fs path) (\<lambda>dat. Inr (findings dat)))))"

definition audit_record :: "fsys \<Rightarrow> ppath \<Rightarrow> bytes \<Rightarrow> (nat \<times> string) list result" where
  "audit_record fs root record =
     (case split_once (CHR 0x09) record of
        [header, name] \<Rightarrow>
          (case bytes_split header of
             [mode, _, stage] \<Rightarrow>
               (let ps = parts (parse_path name);
                    reasons = (if forbidden_path name then [(0, ''forbidden-path'')] else [])
                in if mode \<notin> {''100644'', ''100755''} \<or> stage \<noteq> ''0''
                   then Inr (reasons @ [(0, ''non-regular-or-unmerged-entry'')])
                   else if ps = [] \<or> ''..'' \<in> set ps \<or> startswith ''/'' name
                   then Inr (reasons @ [(0, ''unsafe-path'')])
                   else case examine fs root name of
                       Inr found \<Rightarrow> Inr (reasons @ found)
                     | Inl (OSError _) \<Rightarrow> Inr (reasons @ [(0, ''unreadable-tracked-file'')])
                     | Inl e \<Rightarrow> Inl e)
           | _ \<Rightarrow> Inl (ValueError ''unpack''))
      | _ \<Rightarrow> Inl (ValueError ''unpack''))"

text \<open>What is printed (ordinal, line, kind), and what is returned or raised after it.\<close>

type_synonym audit_line = "nat \<times> nat \<times> string"

fun audit_loop :: "fsys \<Rightarrow> ppath \<Rightarrow> (nat \<times> bytes) list \<Rightarrow> audit_line list \<times> bool result" where
  "audit_loop fs root [] = ([], Inr False)"
| "audit_loop fs root ((number, record) # rs) =
     (if record = [] then audit_loop fs root rs
      else case audit_record fs root record of
        Inl e \<Rightarrow> ([], Inl e)
      | Inr reasons \<Rightarrow>
          let (out, r) = audit_loop fs root rs
          in (map (\<lambda>(line, reason). (number, line, reason)) reasons @ out,
              rbind r (\<lambda>failed. Inr (reasons \<noteq> [] \<or> failed))))"

text \<open>\<open>ls_files\<close> is git: the standard output of \<open>git ls-files --stage -z\<close> in a directory.\<close>

definition audit :: "(ppath \<Rightarrow> bytes result) \<Rightarrow> fsys \<Rightarrow> ppath \<Rightarrow> audit_line list \<times> int result" where
  "audit ls_files fs root =
     (case ls_files root of
        Inl e \<Rightarrow> ([], Inl e)
      | Inr stdout \<Rightarrow>
          let (out, r) = audit_loop fs root (enumerate 1 (split_on (CHR 0x00) stdout))
          in (out, rbind r (\<lambda>failed. Inr (if failed then 1 else 0))))"

definition audit_error :: "exn \<Rightarrow> bool" where
  "audit_error e = (case e of OSError _ \<Rightarrow> True | ValueError _ \<Rightarrow> True | SubprocessError _ \<Rightarrow> True | _ \<Rightarrow> False)"

text \<open>\<open>main\<close>: the lines printed by \<open>audit\<close>, the last message, and the exit status.\<close>

definition audit_main :: "(ppath \<Rightarrow> bytes result) \<Rightarrow> fsys \<Rightarrow> ppath \<Rightarrow> audit_line list \<times> (string \<times> int) result" where
  "audit_main ls_files fs repo =
     (let (out, r) = (case py_resolve fs repo of
          Inl e \<Rightarrow> ([], Inl e)
        | Inr loc \<Rightarrow> audit ls_files fs \<lparr>p_root = ''/'', p_tail = loc\<rparr>)
      in (out, case r of
          Inl e \<Rightarrow> if audit_error e then Inr (''Public-tree audit could not complete'', 2) else Inl e
        | Inr code \<Rightarrow> Inr (if code \<noteq> 0 then ''Public-tree audit failed'' else ''Public-tree audit passed'', code)))"

subsection \<open>The scan misses nothing\<close>

lemma sublist_around:
  assumes "sublist w (l @ e @ r)" and "set w \<inter> set e = {}" and "e \<noteq> []"
  shows "sublist w l \<or> sublist w r"
proof -
  obtain c es where e: "e = c # es" using assms(3) by (cases e) auto
  have tail: "sublist w r" if "sublist w (x @ r)" "x \<noteq> []" "set w \<inter> set x = {}" for x
    using that
  proof (induction x)
    case (Cons a x)
    from Cons.prems(1) have "prefix w (a # x @ r) \<or> sublist w (x @ r)" by (simp add: sublist_Cons_right)
    moreover have "w = []" if "prefix w (a # x @ r)" using that Cons.prems(3) by (cases w) auto
    ultimately show ?case using Cons.IH Cons.prems(3) by (cases "x = []") auto
  qed simp
  from assms(1) have "sublist w l \<or> sublist w (e @ r) \<or> (\<exists>w1 w2. w = w1 @ w2 \<and> suffix w1 l \<and> prefix w2 (e @ r))"
    by (simp add: sublist_append)
  then show ?thesis
  proof (elim disjE exE conjE)
    assume "sublist w (e @ r)"
    with tail [OF _ assms(3,2)] show ?thesis by simp
  next
    fix w1 w2 assume w: "w = w1 @ w2" "suffix w1 l" "prefix w2 (e @ r)"
    have "w2 = []" using w(1,3) assms(2) e by (cases w2) auto
    with w show ?thesis by simp
  qed simp
qed

lemma factor_in_piece:
  assumes "w \<noteq> []" and "list_all (\<lambda>q. set w \<inter> set q = {}) seps"
  shows "sublist w s \<Longrightarrow> \<exists>l \<in> set (map fst (split_seps seps s)). sublist w l"
proof (induction "split_seps seps s" arbitrary: s)
  case Nil
  then have "s = []" using unsplit_split_seps [of seps s] by simp
  with Nil assms(1) show ?case by simp
next
  case (Cons p ps)
  obtain l e where p: "p = (l, e)" by (cases p)
  have s: "split_seps seps s = (l, e) # ps" using Cons.hyps(2) p by simp
  note u = split_seps_unfold [OF s]
  have e: "e = [] \<or> e \<in> set seps" using split_seps_piece [of l e seps s] s by simp
  show ?case
  proof (cases "e = []")
    case True
    then have "unsplit ps = []" using u(3) break_at_rest [OF u(2)] by auto
    with True u(1) Cons.prems s show ?thesis by simp
  next
    case False
    with e assms(2) have "set w \<inter> set e = {}" by (auto simp: list_all_iff)
    then have "sublist w l \<or> sublist w (unsplit ps)"
      using sublist_around [OF _ _ False] Cons.prems u(1) by metis
    then show ?thesis using Cons.hyps(1) [OF u(4)] s u(4) [symmetric] by auto
  qed
qed

lemma piece_in_text: "l \<in> set (map fst (split_seps seps s)) \<Longrightarrow> sublist l s"
proof -
  assume "l \<in> set (map fst (split_seps seps s))"
  then obtain e xs ys where "split_seps seps s = xs @ (l, e) # ys" by (auto simp: in_set_conv_decomp)
  then have "s = unsplit (xs @ (l, e) # ys)" by (metis unsplit_split_seps)
  then show ?thesis by (auto simp: sublist_def)
qed

lemma search_sublist: "search r s \<longleftrightarrow> (\<exists>v. sublist v s \<and> v \<in> lang r)"
  by (auto simp: search_iff sublist_def)

lemma patterns_one_line:
  "list_all (\<lambda>(kind, pat). \<not> nullable pat \<and>
     classes_all (\<lambda>rs. \<not> in_ranges (CHR 0x0A) rs \<and> \<not> in_ranges (CHR 0x0D) rs) pat) PATTERNS"
  by code_simp

text \<open>A pattern matches in some line exactly when it matches in the whole text.\<close>

lemma search_lines:
  assumes "(kind, pat) \<in> set PATTERNS"
  shows "(\<exists>line \<in> set (bytes_splitlines dat). search pat line) \<longleftrightarrow> search pat dat"
proof
  assume "\<exists>line \<in> set (bytes_splitlines dat). search pat line"
  then show "search pat dat"
    unfolding search_sublist bytes_splitlines_def by (meson piece_in_text sublist_order.order.trans)
next
  assume "search pat dat"
  then obtain v where v: "sublist v dat" "v \<in> lang pat" by (auto simp: search_sublist)
  from assms patterns_one_line have p: "\<not> nullable pat"
    "classes_all (\<lambda>rs. \<not> in_ranges (CHR 0x0A) rs \<and> \<not> in_ranges (CHR 0x0D) rs) pat"
    by (auto simp: list_all_iff)
  have "list_all (\<lambda>c. c \<noteq> CHR 0x0A \<and> c \<noteq> CHR 0x0D) v"
    using p(2) v(2) by (intro classes_all_lang [of _ _ pat v]) auto
  then have "list_all (\<lambda>q. set v \<inter> set q = {}) bytes_nls"
    by (auto simp: list_all_iff bytes_nls_def)
  moreover have "v \<noteq> []" using p(1) v(2) nullable_iff by auto
  ultimately show "\<exists>line \<in> set (bytes_splitlines dat). search pat line"
    using factor_in_piece [of v bytes_nls dat] v unfolding search_sublist bytes_splitlines_def by blast
qed

text \<open>No NUL byte, and no part of the text, wherever it stands, is in the language of a pattern.\<close>

definition hazard_free :: "bytes \<Rightarrow> bool" where
  "hazard_free dat \<longleftrightarrow> CHR 0x00 \<notin> set dat \<and>
     \<not> (\<exists>u v w kind pat. dat = u @ v @ w \<and> (kind, pat) \<in> set PATTERNS \<and> v \<in> lang pat)"

lemma hazard_free_iff: "hazard_free dat \<longleftrightarrow> CHR 0x00 \<notin> set dat \<and> \<not> (\<exists>(kind, pat) \<in> set PATTERNS. search pat dat)"
  unfolding hazard_free_def search_iff by blast

lemma findings_empty:
  "findings dat = [] \<longleftrightarrow> CHR 0x00 \<notin> set dat \<and>
     \<not> (\<exists>(kind, pat) \<in> set PATTERNS. \<exists>line \<in> set (bytes_splitlines dat). search pat line)"
proof -
  have snd_enum: "(\<exists>n. (n, x) \<in> set (enumerate k xs)) \<longleftrightarrow> x \<in> set xs" for x :: bytes and k xs
  proof -
    have "x \<in> set (map snd (enumerate k xs)) \<longleftrightarrow> x \<in> set xs" by (simp only: map_snd_enumerate)
    then show ?thesis unfolding set_map image_iff Bex_def split_paired_Ex by simp
  qed
  have "concat (map (\<lambda>(n, line). map (\<lambda>(kind, pat). (n, kind)) (filter (\<lambda>(kind, pat). search pat line) pats)) xs) = [] \<longleftrightarrow>
      (\<forall>line kind pat. (\<exists>n. (n, line) \<in> set xs) \<longrightarrow> (kind, pat) \<in> set pats \<longrightarrow> \<not> search pat line)"
    for xs :: "(nat \<times> bytes) list" and pats :: "(string \<times> regex) list"
  proof (induction xs)
    case (Cons x xs)
    obtain n line where x: "x = (n, line)" by (cases x)
    have "filter (\<lambda>(kind, pat). search pat line) pats = [] \<longleftrightarrow> (\<forall>kind pat. (kind, pat) \<in> set pats \<longrightarrow> \<not> search pat line)"
      by (auto simp: filter_empty_conv)
    with Cons x show ?case by auto
  qed simp
  note this [of PATTERNS "enumerate 1 (bytes_splitlines dat)", unfolded snd_enum]
  then show ?thesis by (simp add: findings_def) blast
qed

lemma findings_hazards: "findings dat = [] \<longleftrightarrow> hazard_free dat"
  unfolding findings_empty hazard_free_iff using search_lines by blast

definition KINDS :: "string list" where
  "KINDS = ''binary-source'' # map fst PATTERNS"

lemma findings_kinds: "(n, kind) \<in> set (findings dat) \<Longrightarrow> kind \<in> set KINDS"
  by (auto simp: findings_def KINDS_def split: if_splits) (metis fst_conv image_eqI)

text \<open>
  C37: A file is reported clean exactly when it contains no NUL byte and no text of a
  hazardous form anywhere, so scanning line by line misses nothing that the whole file
  contains; and a report names a line and a fixed kind, never the text that matched.
\<close>

theorem findings_complete:
  "(findings dat = [] \<longleftrightarrow> hazard_free dat) \<and> list_all (\<lambda>(n, kind). kind \<in> set KINDS) (findings dat)"
  using findings_hazards findings_kinds by (auto simp: list_all_iff)

subsection \<open>Forbidden names\<close>

text \<open>The star stands for any text, every other character for itself.\<close>

fun wild :: "string \<Rightarrow> string \<Rightarrow> bool" where
  "wild [] s \<longleftrightarrow> s = []"
| "wild (c # pat) s \<longleftrightarrow>
     (if c = CHR ''*'' then \<exists>k \<le> length s. wild pat (drop k s)
      else s \<noteq> [] \<and> hd s = c \<and> wild pat (tl s))"

lemma lang_seqs_Cons: "lang (seqs (r # rs)) = conc (lang r) (lang (seqs rs))"
  by (cases rs) (auto simp: conc_def)

lemma glob_wild: "fullmatch (glob pat) s \<longleftrightarrow> wild pat s"
  unfolding fullmatch_iff_lang glob_def
proof (induction pat arbitrary: s)
  case (Cons c pat)
  let ?rest = "lang (seqs (map (\<lambda>c. if c = CHR ''*'' then star any_byte else chr1 c) pat))"
  show ?case
  proof (cases "c = CHR ''*''")
    case True
    have "s \<in> conc UNIV ?rest \<longleftrightarrow> (\<exists>k \<le> length s. drop k s \<in> ?rest)"
    proof
      assume "s \<in> conc UNIV ?rest"
      then obtain u v where "s = u @ v" "v \<in> ?rest" by (rule concE)
      then show "\<exists>k \<le> length s. drop k s \<in> ?rest" by (intro exI [of _ "length u"]) simp
    next
      assume "\<exists>k \<le> length s. drop k s \<in> ?rest"
      then obtain k where "drop k s \<in> ?rest" by blast
      then have "take k s @ drop k s \<in> conc UNIV ?rest" by (intro concI) simp_all
      then show "s \<in> conc UNIV ?rest" by simp
    qed
    with True Cons show ?thesis by (simp add: lang_seqs_Cons)
  next
    case False
    have "s \<in> conc {[c]} ?rest \<longleftrightarrow> s \<noteq> [] \<and> hd s = c \<and> tl s \<in> ?rest"
      by (cases s) (auto simp: conc_def)
    with False Cons show ?thesis by (simp add: lang_seqs_Cons lang_chr1)
  qed
qed simp

lemma lower_char_cases:
  "if CHR ''A'' \<le> c \<and> c \<le> CHR ''Z'' then CHR ''a'' \<le> lower_char c \<and> lower_char c \<le> CHR ''z'' else lower_char c = c"
proof -
  have "char_of (of_char c + 32 :: int) = char_of (of_nat (of_char c + 32) :: int)" by (simp add: of_nat_of_char)
  then have "shift_char 32 c = char_of (of_char c + 32 :: nat)" unfolding char_of_nat by (simp add: shift_char_def)
  then show ?thesis by (auto simp: lower_char_def less_eq_char_def)
qed

text \<open>Characters other than letters are only the lower case of themselves.\<close>

definition caseless :: "char \<Rightarrow> bool" where
  "caseless d \<longleftrightarrow> \<not> (CHR ''A'' \<le> d \<and> d \<le> CHR ''Z'') \<and> \<not> (CHR ''a'' \<le> d \<and> d \<le> CHR ''z'')"

lemma lower_char_caseless: "caseless d \<Longrightarrow> lower_char c = d \<longleftrightarrow> c = d"
  using lower_char_cases [of c] by (auto simp: caseless_def split: if_splits)

lemma lower_char_idem [simp]: "lower_char (lower_char c) = lower_char c"
proof (cases "CHR ''A'' \<le> c \<and> c \<le> CHR ''Z''")
  case True
  then have "CHR ''a'' \<le> lower_char c" using lower_char_cases [of c] by simp
  then have "\<not> (CHR ''A'' \<le> lower_char c \<and> lower_char c \<le> CHR ''Z'')" by (auto simp: less_eq_char_def)
  then show ?thesis using lower_char_cases [of "lower_char c"] by simp
next
  case False
  then show ?thesis using lower_char_cases [of c] by simp
qed

lemma map_lower_caseless: "list_all caseless p \<Longrightarrow> map lower_char s = p \<longleftrightarrow> s = p"
proof (induction p arbitrary: s)
  case (Cons d p)
  then show ?case by (cases s) (auto simp: lower_char_caseless)
qed simp

lemma startswith_lower: "list_all caseless p \<Longrightarrow> startswith p (map lower_char s) = startswith p s"
  by (simp add: startswith_def take_map map_lower_caseless)

lemma py_lower_lower: "py_lower (map lower_char s) = py_lower s"
proof (induction s rule: py_lower.induct)
  case (2 c s)
  have cl: "list_all caseless [CHR 0xE2, CHR 0x84, CHR 0xAA]" "list_all caseless [CHR 0xC4, CHR 0xB0]"
    by (simp_all add: caseless_def less_eq_char_def)
  note st = cl [THEN startswith_lower, of "c # s"]
  show ?case
  proof (cases "startswith [CHR 0xE2, CHR 0x84, CHR 0xAA] (c # s)")
    case True
    with 2(1) st show ?thesis by (simp add: drop_map)
  next
    case f1: False
    show ?thesis
    proof (cases "startswith [CHR 0xC4, CHR 0xB0] (c # s)")
      case True
      with f1 2(2) st show ?thesis by (simp add: drop_map)
    next
      case False
      with f1 2(3) st show ?thesis by simp
    qed
  qed
qed simp

lemma split_on_lower: "caseless d \<Longrightarrow> split_on d (map lower_char s) = map (map lower_char) (split_on d s)"
  by (induction s) (auto simp: lower_char_caseless split: list.splits)

lemma parts_lower: "parts (parse_path (map lower_char s)) = map (map lower_char) (parts (parse_path s))"
proof -
  have slash: "caseless (CHR ''/'')" "caseless (CHR ''.'')" by (simp_all add: caseless_def less_eq_char_def)
  then have st: "startswith p (map lower_char s) = startswith p s" if "p \<in> {''/'', ''//'', ''///''}" for p
    using that by (intro startswith_lower) auto
  have "map lower_char q = ''.'' \<longleftrightarrow> q = ''.''" for q using slash(2) by (intro map_lower_caseless) simp
  then have "filter (\<lambda>p. p \<noteq> [] \<and> p \<noteq> ''.'') (map (map lower_char) ps) = map (map lower_char) (filter (\<lambda>p. p \<noteq> [] \<and> p \<noteq> ''.'') ps)" for ps
    by (induction ps) auto
  moreover have "lower_char (CHR ''/'') = CHR ''/''" using lower_char_caseless [OF slash(1)] by blast
  ultimately show ?thesis
    by (simp add: parts_def parse_path_def split_on_lower [OF slash(1)] st)
qed

text \<open>
  A name cannot slip past the list of forbidden names by its case: names that differ only
  in the case of ASCII letters get the same verdict.
\<close>

theorem forbidden_path_case:
  assumes "map lower_char name = map lower_char name'"
  shows "forbidden_path name = forbidden_path name'"
proof -
  have "forbidden_path name = forbidden_path (map lower_char name)" for name
    by (simp add: forbidden_path_def parts_lower py_lower_lower list_ex_iff Let_def)
  with assms show ?thesis by metis
qed

theorem forbidden_path_case_witness: "forbidden_path ''docs/Site.KEY''"
proof -
  have "forbidden_path ''docs/Site.KEY'' = forbidden_path ''docs/site.key''"
    by (rule forbidden_path_case) code_simp
  moreover have "forbidden_path ''docs/site.key''" by code_simp
  ultimately show ?thesis by simp
qed

subsection \<open>Trees that pass\<close>

lemma split_once_pair: "split_once c s = [a, b] \<longleftrightarrow> c \<notin> set a \<and> s = a @ c # b"
proof
  assume eq: "split_once c s = [a, b]"
  then have "c \<in> set s" by (auto simp: split_once_def split: if_splits)
  then obtain u v where "s = u @ c # v" "c \<notin> set u" by (meson split_list_first)
  with eq show "c \<notin> set a \<and> s = a @ c # b" by (simp add: split_once_append)
qed (simp add: split_once_append)

text \<open>
  One entry of the index that may be published: a plain file, merged, with a harmless
  relative name, reached through no symbolic link, small and free of hazards.
\<close>

definition clean_file :: "fsys \<Rightarrow> ppath \<Rightarrow> ppath \<Rightarrow> bool" where
  "clean_file fs root p \<longleftrightarrow>
     list_all (\<lambda>n. \<not> is_symlink fs (root\<lparr>p_tail := p_tail root @ take n (p_tail p)\<rparr>)) [1..<length (p_tail p) + 1] \<and>
     (\<exists>m bs. lstat fs (p_join root p) = Inr (File m bs) \<and> int (length bs) \<le> MAX_BYTES \<and> hazard_free bs)"

definition clean_entry :: "fsys \<Rightarrow> ppath \<Rightarrow> bytes \<Rightarrow> bool" where
  "clean_entry fs root record \<longleftrightarrow>
     (\<exists>header name mode obj. record = header @ CHR 0x09 # name \<and> CHR 0x09 \<notin> set header \<and>
        bytes_split header = [mode, obj, ''0''] \<and> mode \<in> {''100644'', ''100755''} \<and>
        \<not> forbidden_path name \<and> confined (parse_path name) \<and> p_tail (parse_path name) \<noteq> [] \<and>
        clean_file fs root (parse_path name))"

lemma absolute_slash: "is_absolute (parse_path name) \<longleftrightarrow> startswith ''/'' name"
  by (cases name) (auto simp: is_absolute_def parse_path_def startswith_def)

lemma examine_clean:
  assumes "confined (parse_path name)"
  shows "examine fs root name = Inr [] \<longleftrightarrow> clean_file fs root (parse_path name)"
proof -
  have rel: "parts (parse_path name) = p_tail (parse_path name)"
    using assms by (simp add: parts_def confined_def is_absolute_def)
  let ?path = "p_join root (parse_path name)"
  have "(rbind (lstat fs ?path) (\<lambda>st.
      if (case st of File _ _ \<Rightarrow> False | _ \<Rightarrow> True) then Inr [(0, ''non-regular-or-oversized-file'')]
      else rbind (stat fs ?path) (\<lambda>st'.
        if st_size st' > MAX_BYTES then Inr [(0, ''non-regular-or-oversized-file'')]
        else rbind (read_bytes fs ?path) (\<lambda>dat. Inr (findings dat)))) = Inr []) \<longleftrightarrow>
    (\<exists>m bs. lstat fs ?path = Inr (File m bs) \<and> int (length bs) \<le> MAX_BYTES \<and> hazard_free bs)"
  proof (cases "lstat fs ?path")
    case (Inr n)
    show ?thesis
    proof (cases n)
      case (File m bs)
      then have "stat fs ?path = Inr (File m bs)" using Inr by (intro stat_lstat) auto
      then show ?thesis using Inr File by (simp add: read_bytes_file findings_hazards st_size_def not_less)
    qed (simp_all add: Inr)
  qed simp
  then show ?thesis
    by (auto simp: examine_def clean_file_def rel Let_def list_ex_iff list_all_iff)
qed

lemma audit_record_clean: "audit_record fs root record = Inr [] \<longleftrightarrow> clean_entry fs root record"
proof
  assume a: "audit_record fs root record = Inr []"
  then obtain header name where h: "split_once (CHR 0x09) record = [header, name]"
    by (auto simp: audit_record_def split: list.splits)
  with a obtain mode obj stage where w: "bytes_split header = [mode, obj, stage]"
    by (auto simp: audit_record_def split: list.splits)
  let ?ps = "parts (parse_path name)"
  have g: "mode \<in> {''100644'', ''100755''}" "stage = ''0''" "\<not> forbidden_path name"
    "?ps \<noteq> []" "''..'' \<notin> set ?ps" "\<not> startswith ''/'' name" "examine fs root name = Inr []"
    using a h w by (auto simp: audit_record_def Let_def split: if_splits sum.splits exn.splits)
  then have c: "confined (parse_path name)" "p_tail (parse_path name) \<noteq> []"
    using absolute_slash [of name] by (auto simp: confined_def parts_def is_absolute_def split: if_splits)
  show "clean_entry fs root record"
    using h w g c examine_clean [OF c(1)] unfolding clean_entry_def split_once_pair by metis
next
  assume "clean_entry fs root record"
  then obtain header name mode obj where c: "record = header @ CHR 0x09 # name" "CHR 0x09 \<notin> set header"
    "bytes_split header = [mode, obj, ''0'']" "mode \<in> {''100644'', ''100755''}" "\<not> forbidden_path name"
    "confined (parse_path name)" "p_tail (parse_path name) \<noteq> []" "clean_file fs root (parse_path name)"
    unfolding clean_entry_def by blast
  then have "split_once (CHR 0x09) record = [header, name]" by (simp add: split_once_append)
  moreover have "\<not> startswith ''/'' name" using c(6) absolute_slash [of name] by (simp add: confined_def)
  moreover have "parts (parse_path name) = p_tail (parse_path name)"
    using c(6) by (simp add: parts_def confined_def is_absolute_def)
  moreover have "examine fs root name = Inr []" using c(8) examine_clean [OF c(6)] by simp
  ultimately show "audit_record fs root record = Inr []"
    using c by (simp add: audit_record_def Let_def confined_def)
qed

lemma audit_loop_clean:
  "snd (audit_loop fs root rs) = Inr False \<longleftrightarrow> list_all (clean_entry fs root) (filter (\<lambda>r. r \<noteq> []) (map snd rs))"
proof (induction rs)
  case (Cons x rs)
  obtain number rec where x: "x = (number, rec)" by (cases x)
  show ?case
  proof (cases "audit_record fs root rec")
    case (Inl e)
    with Cons x show ?thesis using audit_record_clean [of fs root rec] by auto
  next
    case (Inr reasons)
    then have "reasons = [] \<longleftrightarrow> clean_entry fs root rec"
      using audit_record_clean [of fs root rec] by simp
    with Inr Cons x show ?thesis by (auto simp: result_simps split: prod.splits)
  qed
qed simp

text \<open>
  C8: The audit passes a tree exactly when git answered and every tracked entry is a merged
  plain file with a harmless confined name, not reached through a symbolic link, of bounded
  size and free of hazards; everything else, errors included, is a failing status.
\<close>

theorem audit_passes:
  "(\<exists>msg. snd (audit_main ls_files fs repo) = Inr (msg, 0)) \<longleftrightarrow>
     (\<exists>loc stdout. py_resolve fs repo = Inr loc \<and> ls_files \<lparr>p_root = ''/'', p_tail = loc\<rparr> = Inr stdout \<and>
        list_all (clean_entry fs \<lparr>p_root = ''/'', p_tail = loc\<rparr>) (filter (\<lambda>r. r \<noteq> []) (split_on (CHR 0x00) stdout)))"
proof (cases "py_resolve fs repo")
  case (Inl e)
  then show ?thesis by (simp add: audit_main_def)
next
  case (Inr loc)
  let ?root = "\<lparr>p_root = ''/'', p_tail = loc\<rparr>"
  show ?thesis
  proof (cases "ls_files ?root")
    case (Inl e)
    with Inr show ?thesis by (simp add: audit_main_def audit_def)
  next
    case i: (Inr stdout)
    have "snd (audit_loop fs ?root (enumerate 1 (split_on (CHR 0x00) stdout))) = Inr False \<longleftrightarrow>
        list_all (clean_entry fs ?root) (filter (\<lambda>r. r \<noteq> []) (split_on (CHR 0x00) stdout))"
      by (simp only: audit_loop_clean map_snd_enumerate)
    with Inr i show ?thesis
      by (auto simp: audit_main_def audit_def result_simps rbind_def split: prod.splits sum.splits if_splits)
  qed
qed

end
