(* ===== verification/File_Digest.thy ===== *)
theory File_Digest
  imports File_System Sha256 Py_Json
begin

text \<open>
  What the scripts that pair, collect and restore sources share: the digest of a regular
  file that is reached through no symbolic link, lines \<open>digest  name\<close> and \<open>key=value\<close>, and
  directories of plain files. A file is hashed block by block in the code; the digest is that
  of the blocks together.
\<close>

definition hashed :: "fsys \<Rightarrow> ppath \<Rightarrow> string result" where
  "hashed fs p = rbind (read_bytes fs p) (\<lambda>bs. Inr (sha256_hex bs))"

text \<open>\<open>checksum\<close> of \<open>stage-candidate.py\<close>, and \<open>digest\<close> of \<open>collect-notices.py\<close> with its own message.\<close>

definition checked_digest :: "string \<Rightarrow> fsys \<Rightarrow> ppath \<Rightarrow> string result" where
  "checked_digest msg fs p =
     (if symlinked fs p \<or> \<not> is_file fs p then Inl (ValueError msg) else hashed fs p)"

text \<open>A plain file with these contents, no component of its path being a link.\<close>

definition holds :: "fsys \<Rightarrow> ppath \<Rightarrow> bytes \<Rightarrow> bool" where
  "holds fs p bs \<longleftrightarrow> \<not> symlinked fs p \<and> (\<exists>m. stat fs p = Inr (File m bs))"

lemma checked_digest_Inr: "checked_digest msg fs p = Inr d \<longleftrightarrow> (\<exists>bs. holds fs p bs \<and> d = sha256_hex bs)"
proof
  assume a: "checked_digest msg fs p = Inr d"
  then have "\<not> symlinked fs p" "is_file fs p" by (auto simp: checked_digest_def split: if_splits)
  moreover from this(2) obtain m bs where "stat fs p = Inr (File m bs)" by (rule is_fileE)
  ultimately show "\<exists>bs. holds fs p bs \<and> d = sha256_hex bs"
    using a by (auto simp: checked_digest_def hashed_def holds_def read_bytes_file result_simps)
qed (auto simp: checked_digest_def hashed_def holds_def is_file_def read_bytes_file)

lemma holds_unique: "holds fs p bs \<Longrightarrow> holds fs p bs' \<Longrightarrow> bs = bs'"
  by (auto simp: holds_def)

lemma holds_read: "holds fs p bs \<Longrightarrow> read_bytes fs p = Inr bs \<and> is_file fs p \<and> exists fs p"
  by (auto simp: holds_def read_bytes_file is_file_def exists_def)

text \<open>\<open>key, value = line.split('=', 1)\<close>, with a check for duplicates, over the lines of a file.\<close>

definition add_field :: "string \<Rightarrow> string dict \<Rightarrow> string \<Rightarrow> string dict result" where
  "add_field msg fds line =
     (case split_at ''='' line of
        None \<Rightarrow> Inl (ValueError ''not enough values to unpack'')
      | Some (key, val) \<Rightarrow>
          if key \<in> set (dict_keys fds) then Inl (ValueError msg)
          else Inr (dict_set key val fds))"

definition read_fields :: "string \<Rightarrow> fsys \<Rightarrow> ppath \<Rightarrow> string dict result" where
  "read_fields msg fs p =
     rbind (read_bytes fs p) (\<lambda>raw.
     rbind (read_text raw) (\<lambda>txt. for_each (add_field msg) [] (splitlines txt)))"

text \<open>\<open>f'{digest}  {name}\n'\<close>, and the directory test \<open>output.resolve().is_relative_to(root.resolve())\<close>.\<close>

definition sum_line :: "string \<Rightarrow> string \<Rightarrow> string" where
  "sum_line dig name = dig @ ''  '' @ name @ [CHR 0x0A]"

definition inside :: "fsys \<Rightarrow> ppath \<Rightarrow> ppath \<Rightarrow> bool result" where
  "inside fs output root =
     rbind (py_resolve fs output) (\<lambda>o'. rbind (py_resolve fs root) (\<lambda>r. Inr (is_relative_to o' r)))"

text \<open>\<open>any\<close> of a generator: evaluated left to right, up to the first \<open>True\<close> or exception.\<close>

fun any_result :: "('a \<Rightarrow> bool result) \<Rightarrow> 'a list \<Rightarrow> bool result" where
  "any_result p [] = Inr False"
| "any_result p (x # xs) = rbind (p x) (\<lambda>b. if b then Inr True else any_result p xs)"

lemma any_result_False: "any_result p xs = Inr False \<longleftrightarrow> list_all (\<lambda>x. p x = Inr False) xs"
  by (induction xs) (auto simp: result_simps rbind_def split: sum.splits)

text \<open>A test repeated over a list, raising at the first failure.\<close>

lemma for_each_unit: "for_each (\<lambda>_. f) () xs = Inr u \<longleftrightarrow> list_all (\<lambda>x. f x = Inr ()) xs"
  by (induction xs) (auto simp: result_simps)

end
