(* ===== verification/Archive.thy ===== *)
theory Archive
  imports File_Digest
begin

text \<open>
  The members of a tar or zip archive, as \<open>tarfile\<close> and \<open>zipfile\<close> present them to the
  scripts. The encodings themselves are not decoded here: a function that reads or writes an
  archive file is an argument of the definitions that call it.
\<close>

datatype member_kind =
    Regular
  | Directory
  | Symlink
  | Hardlink    \<comment> \<open>another name of an earlier member\<close>
  | Special     \<comment> \<open>devices and pipes\<close>
  | Unknown     \<comment> \<open>a type \<open>tarfile\<close> has no name for\<close>

record member =
  m_name :: string
  m_kind :: member_kind
  m_link :: string       \<comment> \<open>\<open>linkname\<close>\<close>
  m_mode :: int
  m_mtime :: int
  m_size :: int          \<comment> \<open>the size the header states\<close>
  m_data :: bytes

text \<open>\<open>TarInfo(name)\<close> with size, mode 0644 and a time, filled from a file or a buffer.\<close>

definition tar_info :: "string \<Rightarrow> int \<Rightarrow> bytes \<Rightarrow> member" where
  "tar_info name mtime dat =
     \<lparr>m_name = name, m_kind = Regular, m_link = [], m_mode = 420, m_mtime = mtime,
      m_size = int (length dat), m_data = dat\<rparr>"

text \<open>Writing and reading back give the same members; what the documentation of \<open>tarfile\<close> promises.\<close>

definition faithful_tar :: "(member list \<Rightarrow> bytes) \<Rightarrow> (bytes \<Rightarrow> member list result) \<Rightarrow> bool" where
  "faithful_tar tar untar \<longleftrightarrow> (\<forall>ms. untar (tar ms) = Inr ms)"

text \<open>\<open>sorted(directory.iterdir())\<close> as names, and one checksum line for each.\<close>

definition sorted_dir :: "fsys \<Rightarrow> ppath \<Rightarrow> (string list) result" where
  "sorted_dir fs p = rbind (iterdir fs p) (\<lambda>names. Inr (sort names))"

definition sum_lines :: "(fsys \<Rightarrow> ppath \<Rightarrow> string result) \<Rightarrow> fsys \<Rightarrow> ppath \<Rightarrow> string result" where
  "sum_lines digest fs dir =
     rbind (sorted_dir fs dir) (\<lambda>names.
     rbind (map_result (\<lambda>name. rbind (digest fs (child dir name)) (\<lambda>d. Inr (sum_line d name))) names) (\<lambda>ls.
     Inr (concat ls)))"

lemma map_result_Inr_list_all2:
  "map_result f xs = Inr ys \<longleftrightarrow> list_all2 (\<lambda>x y. f x = Inr y) xs ys"
  by (induction xs arbitrary: ys) (auto simp: result_simps list_all2_Cons1)

subsection \<open>The interface of a digest\<close>

text \<open>
  Four scripts have a \<open>digest\<close> of their own, which differ in what they accept. What their callers
  rely on is the same: the digest is that of the contents of a file that was accepted.
\<close>

locale file_digest =
  fixes digest :: "fsys \<Rightarrow> ppath \<Rightarrow> string result" and reads :: "fsys \<Rightarrow> ppath \<Rightarrow> bytes \<Rightarrow> bool"
  assumes digest_iff: "digest fs p = Inr d \<longleftrightarrow> (\<exists>bs. reads fs p bs \<and> d = sha256_hex bs)"
    and reads_contents: "reads fs p bs \<Longrightarrow> read_bytes fs p = Inr bs"
begin

lemma digest_reads: "reads fs p bs \<Longrightarrow> digest fs p = Inr (sha256_hex bs)"
  using digest_iff by blast

lemma digest_contents: "digest fs p = Inr d \<Longrightarrow> read_bytes fs p = Inr bs \<Longrightarrow> reads fs p bs \<and> d = sha256_hex bs"
  using digest_iff reads_contents by fastforce

lemma sum_lines_iff:
  "sum_lines digest fs dir = Inr txt \<longleftrightarrow>
     (\<exists>names blobs. sorted_dir fs dir = Inr names \<and> list_all2 (\<lambda>n bs. reads fs (child dir n) bs) names blobs \<and>
        txt = concat (map2 (\<lambda>n bs. sum_line (sha256_hex bs) n) names blobs))"
proof -
  have line: "rbind (digest fs p) (\<lambda>d. Inr (sum_line d n)) = Inr l \<longleftrightarrow> (\<exists>bs. reads fs p bs \<and> l = sum_line (sha256_hex bs) n)" for p n l
    by (auto simp: rbind_eq_Inr digest_iff)
  have lines: "list_all2 (\<lambda>n l. rbind (digest fs (child dir n)) (\<lambda>d. Inr (sum_line d n)) = Inr l) ns ls \<longleftrightarrow>
      (\<exists>blobs. list_all2 (\<lambda>n bs. reads fs (child dir n) bs) ns blobs \<and> ls = map2 (\<lambda>n bs. sum_line (sha256_hex bs) n) ns blobs)" for ns ls
    unfolding line
  proof (induction ns arbitrary: ls)
    case (Cons n ns)
    show ?case (is "_ \<longleftrightarrow> (\<exists>blobs. ?P blobs)")
    proof
      assume "\<exists>blobs. ?P blobs"
      then show "list_all2 (\<lambda>n l. \<exists>bs. reads fs (child dir n) bs \<and> l = sum_line (sha256_hex bs) n) (n # ns) ls"
        using Cons.IH by (auto simp: list_all2_Cons1)
    next
      assume "list_all2 (\<lambda>n l. \<exists>bs. reads fs (child dir n) bs \<and> l = sum_line (sha256_hex bs) n) (n # ns) ls"
      then obtain bs ls' blobs where "ls = sum_line (sha256_hex bs) n # ls'" "reads fs (child dir n) bs"
        "list_all2 (\<lambda>n bs. reads fs (child dir n) bs) ns blobs" "ls' = map2 (\<lambda>n bs. sum_line (sha256_hex bs) n) ns blobs"
        unfolding list_all2_Cons1 Cons.IH by blast
      then have "?P (bs # blobs)" by simp
      then show "\<exists>blobs. ?P blobs" ..
    qed
  qed simp
  show ?thesis unfolding sum_lines_def rbind_eq_Inr [of "sorted_dir _ _"] rbind_eq_Inr [of "map_result _ _"] map_result_Inr_list_all2 lines sum.inject
    by blast
qed

end

end
