(* ===== verification/Interference.thy ===== *)
theory Interference
  imports File_System
begin

text \<open>
  Programs that share their files with other processes. A program is a sequence of steps, each
  one call of the file system (a check, a read, a copy); before every step the other processes
  change the file system in any way they like: \<open>env n\<close> is what they do before the \<open>n\<close>th step.
  The world keeps, besides the file system, every state in which a step of the program found it,
  the latest first. The program does not use that record: the theorems speak of it, since what a
  program knows when it ends is what it saw, not what is still there.
\<close>

type_synonym others = "nat \<Rightarrow> fsys \<Rightarrow> fsys"

record world =
  now :: fsys
  seen :: "fsys list"

type_synonym 'a action = "world \<Rightarrow> ('a \<times> world) result"

definition arrive :: "others \<Rightarrow> world \<Rightarrow> fsys" where
  "arrive env w = env (length (seen w)) (now w)"

text \<open>A step that reads, and one that changes the file system.\<close>

definition look :: "others \<Rightarrow> (fsys \<Rightarrow> 'a result) \<Rightarrow> 'a action" where
  "look env f w =
     (let fs = arrive env w in rbind (f fs) (\<lambda>x. Inr (x, \<lparr>now = fs, seen = fs # seen w\<rparr>)))"

definition act :: "others \<Rightarrow> (fsys \<Rightarrow> fsys result) \<Rightarrow> unit action" where
  "act env f w =
     (let fs = arrive env w in rbind (f fs) (\<lambda>fs'. Inr ((), \<lparr>now = fs', seen = fs # seen w\<rparr>)))"

definition wlift :: "'a result \<Rightarrow> 'a action" where
  "wlift r w = rbind r (\<lambda>x. Inr (x, w))"

definition wbind :: "'a action \<Rightarrow> ('a \<Rightarrow> 'b action) \<Rightarrow> 'b action" where
  "wbind m f w = rbind (m w) (\<lambda>(x, w'). f x w')"

text \<open>Loops: one that updates local variables, and one that only acts.\<close>

fun wloop :: "('s \<Rightarrow> 'a \<Rightarrow> 's action) \<Rightarrow> 's \<Rightarrow> 'a list \<Rightarrow> 's action" where
  "wloop f s [] = wlift (Inr s)"
| "wloop f s (x # xs) = wbind (f s x) (\<lambda>s'. wloop f s' xs)"

definition each :: "('a \<Rightarrow> unit action) \<Rightarrow> 'a list \<Rightarrow> unit action" where
  "each f = wloop (\<lambda>_. f) ()"

lemma each_simps [simp]: "each f [] = wlift (Inr ())" "each f (x # xs) = wbind (f x) (\<lambda>_. each f xs)"
  by (simp_all add: each_def)

lemma wlift_Inr [result_simps]: "wlift r w = Inr (x, w') \<longleftrightarrow> r = Inr x \<and> w' = w"
  by (auto simp: wlift_def rbind_eq_Inr)

lemma wbind_Inr [result_simps]:
  "wbind m f w = Inr (y, w') \<longleftrightarrow> (\<exists>x v. m w = Inr (x, v) \<and> f x v = Inr (y, w'))"
  by (force simp: wbind_def rbind_eq_Inr)

subsection \<open>What was seen between two worlds\<close>

definition later :: "world \<Rightarrow> world \<Rightarrow> bool" where
  "later w w' \<longleftrightarrow> (\<exists>new. seen w' = new @ seen w)"

definition met :: "world \<Rightarrow> world \<Rightarrow> (fsys \<Rightarrow> bool) \<Rightarrow> bool" where
  "met w w' P \<longleftrightarrow> (\<exists>new. seen w' = new @ seen w \<and> list_ex P new)"

lemma later_refl [simp]: "later w w"
  by (simp add: later_def)

lemma later_trans [trans]: "later u v \<Longrightarrow> later v w \<Longrightarrow> later u w"
  by (auto simp: later_def)

lemma met_later: "met w w' P \<Longrightarrow> later w w'"
  by (auto simp: met_def later_def)

lemma met_widen: "met u v P \<Longrightarrow> later w u \<Longrightarrow> later v w' \<Longrightarrow> met w w' P"
  by (fastforce simp: met_def later_def)

lemma met_mono: "met w w' P \<Longrightarrow> (\<And>fs. P fs \<Longrightarrow> Q fs) \<Longrightarrow> met w w' Q"
  by (force simp: met_def list_ex_iff)

lemma look_met: "look env f w = Inr (x, w') \<Longrightarrow> met w w' (\<lambda>fs. f fs = Inr x)"
  by (auto simp: look_def Let_def rbind_eq_Inr met_def)

lemma act_met: "act env f w = Inr (u, w') \<Longrightarrow> met w w' (\<lambda>fs. f fs = Inr (now w'))"
  by (auto simp: act_def Let_def rbind_eq_Inr met_def)

text \<open>Every program only adds to what was seen.\<close>

definition steps :: "'a action \<Rightarrow> bool" where
  "steps m \<longleftrightarrow> (\<forall>w x w'. m w = Inr (x, w') \<longrightarrow> later w w')"

named_theorems steps_intros \<open>programs built from steps\<close>

lemma stepsD: "steps m \<Longrightarrow> m w = Inr (x, w') \<Longrightarrow> later w w'"
  by (simp add: steps_def)

lemma steps_look [steps_intros]: "steps (look env f)"
  by (auto simp: steps_def intro: met_later look_met)

lemma steps_act [steps_intros]: "steps (act env f)"
  by (auto simp: steps_def intro: met_later act_met)

lemma steps_lift [steps_intros]: "steps (wlift r)"
  by (simp add: steps_def result_simps)

lemma steps_bind [steps_intros]: "steps m \<Longrightarrow> (\<And>x. steps (f x)) \<Longrightarrow> steps (wbind m f)"
  unfolding steps_def wbind_Inr by (blast intro: later_trans)

lemma steps_loop [steps_intros]: "(\<And>s x. steps (f s x)) \<Longrightarrow> steps (wloop f s xs)"
  by (induction xs arbitrary: s) (auto intro!: steps_intros)

lemma steps_each [steps_intros]: "(\<And>x. steps (f x)) \<Longrightarrow> steps (each f xs)"
  unfolding each_def by (rule steps_loop)

lemma steps_if [steps_intros]: "steps m \<Longrightarrow> steps m' \<Longrightarrow> steps (if b then m else m')"
  by simp

lemma steps_prod [steps_intros]: "(\<And>a b. steps (f a b)) \<Longrightarrow> steps (case p of (a, b) \<Rightarrow> f a b)"
  by (cases p) simp

text \<open>The run of the body for one element of a loop that came to its end.\<close>

lemma each_body:
  "each f xs w = Inr (u, w') \<Longrightarrow> (\<And>x. steps (f x)) \<Longrightarrow> x \<in> set xs \<Longrightarrow>
     \<exists>v v'. later w v \<and> f x v = Inr ((), v') \<and> later v' w'"
proof (induction xs arbitrary: w)
  case (Cons y ys)
  from Cons.prems(1) obtain w1 where w1: "f y w = Inr ((), w1)" "each f ys w1 = Inr (u, w')" by (auto simp: result_simps)
  have ext: "later w w1" "later w1 w'"
    using stepsD [OF Cons.prems(2) w1(1)] stepsD [OF steps_each [OF Cons.prems(2)] w1(2)] by auto
  show ?case
  proof (cases "x = y")
    case True
    then show ?thesis using w1(1) ext(2) later_refl by blast
  next
    case False
    then obtain v v' where "later w1 v" "f x v = Inr ((), v')" "later v' w'"
      using Cons.IH [OF w1(2) Cons.prems(2)] Cons.prems(3) by auto
    then show ?thesis using later_trans [OF ext(1)] by blast
  qed
qed simp

text \<open>A loop of tests: each of them was passed in some state.\<close>

lemma each_met:
  assumes "each f xs w = Inr (u, w')" "\<And>x. steps (f x)" "\<And>x v v'. f x v = Inr ((), v') \<Longrightarrow> met v v' (P x)"
  shows "list_all (\<lambda>x. met w w' (P x)) xs"
  using each_body [OF assms(1,2)] assms(3) by (force simp: list_all_iff intro: met_widen)

subsection \<open>Without interference\<close>

definition quiet :: others where "quiet _ fs = fs"

definition runs :: "'a action \<Rightarrow> fsys \<Rightarrow> 'a \<Rightarrow> fsys \<Rightarrow> bool" where
  "runs m fs x fs' \<longleftrightarrow> (\<forall>s. \<exists>s'. m \<lparr>now = fs, seen = s\<rparr> = Inr (x, \<lparr>now = fs', seen = s'\<rparr>))"

lemma runs_look: "f fs = Inr x \<Longrightarrow> runs (look quiet f) fs x fs"
  by (simp add: runs_def look_def arrive_def quiet_def)

lemma runs_act: "f fs = Inr fs' \<Longrightarrow> runs (act quiet f) fs () fs'"
  by (simp add: runs_def act_def arrive_def quiet_def)

lemma runs_lift: "r = Inr x \<Longrightarrow> runs (wlift r) fs x fs"
  by (simp add: runs_def wlift_def)

lemma runs_bind: "runs m fs x fs1 \<Longrightarrow> runs (f x) fs1 y fs2 \<Longrightarrow> runs (wbind m f) fs y fs2"
  unfolding runs_def wbind_Inr by blast

lemma runs_loop:
  "for_each g s xs = Inr t \<Longrightarrow> (\<And>s x s'. x \<in> set xs \<Longrightarrow> g s x = Inr s' \<Longrightarrow> runs (f s x) fs s' fs) \<Longrightarrow>
     runs (wloop f s xs) fs t fs"
proof (induction xs arbitrary: s)
  case (Cons x xs)
  from Cons.prems(1) obtain s' where s': "g s x = Inr s'" "for_each g s' xs = Inr t" by (auto simp: rbind_eq_Inr)
  have "runs (wloop f s' xs) fs t fs" using s'(2) Cons.prems(2) by (rule Cons.IH) simp_all
  then show ?case using runs_bind [OF Cons.prems(2) [of x, OF _ s'(1)]] by simp
qed (simp add: runs_lift)

lemma runs_tests: "(\<And>x. x \<in> set xs \<Longrightarrow> runs (f x) fs () fs) \<Longrightarrow> runs (each f xs) fs () fs"
  by (induction xs) (auto intro: runs_lift runs_bind)

lemma runs_changes:
  "for_each f fs xs = Inr fs' \<Longrightarrow> runs (each (\<lambda>x. act quiet (\<lambda>fs. f fs x)) xs) fs () fs'"
proof (induction xs arbitrary: fs)
  case (Cons x xs)
  from Cons.prems obtain fs1 where "f fs x = Inr fs1" "for_each f fs1 xs = Inr fs'" by (auto simp: rbind_eq_Inr)
  then have "runs (act quiet (\<lambda>fs. f fs x)) fs () fs1" "runs (each (\<lambda>x. act quiet (\<lambda>fs. f fs x)) xs) fs1 () fs'"
    using Cons.IH by (auto intro: runs_act)
  then show ?case by (simp add: runs_bind)
qed (simp add: runs_lift)

end
