(* ===== verification/Stage.thy ===== *)
theory Stage
  imports Archive Interference
begin

text \<open>
  \<open>scripts/stage-candidate.py\<close>: firmware and its collected sources are verified against each
  other and copied side by side. The script checks its inputs, copies them, checks the copies and
  lists them, since other processes may change any of these files meanwhile: it is a program of
  the theory \<open>Interference\<close>, and every check, every read, every copy and every write is a step
  of its own, before which the others do what they like. The lemmas show what an output directory
  stands for all the same: what was listed was verified, and is what was verified in the inputs.
\<close>

definition checksum :: "fsys \<Rightarrow> ppath \<Rightarrow> string result" where
  "checksum = checked_digest ''non-regular or symlinked input''"

subsection \<open>The source inventory\<close>

text \<open>\<open>([0-9a-f]{64})  ([A-Za-z0-9][A-Za-z0-9._-]*)\<close>; the first group is 64 characters long.\<close>

definition file_name :: regex where
  "file_name = Seq (Cls alnum_ranges)
     (star (Cls (alnum_ranges @ [(CHR ''.'', CHR ''.''), (CHR ''_'', CHR ''_''), (CHR ''-'', CHR ''-'')])))"

definition source_line :: regex where
  "source_line = seqs [SHA256, lit ''  '', file_name]"

definition add_source :: "string dict \<Rightarrow> string \<Rightarrow> string dict result" where
  "add_source entries line =
     (let name = drop 66 line in
      if \<not> fullmatch source_line line \<or> name \<in> set (dict_keys entries) \<or> name = ''SHA256SUMS''
      then Inl (ValueError ''invalid source inventory'')
      else Inr (dict_set name (take 64 line) entries))"

definition read_sources :: "fsys \<Rightarrow> ppath \<Rightarrow> string dict result" where
  "read_sources fs p =
     rbind (read_bytes fs p) (\<lambda>raw.
     rbind (read_text raw) (\<lambda>txt. for_each add_source [] (splitlines txt)))"

definition required_sources :: "string list" where
  "required_sources =
     [''project.tar'', ''openwrt-upstream.tar'', ''downloads.tar'', ''build.manifest'', ''packages.manifest'',
      ''source-review.json'', ''openwrt.config'', ''linux.config'', ''PROJECT-LICENSE.txt'']
     @ map (\<lambda>name. ''feed-'' @ name @ ''.tar'') [''packages'', ''luci'', ''routing'', ''telephony'', ''video'']"

text \<open>A checksum, compared with what it should be.\<close>

definition expect :: "others \<Rightarrow> ppath \<Rightarrow> (string \<Rightarrow> unit result) \<Rightarrow> unit action" where
  "expect env p compare = wbind (look env (\<lambda>fs. checksum fs p)) (\<lambda>d. wlift (compare d))"

definition verify_sources :: "others \<Rightarrow> string \<Rightarrow> ppath \<Rightarrow> string dict \<Rightarrow> unit action" where
  "verify_sources env msg dir =
     each (\<lambda>(name, expected). expect env (child dir name) (\<lambda>d. raise_if (d \<noteq> expected) (ValueError msg)))"

subsection \<open>The products\<close>

definition products :: "string list" where
  "products = [''uImage.buffalo'', ''initrd.buffalo'', ''packages.manifest'']"

definition product_field :: "string \<Rightarrow> string" where
  "product_field name = ''ARTIFACT_SHA256['' @ name @ '']''"

definition verify_products :: "others \<Rightarrow> string \<Rightarrow> ppath \<Rightarrow> string dict \<Rightarrow> unit action" where
  "verify_products env msg dir fds =
     each (\<lambda>name. expect env (child dir name) (\<lambda>d.
       raise_if (map_of fds (product_field name) \<noteq> Some d) (ValueError msg))) products"

definition same_digest :: "others \<Rightarrow> string \<Rightarrow> ppath \<Rightarrow> string dict \<Rightarrow> string \<Rightarrow> unit action" where
  "same_digest env msg dir entries name =
     expect env (child dir name) (\<lambda>d. rbind (dict_get entries name) (\<lambda>e. raise_if (d \<noteq> e) (ValueError msg)))"

subsection \<open>Copying\<close>

text \<open>
  \<open>shutil.copytree\<close>: the new directory, each entry (links are followed: a directory is copied
  with what is in it, a file with its permissions), then the permissions of the directory. Python
  gives up after a thousand nested calls, two for each directory. It is one step: whatever other
  processes do while it runs is covered by what they may do before and after it.
\<close>

definition copy2 :: "ppath \<Rightarrow> ppath \<Rightarrow> fsys \<Rightarrow> string \<Rightarrow> fsys result" where
  "copy2 src dst fs name =
     rbind (copyfile fs (child src name) (child dst name)) (\<lambda>fs.
     rbind (stat fs (child src name)) (\<lambda>st. chmod fs (child dst name) (st_perm st)))"

definition COPY_DEPTH :: nat where "COPY_DEPTH = 500"

fun copytree :: "nat \<Rightarrow> fsys \<Rightarrow> ppath \<Rightarrow> ppath \<Rightarrow> fsys result" where
  "copytree 0 fs src dst = Inl (RuntimeError ''maximum recursion depth exceeded'')"
| "copytree (Suc k) fs src dst =
     rbind (iterdir fs src) (\<lambda>names.
     rbind (mkdir_parents False fs dst) (\<lambda>fs.
     rbind (for_each (\<lambda>fs name.
         if is_dir fs (child src name) then copytree k fs (child src name) (child dst name)
         else copy2 src dst fs name) fs names) (\<lambda>fs.
     rbind (stat fs src) (\<lambda>st. chmod fs dst (st_perm st)))))"

declare copytree.simps [simp del]

definition copy_file :: "ppath \<Rightarrow> ppath \<Rightarrow> fsys \<Rightarrow> string \<Rightarrow> fsys result" where
  "copy_file src dst fs name = copyfile fs (child src name) (child dst name)"

text \<open>\<open>sorted(output.rglob('*'))\<close>, the regular files of it, one line each.\<close>

definition below_path :: "ppath \<Rightarrow> string list \<Rightarrow> ppath" where
  "below_path output rel = output\<lparr>p_tail := p_tail output @ rel\<rparr>"

definition digest_line :: "others \<Rightarrow> ppath \<Rightarrow> string \<Rightarrow> string list \<Rightarrow> string action" where
  "digest_line env output acc rel =
     wbind (look env (\<lambda>fs. Inr (is_file fs (below_path output rel)))) (\<lambda>regular.
     if regular then
       wbind (look env (\<lambda>fs. checksum fs (below_path output rel))) (\<lambda>d.
       wlift (Inr (acc @ sum_line d (join ''/'' rel))))
     else wlift (Inr acc))"

definition digest_tree :: "others \<Rightarrow> ppath \<Rightarrow> string action" where
  "digest_tree env output =
     wbind (look env (\<lambda>fs. rglob fs output)) (\<lambda>found. wloop (digest_line env output) [] (sort found))"

subsection \<open>\<open>stage\<close>\<close>

text \<open>The checks on the output and the inputs, giving the inventory and the fields of the build manifest.\<close>

definition outside :: "others \<Rightarrow> ppath \<Rightarrow> ppath \<Rightarrow> unit action" where
  "outside env output root =
     wbind (look env (\<lambda>fs. py_resolve fs output)) (\<lambda>loc.
     wbind (look env (\<lambda>fs. py_resolve fs root)) (\<lambda>r.
     wlift (raise_if (is_relative_to loc r) (ValueError ''output must be outside inputs''))))"

definition check_output :: "others \<Rightarrow> string \<Rightarrow> ppath \<Rightarrow> ppath list \<Rightarrow> unit action" where
  "check_output env msg output roots =
     wbind (look env (\<lambda>fs. raise_if (exists fs output) (ValueError msg))) (\<lambda>_.
     wbind (look env (\<lambda>fs. raise_if (symlinked fs output) (ValueError msg))) (\<lambda>_.
     each (outside env output) roots))"

definition check_sources :: "others \<Rightarrow> ppath \<Rightarrow> string dict action" where
  "check_sources env sources =
     wbind (look env (\<lambda>fs. checksum fs (child sources ''SHA256SUMS''))) (\<lambda>_.
     wbind (look env (\<lambda>fs. read_sources fs (child sources ''SHA256SUMS''))) (\<lambda>entries.
     wbind (wlift (raise_if (\<not> set required_sources \<subseteq> set (dict_keys entries)) (ValueError ''incomplete source inventory''))) (\<lambda>_.
     wbind (look env (\<lambda>fs. iterdir fs sources)) (\<lambda>names.
     wbind (wlift (raise_if (set names \<noteq> insert ''SHA256SUMS'' (set (dict_keys entries))) (ValueError ''unlisted source input''))) (\<lambda>_.
     wbind (verify_sources env ''source checksum mismatch'' sources entries) (\<lambda>_.
     wlift (Inr entries)))))))"

definition check_artifacts :: "others \<Rightarrow> ppath \<Rightarrow> string dict \<Rightarrow> string dict action" where
  "check_artifacts env artifacts entries =
     wbind (same_digest env ''sources belong to a different build'' artifacts entries ''build.manifest'') (\<lambda>_.
     wbind (look env (\<lambda>fs. read_fields ''duplicate manifest field'' fs (child artifacts ''build.manifest''))) (\<lambda>fds.
     wbind (verify_products env ''product checksum mismatch'' artifacts fds) (\<lambda>_.
     wbind (same_digest env ''package inventory mismatch'' artifacts entries ''packages.manifest'') (\<lambda>_.
     wlift (Inr fds)))))"

definition copy_pair :: "others \<Rightarrow> ppath \<Rightarrow> ppath \<Rightarrow> ppath \<Rightarrow> unit action" where
  "copy_pair env artifacts sources output =
     wbind (act env (\<lambda>fs. mkdir_parents False fs output)) (\<lambda>_.
     wbind (act env (\<lambda>fs. copytree COPY_DEPTH fs sources (child output ''sources''))) (\<lambda>_.
     each (\<lambda>name. act env (\<lambda>fs. copy_file artifacts output fs name)) (products @ [''build.manifest''])))"

definition check_copies :: "others \<Rightarrow> ppath \<Rightarrow> string dict \<Rightarrow> string dict \<Rightarrow> unit action" where
  "check_copies env output entries fds =
     wbind (verify_sources env ''source changed during staging'' (child output ''sources'') entries) (\<lambda>_.
     wbind (verify_products env ''product changed during staging'' output fds) (\<lambda>_.
     same_digest env ''manifest changed during staging'' output entries ''build.manifest''))"

definition stage :: "others \<Rightarrow> ppath \<Rightarrow> ppath \<Rightarrow> ppath \<Rightarrow> unit action" where
  "stage env artifacts sources output =
     wbind (check_output env ''output already exists or is symlinked'' output [artifacts, sources]) (\<lambda>_.
     wbind (check_sources env sources) (\<lambda>entries.
     wbind (check_artifacts env artifacts entries) (\<lambda>fds.
     wbind (copy_pair env artifacts sources output) (\<lambda>_.
     wbind (check_copies env output entries fds) (\<lambda>_.
     wbind (digest_tree env output) (\<lambda>listing.
     act env (\<lambda>fs. write_bytes fs (child output ''SHA256SUMS'') listing)))))))"

subsection \<open>What the checks establish\<close>

text \<open>A plain file with this digest.\<close>

definition has_digest :: "fsys \<Rightarrow> ppath \<Rightarrow> string \<Rightarrow> bool" where
  "has_digest fs p d \<longleftrightarrow> (\<exists>bs. holds fs p bs \<and> d = sha256_hex bs)"

lemma checksum_Inr [result_simps]: "checksum fs p = Inr d \<longleftrightarrow> has_digest fs p d"
  by (simp add: checksum_def has_digest_def checked_digest_Inr)

interpretation staged: file_digest checksum holds
  by unfold_locales (auto simp: checksum_Inr has_digest_def holds_read)

lemma has_digest_unique: "has_digest fs p d \<Longrightarrow> has_digest fs p d' \<Longrightarrow> d = d'"
  by (auto simp: has_digest_def dest: holds_unique)

text \<open>A file was found with this digest, in a state between two worlds.\<close>

definition had_digest :: "world \<Rightarrow> world \<Rightarrow> ppath \<Rightarrow> string \<Rightarrow> bool" where
  "had_digest w w' p d \<longleftrightarrow> met w w' (\<lambda>fs. has_digest fs p d)"

lemma had_digest_widen: "had_digest u v p d \<Longrightarrow> later w u \<Longrightarrow> later v w' \<Longrightarrow> had_digest w w' p d"
  unfolding had_digest_def by (rule met_widen)

lemma look_digest: "look env (\<lambda>fs. checksum fs p) w = Inr (d, w') \<Longrightarrow> had_digest w w' p d"
  unfolding had_digest_def checksum_Inr [symmetric] by (rule look_met)

lemma expect_met: "expect env p compare w = Inr (u, w') \<Longrightarrow> \<exists>d. compare d = Inr () \<and> had_digest w w' p d"
  by (auto simp: expect_def result_simps dest: look_digest)

lemma steps_expect [steps_intros]: "steps (expect env p compare)"
  unfolding expect_def by (intro steps_intros)

lemma verify_sources_met:
  "verify_sources env msg dir entries w = Inr (u, w') \<Longrightarrow> list_all (\<lambda>(name, d). had_digest w w' (child dir name) d) entries"
proof -
  assume "verify_sources env msg dir entries w = Inr (u, w')"
  then have "list_all (\<lambda>e. met w w' (\<lambda>fs. has_digest fs (child dir (fst e)) (snd e))) entries"
    unfolding verify_sources_def
  proof (rule each_met)
    fix e and v v' :: world
    assume "(case e of (name, expected) \<Rightarrow> expect env (child dir name) (\<lambda>d. raise_if (d \<noteq> expected) (ValueError msg))) v = Inr ((), v')"
    then show "met v v' (\<lambda>fs. has_digest fs (child dir (fst e)) (snd e))"
      by (auto simp: raise_if_eq_Inr had_digest_def dest!: expect_met split: prod.splits)
  qed (intro steps_intros)
  then show ?thesis by (simp add: had_digest_def case_prod_unfold)
qed

lemma verify_products_met:
  "verify_products env msg dir fds w = Inr (u, w') \<Longrightarrow>
     list_all (\<lambda>name. \<exists>d. map_of fds (product_field name) = Some d \<and> had_digest w w' (child dir name) d) products"
proof -
  assume "verify_products env msg dir fds w = Inr (u, w')"
  then have "list_all (\<lambda>name. met w w' (\<lambda>fs. \<exists>d. map_of fds (product_field name) = Some d \<and> has_digest fs (child dir name) d)) products"
    unfolding verify_products_def
  proof (rule each_met)
    fix name and v v' :: world
    assume "expect env (child dir name) (\<lambda>d. raise_if (map_of fds (product_field name) \<noteq> Some d) (ValueError msg)) v = Inr ((), v')"
    then show "met v v' (\<lambda>fs. \<exists>d. map_of fds (product_field name) = Some d \<and> has_digest fs (child dir name) d)"
      by (auto simp: raise_if_eq_Inr had_digest_def dest!: expect_met elim: met_mono)
  qed (intro steps_intros)
  then show ?thesis by (force simp: list_all_iff had_digest_def met_def list_ex_iff)
qed

lemma same_digest_met:
  "same_digest env msg dir entries name w = Inr (u, w') \<Longrightarrow> \<exists>d. map_of entries name = Some d \<and> had_digest w w' (child dir name) d"
  unfolding same_digest_def by (drule expect_met) (auto simp: result_simps)

lemma stage_steps [steps_intros]:
  "steps (verify_sources env msg dir entries)" "steps (verify_products env msg dir fds)"
  "steps (same_digest env msg dir entries name)" "steps (outside env output root)"
  unfolding verify_sources_def verify_products_def same_digest_def outside_def by (intro steps_intros)+

lemma part_steps [steps_intros]:
  "steps (check_sources env sources)" "steps (check_artifacts env artifacts entries)"
  "steps (copy_pair env artifacts sources output)" "steps (check_copies env output entries fds)"
  "steps (digest_line env output acc rel)" "steps (digest_tree env output)" "steps (check_output env msg output roots)"
  unfolding check_sources_def check_artifacts_def copy_pair_def check_copies_def digest_line_def digest_tree_def
    check_output_def
  by (intro steps_intros)+

lemma steps_stage [steps_intros]: "steps (stage env artifacts sources output)"
  unfolding stage_def by (intro steps_intros)

text \<open>The names of an inventory: distinct, plain components, and not the inventory itself.\<close>

definition inventory :: "string dict \<Rightarrow> bool" where
  "inventory entries \<longleftrightarrow> distinct (dict_keys entries) \<and>
     list_all (\<lambda>name. fullmatch file_name name \<and> name \<noteq> ''SHA256SUMS'') (dict_keys entries) \<and>
     list_all (fullmatch SHA256) (map snd entries)"

lemma source_line_parts:
  assumes "fullmatch source_line line"
  shows "fullmatch SHA256 (take 64 line) \<and> fullmatch file_name (drop 66 line)"
proof -
  from assms have "line \<in> conc (lang SHA256) (conc (lang (lit ''  '')) (lang file_name))"
    by (simp add: source_line_def fullmatch_iff_lang del: lit.simps)
  then obtain d v where d: "line = d @ v" "d \<in> lang SHA256" "v \<in> conc (lang (lit ''  '')) (lang file_name)"
    by (rule concE)
  from d(3) obtain name where v: "v = ''  '' @ name" "name \<in> lang file_name"
    unfolding lang_lit conc_singleton by blast
  have "length d = 64" using d(2) by (simp add: SHA256_def hex_digit_def lang_times_Cls)
  with d v show ?thesis by (simp add: fullmatch_iff_lang)
qed

lemma add_source_inventory:
  "add_source entries line = Inr entries' \<Longrightarrow> inventory entries \<Longrightarrow> inventory entries'"
  by (auto simp: add_source_def inventory_def Let_def dict_set_new distinct_dict_set dict_keys_def
      dest!: source_line_parts split: if_splits)

lemma read_sources_inventory: "read_sources fs p = Inr entries \<Longrightarrow> inventory entries"
proof -
  assume "read_sources fs p = Inr entries"
  then obtain ls where "for_each add_source [] ls = Inr entries" by (auto simp: read_sources_def result_simps)
  then show ?thesis
    by (rule for_each_invariant) (simp add: inventory_def dict_keys_def, rule add_source_inventory)
qed

text \<open>
  Between two worlds the source directory was found complete: the inventory was read, every
  required source is in it, the directory had these entries and no other, and each of them was
  found with the digest of the inventory.
\<close>

definition sources_verified :: "world \<Rightarrow> world \<Rightarrow> ppath \<Rightarrow> string dict \<Rightarrow> bool" where
  "sources_verified w w' sources entries \<longleftrightarrow>
     met w w' (\<lambda>fs. \<exists>d. has_digest fs (child sources ''SHA256SUMS'') d) \<and>
     met w w' (\<lambda>fs. read_sources fs (child sources ''SHA256SUMS'') = Inr entries) \<and> inventory entries \<and>
     set required_sources \<subseteq> set (dict_keys entries) \<and>
     met w w' (\<lambda>fs. \<exists>names. iterdir fs sources = Inr names \<and> set names = insert ''SHA256SUMS'' (set (dict_keys entries))) \<and>
     list_all (\<lambda>(name, d). had_digest w w' (child sources name) d) entries"

lemma had_digests_widen:
  "list_all (\<lambda>(name, d). had_digest u v (child dir name) d) entries \<Longrightarrow> later w u \<Longrightarrow> later v w' \<Longrightarrow>
     list_all (\<lambda>(name, d). had_digest w w' (child dir name) d) entries"
  by (auto simp: list_all_iff intro: had_digest_widen)

lemma sources_verified_widen:
  "sources_verified u v sources entries \<Longrightarrow> later w u \<Longrightarrow> later v w' \<Longrightarrow> sources_verified w w' sources entries"
  unfolding sources_verified_def
  by (elim conjE, intro conjI) (assumption | erule (2) met_widen | erule (2) had_digests_widen)+

lemma check_sources_met: "check_sources env sources w = Inr (entries, w') \<Longrightarrow> sources_verified w w' sources entries"
proof -
  assume "check_sources env sources w = Inr (entries, w')"
  then obtain d w1 w2 names w3 where w: "look env (\<lambda>fs. checksum fs (child sources ''SHA256SUMS'')) w = Inr (d, w1)"
    "look env (\<lambda>fs. read_sources fs (child sources ''SHA256SUMS'')) w1 = Inr (entries, w2)"
    "look env (\<lambda>fs. iterdir fs sources) w2 = Inr (names, w3)"
    "verify_sources env ''source checksum mismatch'' sources entries w3 = Inr ((), w')"
    "set required_sources \<subseteq> set (dict_keys entries)" "set names = insert ''SHA256SUMS'' (set (dict_keys entries))"
    by (auto simp: check_sources_def wbind_Inr wlift_Inr raise_if_eq_Inr)
  have m: "had_digest w w1 (child sources ''SHA256SUMS'') d"
    "met w1 w2 (\<lambda>fs. read_sources fs (child sources ''SHA256SUMS'') = Inr entries)"
    "met w2 w3 (\<lambda>fs. iterdir fs sources = Inr names)" by (rule look_digest [OF w(1)], rule look_met [OF w(2)], rule look_met [OF w(3)])
  note l = m(1) [unfolded had_digest_def, THEN met_later] m(2,3) [THEN met_later] stepsD [OF stage_steps(1) w(4)]
  have "inventory entries" using m(2) read_sources_inventory by (auto simp: met_def list_ex_iff)
  moreover have "met w w' (\<lambda>fs. \<exists>d. has_digest fs (child sources ''SHA256SUMS'') d)"
    using met_widen [OF m(1) [unfolded had_digest_def] later_refl later_trans [OF l(2) later_trans [OF l(3,4)]]]
    by (rule met_mono) blast
  moreover have "met w w' (\<lambda>fs. read_sources fs (child sources ''SHA256SUMS'') = Inr entries)"
    using met_widen [OF m(2) l(1) later_trans [OF l(3,4)]] .
  moreover have "met w w' (\<lambda>fs. \<exists>names. iterdir fs sources = Inr names \<and> set names = insert ''SHA256SUMS'' (set (dict_keys entries)))"
    using met_widen [OF m(3) later_trans [OF l(1,2)] l(4)] by (rule met_mono) (use w(6) in blast)
  moreover have "list_all (\<lambda>(name, d). had_digest w w' (child sources name) d) entries"
    using had_digests_widen [OF verify_sources_met [OF w(4)] later_trans [OF l(1) later_trans [OF l(2,3)]] later_refl] .
  ultimately show ?thesis using w(5) by (simp add: sources_verified_def)
qed

text \<open>The products were found to belong to these sources.\<close>

definition products_found :: "world \<Rightarrow> world \<Rightarrow> ppath \<Rightarrow> string dict \<Rightarrow> bool" where
  "products_found w w' dir fds \<longleftrightarrow>
     list_all (\<lambda>name. \<exists>d. map_of fds (product_field name) = Some d \<and> had_digest w w' (child dir name) d) products"

definition build_verified :: "world \<Rightarrow> world \<Rightarrow> ppath \<Rightarrow> string dict \<Rightarrow> string dict \<Rightarrow> bool" where
  "build_verified w w' artifacts entries fds \<longleftrightarrow>
     met w w' (\<lambda>fs. read_fields ''duplicate manifest field'' fs (child artifacts ''build.manifest'') = Inr fds) \<and>
     (\<exists>d. map_of entries ''build.manifest'' = Some d \<and> had_digest w w' (child artifacts ''build.manifest'') d) \<and>
     (\<exists>d. map_of entries ''packages.manifest'' = Some d \<and> had_digest w w' (child artifacts ''packages.manifest'') d) \<and>
     products_found w w' artifacts fds"

lemma products_found_widen:
  "products_found u v dir fds \<Longrightarrow> later w u \<Longrightarrow> later v w' \<Longrightarrow> products_found w w' dir fds"
  unfolding products_found_def list_all_iff by (blast intro: had_digest_widen)

lemma build_verified_widen:
  "build_verified u v artifacts entries fds \<Longrightarrow> later w u \<Longrightarrow> later v w' \<Longrightarrow> build_verified w w' artifacts entries fds"
  unfolding build_verified_def
  by (elim conjE exE, intro conjI exI) (assumption | erule (2) met_widen | erule (2) had_digest_widen | erule (2) products_found_widen)+

lemma check_artifacts_met:
  "check_artifacts env artifacts entries w = Inr (fds, w') \<Longrightarrow> build_verified w w' artifacts entries fds"
proof -
  assume "check_artifacts env artifacts entries w = Inr (fds, w')"
  then obtain w1 w2 w3 where w: "same_digest env ''sources belong to a different build'' artifacts entries ''build.manifest'' w = Inr ((), w1)"
    "look env (\<lambda>fs. read_fields ''duplicate manifest field'' fs (child artifacts ''build.manifest'')) w1 = Inr (fds, w2)"
    "verify_products env ''product checksum mismatch'' artifacts fds w2 = Inr ((), w3)"
    "same_digest env ''package inventory mismatch'' artifacts entries ''packages.manifest'' w3 = Inr ((), w')"
    unfolding check_artifacts_def wbind_Inr wlift_Inr by auto
  note l = stepsD [OF stage_steps(3) w(1)] stepsD [OF steps_look w(2)] stepsD [OF stage_steps(2) w(3)] stepsD [OF stage_steps(3) w(4)]
  note lt = later_trans [OF l(1,2)] later_trans [OF l(2,3)] later_trans [OF l(3,4)]
  from same_digest_met [OF w(1)] obtain b where b: "map_of entries ''build.manifest'' = Some b"
    "had_digest w w1 (child artifacts ''build.manifest'') b" by blast
  from same_digest_met [OF w(4)] obtain p where p: "map_of entries ''packages.manifest'' = Some p"
    "had_digest w3 w' (child artifacts ''packages.manifest'') p" by blast
  have "products_found w w' artifacts fds"
    using products_found_widen [OF verify_products_met [OF w(3), folded products_found_def] lt(1) l(4)] .
  then show ?thesis
    unfolding build_verified_def
    using met_widen [OF look_met [OF w(2)] l(1) lt(3)] b(1) had_digest_widen [OF b(2) later_refl later_trans [OF lt(2) l(4)]]
      p(1) had_digest_widen [OF p(2) later_trans [OF lt(1) l(3)] later_refl] by blast
qed

text \<open>The copies were found with the same digests.\<close>

definition pair_verified :: "world \<Rightarrow> world \<Rightarrow> ppath \<Rightarrow> string dict \<Rightarrow> string dict \<Rightarrow> bool" where
  "pair_verified w w' output entries fds \<longleftrightarrow>
     list_all (\<lambda>(name, d). had_digest w w' (child (child output ''sources'') name) d) entries \<and>
     products_found w w' output fds \<and>
     (\<exists>d. map_of entries ''build.manifest'' = Some d \<and> had_digest w w' (child output ''build.manifest'') d)"

lemma check_copies_met: "check_copies env output entries fds w = Inr (u, w') \<Longrightarrow> pair_verified w w' output entries fds"
proof -
  assume "check_copies env output entries fds w = Inr (u, w')"
  then obtain w1 w2 where w: "verify_sources env ''source changed during staging'' (child output ''sources'') entries w = Inr ((), w1)"
    "verify_products env ''product changed during staging'' output fds w1 = Inr ((), w2)"
    "same_digest env ''manifest changed during staging'' output entries ''build.manifest'' w2 = Inr ((), w')"
    unfolding check_copies_def wbind_Inr by auto
  note l = stepsD [OF stage_steps(1) w(1)] stepsD [OF stage_steps(2) w(2)] stepsD [OF stage_steps(3) w(3)]
  from same_digest_met [OF w(3)] obtain b where b: "map_of entries ''build.manifest'' = Some b"
    "had_digest w2 w' (child output ''build.manifest'') b" by blast
  show ?thesis
    unfolding pair_verified_def
    using had_digests_widen [OF verify_sources_met [OF w(1)] later_refl later_trans [OF l(2,3)]]
      products_found_widen [OF verify_products_met [OF w(2), folded products_found_def] l(1,3)]
      b(1) had_digest_widen [OF b(2) later_trans [OF l(1,2)] later_refl] by blast
qed

text \<open>Copying ends with the copy of the build manifest.\<close>

lemma each_append: "each f (xs @ ys) = wbind (each f xs) (\<lambda>_. each f ys)"
proof (induction xs)
  case Nil
  show ?case by (rule ext) (simp add: wbind_def wlift_def)
next
  case (Cons x xs)
  show ?case by (rule ext) (simp add: Cons wbind_def rbind_def split: sum.splits prod.splits)
qed

lemma copy_pair_met:
  assumes "copy_pair env artifacts sources output w = Inr (u, w')"
  shows "met w w' (\<lambda>fs. \<exists>fs'. mkdir_parents False fs output = Inr fs')"
    "met w w' (\<lambda>fs. \<exists>fs'. copytree COPY_DEPTH fs sources (child output ''sources'') = Inr fs')"
    "met w w' (\<lambda>fs. copyfile fs (child artifacts ''build.manifest'') (child output ''build.manifest'') = Inr (now w'))"
proof -
  let ?copy = "\<lambda>name. act env (\<lambda>fs. copy_file artifacts output fs name)"
  from assms obtain w1 w2 w3 where w: "act env (\<lambda>fs. mkdir_parents False fs output) w = Inr ((), w1)"
    "act env (\<lambda>fs. copytree COPY_DEPTH fs sources (child output ''sources'')) w1 = Inr ((), w2)"
    "each ?copy products w2 = Inr ((), w3)" "?copy ''build.manifest'' w3 = Inr ((), w')"
    unfolding copy_pair_def each_append wbind_Inr by (auto simp: result_simps)
  have m: "met w w1 (\<lambda>fs. mkdir_parents False fs output = Inr (now w1))"
    "met w1 w2 (\<lambda>fs. copytree COPY_DEPTH fs sources (child output ''sources'') = Inr (now w2))"
    "met w3 w' (\<lambda>fs. copy_file artifacts output fs ''build.manifest'' = Inr (now w'))"
    using act_met [OF w(1)] act_met [OF w(2)] act_met [OF w(4)] by simp_all
  have l: "later w2 w3" by (rule stepsD [OF steps_each w(3)]) (rule steps_act)
  note m' = m [THEN met_later]
  show "met w w' (\<lambda>fs. \<exists>fs'. mkdir_parents False fs output = Inr fs')"
    using met_widen [OF m(1) later_refl later_trans [OF m'(2) later_trans [OF l m'(3)]]] by (rule met_mono) blast
  show "met w w' (\<lambda>fs. \<exists>fs'. copytree COPY_DEPTH fs sources (child output ''sources'') = Inr fs')"
    using met_widen [OF m(2) m'(1) later_trans [OF l m'(3)]] by (rule met_mono) blast
  show "met w w' (\<lambda>fs. copyfile fs (child artifacts ''build.manifest'') (child output ''build.manifest'') = Inr (now w'))"
    using met_widen [OF m(3) later_trans [OF m'(1) later_trans [OF m'(2) l]] later_refl] by (simp add: copy_file_def)
qed

text \<open>The inventory: a line for every name below the directory that was a regular file when it was its turn.\<close>

definition line_of :: "world \<Rightarrow> world \<Rightarrow> ppath \<Rightarrow> string list \<Rightarrow> string \<Rightarrow> bool" where
  "line_of w w' output rel l \<longleftrightarrow>
     (\<exists>d. had_digest w w' (below_path output rel) d \<and> l = sum_line d (join ''/'' rel))
     \<or> met w w' (\<lambda>fs. \<not> is_file fs (below_path output rel)) \<and> l = []"

definition tree_listed :: "world \<Rightarrow> world \<Rightarrow> ppath \<Rightarrow> string \<Rightarrow> bool" where
  "tree_listed w w' output listing \<longleftrightarrow>
     (\<exists>found ls. met w w' (\<lambda>fs. rglob fs output = Inr found) \<and>
        list_all2 (line_of w w' output) (sort found) ls \<and> listing = concat ls)"

lemma line_of_widen: "line_of u v output rel l \<Longrightarrow> later w u \<Longrightarrow> later v w' \<Longrightarrow> line_of w w' output rel l"
  unfolding line_of_def by (blast intro: met_widen had_digest_widen)

lemma digest_line_met:
  assumes "digest_line env output acc rel w = Inr (acc', w')"
  shows "\<exists>l. acc' = acc @ l \<and> line_of w w' output rel l"
proof -
  from assms obtain r w1 where r: "look env (\<lambda>fs. Inr (is_file fs (below_path output rel))) w = Inr (r, w1)"
    and rest: "(if r then wbind (look env (\<lambda>fs. checksum fs (below_path output rel))) (\<lambda>d. wlift (Inr (acc @ sum_line d (join ''/'' rel))))
      else wlift (Inr acc)) w1 = Inr (acc', w')" unfolding digest_line_def wbind_Inr by blast
  show ?thesis
  proof (cases r)
    case True
    with rest obtain d where "look env (\<lambda>fs. checksum fs (below_path output rel)) w1 = Inr (d, w')"
      "acc' = acc @ sum_line d (join ''/'' rel)" by (auto simp: result_simps)
    moreover from this(1) have "had_digest w w' (below_path output rel) d"
      using had_digest_widen [OF look_digest stepsD [OF steps_look r] later_refl] by blast
    ultimately show ?thesis unfolding line_of_def by blast
  next
    case False
    then show ?thesis using rest look_met [OF r] by (auto simp: line_of_def result_simps)
  qed
qed

lemma digest_lines_met:
  "wloop (digest_line env output) acc rels w = Inr (acc', w') \<Longrightarrow>
     \<exists>ls. acc' = acc @ concat ls \<and> list_all2 (line_of w w' output) rels ls"
proof (induction rels arbitrary: acc w)
  case (Cons rel rels)
  from Cons.prems obtain acc1 w1 where w1: "digest_line env output acc rel w = Inr (acc1, w1)"
    "wloop (digest_line env output) acc1 rels w1 = Inr (acc', w')" by (auto simp: result_simps)
  from digest_line_met [OF w1(1)] obtain l where l: "acc1 = acc @ l" "line_of w w1 output rel l" by blast
  from Cons.IH [OF w1(2)] obtain ls where ls: "acc' = acc1 @ concat ls" "list_all2 (line_of w1 w' output) rels ls" by blast
  have e: "later w w1" "later w1 w'"
    using stepsD [OF part_steps(5) w1(1)] stepsD [OF steps_loop [OF part_steps(5)] w1(2)] .
  have "list_all2 (line_of w w' output) rels ls"
    using ls(2) by (rule list_all2_mono) (rule line_of_widen [OF _ e(1) later_refl])
  then show ?case using l ls(1) line_of_widen [OF l(2) later_refl e(2)] by (intro exI [of _ "l # ls"]) simp
qed (simp add: result_simps)

lemma digest_tree_met: "digest_tree env output w = Inr (listing, w') \<Longrightarrow> tree_listed w w' output listing"
proof -
  assume "digest_tree env output w = Inr (listing, w')"
  then obtain found w1 where f: "look env (\<lambda>fs. rglob fs output) w = Inr (found, w1)"
    "wloop (digest_line env output) [] (sort found) w1 = Inr (listing, w')" unfolding digest_tree_def wbind_Inr by blast
  from digest_lines_met [OF f(2)] obtain ls where ls: "listing = concat ls" "list_all2 (line_of w1 w' output) (sort found) ls" by auto
  have e: "later w w1" "later w1 w'"
    using stepsD [OF steps_look f(1)] stepsD [OF steps_loop [OF part_steps(5)] f(2)] .
  have "list_all2 (line_of w w' output) (sort found) ls"
    using ls(2) by (rule list_all2_mono) (rule line_of_widen [OF _ e(1) later_refl])
  then show ?thesis unfolding tree_listed_def using met_widen [OF look_met [OF f(1)] later_refl e(2)] ls(1) by blast
qed

text \<open>The output was found to lie outside an input directory.\<close>

definition apart :: "world \<Rightarrow> world \<Rightarrow> ppath \<Rightarrow> ppath \<Rightarrow> bool" where
  "apart w w' output root \<longleftrightarrow> (\<exists>loc r. met w w' (\<lambda>fs. py_resolve fs output = Inr loc) \<and>
     met w w' (\<lambda>fs. py_resolve fs root = Inr r) \<and> \<not> is_relative_to loc r)"

lemma outside_met: "outside env output root w = Inr (u, w') \<Longrightarrow> apart w w' output root"
proof -
  assume "outside env output root w = Inr (u, w')"
  then obtain loc r w1 where w: "look env (\<lambda>fs. py_resolve fs output) w = Inr (loc, w1)"
    "look env (\<lambda>fs. py_resolve fs root) w1 = Inr (r, w')" "\<not> is_relative_to loc r"
    by (auto simp: outside_def result_simps)
  show ?thesis
    unfolding apart_def
    using met_widen [OF look_met [OF w(1)] later_refl stepsD [OF steps_look w(2)]]
      met_widen [OF look_met [OF w(2)] stepsD [OF steps_look w(1)] later_refl] w(3) by blast
qed

lemma apart_widen: "apart u v output root \<Longrightarrow> later w u \<Longrightarrow> later v w' \<Longrightarrow> apart w w' output root"
  unfolding apart_def by (elim exE conjE, intro exI conjI) (assumption | erule (2) met_widen)+

lemma outsides_met:
  assumes "each (outside env output) roots w = Inr (u, w')"
  shows "list_all (apart w w' output) roots"
  using each_body [OF assms stage_steps(4)] by (force simp: list_all_iff intro: apart_widen outside_met)

text \<open>The output was not there, reached through no link, and outside the inputs.\<close>

definition new_output :: "world \<Rightarrow> world \<Rightarrow> ppath \<Rightarrow> ppath list \<Rightarrow> bool" where
  "new_output w w' output roots \<longleftrightarrow>
     met w w' (\<lambda>fs. \<not> exists fs output) \<and> met w w' (\<lambda>fs. \<not> symlinked fs output) \<and> list_all (apart w w' output) roots"

lemma check_output_met: "check_output env msg output roots w = Inr (u, w') \<Longrightarrow> new_output w w' output roots"
proof -
  assume "check_output env msg output roots w = Inr (u, w')"
  then obtain a b where s: "look env (\<lambda>fs. raise_if (exists fs output) (ValueError msg)) w = Inr ((), a)"
    "look env (\<lambda>fs. raise_if (symlinked fs output) (ValueError msg)) a = Inr ((), b)"
    "each (outside env output) roots b = Inr ((), w')" by (auto simp: check_output_def wbind_Inr)
  have m: "met w a (\<lambda>fs. \<not> exists fs output)" "met a b (\<lambda>fs. \<not> symlinked fs output)"
    using look_met [OF s(1)] look_met [OF s(2)] by (simp_all add: raise_if_eq_Inr)
  note l = m [THEN met_later] stepsD [OF steps_each [OF stage_steps(4)] s(3)]
  have "list_all (apart w w' output) roots"
    using outsides_met [OF s(3)] apart_widen [OF _ later_trans [OF l(1,2)] later_refl] by (auto simp: list_all_iff)
  then show ?thesis
    unfolding new_output_def using met_widen [OF m(1) later_refl later_trans [OF l(2,3)]] met_widen [OF m(2) l(1,3)] by blast
qed

lemma new_output_widen: "new_output u v output roots \<Longrightarrow> later w u \<Longrightarrow> later v w' \<Longrightarrow> new_output w w' output roots"
  unfolding new_output_def list_all_iff by (elim conjE, intro conjI ballI) (erule (2) met_widen | rule apart_widen, erule (1) bspec)+

text \<open>The file was found at one place with the digest that it was found with at another, later.\<close>

definition carried :: "world \<Rightarrow> world \<Rightarrow> ppath \<Rightarrow> world \<Rightarrow> world \<Rightarrow> ppath \<Rightarrow> bool" where
  "carried w1 w2 p w3 w4 q \<longleftrightarrow> (\<exists>d. had_digest w1 w2 p d \<and> had_digest w3 w4 q d)"

lemma map_of_dict: "distinct (dict_keys d) \<Longrightarrow> map_of d k = Some v \<longleftrightarrow> (k, v) \<in> set d"
  by (simp add: dict_keys_def)

lemma pair_carried:
  assumes src: "sources_verified w w1 sources entries" and bld: "build_verified w w1 artifacts entries fds"
    and pair: "pair_verified w2 w3 output entries fds"
  shows "list_all (\<lambda>name. carried w w1 (child sources name) w2 w3 (child (child output ''sources'') name)) (dict_keys entries)"
    "list_all (\<lambda>name. carried w w1 (child artifacts name) w2 w3 (child output name)) (products @ [''build.manifest''])"
    "list_all (\<lambda>name. carried w w1 (child artifacts name) w2 w3 (child (child output ''sources'') name)) [''build.manifest'', ''packages.manifest'']"
proof -
  have copy: "had_digest w2 w3 (child (child output ''sources'') n) d" if "map_of entries n = Some d" for n d
    using pair map_of_SomeD [OF that] by (auto simp: pair_verified_def list_all_iff)
  show "list_all (\<lambda>name. carried w w1 (child sources name) w2 w3 (child (child output ''sources'') name)) (dict_keys entries)"
    using src pair by (force simp: sources_verified_def pair_verified_def list_all_iff carried_def dict_keys_def)
  have "carried w w1 (child artifacts n) w2 w3 (child output n)" if "n \<in> set products" for n
    using bld pair that by (force simp: build_verified_def pair_verified_def products_found_def list_all_iff carried_def)
  moreover have "carried w w1 (child artifacts ''build.manifest'') w2 w3 (child output ''build.manifest'')"
    using bld pair by (force simp: build_verified_def pair_verified_def carried_def)
  ultimately show "list_all (\<lambda>name. carried w w1 (child artifacts name) w2 w3 (child output name)) (products @ [''build.manifest''])"
    by (simp add: list_all_iff)
  show "list_all (\<lambda>name. carried w w1 (child artifacts name) w2 w3 (child (child output ''sources'') name)) [''build.manifest'', ''packages.manifest'']"
    using bld copy by (fastforce simp: build_verified_def carried_def)
qed


end
