(* ===== verification/Written_Text.thy ===== *)
theory Written_Text
  imports Stage
begin

text \<open>
  What the scripts write is read back as what was written: inventories of digests
  (\<open>sum_line\<close>) and lists of fields, as \<open>stage-candidate.py\<close> and
  \<open>restore-source-review.py\<close> parse them.
\<close>

subsection \<open>Inventories and fields\<close>

lemma digest_printable: "fullmatch SHA256 d \<Longrightarrow> list_all printable d"
  by (rule visible_printable [OF fullmatch_visible]) (assumption, code_simp)

lemma file_name_visible: "fullmatch file_name n \<Longrightarrow> list_all visible n"
  by (rule fullmatch_visible) (assumption, code_simp)

lemma file_name_nonempty: "fullmatch file_name n \<Longrightarrow> n \<noteq> []"
  by (auto simp: file_name_def)

lemma digest_length: "fullmatch SHA256 d \<Longrightarrow> length d = 64"
  by (simp add: SHA256_def hex_digit_def fullmatch_iff_lang lang_times_Cls)

lemma sep_len_newline: "sep_len str_nls (CHR 0x0A # s) = 1"
  by (simp add: sep_len_def str_nls_def bytes_nls_def startswith_def)

text \<open>Printable lines, each with its line feed, are split into the lines again.\<close>

lemma splitlines_unlines:
  "list_all (list_all printable) ls \<Longrightarrow> splitlines (concat (map (\<lambda>l. l @ [CHR 0x0A]) ls)) = ls"
proof (induction ls)
  case (Cons l ls)
  then have "split_seps str_nls (l @ [CHR 0x0A] @ concat (map (\<lambda>l. l @ [CHR 0x0A]) ls))
      = (l, [CHR 0x0A]) # split_seps str_nls (concat (map (\<lambda>l. l @ [CHR 0x0A]) ls))"
    by (intro split_seps_cons) (simp_all add: printable_sep_free sep_len_newline)
  with Cons show ?case by (simp add: splitlines_def)
qed (simp add: splitlines_def)

lemma printable_ascii: "list_all printable s \<Longrightarrow> is_ascii s"
  by (auto simp: is_ascii_def list_all_iff printable_def less_eq_char_def)

lemma translate_printable:
  "list_all (\<lambda>c. c \<noteq> CHR 0x0D) s \<Longrightarrow> translate_newlines False s = s"
  by (induction s) auto

lemma printable_no_return: "list_all printable s \<Longrightarrow> list_all (\<lambda>c. c \<noteq> CHR 0x0D) s"
  by (induction s) (auto simp: printable_def less_eq_char_def)

lemma unlines_plain:
  assumes "list_all (list_all printable) ls"
  shows "is_ascii (concat (map (\<lambda>l. l @ [CHR 0x0A]) ls))"
    and "list_all (\<lambda>c. c \<noteq> CHR 0x0D) (concat (map (\<lambda>l. l @ [CHR 0x0A]) ls))"
  using assms by (induction ls) (simp_all add: printable_ascii printable_no_return less_eq_char_def)

lemma decode_unlines:
  "list_all (list_all printable) ls \<Longrightarrow>
     decode_utf8 (concat (map (\<lambda>l. l @ [CHR 0x0A]) ls)) = Inr (concat (map (\<lambda>l. l @ [CHR 0x0A]) ls))"
  by (simp add: decode_utf8_def ascii_valid_utf8 unlines_plain)

lemma read_text_unlines:
  "list_all (list_all printable) ls \<Longrightarrow>
     read_text (concat (map (\<lambda>l. l @ [CHR 0x0A]) ls)) = Inr (concat (map (\<lambda>l. l @ [CHR 0x0A]) ls))"
  by (simp add: read_text_def decode_unlines universal_newlines_def translate_printable unlines_plain)

definition sums_text :: "string dict \<Rightarrow> string" where
  "sums_text entries = concat (map (\<lambda>(name, d). sum_line d name) entries)"

lemma source_line_intro: "fullmatch SHA256 d \<Longrightarrow> fullmatch file_name n \<Longrightarrow> fullmatch source_line (d @ ''  '' @ n)"
  unfolding source_line_def fullmatch_iff_lang seqs.simps lang.simps lang_lit by (intro concI) auto

lemma add_sources:
  "list_all (\<lambda>(n, d). fullmatch SHA256 d \<and> fullmatch file_name n \<and> n \<noteq> ''SHA256SUMS'') entries \<Longrightarrow>
     distinct (dict_keys (acc @ entries)) \<Longrightarrow>
     for_each add_source acc (map (\<lambda>(n, d). d @ ''  '' @ n) entries) = Inr (acc @ entries)"
proof (induction entries arbitrary: acc)
  case (Cons e entries)
  obtain n d where e: "e = (n, d)" by (cases e)
  have "length d = 64" using Cons.prems(1) e digest_length by simp
  then have "add_source acc (d @ ''  '' @ n) = Inr (acc @ [(n, d)])"
    using Cons.prems e source_line_intro [of d n] by (simp add: add_source_def Let_def dict_set_new dict_keys_def)
  then show ?case using Cons.IH [of "acc @ [(n, d)]"] Cons.prems e by (simp add: dict_keys_def)
qed simp

lemma inventory_pairs:
  "inventory entries \<Longrightarrow> list_all (\<lambda>(n, d). fullmatch SHA256 d \<and> fullmatch file_name n \<and> n \<noteq> ''SHA256SUMS'') entries"
  by (auto simp: inventory_def list_all_iff dict_keys_def)

lemma read_sources_written:
  assumes "inventory entries" and "read_bytes fs p = Inr (sums_text entries)"
  shows "read_sources fs p = Inr entries"
proof -
  let ?ls = "map (\<lambda>(n, d). d @ ''  '' @ n) entries"
  have pr: "list_all (list_all printable) ?ls"
    using inventory_pairs [OF assms(1)] digest_printable visible_printable [OF file_name_visible]
    by (auto simp: list_all_iff printable_def less_eq_char_def)
  have "sums_text entries = concat (map (\<lambda>l. l @ [CHR 0x0A]) ?ls)"
    by (auto simp: sums_text_def sum_line_def intro!: arg_cong [of _ _ concat])
  moreover have "for_each add_source [] ?ls = Inr entries"
    using add_sources [OF inventory_pairs [OF assms(1)], of "[]"] assms(1) by (simp add: inventory_def)
  ultimately show ?thesis
    using assms(2) read_text_unlines [OF pr] splitlines_unlines [OF pr] by (simp add: read_sources_def)
qed

text \<open>Fields, likewise.\<close>

definition fields_text :: "string dict \<Rightarrow> string" where
  "fields_text fds = concat (map (\<lambda>(key, val). key @ ''='' @ val @ [CHR 0x0A]) fds)"

definition plain_fields :: "string dict \<Rightarrow> bool" where
  "plain_fields fds \<longleftrightarrow> distinct (dict_keys fds) \<and>
     list_all (\<lambda>(key, val). list_all printable key \<and> CHR ''='' \<notin> set key \<and> list_all printable val) fds"

lemma split_at_char: "c \<notin> set a \<Longrightarrow> split_at [c] (a @ c # b) = Some (a, b)"
  by (induction a) (auto simp: startswith_def)

lemma add_fields:
  "list_all (\<lambda>(key, val). CHR ''='' \<notin> set key) fds \<Longrightarrow> distinct (dict_keys (acc @ fds)) \<Longrightarrow>
     for_each (add_field msg) acc (map (\<lambda>(key, val). key @ ''='' @ val) fds) = Inr (acc @ fds)"
proof (induction fds arbitrary: acc)
  case (Cons f fds)
  obtain k v where f: "f = (k, v)" by (cases f)
  have "add_field msg acc (k @ ''='' @ v) = Inr (acc @ [(k, v)])"
    using Cons.prems f by (simp add: add_field_def split_at_char dict_set_new dict_keys_def)
  then show ?case using Cons.IH [of "acc @ [(k, v)]"] Cons.prems f by (simp add: dict_keys_def)
qed simp

lemma read_fields_written:
  assumes "plain_fields fds" and "read_bytes fs p = Inr (fields_text fds)"
  shows "read_fields msg fs p = Inr fds"
proof -
  let ?ls = "map (\<lambda>(key, val). key @ ''='' @ val) fds"
  have pr: "list_all (list_all printable) ?ls"
    using assms(1) by (auto simp: plain_fields_def list_all_iff printable_def less_eq_char_def)
  have "fields_text fds = concat (map (\<lambda>l. l @ [CHR 0x0A]) ?ls)"
    by (auto simp: fields_text_def intro!: arg_cong [of _ _ concat])
  moreover have "for_each (add_field msg) [] ?ls = Inr fds"
    using assms(1) by (subst add_fields) (auto simp: plain_fields_def list_all_iff)
  ultimately show ?thesis
    using assms(2) read_text_unlines [OF pr] splitlines_unlines [OF pr] by (simp add: read_fields_def)
qed

end
