(* ===== verification/Plain_Dirs.thy ===== *)
theory Plain_Dirs
  imports Archive
begin

text \<open>
  Operations on files in real directories: absolute locations all of whose components are
  directories, not links. There a path is the location it spells, every operation has an
  effect on the node map that can be written down, and what one operation writes the next
  one reads.
\<close>

definition at :: "string list \<Rightarrow> ppath" where
  "at loc = \<lparr>p_root = ''/'', p_tail = loc\<rparr>"

definition real_dir :: "fsys \<Rightarrow> string list \<Rightarrow> bool" where
  "real_dir fs loc \<longleftrightarrow> ''..'' \<notin> set loc \<and>
     (\<forall>n. 0 < n \<and> n \<le> length loc \<longrightarrow> (\<exists>m. nodes fs (take n loc) = Some (Dir m)))"

lemma child_at [simp]: "child (at loc) c = at (loc @ [c])"
  by (simp add: child_def at_def)

lemma at_fields [simp]: "p_tail (at loc) = loc" "is_absolute (at loc)" "at a = at b \<longleftrightarrow> a = b"
  by (simp_all add: at_def is_absolute_def)

lemma at_update [simp]: "(at loc)\<lparr>p_tail := l\<rparr> = at l"
  by (simp add: at_def)

lemma real_dir_Nil [simp]: "real_dir fs []"
  by (simp add: real_dir_def)

lemma real_dir_snoc [simp]:
  "real_dir fs (loc @ [c]) \<longleftrightarrow> real_dir fs loc \<and> c \<noteq> ''..'' \<and> (\<exists>m. nodes fs (loc @ [c]) = Some (Dir m))"
proof -
  have "(\<forall>n. 0 < n \<and> n \<le> Suc (length loc) \<longrightarrow> (\<exists>m. nodes fs (take n (loc @ [c])) = Some (Dir m))) \<longleftrightarrow>
      (\<forall>n. 0 < n \<and> n \<le> length loc \<longrightarrow> (\<exists>m. nodes fs (take n loc) = Some (Dir m))) \<and>
      (\<exists>m. nodes fs (loc @ [c]) = Some (Dir m))"
    by (auto simp: le_Suc_eq)
  then show ?thesis by (auto simp: real_dir_def)
qed

lemma walk_real:
  "''..'' \<notin> set cs \<Longrightarrow> (\<And>n. 0 < n \<Longrightarrow> n \<le> length cs \<Longrightarrow> \<exists>m. nodes fs (cur @ take n cs) = Some (Dir m)) \<Longrightarrow>
     walk fs follow fuel cur (cs @ rest) = walk fs follow fuel (cur @ cs) rest"
proof (induction cs arbitrary: cur)
  case (Cons c cs)
  from Cons.prems(2) [of 1] obtain m where m: "nodes fs (cur @ [c]) = Some (Dir m)" by auto
  have "\<exists>m. nodes fs ((cur @ [c]) @ take n cs) = Some (Dir m)" if "0 < n" "n \<le> length cs" for n
    using Cons.prems(2) [of "Suc n"] that by simp
  with Cons.IH [of "cur @ [c]"] Cons.prems(1) m show ?case by auto
qed simp

lemma resolve_real: "real_dir fs loc \<Longrightarrow> resolve fs follow (at (loc @ rest)) = walk fs follow MAX_LINKS loc rest"
  using walk_real [of loc fs "[]"] by (simp add: resolve_def real_dir_def)

lemma resolve_at: "real_dir fs loc \<Longrightarrow> resolve fs follow (at loc) = Inr loc"
  using resolve_real [of fs loc follow "[]"] by simp

definition no_link :: "fsys \<Rightarrow> string list \<Rightarrow> bool" where
  "no_link fs loc \<longleftrightarrow> (case nodes fs loc of Some (Link _) \<Rightarrow> False | _ \<Rightarrow> True)"

lemma no_link_simps [simp]:
  "nodes fs loc = None \<Longrightarrow> no_link fs loc" "nodes fs loc = Some (File m bs) \<Longrightarrow> no_link fs loc"
  "nodes fs loc = Some (Dir m) \<Longrightarrow> no_link fs loc" "nodes fs loc = Some (Link t) \<Longrightarrow> \<not> no_link fs loc"
  by (simp_all add: no_link_def)

lemma resolve_child:
  "real_dir fs loc \<Longrightarrow> c \<noteq> ''..'' \<Longrightarrow> no_link fs (loc @ [c]) \<or> \<not> follow \<Longrightarrow>
     resolve fs follow (at (loc @ [c])) = Inr (loc @ [c])"
  by (auto simp: resolve_real no_link_def split: option.splits node.splits)

lemma node_at_child [simp]: "node_at fs (loc @ [c]) = (case nodes fs (loc @ [c]) of None \<Rightarrow> Inl ENOENT | Some n \<Rightarrow> Inr n)"
  by (simp add: node_at_def)

lemma lstat_child:
  "real_dir fs loc \<Longrightarrow> c \<noteq> ''..'' \<Longrightarrow> lstat fs (at (loc @ [c])) = (case nodes fs (loc @ [c]) of None \<Rightarrow> Inl ENOENT | Some n \<Rightarrow> Inr n)"
  by (simp add: lstat_def resolve_child)

lemma stat_child:
  "real_dir fs loc \<Longrightarrow> c \<noteq> ''..'' \<Longrightarrow> no_link fs (loc @ [c]) \<Longrightarrow>
     stat fs (at (loc @ [c])) = (case nodes fs (loc @ [c]) of None \<Rightarrow> Inl ENOENT | Some n \<Rightarrow> Inr n)"
  by (simp add: stat_def resolve_child)

lemma stat_real: "real_dir fs loc \<Longrightarrow> \<exists>m. stat fs (at loc) = Inr (Dir m)"
  by (cases loc rule: rev_cases) (auto simp: stat_def resolve_at, auto simp: node_at_def)

lemma lstat_real: "real_dir fs loc \<Longrightarrow> \<exists>m. lstat fs (at loc) = Inr (Dir m)"
  by (cases loc rule: rev_cases) (auto simp: lstat_def resolve_at, auto simp: node_at_def)

lemma exists_child:
  "real_dir fs loc \<Longrightarrow> c \<noteq> ''..'' \<Longrightarrow> no_link fs (loc @ [c]) \<Longrightarrow> exists fs (at (loc @ [c])) \<longleftrightarrow> nodes fs (loc @ [c]) \<noteq> None"
  by (simp add: exists_def stat_child split: option.splits)

lemma is_symlink_child:
  "real_dir fs loc \<Longrightarrow> c \<noteq> ''..'' \<Longrightarrow> is_symlink fs (at (loc @ [c])) \<longleftrightarrow> \<not> no_link fs (loc @ [c])"
  by (auto simp: is_symlink_def lstat_child no_link_def split: option.splits node.splits)

lemma is_symlink_real: "real_dir fs loc \<Longrightarrow> \<not> is_symlink fs (at loc)"
  using lstat_real by (fastforce simp: is_symlink_def)

lemma real_dir_take: "real_dir fs loc \<Longrightarrow> real_dir fs (take n loc)"
  by (auto simp: real_dir_def min_def dest: in_set_takeD split: if_splits)

lemma parents_at: "parents (at loc) = map (\<lambda>n. at (take n loc)) (rev [0..<length loc])"
  by (simp add: parents_def at_def)

lemma symlinked_real: "real_dir fs loc \<Longrightarrow> \<not> symlinked fs (at loc)"
  by (auto simp: symlinked_def list_ex_iff parents_at is_symlink_real real_dir_take)

lemma symlinked_child:
  assumes "real_dir fs loc" and "c \<noteq> ''..''"
  shows "symlinked fs (at (loc @ [c])) \<longleftrightarrow> \<not> no_link fs (loc @ [c])"
proof -
  have "\<not> is_symlink fs (at (take n loc))" for n
    by (rule is_symlink_real [OF real_dir_take [OF assms(1)]])
  moreover have "\<not> is_symlink fs (at loc)" by (rule is_symlink_real [OF assms(1)])
  ultimately show ?thesis using assms by (auto simp: symlinked_def list_ex_iff parents_at is_symlink_child)
qed

lemma holds_child:
  "real_dir fs loc \<Longrightarrow> c \<noteq> ''..'' \<Longrightarrow> holds fs (at (loc @ [c])) bs \<longleftrightarrow> (\<exists>m. nodes fs (loc @ [c]) = Some (File m bs))"
  by (cases "no_link fs (loc @ [c])") (auto simp: holds_def symlinked_child stat_child split: option.splits)

subsection \<open>Listing\<close>

lemma nodes_entry: "nodes fs loc \<noteq> None \<longleftrightarrow> loc \<in> fst ` set (fs_entries fs)"
  by (simp add: nodes_def map_of_eq_None_iff)

lemma set_children: "c \<in> set (children fs loc) \<longleftrightarrow> nodes fs (loc @ [c]) \<noteq> None"
proof
  assume "c \<in> set (children fs loc)"
  then have "loc @ [c] \<in> fst ` set (fs_entries fs)"
    by (auto simp: children_def intro: rev_image_eqI)
  then show "nodes fs (loc @ [c]) \<noteq> None" unfolding nodes_entry .
next
  assume "nodes fs (loc @ [c]) \<noteq> None"
  then show "c \<in> set (children fs loc)"
    unfolding nodes_entry children_def by (force intro: image_eqI [of _ _ "loc @ [c]"])
qed

lemma set_below: "rel \<in> set (below fs loc) \<longleftrightarrow> rel \<noteq> [] \<and> nodes fs (loc @ rel) \<noteq> None"
proof
  assume "rel \<in> set (below fs loc)"
  then obtain l where l: "l \<in> fst ` set (fs_entries fs)" "length loc < length l" "take (length loc) l = loc" "rel = drop (length loc) l"
    by (auto simp: below_def)
  then have "l = loc @ rel" by (metis append_take_drop_id)
  then show "rel \<noteq> [] \<and> nodes fs (loc @ rel) \<noteq> None" using l(1,2) unfolding nodes_entry by auto
next
  assume "rel \<noteq> [] \<and> nodes fs (loc @ rel) \<noteq> None"
  then show "rel \<in> set (below fs loc)"
    unfolding nodes_entry below_def by (force intro: image_eqI [of _ _ "loc @ rel"])
qed

lemma distinct_children: "distinct (children fs loc)"
  by (simp add: children_def)

lemma iterdir_at: "real_dir fs loc \<Longrightarrow> iterdir fs (at loc) = Inr (children fs loc)"
  by (cases loc rule: rev_cases) (auto simp: iterdir_def resolve_at, auto simp: node_at_def)

subsection \<open>Changing\<close>

lemma real_dir_put:
  "real_dir fs loc \<Longrightarrow> (\<And>n. 0 < n \<Longrightarrow> n \<le> length loc \<Longrightarrow> take n loc \<noteq> l) \<Longrightarrow> real_dir (fs_put l n fs) loc"
  by (auto simp: real_dir_def)

text \<open>A location that is absent, or no directory, is no prefix of a real directory.\<close>

lemma real_dir_put_other:
  "real_dir fs loc \<Longrightarrow> (\<nexists>m. nodes fs l = Some (Dir m)) \<Longrightarrow> real_dir (fs_put l n fs) loc"
  by (rule real_dir_put) (auto simp: real_dir_def)

lemma create_child:
  "real_dir fs loc \<Longrightarrow> c \<noteq> ''..'' \<Longrightarrow> nodes fs (loc @ [c]) = None \<Longrightarrow>
     create fs (at (loc @ [c])) n = Inr (fs_put (loc @ [c]) n fs)"
  by (simp add: create_def resolve_child)

lemma mkdir_child:
  "real_dir fs loc \<Longrightarrow> c \<noteq> ''..'' \<Longrightarrow> nodes fs (loc @ [c]) = None \<Longrightarrow>
     mkdir_parents ok fs (at (loc @ [c])) = Inr (fs_put (loc @ [c]) (Dir (perm_for fs 511)) fs)"
  by (simp add: mkdir_parents_def os_mkdir_def create_child)

lemma write_child_new:
  "real_dir fs loc \<Longrightarrow> c \<noteq> ''..'' \<Longrightarrow> nodes fs (loc @ [c]) = None \<Longrightarrow>
     write_bytes fs (at (loc @ [c])) bs = Inr (fs_put (loc @ [c]) (File (perm_for fs 438) bs) fs)"
  by (simp add: write_bytes_def resolve_child)

lemma write_child_old:
  "real_dir fs loc \<Longrightarrow> c \<noteq> ''..'' \<Longrightarrow> nodes fs (loc @ [c]) = Some (File m bs') \<Longrightarrow>
     write_bytes fs (at (loc @ [c])) bs = Inr (fs_put (loc @ [c]) (File m bs) fs)"
  by (simp add: write_bytes_def resolve_child)

lemma read_child:
  "real_dir fs loc \<Longrightarrow> c \<noteq> ''..'' \<Longrightarrow> nodes fs (loc @ [c]) = Some (File m bs) \<Longrightarrow> read_bytes fs (at (loc @ [c])) = Inr bs"
  by (simp add: read_bytes_def stat_child)

lemma chmod_child:
  "real_dir fs loc \<Longrightarrow> c \<noteq> ''..'' \<Longrightarrow> nodes fs (loc @ [c]) = Some (File m bs) \<Longrightarrow>
     chmod fs (at (loc @ [c])) mode = Inr (fs_put (loc @ [c]) (File mode bs) fs)"
  by (simp add: chmod_def resolve_child)

lemma copyfile_child:
  assumes "real_dir fs a" "x \<noteq> ''..''" "nodes fs (a @ [x]) = Some (File m bs)"
    and "real_dir fs b" "y \<noteq> ''..''" "nodes fs (b @ [y]) = None"
  shows "copyfile fs (at (a @ [x])) (at (b @ [y])) = Inr (fs_put (b @ [y]) (File (perm_for fs 438) bs) fs)"
proof -
  have "\<not> exists fs (at (b @ [y]))" using assms by (simp add: exists_child)
  then show ?thesis using assms by (simp add: copyfile_def read_child write_child_new)
qed

lemma perm_for_put [simp]: "perm_for (fs_put l n fs) mode = perm_for fs mode"
  by (simp add: perm_for_def)

text \<open>\<open>resolve()\<close> of a location under a real directory is that location.\<close>

lemma realpath_real:
  "''..'' \<notin> set cs \<Longrightarrow> (\<And>n. 0 < n \<Longrightarrow> n \<le> length cs \<Longrightarrow> \<exists>m. nodes fs (cur @ take n cs) = Some (Dir m)) \<Longrightarrow>
     realpath fs busy cur (cs @ rest) = realpath fs busy (cur @ cs) rest"
proof (induction cs arbitrary: cur)
  case (Cons c cs)
  from Cons.prems(2) [of 1] obtain m where m: "nodes fs (cur @ [c]) = Some (Dir m)" by auto
  have "\<exists>m. nodes fs ((cur @ [c]) @ take n cs) = Some (Dir m)" if "0 < n" "n \<le> length cs" for n
    using Cons.prems(2) [of "Suc n"] that by simp
  with Cons.IH [of "cur @ [c]"] Cons.prems(1) m show ?case by auto
qed simp

lemma py_resolve_at: "real_dir fs loc \<Longrightarrow> py_resolve fs (at loc) = Inr loc"
  using realpath_real [of loc fs "[]" "[]" "[]"] by (simp add: py_resolve_def real_dir_def)

lemma py_resolve_child:
  "real_dir fs loc \<Longrightarrow> c \<noteq> ''..'' \<Longrightarrow> no_link fs (loc @ [c]) \<Longrightarrow> py_resolve fs (at (loc @ [c])) = Inr (loc @ [c])"
  using realpath_real [of loc fs "[]" "[]" "[c]"]
  by (simp add: py_resolve_def real_dir_def no_link_def split: option.splits node.splits)

subsection \<open>Well-formed trees\<close>

text \<open>Everything lies in a directory that is there; so nothing lies below what is absent.\<close>

definition wf_tree :: "fsys \<Rightarrow> bool" where
  "wf_tree fs \<longleftrightarrow> (\<forall>loc c. nodes fs (loc @ [c]) \<noteq> None \<longrightarrow> loc = [] \<or> (\<exists>m. nodes fs loc = Some (Dir m)))"

lemma wf_tree_below: "wf_tree fs \<Longrightarrow> loc \<noteq> [] \<Longrightarrow> nodes fs loc = None \<Longrightarrow> nodes fs (loc @ rest) = None"
proof (induction rest rule: rev_induct)
  case (snoc c rest)
  then have "nodes fs (loc @ rest) = None" "loc @ rest \<noteq> []" by simp_all
  then have "nodes fs ((loc @ rest) @ [c]) = None" using snoc.prems(1) unfolding wf_tree_def by (metis option.distinct(1))
  then show ?case by simp
qed simp

text \<open>A file system that has every node of another one.\<close>

definition extends :: "fsys \<Rightarrow> fsys \<Rightarrow> bool" where
  "extends fs' fs \<longleftrightarrow> (\<forall>l n. nodes fs l = Some n \<longrightarrow> nodes fs' l = Some n)"

lemma extends_real_dir: "extends fs' fs \<Longrightarrow> real_dir fs loc \<Longrightarrow> real_dir fs' loc"
  unfolding extends_def real_dir_def by blast

lemma extendsI: "(\<And>l. nodes fs l \<noteq> None \<Longrightarrow> nodes fs' l = nodes fs l) \<Longrightarrow> extends fs' fs"
  unfolding extends_def by (metis option.distinct(1))

lemma extends_put: "nodes fs l = None \<Longrightarrow> extends (fs_put l n fs) fs"
  by (auto simp: extends_def)

lemma extends_refl [simp]: "extends fs fs"
  by (simp add: extends_def)

lemma extends_trans: "extends c b \<Longrightarrow> extends b a \<Longrightarrow> extends c a"
  by (simp add: extends_def)

lemma wf_tree_put:
  assumes "wf_tree fs" and "l = [] \<or> (\<exists>m. nodes fs l = Some (Dir m))" and "nodes fs (l @ [c]) = None"
  shows "wf_tree (fs_put (l @ [c]) n fs)"
  unfolding wf_tree_def
proof (intro allI impI)
  fix loc d assume d: "nodes (fs_put (l @ [c]) n fs) (loc @ [d]) \<noteq> None"
  have old: "loc = [] \<or> (\<exists>m. nodes fs loc = Some (Dir m))"
    using assms(1,2) d unfolding wf_tree_def by (auto split: if_splits)
  then have "loc \<noteq> l @ [c]" using assms(3) by auto
  then show "loc = [] \<or> (\<exists>m. nodes (fs_put (l @ [c]) n fs) loc = Some (Dir m))" using old by simp
qed

lemma wf_tree_dirs: "wf_tree fs \<Longrightarrow> nodes fs (loc @ r) \<noteq> None \<Longrightarrow> r \<noteq> [] \<Longrightarrow> loc = [] \<or> (\<exists>m. nodes fs loc = Some (Dir m))"
proof (induction r rule: rev_induct)
  case (snoc c r)
  then have "loc @ r = [] \<or> (\<exists>m. nodes fs (loc @ r) = Some (Dir m))"
    unfolding wf_tree_def by (metis append.assoc)
  with snoc show ?case by (cases "r = []") auto
qed simp

text \<open>On a listed file system the condition can be computed.\<close>

definition closed_entries :: "fsys \<Rightarrow> bool" where
  "closed_entries fs \<longleftrightarrow>
     list_all (\<lambda>(l, n). length l \<le> 1 \<or> (case nodes fs (butlast l) of Some (Dir _) \<Rightarrow> True | _ \<Rightarrow> False)) (fs_entries fs)"

lemma closed_entries: "closed_entries fs \<Longrightarrow> wf_tree fs"
  unfolding wf_tree_def nodes_entry closed_entries_def
  by (fastforce simp: list_all_iff split: option.splits node.splits)

text \<open>A fresh directory with a list of files in it, as the scripts fill their output.\<close>

definition put_files :: "string list \<Rightarrow> int \<Rightarrow> bytes dict \<Rightarrow> fsys \<Rightarrow> fsys" where
  "put_files dir m files fs = foldl (\<lambda>fs (name, bs). fs_put (dir @ [name]) (File m bs) fs) fs files"

lemma put_files_simps [simp]:
  "put_files dir m [] fs = fs"
  "put_files dir m ((name, bs) # files) fs = put_files dir m files (fs_put (dir @ [name]) (File m bs) fs)"
  "put_files dir m (files @ files') fs = put_files dir m files' (put_files dir m files fs)"
  by (simp_all add: put_files_def)

lemma perm_for_put_files [simp]: "perm_for (put_files dir m files fs) mode = perm_for fs mode"
  by (induction files arbitrary: fs) auto

lemma nodes_put_files_other:
  "(\<And>name. name \<in> set (dict_keys files) \<Longrightarrow> l \<noteq> dir @ [name]) \<Longrightarrow> nodes (put_files dir m files fs) l = nodes fs l"
proof (induction files arbitrary: fs)
  case (Cons f files)
  obtain name bs where f: "f = (name, bs)" by (cases f)
  have "l \<noteq> dir @ [name]" using Cons.prems f by (simp add: dict_keys_def)
  with Cons f show ?case by (simp add: dict_keys_def)
qed simp

lemma nodes_put_files:
  "distinct (dict_keys files) \<Longrightarrow> map_of files name = Some bs \<Longrightarrow> nodes (put_files dir m files fs) (dir @ [name]) = Some (File m bs)"
proof (induction files arbitrary: fs)
  case (Cons f files)
  obtain n b where f: "f = (n, b)" by (cases f)
  show ?case
  proof (cases "n = name")
    case True
    then have "nodes (put_files dir m files (fs_put (dir @ [n]) (File m b) fs)) (dir @ [n])
        = nodes (fs_put (dir @ [n]) (File m b) fs) (dir @ [n])"
      using Cons.prems(1) f by (intro nodes_put_files_other) (auto simp: dict_keys_def)
    then show ?thesis using True Cons.prems(2) f by simp
  next
    case False
    then show ?thesis using Cons f by (simp add: dict_keys_def)
  qed
qed simp

lemma real_dir_put_files:
  "real_dir fs loc \<Longrightarrow> length loc \<le> length dir \<Longrightarrow> real_dir (put_files dir m files fs) loc"
proof (induction files arbitrary: fs)
  case (Cons f files)
  obtain name bs where f: "f = (name, bs)" by (cases f)
  have "real_dir (fs_put (dir @ [name]) (File m bs) fs) loc"
    using Cons.prems by (intro real_dir_put) (auto dest: arg_cong [of _ _ length])
  with Cons f show ?case by simp
qed simp

definition write_to :: "ppath \<Rightarrow> fsys \<Rightarrow> string \<times> bytes \<Rightarrow> fsys result" where
  "write_to dir fs = (\<lambda>(name, bs). write_bytes fs (child dir name) bs)"

lemma write_files:
  "real_dir fs dir \<Longrightarrow> distinct (dict_keys files) \<Longrightarrow>
     (\<And>name. name \<in> set (dict_keys files) \<Longrightarrow> name \<noteq> ''..'' \<and> nodes fs (dir @ [name]) = None) \<Longrightarrow>
     for_each (write_to (at dir)) fs files = Inr (put_files dir (perm_for fs 438) files fs)"
proof (induction files arbitrary: fs)
  case (Cons f files)
  obtain name bs where f: "f = (name, bs)" by (cases f)
  let ?fs = "fs_put (dir @ [name]) (File (perm_for fs 438) bs) fs"
  have n: "name \<noteq> ''..''" "nodes fs (dir @ [name]) = None" using Cons.prems(3) f by (simp_all add: dict_keys_def)
  have "write_to (at dir) fs f = Inr ?fs"
    using write_child_new [OF Cons.prems(1) n] f by (simp add: write_to_def)
  moreover have "for_each (write_to (at dir)) ?fs files = Inr (put_files dir (perm_for ?fs 438) files ?fs)"
    using Cons.prems f n by (intro Cons.IH real_dir_put_other) (auto simp: dict_keys_def)
  ultimately show ?case using f by simp
qed simp

subsection \<open>A fresh output directory\<close>

definition fresh_out :: "fsys \<Rightarrow> string list \<Rightarrow> bool" where
  "fresh_out fs out \<longleftrightarrow> wf_tree fs \<and> out \<noteq> [] \<and> real_dir fs (butlast out) \<and> last out \<noteq> ''..'' \<and> nodes fs out = None"

lemma fresh_outE:
  assumes "fresh_out fs out"
  obtains o' c where "out = o' @ [c]" "real_dir fs o'" "c \<noteq> ''..''" "nodes fs (o' @ [c]) = None"
  using assms by (cases out rule: rev_cases) (auto simp: fresh_out_def)

lemma fresh_below: "fresh_out fs out \<Longrightarrow> nodes fs (out @ r) = None"
  by (auto simp: fresh_out_def wf_tree_below)

definition make_out :: "fsys \<Rightarrow> string list \<Rightarrow> fsys" where
  "make_out fs out = fs_put out (Dir (perm_for fs 511)) fs"

lemma make_out:
  assumes "fresh_out fs out"
  shows "mkdir_parents ok fs (at out) = Inr (make_out fs out)" "real_dir (make_out fs out) out"
    "nodes (make_out fs out) (out @ [n]) = None" "perm_for (make_out fs out) mode = perm_for fs mode"
    "l \<noteq> out \<Longrightarrow> nodes (make_out fs out) l = nodes fs l"
proof -
  from assms obtain o' c where o': "out = o' @ [c]" "real_dir fs o'" "c \<noteq> ''..''" "nodes fs (o' @ [c]) = None"
    by (rule fresh_outE)
  show "mkdir_parents ok fs (at out) = Inr (make_out fs out)"
    using mkdir_child [OF o'(2-4)] o'(1) by (simp add: make_out_def)
  have "real_dir (make_out fs out) o'" using o' unfolding make_out_def by (intro real_dir_put_other) simp_all
  then show "real_dir (make_out fs out) out" using o'(1,3) by (simp add: make_out_def)
  show "nodes (make_out fs out) (out @ [n]) = None"
    using fresh_below [OF assms, of "[n]"] by (simp add: make_out_def)
qed (simp_all add: make_out_def)

lemma fresh_not_exists:
  assumes "fresh_out fs out"
  shows "\<not> exists fs (at out)" "\<not> symlinked fs (at out)" "\<not> is_symlink fs (at out)" "py_resolve fs (at out) = Inr out"
  using assms by (auto elim!: fresh_outE simp: exists_child symlinked_child is_symlink_child py_resolve_child)

text \<open>A real directory, and every file in one, stays what it is while the output is filled.\<close>

lemma make_out_keeps:
  assumes "fresh_out fs out" and "real_dir fs dir"
  shows "real_dir (put_files out m files (make_out fs out)) dir"
    "nodes fs (dir @ [n]) = Some nd \<Longrightarrow> nodes (put_files out m files (make_out fs out)) (dir @ [n]) = Some nd"
proof -
  have keep: "nodes (put_files out m files (make_out fs out)) l = Some nd" if "nodes fs l = Some nd" for l nd
  proof -
    have "l \<noteq> out" "l \<noteq> out @ [name]" for name
      using that fresh_below [OF assms(1), of "[]"] fresh_below [OF assms(1), of "[name]"] by auto
    then show ?thesis using that make_out(5) [OF assms(1)] by (simp add: nodes_put_files_other)
  qed
  show "real_dir (put_files out m files (make_out fs out)) dir"
    using assms(2) keep unfolding real_dir_def by blast
  show "nodes fs (dir @ [n]) = Some nd \<Longrightarrow> nodes (put_files out m files (make_out fs out)) (dir @ [n]) = Some nd"
    by (rule keep)
qed

lemma copyfile_into:
  "real_dir fs out \<Longrightarrow> n \<noteq> ''..'' \<Longrightarrow> nodes fs (out @ [n]) = None \<Longrightarrow>
     copyfile fs p (at (out @ [n])) = rbind (read_bytes fs p) (\<lambda>bs. Inr (put_files out (perm_for fs 438) [(n, bs)] fs))"
  by (cases "read_bytes fs p") (simp_all add: copyfile_def exists_child write_child_new)

text \<open>The output so far: what \<open>put_files\<close> wrote, in the new directory.\<close>

lemma put_files_out:
  assumes "fresh_out fs out" and "distinct (dict_keys files)"
  shows "real_dir (put_files out m files (make_out fs out)) out"
    "nodes (put_files out m files (make_out fs out)) (out @ [n]) = map_option (File m) (map_of files n)"
proof -
  show "real_dir (put_files out m files (make_out fs out)) out"
    using make_out(2) [OF assms(1)] by (rule real_dir_put_files) simp
  show "nodes (put_files out m files (make_out fs out)) (out @ [n]) = map_option (File m) (map_of files n)"
  proof (cases "map_of files n")
    case None
    then have "n \<notin> set (dict_keys files)" by (simp add: dict_keys_def map_of_eq_None_iff)
    then show ?thesis using None make_out(3) [OF assms(1)] by (subst nodes_put_files_other) auto
  next
    case (Some bs)
    then show ?thesis using nodes_put_files [OF assms(2)] by simp
  qed
qed

lemma write_next:
  assumes "fresh_out fs out" "distinct (dict_keys files)" "n \<noteq> ''..''" "n \<notin> set (dict_keys files)"
  shows "write_bytes (put_files out (perm_for fs 438) files (make_out fs out)) (at (out @ [n])) bs
    = Inr (put_files out (perm_for fs 438) (files @ [(n, bs)]) (make_out fs out))"
    "copyfile (put_files out (perm_for fs 438) files (make_out fs out)) p (at (out @ [n]))
    = rbind (read_bytes (put_files out (perm_for fs 438) files (make_out fs out)) p)
        (\<lambda>bs. Inr (put_files out (perm_for fs 438) (files @ [(n, bs)]) (make_out fs out)))"
proof -
  note o = put_files_out [OF assms(1,2), of "perm_for fs 438"]
  have none: "nodes (put_files out (perm_for fs 438) files (make_out fs out)) (out @ [n]) = None"
    using o(2) [of n] assms(4) by (simp add: dict_keys_def map_of_eq_None_iff)
  show "write_bytes (put_files out (perm_for fs 438) files (make_out fs out)) (at (out @ [n])) bs
    = Inr (put_files out (perm_for fs 438) (files @ [(n, bs)]) (make_out fs out))"
    using write_child_new [OF o(1) assms(3) none] make_out(4) [OF assms(1)] by simp
  show "copyfile (put_files out (perm_for fs 438) files (make_out fs out)) p (at (out @ [n]))
    = rbind (read_bytes (put_files out (perm_for fs 438) files (make_out fs out)) p)
        (\<lambda>bs. Inr (put_files out (perm_for fs 438) (files @ [(n, bs)]) (make_out fs out)))"
    using copyfile_into [OF o(1) assms(3) none] make_out(4) [OF assms(1)] by simp
qed

text \<open>The inventory of the files written.\<close>

definition listing_of :: "bytes dict \<Rightarrow> string" where
  "listing_of files = concat (map (\<lambda>n. sum_line (sha256_hex (the (map_of files n))) n) (sort (dict_keys files)))"

lemma sorted_dir_files:
  assumes "real_dir fs dir" "distinct (dict_keys files)"
    and nd: "\<And>n. nodes fs (dir @ [n]) = map_option (File m) (map_of files n)"
  shows "sorted_dir fs (at dir) = Inr (sort (dict_keys files))"
proof -
  have "set (children fs dir) = set (dict_keys files)"
    by (auto simp: set_children nd dict_keys_def dom_map_of_conv_image_fst [symmetric] dom_def)
  then have "sort (children fs dir) = sort (dict_keys files)"
    using assms(2) distinct_children [of fs dir] by (intro sorted_distinct_set_unique) simp_all
  then show ?thesis using iterdir_at [OF assms(1)] by (simp add: sorted_dir_def)
qed

context file_digest begin

text \<open>A listing that is made in a directory of plain files is the inventory of those files.\<close>

lemma listing_of_files:
  assumes "real_dir fs dir" "distinct (dict_keys files)" "''..'' \<notin> set (dict_keys files)"
    and nd: "\<And>n. nodes fs (dir @ [n]) = map_option (File m) (map_of files n)"
    and ok: "sum_lines digest fs (at dir) = Inr txt"
  shows "txt = listing_of files"
proof -
  obtain blobs where b: "list_all2 (\<lambda>n bs. reads fs (at (dir @ [n])) bs) (sort (dict_keys files)) blobs"
    "txt = concat (map2 (\<lambda>n bs. sum_line (sha256_hex bs) n) (sort (dict_keys files)) blobs)"
    using ok sorted_dir_files [OF assms(1,2) nd] by (auto simp: sum_lines_iff)
  have "bs = the (map_of files n)" if n: "n \<in> set (sort (dict_keys files))" "reads fs (at (dir @ [n])) bs" for n bs
  proof -
    obtain v where "map_of files n = Some v" using n(1) by (auto simp: dict_keys_def dest: weak_map_of_SomeI)
    moreover have "n \<noteq> ''..''" using n(1) assms(3) by auto
    ultimately show ?thesis using reads_contents [OF n(2)] nd [of n] assms(1) by (simp add: read_child)
  qed
  then have "list_all2 (\<lambda>n bs. bs = the (map_of files n)) (sort (dict_keys files)) blobs"
    using b(1) by (intro list.rel_mono_strong [OF b(1)])
  then have "blobs = map (\<lambda>n. the (map_of files n)) (sort (dict_keys files))"
    by (auto simp: list_all2_conv_all_nth intro!: nth_equalityI)
  then show ?thesis using b(2) by (simp add: listing_of_def zip_map2 zip_same_conv_map comp_def)
qed

lemma listing_made:
  assumes "real_dir fs dir" "distinct (dict_keys files)"
    and nd: "\<And>n. nodes fs (dir @ [n]) = map_option (File m) (map_of files n)"
    and rd: "\<And>n bs. map_of files n = Some bs \<Longrightarrow> reads fs (at (dir @ [n])) bs"
  shows "sum_lines digest fs (at dir) = Inr (listing_of files)"
proof -
  have "list_all2 (\<lambda>n bs. reads fs (at (dir @ [n])) bs) (sort (dict_keys files)) (map (\<lambda>n. the (map_of files n)) (sort (dict_keys files)))"
    using rd by (force simp: list_all2_map2 list.rel_refl_strong dict_keys_def dest: weak_map_of_SomeI intro!: list.rel_refl_strong)
  then show ?thesis
    unfolding sum_lines_iff listing_of_def using sorted_dir_files [OF assms(1,2) nd]
    by (intro exI conjI) (auto simp: zip_map2 zip_same_conv_map comp_def)
qed

end

subsection \<open>Reading in a larger file system\<close>

text \<open>What could be reached is still reached when nodes have been added.\<close>

lemma walk_extends:
  "extends fs' fs \<Longrightarrow> walk fs follow fuel cur cs = Inr loc \<Longrightarrow> node_at fs loc = Inr n \<Longrightarrow> walk fs' follow fuel cur cs = Inr loc"
proof (induction fs follow fuel cur cs rule: walk.induct)
  case (2 fs follow fuel cur c cs)
  note ext = \<open>extends fs' fs\<close> and walked = \<open>walk fs follow fuel cur (c # cs) = Inr loc\<close>
  show ?case
  proof (cases "c = ''..''")
    case True
    then show ?thesis using 2(1) ext walked 2(6) by simp
  next
    case False
    show ?thesis
    proof (cases "nodes fs (cur @ [c])")
      case None
      then show ?thesis using walked 2(6) False by (auto split: if_splits)
    next
      case (Some k)
      then have "nodes fs' (cur @ [c]) = Some k" using ext by (simp add: extends_def)
      note same = this
      show ?thesis
      proof (cases k)
        case (Link t)
        show ?thesis
        proof (cases "cs = [] \<and> \<not> follow")
          case True
          then show ?thesis using walked False Some same Link by simp
        next
          case ne: False
          then have fuel: "fuel \<noteq> 0" using walked False Some Link by (auto split: if_splits)
          then show ?thesis
            using 2(3) [OF False Some Link ne fuel refl ext _ 2(6)] walked False Some same Link ne by (auto simp: Let_def)
        qed
      qed (use 2(2) [OF False Some _ ext _ 2(6)] walked False Some same in \<open>auto split: if_splits\<close>)
    qed
  qed
qed simp

lemma node_at_extends: "extends fs' fs \<Longrightarrow> node_at fs loc = Inr n \<Longrightarrow> node_at fs' loc = Inr n"
  by (auto simp: node_at_def extends_def split: if_splits option.splits)

lemma stat_extends:
  assumes "extends fs' fs" "cwd fs' = cwd fs" "stat fs p = Inr n"
  shows "stat fs' p = Inr n"
  using assms walk_extends node_at_extends unfolding stat_def resolve_def rbind_eq_Inr by (metis (no_types, lifting))

lemma read_bytes_extends:
  "extends fs' fs \<Longrightarrow> cwd fs' = cwd fs \<Longrightarrow> read_bytes fs p = Inr bs \<Longrightarrow> read_bytes fs' p = Inr bs"
  by (auto simp: read_bytes_def rbind_eq_Inr dest: stat_extends)

end
