(* ===== verification/Stage_Complete.thy ===== *)
theory Stage_Complete
  imports Written_Text Plain_Dirs
begin

text \<open>
  The other direction for \<open>stage-candidate.py\<close>: when the inputs are complete and consistent and
  nobody interferes, staging succeeds, and the output holds exactly the verified files and an
  inventory of them.
\<close>

subsection \<open>Inputs in one state\<close>

definition digests :: "fsys \<Rightarrow> ppath \<Rightarrow> string dict \<Rightarrow> bool" where
  "digests fs dir entries \<longleftrightarrow> list_all (\<lambda>(name, d). has_digest fs (child dir name) d) entries"

definition products_match :: "fsys \<Rightarrow> ppath \<Rightarrow> string dict \<Rightarrow> bool" where
  "products_match fs dir fds \<longleftrightarrow>
     list_all (\<lambda>name. \<exists>d. map_of fds (product_field name) = Some d \<and> has_digest fs (child dir name) d) products"

text \<open>A complete source directory and the inventory it carries.\<close>

definition complete_sources :: "fsys \<Rightarrow> ppath \<Rightarrow> string dict \<Rightarrow> bool" where
  "complete_sources fs sources entries \<longleftrightarrow>
     read_sources fs (child sources ''SHA256SUMS'') = Inr entries \<and> inventory entries \<and>
     (\<exists>bs. holds fs (child sources ''SHA256SUMS'') bs) \<and>
     set required_sources \<subseteq> set (dict_keys entries) \<and>
     (\<exists>names. iterdir fs sources = Inr names \<and> set names = insert ''SHA256SUMS'' (set (dict_keys entries))) \<and>
     digests fs sources entries"

text \<open>
  The products belong to the sources: the inventory, the artifact directory and the build
  manifest agree on the manifest, the package list and the firmware.
\<close>

definition same_build :: "fsys \<Rightarrow> ppath \<Rightarrow> string dict \<Rightarrow> string dict \<Rightarrow> bool" where
  "same_build fs artifacts entries fds \<longleftrightarrow>
     read_fields ''duplicate manifest field'' fs (child artifacts ''build.manifest'') = Inr fds \<and>
     (\<exists>d. map_of entries ''build.manifest'' = Some d \<and> has_digest fs (child artifacts ''build.manifest'') d) \<and>
     (\<exists>d. map_of entries ''packages.manifest'' = Some d \<and> has_digest fs (child artifacts ''packages.manifest'') d) \<and>
     products_match fs artifacts fds"

text \<open>The same for the copies, and an output that is new.\<close>

definition paired :: "fsys \<Rightarrow> ppath \<Rightarrow> string dict \<Rightarrow> string dict \<Rightarrow> bool" where
  "paired fs output entries fds \<longleftrightarrow>
     digests fs (child output ''sources'') entries \<and> products_match fs output fds \<and>
     (\<exists>d. map_of entries ''build.manifest'' = Some d \<and> has_digest fs (child output ''build.manifest'') d)"

definition separate :: "fsys \<Rightarrow> ppath \<Rightarrow> ppath list \<Rightarrow> bool" where
  "separate fs output roots \<longleftrightarrow> \<not> exists fs output \<and> \<not> symlinked fs output \<and>
     list_all (\<lambda>root. inside fs output root = Inr False) roots"

lemma digests_at: "digests fs dir entries \<Longrightarrow> map_of entries name = Some d \<Longrightarrow> has_digest fs (child dir name) d"
  by (auto simp: digests_def list_all_iff dest: map_of_SomeD)

text \<open>Then the checks are passed.\<close>

lemma runs_expect: "has_digest fs p d \<Longrightarrow> compare d = Inr () \<Longrightarrow> runs (expect quiet p compare) fs () fs"
  unfolding expect_def checksum_Inr [symmetric] by (rule runs_bind [OF runs_look runs_lift])

lemma runs_verify_sources: "digests fs dir entries \<Longrightarrow> runs (verify_sources quiet msg dir entries) fs () fs"
  unfolding verify_sources_def
  by (rule runs_tests) (auto simp: digests_def list_all_iff raise_if_def intro!: runs_expect)

lemma runs_verify_products: "products_match fs dir fds \<Longrightarrow> runs (verify_products quiet msg dir fds) fs () fs"
  unfolding verify_products_def
proof (rule runs_tests)
  fix name assume "products_match fs dir fds" "name \<in> set products"
  then obtain d where "map_of fds (product_field name) = Some d" "has_digest fs (child dir name) d"
    by (auto simp: products_match_def list_all_iff)
  then show "runs (expect quiet (child dir name) (\<lambda>d. raise_if (map_of fds (product_field name) \<noteq> Some d) (ValueError msg))) fs () fs"
    by (simp add: runs_expect)
qed

lemma runs_same_digest:
  "map_of entries name = Some d \<Longrightarrow> has_digest fs (child dir name) d \<Longrightarrow> runs (same_digest quiet msg dir entries name) fs () fs"
  unfolding same_digest_def by (rule runs_expect) (auto simp: dict_get_def raise_if_def)

lemma runs_check_sources:
  assumes "complete_sources fs sources entries"
  shows "runs (check_sources quiet sources) fs entries fs"
proof -
  from assms obtain bs names where c: "holds fs (child sources ''SHA256SUMS'') bs"
    "read_sources fs (child sources ''SHA256SUMS'') = Inr entries" "set required_sources \<subseteq> set (dict_keys entries)"
    "iterdir fs sources = Inr names" "set names = insert ''SHA256SUMS'' (set (dict_keys entries))" "digests fs sources entries"
    by (auto simp: complete_sources_def)
  have d: "checksum fs (child sources ''SHA256SUMS'') = Inr (sha256_hex bs)"
    using c(1) by (auto simp: checksum_Inr has_digest_def)
  show ?thesis
    unfolding check_sources_def
    by (rule runs_bind, rule runs_look, rule d, rule runs_bind, rule runs_look, rule c(2), rule runs_bind [OF runs_lift],
        simp add: c(3), rule runs_bind, rule runs_look, rule c(4), rule runs_bind [OF runs_lift], simp add: c(5),
        rule runs_bind [OF runs_verify_sources [OF c(6)] runs_lift], rule refl)
qed

lemma runs_check_artifacts:
  assumes "same_build fs artifacts entries fds"
  shows "runs (check_artifacts quiet artifacts entries) fs fds fs"
proof -
  from assms obtain b p where c: "map_of entries ''build.manifest'' = Some b" "has_digest fs (child artifacts ''build.manifest'') b"
    "read_fields ''duplicate manifest field'' fs (child artifacts ''build.manifest'') = Inr fds" "products_match fs artifacts fds"
    "map_of entries ''packages.manifest'' = Some p" "has_digest fs (child artifacts ''packages.manifest'') p"
    by (auto simp: same_build_def)
  show ?thesis
    unfolding check_artifacts_def
    by (rule runs_bind [OF runs_same_digest [OF c(1,2)]], rule runs_bind, rule runs_look, rule c(3),
        rule runs_bind [OF runs_verify_products [OF c(4)]], rule runs_bind [OF runs_same_digest [OF c(5,6)] runs_lift], rule refl)
qed

lemma runs_check_copies: "paired fs output entries fds \<Longrightarrow> runs (check_copies quiet output entries fds) fs () fs"
  unfolding check_copies_def paired_def
  by (elim conjE exE) (rule runs_bind [OF runs_verify_sources runs_bind [OF runs_verify_products runs_same_digest]])

lemma runs_outside: "inside fs output root = Inr False \<Longrightarrow> runs (outside quiet output root) fs () fs"
  unfolding outside_def inside_def rbind_eq_Inr
  by (elim exE conjE, rule runs_bind [OF runs_look], assumption, rule runs_bind [OF runs_look], assumption, rule runs_lift) simp

subsection \<open>Copying into a fresh directory\<close>

lemma for_each_total: "(\<And>x s. x \<in> set xs \<Longrightarrow> \<exists>s'. f s x = Inr s') \<Longrightarrow> \<exists>t. for_each f s xs = Inr t"
proof (induction xs arbitrary: s)
  case (Cons x xs)
  then obtain s' where "f s x = Inr s'" by fastforce
  with Cons show ?case by simp
qed simp

lemma copy2_child:
  assumes "real_dir fs a" "real_dir fs b" "n \<noteq> ''..''" "nodes fs (a @ [n]) = Some (File m bs)" "nodes fs (b @ [n]) = None"
  shows "\<exists>fs'. (if is_dir fs (child (at a) n) then f fs n else copy2 (at a) (at b) fs n) = Inr fs' \<and> nodes fs' = (nodes fs)(b @ [n] \<mapsto> File m bs) \<and> umask fs' = umask fs"
proof -
  let ?fs = "fs_put (b @ [n]) (File (perm_for fs 438) bs) fs"
  have grows: "extends ?fs fs" using assms(5) by (rule extends_put)
  note dirs = extends_real_dir [OF grows assms(1)] extends_real_dir [OF grows assms(2)]
  have "nodes ?fs (a @ [n]) = Some (File m bs)" using assms(4,5) by auto
  then have "stat ?fs (at (a @ [n])) = Inr (File m bs)" using dirs assms(3) by (simp add: stat_child del: nodes_fs_put)
  moreover have "\<not> is_dir fs (child (at a) n)"
    using assms(1,3,4) by (simp add: is_dir_def stat_child)
  moreover have "chmod ?fs (at (b @ [n])) m = Inr (fs_put (b @ [n]) (File m bs) ?fs)"
    using dirs assms(3) by (intro chmod_child) auto
  ultimately show ?thesis
    using copyfile_child [OF assms(1,3,4,2,3,5)] by (simp add: copy2_def st_perm_def fun_eq_iff)
qed

lemma copy2_loop:
  "real_dir fs a \<Longrightarrow> real_dir fs b \<Longrightarrow> distinct names \<Longrightarrow>
   (\<And>n. n \<in> set names \<Longrightarrow> n \<noteq> ''..'' \<and> (\<exists>m bs. nodes fs (a @ [n]) = Some (File m bs)) \<and> nodes fs (b @ [n]) = None) \<Longrightarrow>
   \<exists>fs'. for_each (\<lambda>fs n. if is_dir fs (child (at a) n) then f fs n else copy2 (at a) (at b) fs n) fs names = Inr fs' \<and> umask fs' = umask fs \<and>
     nodes fs' = (\<lambda>l. if l \<in> (\<lambda>n. b @ [n]) ` set names then nodes fs (a @ [last l]) else nodes fs l)"
proof (induction names arbitrary: fs)
  case (Cons n names)
  from Cons.prems(4) [of n] obtain m bs where n: "n \<noteq> ''..''" "nodes fs (a @ [n]) = Some (File m bs)" "nodes fs (b @ [n]) = None"
    by auto
  from copy2_child [OF Cons.prems(1,2) n] obtain fs1 where fs1:
    "(if is_dir fs (child (at a) n) then f fs n else copy2 (at a) (at b) fs n) = Inr fs1"
    "nodes fs1 = (nodes fs)(b @ [n] \<mapsto> File m bs)" "umask fs1 = umask fs" by blast
  have grows: "extends fs1 fs" using n(3) fs1(2) by (auto simp: extends_def)
  have other: "a @ [n'] \<noteq> b @ [n]" if "n' \<in> set (n # names)" for n'
    using Cons.prems(4) [OF that] n(3) by auto
  have step: "n' \<noteq> ''..'' \<and> (\<exists>m bs. nodes fs1 (a @ [n']) = Some (File m bs)) \<and> nodes fs1 (b @ [n']) = None" if "n' \<in> set names" for n'
  proof -
    have "n' \<noteq> n" using that Cons.prems(3) by auto
    then show ?thesis using Cons.prems(4) [of n'] other [of n'] that fs1(2) by auto
  qed
  from Cons.IH [OF extends_real_dir [OF grows Cons.prems(1)] extends_real_dir [OF grows Cons.prems(2)] _ step] Cons.prems(3)
  obtain fs' where fs':
    "for_each (\<lambda>fs n. if is_dir fs (child (at a) n) then f fs n else copy2 (at a) (at b) fs n) fs1 names = Inr fs'" "umask fs' = umask fs1"
    "nodes fs' = (\<lambda>l. if l \<in> (\<lambda>n. b @ [n]) ` set names then nodes fs1 (a @ [last l]) else nodes fs1 l)" by auto
  have "nodes fs' = (\<lambda>l. if l \<in> (\<lambda>n. b @ [n]) ` set (n # names) then nodes fs (a @ [last l]) else nodes fs l)"
    using fs1(2) n(2) other unfolding fs'(3) by (intro ext) auto
  then show ?case using fs1 fs' by simp
qed simp

definition refile :: "int \<Rightarrow> node option \<Rightarrow> node option" where
  "refile m n = (case n of Some (File _ bs) \<Rightarrow> Some (File m bs) | _ \<Rightarrow> n)"

lemma copy_file_loop:
  "real_dir fs a \<Longrightarrow> real_dir fs b \<Longrightarrow> distinct names \<Longrightarrow>
   (\<And>n. n \<in> set names \<Longrightarrow> n \<noteq> ''..'' \<and> (\<exists>m bs. nodes fs (a @ [n]) = Some (File m bs)) \<and> nodes fs (b @ [n]) = None) \<Longrightarrow>
   \<exists>fs'. for_each (copy_file (at a) (at b)) fs names = Inr fs' \<and> umask fs' = umask fs \<and>
     nodes fs' = (\<lambda>l. if l \<in> (\<lambda>n. b @ [n]) ` set names then refile (perm_for fs 438) (nodes fs (a @ [last l])) else nodes fs l)"
proof (induction names arbitrary: fs)
  case (Cons n names)
  from Cons.prems(4) [of n] obtain m bs where n: "n \<noteq> ''..''" "nodes fs (a @ [n]) = Some (File m bs)" "nodes fs (b @ [n]) = None"
    by auto
  let ?fs1 = "fs_put (b @ [n]) (File (perm_for fs 438) bs) fs"
  have fs1: "copy_file (at a) (at b) fs n = Inr ?fs1"
    using copyfile_child [OF Cons.prems(1) n(1,2) Cons.prems(2) n(1,3)] by (simp add: copy_file_def)
  have grows: "extends ?fs1 fs" using n(3) by (rule extends_put)
  have other: "a @ [n'] \<noteq> b @ [n]" if "n' \<in> set (n # names)" for n'
    using Cons.prems(4) [OF that] n(3) by auto
  have step: "n' \<noteq> ''..'' \<and> (\<exists>m bs. nodes ?fs1 (a @ [n']) = Some (File m bs)) \<and> nodes ?fs1 (b @ [n']) = None" if "n' \<in> set names" for n'
  proof -
    have "n' \<noteq> n" using that Cons.prems(3) by auto
    then show ?thesis using Cons.prems(4) [of n'] other [of n'] that by auto
  qed
  from Cons.IH [OF extends_real_dir [OF grows Cons.prems(1)] extends_real_dir [OF grows Cons.prems(2)] _ step] Cons.prems(3)
  obtain fs' where fs': "for_each (copy_file (at a) (at b)) ?fs1 names = Inr fs'" "umask fs' = umask ?fs1"
    "nodes fs' = (\<lambda>l. if l \<in> (\<lambda>n. b @ [n]) ` set names then refile (perm_for ?fs1 438) (nodes ?fs1 (a @ [last l])) else nodes ?fs1 l)"
    by auto
  have "nodes fs' = (\<lambda>l. if l \<in> (\<lambda>n. b @ [n]) ` set (n # names) then refile (perm_for fs 438) (nodes fs (a @ [last l])) else nodes fs l)"
    using n(2) other unfolding fs'(3) by (intro ext) (auto simp: refile_def)
  then show ?case using fs1 fs' by simp
qed simp

subsection \<open>Staging succeeds\<close>

text \<open>
  The layout the scripts are run with: absolute real directories, the output a new name in
  one, and not inside an input.
\<close>

definition clear_layout :: "fsys \<Rightarrow> string list \<Rightarrow> string list \<Rightarrow> string list \<Rightarrow> bool" where
  "clear_layout fs a s out \<longleftrightarrow>
     fresh_out fs out \<and> real_dir fs a \<and> real_dir fs s \<and> \<not> is_relative_to out a \<and> \<not> is_relative_to out s"

lemma file_name_not_parent: "\<not> fullmatch file_name ''..''"
  by code_simp

lemma file_name_component: "fullmatch file_name n \<Longrightarrow> n \<noteq> ''..''"
  using file_name_not_parent by auto

lemma clear_layout_separate:
  assumes "clear_layout fs a s out"
  shows "separate fs (at out) [at a, at s]"
proof -
  obtain o' c where out: "out = o' @ [c]" using assms by (cases out rule: rev_cases) (auto simp: clear_layout_def fresh_out_def)
  then have o: "real_dir fs o'" "c \<noteq> ''..''" "no_link fs (o' @ [c])" "nodes fs (o' @ [c]) = None"
    using assms by (auto simp: clear_layout_def fresh_out_def)
  have "inside fs (at out) (at x) = Inr (is_relative_to out x)" if "real_dir fs x" for x
    using py_resolve_child [OF o(1-3)] py_resolve_at [OF that] out by (simp add: inside_def)
  then show ?thesis
    using assms o out by (simp add: separate_def clear_layout_def fresh_out_def exists_child symlinked_child)
qed

lemma copytree_fresh:
  assumes "real_dir fs s" "real_dir fs o'" "c \<noteq> ''..''" "nodes fs (o' @ [c]) = None" "o' @ [c] \<noteq> s"
    and files: "\<And>n. n \<in> set (children fs s) \<Longrightarrow> n \<noteq> ''..'' \<and> (\<exists>m bs. nodes fs (s @ [n]) = Some (File m bs)) \<and> nodes fs ((o' @ [c]) @ [n]) = None"
  shows "\<exists>fs' m. copytree (Suc k) fs (at s) (at (o' @ [c])) = Inr fs' \<and> umask fs' = umask fs \<and>
    nodes fs' = (\<lambda>l. if l = o' @ [c] then Some (Dir m)
      else if l \<in> (\<lambda>n. (o' @ [c]) @ [n]) ` set (children fs s) then nodes fs (s @ [last l]) else nodes fs l)"
proof -
  let ?d = "o' @ [c]"
  let ?fs1 = "fs_put ?d (Dir (perm_for fs 511)) fs"
  have grows: "extends ?fs1 fs" using assms(4) by (rule extends_put)
  note dirs = extends_real_dir [OF grows assms(1)] extends_real_dir [OF grows assms(2)]
  have d: "real_dir ?fs1 ?d" using dirs(2) assms(3) by simp
  have ne: "s @ [n] \<noteq> ?d" if "n \<in> set (children fs s)" for n using files [OF that] assms(4) by auto
  have step: "n \<noteq> ''..'' \<and> (\<exists>m bs. nodes ?fs1 (s @ [n]) = Some (File m bs)) \<and> nodes ?fs1 (?d @ [n]) = None"
    if "n \<in> set (children fs s)" for n using files [OF that] ne [OF that] by simp
  from copy2_loop [where f = "\<lambda>fs n. copytree k fs (child (at s) n) (child (at ?d) n)", OF dirs(1) d distinct_children step] obtain fs2 where fs2:
    "for_each (\<lambda>fs n. if is_dir fs (child (at s) n) then copytree k fs (child (at s) n) (child (at ?d) n)
       else copy2 (at s) (at ?d) fs n) ?fs1 (children fs s) = Inr fs2" "umask fs2 = umask ?fs1"
    "nodes fs2 = (\<lambda>l. if l \<in> (\<lambda>n. ?d @ [n]) ` set (children fs s) then nodes ?fs1 (s @ [last l]) else nodes ?fs1 l)" by blast
  have "extends fs2 ?fs1"
  proof (rule extendsI)
    fix l assume l: "nodes ?fs1 l \<noteq> None"
    have "l \<notin> (\<lambda>n. ?d @ [n]) ` set (children fs s)"
    proof
      assume "l \<in> (\<lambda>n. ?d @ [n]) ` set (children fs s)"
      then obtain n where "n \<in> set (children fs s)" "l = ?d @ [n]" by (rule imageE)
      with l step [of n] show False by simp
    qed
    then show "nodes fs2 l = nodes ?fs1 l" unfolding fs2(3) by (simp only: if_False)
  qed
  note dirs2 = this [THEN extends_real_dir]
  from stat_real [OF dirs2 [OF dirs(1)]] obtain m where m: "stat fs2 (at s) = Inr (Dir m)" by blast
  have "resolve fs2 True (at ?d) = Inr ?d" using resolve_at [OF dirs2 [OF d]] .
  moreover have "nodes fs2 ?d = Some (Dir (perm_for fs 511))" unfolding fs2(3) by auto
  ultimately have "chmod fs2 (at ?d) m = Inr (fs_put ?d (Dir m) fs2)" by (simp add: chmod_def)
  then have "copytree (Suc k) fs (at s) (at ?d) = Inr (fs_put ?d (Dir m) fs2)"
    using iterdir_at [OF assms(1)] mkdir_child [OF assms(2-4)] fs2(1) m by (simp add: copytree.simps(2) st_perm_def del: child_at)
  moreover have "nodes (fs_put ?d (Dir m) fs2) = (\<lambda>l. if l = ?d then Some (Dir m)
      else if l \<in> (\<lambda>n. ?d @ [n]) ` set (children fs s) then nodes fs (s @ [last l]) else nodes fs l)"
  proof
    fix l
    have "nodes ?fs1 (s @ [last l]) = nodes fs (s @ [last l])" if "l \<in> (\<lambda>n. ?d @ [n]) ` set (children fs s)"
    proof -
      from that obtain n where "n \<in> set (children fs s)" "l = ?d @ [n]" by (rule imageE)
      then show ?thesis using ne [of n] by auto
    qed
    then show "nodes (fs_put ?d (Dir m) fs2) l = (if l = ?d then Some (Dir m)
      else if l \<in> (\<lambda>n. ?d @ [n]) ` set (children fs s) then nodes fs (s @ [last l]) else nodes fs l)"
      unfolding nodes_fs_put fs2(3) by simp
  qed
  ultimately show ?thesis using fs2(2) by auto
qed

lemma COPY_DEPTH_Suc: "COPY_DEPTH = Suc 499"
  by (simp add: COPY_DEPTH_def)

lemma has_digest_child:
  "real_dir fs loc \<Longrightarrow> c \<noteq> ''..'' \<Longrightarrow> has_digest fs (at (loc @ [c])) d \<longleftrightarrow> (\<exists>m bs. nodes fs (loc @ [c]) = Some (File m bs) \<and> d = sha256_hex bs)"
  by (auto simp: has_digest_def holds_child)

text \<open>What the output holds: a directory with the sources, and the products next to it.\<close>

definition staged :: "fsys \<Rightarrow> fsys \<Rightarrow> string list \<Rightarrow> string list \<Rightarrow> string list \<Rightarrow> string list \<Rightarrow> bool" where
  "staged fs' fs a s out names \<longleftrightarrow>
     (\<exists>mo ms. nodes fs' = (\<lambda>l.
        if l = out then Some (Dir mo)
        else if l = out @ [''sources''] then Some (Dir ms)
        else if l \<in> (\<lambda>n. out @ [n]) ` set (products @ [''build.manifest'']) then refile (perm_for fs 438) (nodes fs (a @ [last l]))
        else if l \<in> (\<lambda>n. out @ [''sources'', n]) ` set names then nodes fs (s @ [last l])
        else nodes fs l))"

lemma layout_apart:
  assumes "clear_layout fs a s out"
  shows "nodes fs (out @ rest) = None" "s @ [n] \<noteq> out" "a @ [n] \<noteq> out" "out @ r \<noteq> s" "out @ r \<noteq> a"
    "real_dir fs a" "real_dir fs s" "mkdir_parents False fs (at out) = Inr (fs_put out (Dir (perm_for fs 511)) fs)"
    "extends (fs_put out (Dir (perm_for fs 511)) fs) fs" "real_dir (fs_put out (Dir (perm_for fs 511)) fs) out"
proof -
  obtain o' c where out: "out = o' @ [c]" using assms by (cases out rule: rev_cases) (auto simp: clear_layout_def fresh_out_def)
  have c: "real_dir fs o'" "c \<noteq> ''..''" "nodes fs (o' @ [c]) = None" "wf_tree fs"
    "\<not> is_relative_to (o' @ [c]) s" "\<not> is_relative_to (o' @ [c]) a"
    using assms out by (auto simp: clear_layout_def fresh_out_def)
  show dirs: "real_dir fs a" "real_dir fs s" using assms by (simp_all add: clear_layout_def)
  show below: "nodes fs (out @ rest) = None" for rest using wf_tree_below [OF c(4) _ c(3), of rest] out by simp
  show "s @ [n] \<noteq> out" "a @ [n] \<noteq> out"
    using c(5,6) out by (auto simp: is_relative_to_def dest: arg_cong [of _ _ "take (length s)"] arg_cong [of _ _ "take (length a)"])
  have no_dir: "\<not> real_dir fs (out @ r)" for r
    using below [of r] out unfolding real_dir_def by (auto dest: spec [of _ "length (out @ r)"])
  show "out @ r \<noteq> s" "out @ r \<noteq> a" using no_dir dirs by metis+
  show "mkdir_parents False fs (at out) = Inr (fs_put out (Dir (perm_for fs 511)) fs)" using mkdir_child [OF c(1-3)] out by simp
  show ext: "extends (fs_put out (Dir (perm_for fs 511)) fs) fs" using c(3) out by (intro extends_put) simp
  show "real_dir (fs_put out (Dir (perm_for fs 511)) fs) out" using extends_real_dir [OF ext c(1)] c(2) out by simp
qed

text \<open>The sources, below the new output directory.\<close>

lemma copy_sources_fresh:
  assumes lay: "clear_layout fs a s out"
    and files: "\<And>n. n \<in> set (children fs s) \<Longrightarrow> n \<noteq> ''..'' \<and> (\<exists>m bs. nodes fs (s @ [n]) = Some (File m bs))"
  defines "fs1 \<equiv> fs_put out (Dir (perm_for fs 511)) fs"
  shows "\<exists>fs2 m. copytree COPY_DEPTH fs1 (at s) (at (out @ [''sources''])) = Inr fs2 \<and> umask fs2 = umask fs \<and> extends fs2 fs1 \<and>
    nodes fs2 = (\<lambda>l. if l = out @ [''sources''] then Some (Dir m)
      else if l \<in> (\<lambda>n. out @ [''sources'', n]) ` set (children fs s) then nodes fs (s @ [last l]) else nodes fs1 l)"
proof -
  note ap = layout_apart [OF lay, folded fs1_def]
  let ?d = "out @ [''sources'']"
  have old: "nodes fs1 (out @ x # r) = None" for x r using ap(1) [of "x # r"] by (simp add: fs1_def)
  have ch: "set (children fs1 s) = set (children fs s)" using ap(2) by (auto simp: set_children fs1_def)
  have "nodes fs1 ?d = None" "?d \<noteq> s" using old ap(4) by simp_all
  moreover have "n \<noteq> ''..'' \<and> (\<exists>m bs. nodes fs1 (s @ [n]) = Some (File m bs)) \<and> nodes fs1 (?d @ [n]) = None"
    if "n \<in> set (children fs1 s)" for n
    using files [of n] that ch ap(2) old by (auto simp: fs1_def)
  ultimately obtain fs2 m where fs2: "copytree COPY_DEPTH fs1 (at s) (at ?d) = Inr fs2" "umask fs2 = umask fs1"
    "nodes fs2 = (\<lambda>l. if l = ?d then Some (Dir m)
      else if l \<in> (\<lambda>n. ?d @ [n]) ` set (children fs1 s) then nodes fs1 (s @ [last l]) else nodes fs1 l)"
    using copytree_fresh [where k = 499, folded COPY_DEPTH_Suc, OF extends_real_dir [OF ap(9,7)] ap(10), of "''sources''"] by auto
  have sn: "nodes fs1 (s @ [last l]) = nodes fs (s @ [last l])" for l using ap(2) by (simp add: fs1_def)
  have n2: "nodes fs2 = (\<lambda>l. if l = ?d then Some (Dir m)
      else if l \<in> (\<lambda>n. out @ [''sources'', n]) ` set (children fs s) then nodes fs (s @ [last l]) else nodes fs1 l)"
    unfolding fs2(3) ch by (simp only: sn append_assoc append_Cons append_Nil)
  have "extends fs2 fs1"
  proof (rule extendsI)
    fix l assume l: "nodes fs1 l \<noteq> None"
    then have "l \<noteq> ?d" "l \<notin> (\<lambda>n. out @ [''sources'', n]) ` set (children fs s)" using old by auto
    then show "nodes fs2 l = nodes fs1 l" unfolding n2 by (simp only: if_False)
  qed
  moreover have "umask fs2 = umask fs" using fs2(2) by (simp add: fs1_def)
  ultimately show ?thesis using fs2(1) n2 by blast
qed

lemma copy_pair_fresh:
  assumes lay: "clear_layout fs a s out"
    and files: "\<And>n. n \<in> set (children fs s) \<Longrightarrow> n \<noteq> ''..'' \<and> (\<exists>m bs. nodes fs (s @ [n]) = Some (File m bs))"
    and prods: "\<And>n. n \<in> set (products @ [''build.manifest'']) \<Longrightarrow> \<exists>m bs. nodes fs (a @ [n]) = Some (File m bs)"
  shows "\<exists>fs'. runs (copy_pair quiet (at a) (at s) (at out)) fs () fs' \<and> umask fs' = umask fs \<and> staged fs' fs a s out (children fs s)"
proof -
  let ?fs1 = "fs_put out (Dir (perm_for fs 511)) fs" and ?d = "out @ [''sources'']" and ?names = "products @ [''build.manifest'']"
  note ap = layout_apart [OF lay]
  from copy_sources_fresh [OF lay files] obtain fs2 m where fs2: "copytree COPY_DEPTH ?fs1 (at s) (at ?d) = Inr fs2" "umask fs2 = umask fs"
    "extends fs2 ?fs1" "nodes fs2 = (\<lambda>l. if l = ?d then Some (Dir m)
      else if l \<in> (\<lambda>n. out @ [''sources'', n]) ` set (children fs s) then nodes fs (s @ [last l]) else nodes ?fs1 l)" by blast
  have at_a: "nodes fs2 (a @ [n]) = nodes fs (a @ [n])" if n: "n \<in> set ?names" for n
  proof -
    obtain v where v: "nodes fs (a @ [n]) = Some v" using prods [OF n] by blast
    then have "nodes ?fs1 (a @ [n]) = Some v" using ap(3) by simp
    then show ?thesis using fs2(3) v by (simp add: extends_def)
  qed
  have n_ne: "n \<noteq> ''sources''" "n \<noteq> ''..''" if "n \<in> set ?names" for n using that by (auto simp: products_def)
  have "\<exists>fs3. for_each (copy_file (at a) (at out)) fs2 ?names = Inr fs3 \<and> umask fs3 = umask fs2 \<and>
     nodes fs3 = (\<lambda>l. if l \<in> (\<lambda>n. out @ [n]) ` set ?names then refile (perm_for fs2 438) (nodes fs2 (a @ [last l])) else nodes fs2 l)"
  proof (rule copy_file_loop)
    show "real_dir fs2 a" "real_dir fs2 out" using ap(6,9,10) fs2(3) by (auto intro: extends_real_dir)
    show "distinct ?names" by (simp add: products_def)
    show "n \<noteq> ''..'' \<and> (\<exists>m bs. nodes fs2 (a @ [n]) = Some (File m bs)) \<and> nodes fs2 (out @ [n]) = None" if n: "n \<in> set ?names" for n
    proof -
      have "nodes fs2 (out @ [n]) = None" using n_ne [OF n] ap(1) [of "[n]"] unfolding fs2(4) by auto
      then show ?thesis using n_ne [OF n] prods [OF n] at_a [OF n] by auto
    qed
  qed
  then obtain fs3 where fs3: "for_each (copy_file (at a) (at out)) fs2 ?names = Inr fs3"
    "nodes fs3 = (\<lambda>l. if l \<in> (\<lambda>n. out @ [n]) ` set ?names then refile (perm_for fs2 438) (nodes fs2 (a @ [last l])) else nodes fs2 l)"
    "umask fs3 = umask fs2" by blast
  have perm: "perm_for fs2 438 = perm_for fs 438" using fs2(2) by (simp add: perm_for_def)
  have eq: "nodes fs3 = (\<lambda>l. if l = out then Some (Dir (perm_for fs 511))
        else if l = ?d then Some (Dir m)
        else if l \<in> (\<lambda>n. out @ [n]) ` set ?names then refile (perm_for fs 438) (nodes fs (a @ [last l]))
        else if l \<in> (\<lambda>n. out @ [''sources'', n]) ` set (children fs s) then nodes fs (s @ [last l])
        else nodes fs l)"
  proof
    fix l show "nodes fs3 l = (if l = out then Some (Dir (perm_for fs 511))
        else if l = ?d then Some (Dir m)
        else if l \<in> (\<lambda>n. out @ [n]) ` set ?names then refile (perm_for fs 438) (nodes fs (a @ [last l]))
        else if l \<in> (\<lambda>n. out @ [''sources'', n]) ` set (children fs s) then nodes fs (s @ [last l])
        else nodes fs l)"
    proof (cases "l \<in> (\<lambda>n. out @ [n]) ` set ?names")
    case True
    then obtain n where n: "n \<in> set ?names" "l = out @ [n]" by blast
    have "l \<noteq> out" "l \<noteq> ?d" "last l = n" using n n_ne by auto
    with True at_a [OF n(1)] perm show ?thesis unfolding fs3(2) by (simp only: if_True if_False)
  next
    case False
    then have "nodes fs3 l = nodes fs2 l" unfolding fs3(2) by simp
    with False show ?thesis by (auto simp: fs2(4))
    qed
  qed
  have run: "runs (copy_pair quiet (at a) (at s) (at out)) fs () fs3"
    unfolding copy_pair_def child_at
    by (rule runs_bind [OF runs_act [where f = "\<lambda>fs. mkdir_parents False fs (at out)", OF ap(8)]],
        rule runs_bind [OF runs_act [where f = "\<lambda>fs. copytree COPY_DEPTH fs (at s) (at ?d)", OF fs2(1)]],
        rule runs_changes [OF fs3(1)])
  have "staged fs3 fs a s out (children fs s)" unfolding staged_def using eq by blast
  moreover have "umask fs3 = umask fs" using fs2(2) fs3(3) by simp
  ultimately show ?thesis using run by blast
qed

text \<open>The staged directory passes its own checks.\<close>

lemma staged_nodes:
  assumes "staged fs' fs a s out names"
  shows "\<exists>m. nodes fs' out = Some (Dir m)" "\<exists>m. nodes fs' (out @ [''sources'']) = Some (Dir m)"
    "n \<in> set (products @ [''build.manifest'']) \<Longrightarrow> nodes fs' (out @ [n]) = refile (perm_for fs 438) (nodes fs (a @ [n]))"
    "n \<in> set names \<Longrightarrow> nodes fs' (out @ [''sources'', n]) = nodes fs (s @ [n])"
    "take (length out) l \<noteq> out \<Longrightarrow> nodes fs' l = nodes fs l"
proof -
  from assms obtain mo ms where eq: "nodes fs' = (\<lambda>l.
        if l = out then Some (Dir mo)
        else if l = out @ [''sources''] then Some (Dir ms)
        else if l \<in> (\<lambda>n. out @ [n]) ` set (products @ [''build.manifest'']) then refile (perm_for fs 438) (nodes fs (a @ [last l]))
        else if l \<in> (\<lambda>n. out @ [''sources'', n]) ` set names then nodes fs (s @ [last l])
        else nodes fs l)" unfolding staged_def by blast
  show "\<exists>m. nodes fs' out = Some (Dir m)" "\<exists>m. nodes fs' (out @ [''sources'']) = Some (Dir m)"
    unfolding eq by simp_all
  show "nodes fs' (out @ [n]) = refile (perm_for fs 438) (nodes fs (a @ [n]))" if "n \<in> set (products @ [''build.manifest''])"
  proof -
    have "out @ [n] \<in> (\<lambda>n. out @ [n]) ` set (products @ [''build.manifest''])" using that by (rule imageI)
    moreover have "n \<noteq> ''sources''" using that by (auto simp: products_def)
    ultimately show ?thesis unfolding eq by (simp only: if_True) simp
  qed
  show "nodes fs' (out @ [''sources'', n]) = nodes fs (s @ [n])" if "n \<in> set names"
  proof -
    have "out @ [''sources'', n] \<in> (\<lambda>n. out @ [''sources'', n]) ` set names" using that by (rule imageI)
    moreover have "out @ [''sources'', n] \<notin> (\<lambda>n. out @ [n]) ` set (products @ [''build.manifest''])" by auto
    ultimately show ?thesis unfolding eq by (simp only: if_True if_False) simp
  qed
  show "nodes fs' l = nodes fs l" if "take (length out) l \<noteq> out"
  proof -
    have "l \<noteq> out @ x" for x using that by auto
    then show ?thesis unfolding eq by (auto simp: image_iff)
  qed
qed

lemma staged_below:
  assumes "staged fs' fs a s out names" "nodes fs' (out @ rel) \<noteq> None" "rel \<noteq> []" "\<And>r. nodes fs (out @ r) = None"
  shows "rel = [''sources''] \<or> (\<exists>n \<in> set (products @ [''build.manifest'']). rel = [n]) \<or> (\<exists>n \<in> set names. rel = [''sources'', n])"
proof (rule ccontr)
  assume n: "\<not> ?thesis"
  from assms(1) obtain mo ms where eq: "nodes fs' = (\<lambda>l.
        if l = out then Some (Dir mo)
        else if l = out @ [''sources''] then Some (Dir ms)
        else if l \<in> (\<lambda>n. out @ [n]) ` set (products @ [''build.manifest'']) then refile (perm_for fs 438) (nodes fs (a @ [last l]))
        else if l \<in> (\<lambda>n. out @ [''sources'', n]) ` set names then nodes fs (s @ [last l])
        else nodes fs l)" unfolding staged_def by blast
  have "out @ rel \<noteq> out" "out @ rel \<noteq> out @ [''sources'']"
    "out @ rel \<notin> (\<lambda>n. out @ [n]) ` set (products @ [''build.manifest''])"
    "out @ rel \<notin> (\<lambda>n. out @ [''sources'', n]) ` set names" using n assms(3) by blast+
  then have "nodes fs' (out @ rel) = nodes fs (out @ rel)" unfolding eq by (simp only: if_False)
  then show False using assms(2,4) by simp
qed

lemma layout_dirs:
  assumes "clear_layout fs a s out"
  shows "real_dir fs a" "real_dir fs s" "nodes fs (out @ r) = None"
  using assms wf_tree_below [of fs out r] by (auto simp: clear_layout_def fresh_out_def)

lemma product_name: "n \<in> set (products @ [''build.manifest'']) \<Longrightarrow> n \<noteq> ''..''"
  by (auto simp: products_def)

lemma source_file:
  assumes "complete_sources fs (at s) entries" and rd: "real_dir fs s" and n: "n \<in> set (children fs s)"
  shows "n \<noteq> ''..'' \<and> (\<exists>m bs. nodes fs (s @ [n]) = Some (File m bs) \<and> (\<forall>d. map_of entries n = Some d \<longrightarrow> d = sha256_hex bs))"
proof (cases "n = ''SHA256SUMS''")
  case True
  moreover have "''SHA256SUMS'' \<notin> set (dict_keys entries)"
    using assms by (auto simp: complete_sources_def inventory_def list_all_iff)
  ultimately show ?thesis
    using assms(1) holds_child [OF rd, of n] by (fastforce simp: complete_sources_def dict_keys_def dest: map_of_key_in_set)
next
  case False
  then have k: "n \<in> set (dict_keys entries)"
    using n assms(1) iterdir_at [OF rd] by (auto simp: complete_sources_def)
  then have "n \<noteq> ''..''"
    using assms(1) by (auto simp: complete_sources_def inventory_def list_all_iff file_name_component)
  moreover from k obtain d where d: "map_of entries n = Some d"
    by (auto simp: dict_keys_def dest: weak_map_of_SomeI)
  moreover have "has_digest fs (at (s @ [n])) d"
    using digests_at [OF _ d, of fs "at s"] assms(1) by (simp add: complete_sources_def)
  ultimately show ?thesis using has_digest_child [OF rd, of n] by auto
qed

lemma artifact_digest:
  "same_build fs (at a) entries fds \<Longrightarrow> n \<in> set (products @ [''build.manifest'']) \<Longrightarrow> \<exists>d. has_digest fs (at (a @ [n])) d"
  by (auto simp: same_build_def products_match_def list_all_iff)

lemma artifact_file:
  assumes "same_build fs (at a) entries fds" "real_dir fs a" "n \<in> set (products @ [''build.manifest''])"
  shows "\<exists>m bs. nodes fs (a @ [n]) = Some (File m bs)"
  using artifact_digest [OF assms(1,3)] has_digest_child [OF assms(2) product_name [OF assms(3)]] by auto

lemma staged_real:
  assumes lay: "clear_layout fs a s out" and st: "staged fs1 fs a s out names"
  shows "real_dir fs1 out" "real_dir fs1 (out @ [''sources''])"
proof -
  obtain o' c where out: "out = o' @ [c]" using lay by (cases out rule: rev_cases) (auto simp: clear_layout_def fresh_out_def)
  have o': "real_dir fs o'" "c \<noteq> ''..''" using lay out by (auto simp: clear_layout_def fresh_out_def)
  have "nodes fs1 (take n o') = nodes fs (take n o')" for n
  proof (rule staged_nodes(5) [OF st])
    have "length (take (length out) (take n o')) < length out" using out by simp
    then show "take (length out) (take n o') \<noteq> out" by (metis less_irrefl)
  qed
  then have "real_dir fs1 o'" using o'(1) by (simp add: real_dir_def)
  then show "real_dir fs1 out" using o'(2) out staged_nodes(1) [OF st] by simp
  then show "real_dir fs1 (out @ [''sources''])" using staged_nodes(2) [OF st] by simp
qed

lemma staged_product_digest:
  assumes lay: "clear_layout fs a s out" and st: "staged fs1 fs a s out names"
    and n: "n \<in> set (products @ [''build.manifest''])" and dig: "has_digest fs (at (a @ [n])) d"
  shows "has_digest fs1 (at (out @ [n])) d"
proof -
  from dig obtain m bs where "nodes fs (a @ [n]) = Some (File m bs)" "d = sha256_hex bs"
    using has_digest_child [OF layout_dirs(1) [OF lay] product_name [OF n]] by auto
  then show ?thesis
    using has_digest_child [OF staged_real(1) [OF lay st] product_name [OF n]] staged_nodes(3) [OF st n]
    by (auto simp: refile_def)
qed

lemma staged_source_digest:
  assumes lay: "clear_layout fs a s out" and st: "staged fs1 fs a s out (children fs s)"
    and src: "complete_sources fs (at s) entries" and n: "n \<in> set (children fs s)"
  shows "\<exists>bs. has_digest fs1 (at ((out @ [''sources'']) @ [n])) (sha256_hex bs) \<and> (\<forall>d. map_of entries n = Some d \<longrightarrow> d = sha256_hex bs)"
proof -
  from source_file [OF src layout_dirs(2) [OF lay] n] obtain m bs where
    "n \<noteq> ''..''" "nodes fs (s @ [n]) = Some (File m bs)" "\<forall>d. map_of entries n = Some d \<longrightarrow> d = sha256_hex bs" by blast
  then show ?thesis
    using has_digest_child [OF staged_real(2) [OF lay st]] staged_nodes(4) [OF st n] by auto
qed

lemma staged_paired:
  assumes lay: "clear_layout fs a s out" and st: "staged fs1 fs a s out (children fs s)"
    and src: "complete_sources fs (at s) entries" and art: "same_build fs (at a) entries fds"
  shows "paired fs1 (at out) entries fds"
proof -
  have names: "set (children fs s) = insert ''SHA256SUMS'' (set (dict_keys entries))"
    using src iterdir_at [OF layout_dirs(2) [OF lay]] by (auto simp: complete_sources_def)
  have "has_digest fs1 (at ((out @ [''sources'']) @ [n])) d" if "map_of entries n = Some d" for n d
  proof -
    have "n \<in> set (children fs s)" using that names by (auto simp: dict_keys_def dest: map_of_key_in_set)
    from staged_source_digest [OF lay st src this] that show ?thesis by auto
  qed
  moreover have "distinct (dict_keys entries)" using src by (simp add: complete_sources_def inventory_def)
  ultimately have "digests fs1 (child (at out) ''sources'') entries"
    by (auto simp: digests_def list_all_iff map_of_dict)
  moreover have "products_match fs1 (at out) fds"
    using art staged_product_digest [OF lay st] by (fastforce simp: same_build_def products_match_def list_all_iff)
  moreover have "\<exists>d. map_of entries ''build.manifest'' = Some d \<and> has_digest fs1 (child (at out) ''build.manifest'') d"
    using art staged_product_digest [OF lay st] by (fastforce simp: same_build_def)
  ultimately show ?thesis by (simp add: paired_def)
qed

text \<open>The file a name in the output is a copy of, the names, and their inventory.\<close>

definition original :: "fsys \<Rightarrow> string list \<Rightarrow> string list \<Rightarrow> string list \<Rightarrow> node option" where
  "original fs a s rel = (case rel of [n] \<Rightarrow> nodes fs (a @ [n]) | _ \<Rightarrow> nodes fs (s @ [last rel]))"

definition file_data :: "node option \<Rightarrow> bytes" where
  "file_data n = (case n of Some (File _ bs) \<Rightarrow> bs | _ \<Rightarrow> [])"

definition pair_names :: "string list \<Rightarrow> string list list" where
  "pair_names names = map (\<lambda>n. [n]) (products @ [''build.manifest'']) @ map (\<lambda>n. [''sources'', n]) names"

definition pair_listing :: "fsys \<Rightarrow> string list \<Rightarrow> string list \<Rightarrow> string list \<Rightarrow> string" where
  "pair_listing fs a s names =
     concat (map (\<lambda>rel. sum_line (sha256_hex (file_data (original fs a s rel))) (join ''/'' rel)) (sort (pair_names names)))"

lemma pair_names_distinct: "distinct names \<Longrightarrow> distinct (pair_names names)"
  by (auto simp: pair_names_def products_def distinct_map inj_on_def)

lemma pair_names_proper: "[''sources''] \<notin> set (pair_names names)"
  by (simp add: pair_names_def products_def image_iff)

lemma staged_name_set:
  assumes lay: "clear_layout fs a s out" and st: "staged fs1 fs a s out names"
    and files: "\<And>n. n \<in> set names \<Longrightarrow> nodes fs (s @ [n]) \<noteq> None"
      "\<And>n. n \<in> set (products @ [''build.manifest'']) \<Longrightarrow> \<exists>m bs. nodes fs (a @ [n]) = Some (File m bs)"
  shows "set (below fs1 out) = insert [''sources''] (set (pair_names names))"
proof (rule set_eqI)
  fix rel
  show "rel \<in> set (below fs1 out) \<longleftrightarrow> rel \<in> insert [''sources''] (set (pair_names names))"
  proof
    assume "rel \<in> set (below fs1 out)"
    then have "nodes fs1 (out @ rel) \<noteq> None" "rel \<noteq> []" by (auto simp: set_below)
    from staged_below [OF st this layout_dirs(3) [OF lay]]
    show "rel \<in> insert [''sources''] (set (pair_names names))" by (auto simp: pair_names_def)
  next
    assume "rel \<in> insert [''sources''] (set (pair_names names))"
    then consider "rel = [''sources'']" | n where "n \<in> set (products @ [''build.manifest''])" "rel = [n]"
      | n where "n \<in> set names" "rel = [''sources'', n]" by (auto simp: pair_names_def)
    then show "rel \<in> set (below fs1 out)"
    proof cases
      case 1
      then show ?thesis using staged_nodes(2) [OF st] by (auto simp: set_below)
    next
      case (2 n)
      then show ?thesis using staged_nodes(3) [OF st 2(1)] files(2) [OF 2(1)] by (auto simp: set_below refile_def)
    next
      case (3 n)
      then show ?thesis using staged_nodes(4) [OF st 3(1)] files(1) [OF 3(1)] by (auto simp: set_below)
    qed
  qed
qed

lemma concat_map_filter: "(\<And>x. x \<in> set xs \<Longrightarrow> \<not> P x \<Longrightarrow> f x = []) \<Longrightarrow> concat (map f xs) = concat (map f (filter P xs))"
  by (induction xs) auto

lemma for_each_gather: "for_each (\<lambda>acc x. Inr (acc @ f x)) acc xs = Inr (acc @ concat (map f xs))"
  by (induction xs arbitrary: acc) auto

lemma staged_copy:
  assumes lay: "clear_layout fs a s out" and st: "staged fs1 fs a s out (children fs s)"
    and src: "complete_sources fs (at s) entries" and art: "same_build fs (at a) entries fds"
    and rel: "rel \<in> set (pair_names (children fs s))"
  shows "has_digest fs1 (at (out @ rel)) (sha256_hex (file_data (original fs a s rel)))"
proof -
  from rel consider n where "n \<in> set (products @ [''build.manifest''])" "rel = [n]"
    | n where "n \<in> set (children fs s)" "rel = [''sources'', n]" by (auto simp: pair_names_def)
  then show ?thesis
  proof cases
    case (1 n)
    from artifact_file [OF art layout_dirs(1) [OF lay] 1(1)] obtain m bs where n: "nodes fs (a @ [n]) = Some (File m bs)" by blast
    then have "has_digest fs (at (a @ [n])) (sha256_hex bs)"
      using has_digest_child [OF layout_dirs(1) [OF lay] product_name [OF 1(1)]] by auto
    from staged_product_digest [OF lay st 1(1) this] show ?thesis using n 1(2) by (simp add: original_def file_data_def)
  next
    case (2 n)
    from source_file [OF src layout_dirs(2) [OF lay] 2(1)] obtain m bs where n: "n \<noteq> ''..''" "nodes fs (s @ [n]) = Some (File m bs)" by blast
    then have "nodes fs1 ((out @ [''sources'']) @ [n]) = Some (File m bs)" using staged_nodes(4) [OF st 2(1)] by simp
    then have "has_digest fs1 (at ((out @ [''sources'']) @ [n])) (sha256_hex bs)"
      using has_digest_child [OF staged_real(2) [OF lay st] n(1)] by blast
    then show ?thesis using n(2) 2(2) by (simp add: original_def file_data_def)
  qed
qed

lemma staged_listing:
  assumes lay: "clear_layout fs a s out" and st: "staged fs1 fs a s out (children fs s)"
    and src: "complete_sources fs (at s) entries" and art: "same_build fs (at a) entries fds"
  shows "runs (digest_tree quiet (at out)) fs1 (pair_listing fs a s (children fs s)) fs1"
proof -
  let ?line = "\<lambda>rel. if rel = [''sources''] then [] else sum_line (sha256_hex (file_data (original fs a s rel))) (join ''/'' rel)"
  note plain = source_file [OF src layout_dirs(2) [OF lay]] artifact_file [OF art layout_dirs(1) [OF lay]]
  have names: "set (below fs1 out) = insert [''sources''] (set (pair_names (children fs s)))"
    by (rule staged_name_set [OF lay st]) (use plain in fastforce)+
  have step: "runs (digest_line quiet (at out) acc rel) fs1 (acc @ ?line rel) fs1" if "rel \<in> set (below fs1 out)" for acc rel
  proof (cases "rel = [''sources'']")
    case True
    then have "\<not> is_file fs1 (at (out @ rel))" using stat_real [OF staged_real(2) [OF lay st]] by (auto simp: is_file_def)
    then show ?thesis
      unfolding digest_line_def below_path_def using True by (auto intro!: runs_bind [OF runs_look] runs_lift)
  next
    case False
    then have d: "has_digest fs1 (at (out @ rel)) (sha256_hex (file_data (original fs a s rel)))"
      using staged_copy [OF lay st src art] that names by blast
    then have "is_file fs1 (at (out @ rel))" by (auto simp: has_digest_def dest: holds_read)
    then show ?thesis
      unfolding digest_line_def below_path_def using False d [folded checksum_Inr]
      by (auto intro!: runs_bind [OF runs_look] runs_lift)
  qed
  have "filter (\<lambda>rel. rel \<noteq> [''sources'']) (sort (below fs1 out)) = sort (pair_names (children fs s))"
  proof (rule sorted_distinct_set_unique)
    show "set (filter (\<lambda>rel. rel \<noteq> [''sources'']) (sort (below fs1 out))) = set (sort (pair_names (children fs s)))"
      using names pair_names_proper [of "children fs s"] by auto
    show "distinct (filter (\<lambda>rel. rel \<noteq> [''sources'']) (sort (below fs1 out)))" by (simp add: below_def)
  qed (simp_all add: sorted_wrt_filter pair_names_distinct children_def)
  then have "concat (map ?line (sort (below fs1 out))) = pair_listing fs a s (children fs s)"
    using concat_map_filter [of "sort (below fs1 out)" "\<lambda>rel. rel \<noteq> [''sources'']" ?line]
    by (auto simp: pair_listing_def pair_names_proper intro!: arg_cong [where f = concat])
  then have "for_each (\<lambda>acc rel. Inr (acc @ ?line rel)) [] (sort (below fs1 out)) = Inr (pair_listing fs a s (children fs s))"
    using for_each_gather [of ?line "[]"] by simp
  moreover have "rglob fs1 (at out) = Inr (below fs1 out)"
    using resolve_at [OF staged_real(1) [OF lay st]] by (simp add: rglob_def)
  ultimately show ?thesis
    unfolding digest_tree_def by (intro runs_bind [OF runs_look] runs_loop) (use step in auto)
qed

text \<open>The file system with the staged pair: its nodes, all others as before.\<close>

definition with_pair :: "fsys \<Rightarrow> string list \<Rightarrow> string list \<Rightarrow> string list \<Rightarrow> string list \<Rightarrow> int \<Rightarrow> int \<Rightarrow> string list \<Rightarrow> node option" where
  "with_pair fs a s out names mo ms = (\<lambda>l.
     if l = out then Some (Dir mo)
     else if l = out @ [''sources''] then Some (Dir ms)
     else if l = out @ [''SHA256SUMS''] then Some (File (perm_for fs 438) (pair_listing fs a s names))
     else if l \<in> (\<lambda>n. out @ [n]) ` set (products @ [''build.manifest'']) then refile (perm_for fs 438) (nodes fs (a @ [last l]))
     else if l \<in> (\<lambda>n. out @ [''sources'', n]) ` set names then nodes fs (s @ [last l])
     else nodes fs l)"

lemma runs_stage:
  assumes "separate fs output [artifacts, sources]" "complete_sources fs sources entries" "same_build fs artifacts entries fds"
    and "runs (copy_pair quiet artifacts sources output) fs () fs1" "paired fs1 output entries fds"
    and "runs (digest_tree quiet output) fs1 listing fs1" "write_bytes fs1 (child output ''SHA256SUMS'') listing = Inr fs'"
  shows "runs (stage quiet artifacts sources output) fs () fs'"
proof -
  have "\<not> exists fs output" "\<not> symlinked fs output" "\<And>root. root \<in> set [artifacts, sources] \<Longrightarrow> inside fs output root = Inr False"
    using assms(1) by (auto simp: separate_def)
  then show ?thesis
    unfolding stage_def check_output_def
    by (intro runs_bind [OF runs_bind [OF runs_look runs_bind [OF runs_look runs_tests]]] runs_bind [OF runs_check_sources [OF assms(2)]]
        runs_bind [OF runs_check_artifacts [OF assms(3)]] runs_bind [OF assms(4)] runs_bind [OF runs_check_copies [OF assms(5)]]
        runs_bind [OF assms(6)] runs_act runs_outside) (simp_all add: assms(7))
qed

lemma pair_listing_names:
  "distinct names \<Longrightarrow> distinct names' \<Longrightarrow> set names = set names' \<Longrightarrow> pair_listing fs a s names = pair_listing fs a s names'"
proof -
  assume d: "distinct names" "distinct names'" "set names = set names'"
  then have "sort (pair_names names) = sort (pair_names names')"
    by (intro sorted_distinct_set_unique) (simp_all add: pair_names_distinct, simp add: pair_names_def)
  then show ?thesis by (simp add: pair_listing_def)
qed

text \<open>
  C21: Staging succeeds on good inputs, and what it leaves is known file by file. If the source
  directory is complete, the artifacts belong to the same build, the output is a new directory
  outside the inputs, and nobody interferes, then \<open>stage\<close> succeeds. The output then holds the
  three products and the build manifest with the contents they have in the artifacts, the
  directory \<open>sources\<close> with every file of the source directory, its own inventory included, as it
  was there, and the inventory \<open>SHA256SUMS\<close> with a line for each of these files, in the order of
  their paths, with the digest of its contents; nothing else, and the rest of the file system is
  unchanged.
\<close>

theorem stage_succeeds:
  assumes lay: "clear_layout fs a s out"
    and src: "complete_sources fs (at s) entries"
    and art: "same_build fs (at a) entries fds"
  shows "\<exists>fs' mo ms. runs (stage quiet (at a) (at s) (at out)) fs () fs' \<and>
    nodes fs' = with_pair fs a s out (''SHA256SUMS'' # dict_keys entries) mo ms \<and>
    list_all (\<lambda>rel. \<exists>m bs. original fs a s rel = Some (File m bs)) (pair_names (''SHA256SUMS'' # dict_keys entries))"
proof -
  note plain = source_file [OF src layout_dirs(2) [OF lay]] artifact_file [OF art layout_dirs(1) [OF lay]]
  let ?names = "''SHA256SUMS'' # dict_keys entries"
  have names: "set (children fs s) = set ?names" "distinct ?names"
    using src iterdir_at [OF layout_dirs(2) [OF lay]] by (auto simp: complete_sources_def inventory_def list_all_iff)
  have cp': "\<exists>fs1. runs (copy_pair quiet (at a) (at s) (at out)) fs () fs1 \<and> umask fs1 = umask fs \<and> staged fs1 fs a s out (children fs s)"
    by (rule copy_pair_fresh [OF lay _ plain(2)]) (use plain(1) in blast)
  then obtain fs1 where cp: "runs (copy_pair quiet (at a) (at s) (at out)) fs () fs1" "umask fs1 = umask fs"
    and st: "staged fs1 fs a s out (children fs s)" by blast
  let ?listing = "pair_listing fs a s (children fs s)"
  let ?fs' = "fs_put (out @ [''SHA256SUMS'']) (File (perm_for fs1 438) ?listing) fs1"
  have "nodes fs1 (out @ [''SHA256SUMS'']) = None"
    using staged_below [OF st _ _ layout_dirs(3) [OF lay], of "[''SHA256SUMS'']"] by (fastforce simp: products_def)
  then have "write_bytes fs1 (child (at out) ''SHA256SUMS'') ?listing = Inr ?fs'"
    using staged_real(1) [OF lay st] by (simp add: write_child_new)
  then have run: "runs (stage quiet (at a) (at s) (at out)) fs () ?fs'"
    by (rule runs_stage [OF clear_layout_separate [OF lay] src art cp(1) staged_paired [OF lay st src art] staged_listing [OF lay st src art]])
  from st obtain mo ms where eq: "nodes fs1 = (\<lambda>l.
        if l = out then Some (Dir mo)
        else if l = out @ [''sources''] then Some (Dir ms)
        else if l \<in> (\<lambda>n. out @ [n]) ` set (products @ [''build.manifest'']) then refile (perm_for fs 438) (nodes fs (a @ [last l]))
        else if l \<in> (\<lambda>n. out @ [''sources'', n]) ` set (children fs s) then nodes fs (s @ [last l])
        else nodes fs l)" unfolding staged_def by blast
  have listing: "?listing = pair_listing fs a s ?names" by (rule pair_listing_names) (use names in \<open>simp_all add: children_def\<close>)
  have perm: "perm_for fs1 438 = perm_for fs 438" using cp(2) by (simp add: perm_for_def)
  have left: "nodes ?fs' = with_pair fs a s out ?names mo ms"
    unfolding nodes_fs_put with_pair_def listing perm eq names(1) fun_upd_apply
    by (rule ext) auto
  moreover have "\<exists>m bs. original fs a s rel = Some (File m bs)" if "rel \<in> set (pair_names ?names)" for rel
    using that plain(2) plain(1) names(1) by (fastforce simp: pair_names_def original_def)
  ultimately show ?thesis using run unfolding list_all_iff by blast
qed

subsection \<open>A pair that is staged\<close>

definition sample_digest :: string where "sample_digest = sha256_hex ''x''"

definition sample_fields :: "string dict" where
  "sample_fields = map (\<lambda>n. (product_field n, sample_digest)) products"

definition sample_build :: string where "sample_build = fields_text sample_fields"

definition sample_contents :: "string \<Rightarrow> bytes" where
  "sample_contents n = (if n = ''build.manifest'' then sample_build else ''x'')"

definition sample_entries :: "string dict" where
  "sample_entries = map (\<lambda>n. (n, sha256_hex (sample_contents n))) required_sources"

definition sample_pair :: fsys where
  "sample_pair = \<lparr>fs_entries =
     [([''a''], Dir 493), ([''s''], Dir 493), ([''o''], Dir 493), ([''s'', ''SHA256SUMS''], File 420 (sums_text sample_entries))]
     @ map (\<lambda>n. ([''a'', n], File 420 (sample_contents n))) (products @ [''build.manifest''])
     @ map (\<lambda>n. ([''s'', n], File 420 (sample_contents n))) required_sources,
     cwd = [], umask = 18\<rparr>"

lemma map_of_map_file: "map_of (map (\<lambda>n. ([d, n], File m (f n))) ns) [d', n] = (if d = d' \<and> n \<in> set ns then Some (File m (f n)) else None)"
  by (induction ns) auto

lemma map_of_map_pair: "map_of (map (\<lambda>n. (n, f n)) ns) n = (if n \<in> set ns then Some (f n) else None)"
  by (induction ns) auto

lemma map_of_map_top: "map_of (map (\<lambda>n. ([d, n], File m (f n))) ns) [d'] = None"
  by (induction ns) auto

lemma sample_nodes:
  "nodes sample_pair [''a''] = Some (Dir 493)" "nodes sample_pair [''s''] = Some (Dir 493)" "nodes sample_pair [''o''] = Some (Dir 493)"
  "nodes sample_pair [''s'', ''SHA256SUMS''] = Some (File 420 (sums_text sample_entries))"
  "n \<in> set (products @ [''build.manifest'']) \<Longrightarrow> nodes sample_pair [''a'', n] = Some (File 420 (sample_contents n))"
  "n \<in> set required_sources \<Longrightarrow> nodes sample_pair [''s'', n] = Some (File 420 (sample_contents n))"
  "nodes sample_pair [''o'', n] = None"
  by (auto simp: nodes_def sample_pair_def map_add_def map_of_map_file map_of_map_top required_sources_def simp del: map_append)

lemma sample_dirs: "real_dir sample_pair [''a'']" "real_dir sample_pair [''s'']" "real_dir sample_pair [''o'']"
  using real_dir_snoc [of sample_pair "[]" "''a''"] real_dir_snoc [of sample_pair "[]" "''s''"]
    real_dir_snoc [of sample_pair "[]" "''o''"] sample_nodes by auto

lemma sample_wf: "wf_tree sample_pair"
proof -
  have "loc = [] \<or> loc \<in> {[''a''], [''s''], [''o'']}" if "nodes sample_pair (loc @ [c]) \<noteq> None" for loc c
  proof -
    from that have "loc @ [c] \<in> fst ` set (fs_entries sample_pair)" unfolding nodes_entry .
    then have "length (loc @ [c]) = 1 \<or> (\<exists>d n. loc @ [c] = [d, n] \<and> d \<in> {''a'', ''s''})"
      by (auto simp: sample_pair_def)
    then show ?thesis by (auto simp: append_eq_Cons_conv)
  qed
  then show ?thesis unfolding wf_tree_def using sample_nodes by blast
qed

lemma sample_inventory: "inventory sample_entries"
proof -
  have "dict_keys sample_entries = required_sources" by (simp add: sample_entries_def dict_keys_def comp_def)
  moreover have "distinct required_sources" by code_simp
  moreover have "list_all (\<lambda>n. fullmatch file_name n \<and> n \<noteq> ''SHA256SUMS'') required_sources" by code_simp
  ultimately show ?thesis by (simp add: inventory_def sample_entries_def list_all_iff sha256_hex_form)
qed

lemma sample_complete: "complete_sources sample_pair (at [''s'']) sample_entries"
proof -
  note d = sample_dirs(2)
  have "read_bytes sample_pair (at ([''s''] @ [''SHA256SUMS''])) = Inr (sums_text sample_entries)"
    by (rule read_child [OF d]) (simp_all add: sample_nodes)
  then have "read_sources sample_pair (child (at [''s'']) ''SHA256SUMS'') = Inr sample_entries"
    by (simp add: read_sources_written [OF sample_inventory])
  moreover have "holds sample_pair (at ([''s''] @ [''SHA256SUMS''])) (sums_text sample_entries)"
    using holds_child [OF d] sample_nodes by simp
  moreover have keys: "dict_keys sample_entries = required_sources" by (simp add: sample_entries_def dict_keys_def comp_def)
  moreover have "set (children sample_pair [''s'']) = insert ''SHA256SUMS'' (set required_sources)"
  proof -
    have "nodes sample_pair [''s'', n] \<noteq> None \<longleftrightarrow> n \<in> insert ''SHA256SUMS'' (set required_sources)" for n
    proof
      assume "nodes sample_pair [''s'', n] \<noteq> None"
      then show "n \<in> insert ''SHA256SUMS'' (set required_sources)" unfolding nodes_entry by (auto simp: sample_pair_def)
    next
      assume "n \<in> insert ''SHA256SUMS'' (set required_sources)"
      then show "nodes sample_pair [''s'', n] \<noteq> None" using sample_nodes(4,6) by auto
    qed
    then show ?thesis by (auto simp: set_children)
  qed
  moreover have "digests sample_pair (at [''s'']) sample_entries"
  proof -
    have "has_digest sample_pair (at ([''s''] @ [n])) (sha256_hex (sample_contents n))" if "n \<in> set required_sources" for n
    proof -
      have "n \<noteq> ''..''" using that by (auto simp: required_sources_def)
      then show ?thesis using has_digest_child [OF d] sample_nodes(6) [OF that] by simp
    qed
    then show ?thesis by (simp add: digests_def sample_entries_def list_all_iff)
  qed
  ultimately show ?thesis
    using sample_inventory iterdir_at [OF d] by (auto simp: complete_sources_def)
qed

lemma sample_plain: "plain_fields sample_fields"
proof -
  have "list_all printable sample_digest"
    unfolding sample_digest_def by (rule digest_printable [OF sha256_hex_form])
  moreover have "list_all (\<lambda>n. list_all printable (product_field n) \<and> CHR ''='' \<notin> set (product_field n)) products"
    "distinct (map product_field products)" by code_simp+
  ultimately show ?thesis by (simp add: plain_fields_def sample_fields_def dict_keys_def comp_def list_all_iff)
qed

lemma sample_same_build: "same_build sample_pair (at [''a'']) sample_entries sample_fields"
proof -
  note d = sample_dirs(1)
  have b: "''build.manifest'' \<in> set (products @ [''build.manifest''])" by simp
  have "read_bytes sample_pair (at ([''a''] @ [''build.manifest''])) = Inr (sample_contents ''build.manifest'')"
    by (rule read_child [OF d]) (simp_all add: sample_nodes(5) [OF b])
  then have rf: "read_fields ''duplicate manifest field'' sample_pair (child (at [''a'']) ''build.manifest'') = Inr sample_fields"
    by (simp add: read_fields_written [OF sample_plain] sample_contents_def sample_build_def)
  have dig: "has_digest sample_pair (at ([''a''] @ [n])) (sha256_hex (sample_contents n))" if "n \<in> set (products @ [''build.manifest''])" for n
  proof -
    have "n \<noteq> ''..''" using that by (auto simp: products_def)
    then show ?thesis using has_digest_child [OF d] sample_nodes(5) [OF that] by simp
  qed
  have ent: "map_of sample_entries n = (if n \<in> set required_sources then Some (sha256_hex (sample_contents n)) else None)" for n
    by (simp add: sample_entries_def map_of_map_pair)
  have in_req: "''build.manifest'' \<in> set required_sources" "''packages.manifest'' \<in> set required_sources"
    by (simp_all add: required_sources_def)
  have "products_match sample_pair (at [''a'']) sample_fields"
    using dig [of "''uImage.buffalo''"] dig [of "''initrd.buffalo''"] dig [of "''packages.manifest''"]
    by (simp add: products_match_def products_def sample_fields_def product_field_def sample_contents_def sample_digest_def)
  then show ?thesis
    using rf dig ent in_req by (simp add: same_build_def products_def)
qed

theorem stage_succeeds_witness:
  "\<exists>fs' mo ms. runs (stage quiet (at [''a'']) (at [''s'']) (at [''o'', ''x''])) sample_pair () fs' \<and>
     nodes fs' = with_pair sample_pair [''a''] [''s''] [''o'', ''x''] (''SHA256SUMS'' # required_sources) mo ms"
proof -
  have lay: "clear_layout sample_pair [''a''] [''s''] [''o'', ''x'']"
    using sample_wf sample_dirs sample_nodes by (simp add: clear_layout_def fresh_out_def is_relative_to_def)
  have keys: "dict_keys sample_entries = required_sources" by (simp add: sample_entries_def dict_keys_def comp_def)
  from stage_succeeds [OF lay sample_complete sample_same_build] show ?thesis unfolding keys by (elim exE conjE, intro exI conjI)
qed

end
