(* ===== verification/Release.thy ===== *)
theory Release
  imports Stage Extract
begin

text \<open>
  \<open>scripts/package-release-candidate.py\<close>: a pair is staged in a temporary directory and
  packed into release assets, and everything that was copied or archived is read back and
  compared with the staged files. As in the theory \<open>Stage\<close>, other processes act before every
  step.
\<close>

text \<open>\<open>tempfile.TemporaryDirectory\<close> picks a fresh name; the directory goes when the block is left.\<close>

definition make_temp :: "fsys \<Rightarrow> ppath \<Rightarrow> fsys result" where
  "make_temp fs temp = create fs temp (Dir 448)"

definition remove_tree :: "ppath \<Rightarrow> fsys \<Rightarrow> fsys" where
  "remove_tree p fs = fs\<lparr>fs_entries := filter (\<lambda>e. take (length (p_tail p)) (fst e) \<noteq> p_tail p) (fs_entries fs)\<rparr>"

definition release_products :: "string list" where
  "release_products = [''uImage.buffalo'', ''initrd.buffalo'', ''build.manifest'', ''packages.manifest'']"

definition notices :: string where "notices = ''THIRD-PARTY-NOTICES.tar''"

definition MAX_ASSET :: int where "MAX_ASSET = 2000000000"

subsection \<open>Members\<close>

text \<open>
  \<open>archive.extractfile(member)\<close> for the member number \<open>i\<close>. A link is followed to the last member
  of the name it points to, a hard link only to members before it; names are compared normalised.
  A chain of links longer than the archive repeats itself, which Python ends with an exception.
\<close>

definition last_named :: "member list \<Rightarrow> string \<Rightarrow> nat option" where
  "last_named ms name = find (\<lambda>j. normpath (m_name (ms ! j)) = normpath name) (rev [0..<length ms])"

definition link_target :: "member list \<Rightarrow> nat \<Rightarrow> nat option" where
  "link_target ms i =
     (let m = ms ! i in
      if m_kind m = Symlink then last_named ms (join ''/'' (filter (\<lambda>s. s \<noteq> []) [dirname (m_name m), m_link m]))
      else last_named (take i ms) (m_link m))"

fun extract_following :: "nat \<Rightarrow> member list \<Rightarrow> nat \<Rightarrow> bytes result" where
  "extract_following 0 ms i = Inl (RuntimeError ''maximum recursion depth exceeded'')"
| "extract_following (Suc k) ms i =
     (case m_kind (ms ! i) of
        Regular \<Rightarrow> Inr (m_data (ms ! i))
      | Unknown \<Rightarrow> Inr (m_data (ms ! i))
      | Symlink \<Rightarrow> (case link_target ms i of None \<Rightarrow> Inl (KeyError ''linkname not found'') | Some j \<Rightarrow> extract_following k ms j)
      | Hardlink \<Rightarrow> (case link_target ms i of None \<Rightarrow> Inl (KeyError ''linkname not found'') | Some j \<Rightarrow> extract_following k ms j)
      | _ \<Rightarrow> Inl (TypeError ''NoneType''))"

definition extractfile :: "member list \<Rightarrow> nat \<Rightarrow> bytes result" where
  "extractfile ms = extract_following (Suc (length ms)) ms"

text \<open>
  The members of \<open>sources.tar\<close>, in the order of the names: the size is that of a \<open>stat\<close>, and
  \<open>addfile\<close> copies as many bytes of the file, or fails when it has fewer.
\<close>

definition source_member :: "others \<Rightarrow> ppath \<Rightarrow> string \<Rightarrow> member action" where
  "source_member env dir name =
     wbind (look env (\<lambda>fs. rbind (stat fs (child dir name)) (\<lambda>st. Inr (st_size st)))) (\<lambda>len.
     wbind (look env (\<lambda>fs. read_bytes fs (child dir name))) (\<lambda>bs.
     wlift (if int (length bs) < len then Inl (OSError ''unexpected end of data'')
       else Inr (tar_info name 0 (take (nat len) bs)))))"

definition source_members :: "others \<Rightarrow> ppath \<Rightarrow> member list action" where
  "source_members env dir =
     wbind (look env (\<lambda>fs. iterdir fs dir)) (\<lambda>names.
     wloop (\<lambda>ms name. wbind (source_member env dir name) (\<lambda>m. wlift (Inr (ms @ [m])))) [] (sort names))"

subsection \<open>Copies, and what is read back\<close>

definition same_checksum :: "others \<Rightarrow> string \<Rightarrow> ppath \<Rightarrow> ppath \<Rightarrow> unit action" where
  "same_checksum env msg p q =
     wbind (look env (\<lambda>fs. checksum fs p)) (\<lambda>a. expect env q (\<lambda>b. raise_if (a \<noteq> b) (ValueError msg)))"

text \<open>A product is copied and compared with what was staged.\<close>

definition copy_checked :: "others \<Rightarrow> ppath \<Rightarrow> ppath \<Rightarrow> string \<Rightarrow> unit action" where
  "copy_checked env staged output name =
     wbind (act env (\<lambda>fs. copyfile fs (child staged name) (child output name))) (\<lambda>_.
     same_checksum env ''product changed while packaging'' (child staged name) (child output name))"

text \<open>Every member of the archive, against the staged file of its name.\<close>

definition check_member :: "others \<Rightarrow> member list \<Rightarrow> ppath \<Rightarrow> nat \<Rightarrow> unit action" where
  "check_member env ms dir i =
     wbind (wlift (extractfile ms i)) (\<lambda>dat.
     expect env (p_join dir (parse_path (m_name (ms ! i)))) (\<lambda>d.
       raise_if (sha256_hex dat \<noteq> d) (ValueError ''source changed while packaging'')))"

definition check_archive :: "(bytes \<Rightarrow> member list result) \<Rightarrow> others \<Rightarrow> ppath \<Rightarrow> ppath \<Rightarrow> unit action" where
  "check_archive untar env archive dir =
     wbind (look env (\<lambda>fs. rbind (read_bytes fs archive) untar)) (\<lambda>ms.
     each (check_member env ms dir) [0..<length ms])"

definition asset_size :: "others \<Rightarrow> ppath \<Rightarrow> unit action" where
  "asset_size env p =
     wbind (look env (\<lambda>fs. rbind (stat fs p) (\<lambda>st. Inr (st_size st)))) (\<lambda>len.
     wlift (raise_if (len \<ge> MAX_ASSET) (ValueError ''release asset exceeds the supported size'')))"

definition asset_sizes :: "others \<Rightarrow> ppath \<Rightarrow> unit action" where
  "asset_sizes env output =
     wbind (look env (\<lambda>fs. iterdir fs output)) (each (\<lambda>name. asset_size env (child output name)))"

definition asset_lines :: "others \<Rightarrow> ppath \<Rightarrow> string action" where
  "asset_lines env output =
     wbind (look env (\<lambda>fs. iterdir fs output)) (\<lambda>names.
     wloop (\<lambda>txt name. wbind (look env (\<lambda>fs. checksum fs (child output name))) (\<lambda>d. wlift (Inr (txt @ sum_line d name))))
       [] (sort names))"

text \<open>
  \<open>package\<close>. \<open>tar\<close> and \<open>untar\<close> are \<open>tarfile\<close>; \<open>temp\<close> is the directory \<open>tempfile\<close> makes. The
  archive is created before its members are read and has its contents when it is closed.
\<close>

definition candidate :: "ppath \<Rightarrow> ppath" where
  "candidate temp = child temp ''candidate''"

definition package ::
  "(member list \<Rightarrow> bytes) \<Rightarrow> (bytes \<Rightarrow> member list result) \<Rightarrow> others \<Rightarrow> ppath \<Rightarrow> ppath \<Rightarrow> ppath \<Rightarrow> ppath \<Rightarrow> unit action" where
  "package tar untar env temp artifacts sources output =
     wbind (check_output env ''existing or symlinked output'' output [artifacts, sources]) (\<lambda>_.
     wbind (look env (\<lambda>fs. checksum fs (child sources notices))) (\<lambda>_.
     wbind (act env (\<lambda>fs. make_temp fs temp)) (\<lambda>_.
     wbind (stage env artifacts sources (candidate temp)) (\<lambda>_.
     wbind (act env (\<lambda>fs. mkdir_parents False fs output)) (\<lambda>_.
     wbind (act env (\<lambda>fs. open_xb fs (child output ''sources.tar'') [])) (\<lambda>_.
     wbind (source_members env (child (candidate temp) ''sources'')) (\<lambda>ms.
     wbind (act env (\<lambda>fs. write_bytes fs (child output ''sources.tar'') (tar ms))) (\<lambda>_.
     wbind (each (copy_checked env (candidate temp) output) release_products) (\<lambda>_.
     wbind (act env (\<lambda>fs. copyfile fs (child (child (candidate temp) ''sources'') notices) (child output notices))) (\<lambda>_.
     wbind (check_archive untar env (child output ''sources.tar'') (child (candidate temp) ''sources'')) (\<lambda>_.
     wbind (same_checksum env ''notices changed while packaging'' (child output notices)
       (child (child (candidate temp) ''sources'') notices)) (\<lambda>_.
     wbind (asset_sizes env output) (\<lambda>_.
     wbind (asset_lines env output) (\<lambda>listing.
     wbind (act env (\<lambda>fs. write_bytes fs (child output ''SHA256SUMS'') listing)) (\<lambda>_.
     act env (\<lambda>fs. Inr (remove_tree temp fs)))))))))))))))))"

subsection \<open>What was seen\<close>

lemma release_steps [steps_intros]:
  "steps (source_member env dir name)" "steps (same_checksum env msg p q)" "steps (copy_checked env staged output name)"
  "steps (check_member env ms dir i)" "steps (asset_size env p)"
  unfolding source_member_def same_checksum_def copy_checked_def check_member_def asset_size_def by (intro steps_intros)+

text \<open>Two files were found with one digest.\<close>

definition found_equal :: "world \<Rightarrow> world \<Rightarrow> ppath \<Rightarrow> ppath \<Rightarrow> bool" where
  "found_equal w w' p q \<longleftrightarrow> (\<exists>d. had_digest w w' p d \<and> had_digest w w' q d)"

lemma same_checksum_met: "same_checksum env msg p q w = Inr (u, w') \<Longrightarrow> found_equal w w' p q"
proof -
  assume "same_checksum env msg p q w = Inr (u, w')"
  then obtain a w1 where w1: "look env (\<lambda>fs. checksum fs p) w = Inr (a, w1)"
    "expect env q (\<lambda>b. raise_if (a \<noteq> b) (ValueError msg)) w1 = Inr ((), w')" by (auto simp: same_checksum_def wbind_Inr)
  then have "had_digest w w1 p a" "had_digest w1 w' q a" by (auto simp: raise_if_eq_Inr dest: look_digest expect_met)
  then show ?thesis
    unfolding found_equal_def
    using had_digest_widen [OF _ later_refl stepsD [OF steps_expect w1(2)]] had_digest_widen [OF _ stepsD [OF steps_look w1(1)] later_refl]
    by blast
qed

text \<open>A file was copied, and after that the copy was found equal to it.\<close>

definition copied_equal :: "world \<Rightarrow> world \<Rightarrow> ppath \<Rightarrow> ppath \<Rightarrow> bool" where
  "copied_equal w w' p q \<longleftrightarrow>
     (\<exists>u v v'. later w u \<and> met u v (\<lambda>fs. copyfile fs p q = Inr (now v)) \<and> found_equal v v' p q \<and> later v' w')"

lemma copies_met:
  assumes "each (copy_checked env staged output) names w = Inr (u, w')"
  shows "list_all (\<lambda>name. copied_equal w w' (child staged name) (child output name)) names"
  unfolding list_all_iff
proof
  fix name assume "name \<in> set names"
  from each_body [OF assms release_steps(3) this] obtain v v' where v: "later w v" "copy_checked env staged output name v = Inr ((), v')"
    "later v' w'" by blast
  from v(2) obtain v1 where "act env (\<lambda>fs. copyfile fs (child staged name) (child output name)) v = Inr ((), v1)"
    "same_checksum env ''product changed while packaging'' (child staged name) (child output name) v1 = Inr ((), v')"
    by (auto simp: copy_checked_def wbind_Inr)
  then show "copied_equal w w' (child staged name) (child output name)"
    unfolding copied_equal_def using v(1,3) act_met same_checksum_met by blast
qed

text \<open>The members that were written: for every name found in the directory a prefix of what was read, of the size that was found.\<close>

definition member_read :: "world \<Rightarrow> world \<Rightarrow> ppath \<Rightarrow> string \<Rightarrow> member \<Rightarrow> bool" where
  "member_read w w' dir name m \<longleftrightarrow>
     (\<exists>bs len. met w w' (\<lambda>fs. read_bytes fs (child dir name) = Inr bs) \<and> nat len \<le> length bs \<and>
        met w w' (\<lambda>fs. \<exists>st. stat fs (child dir name) = Inr st \<and> st_size st = len) \<and> m = tar_info name 0 (take (nat len) bs))"

definition members_read :: "world \<Rightarrow> world \<Rightarrow> ppath \<Rightarrow> member list \<Rightarrow> bool" where
  "members_read w w' dir ms \<longleftrightarrow>
     (\<exists>names. met w w' (\<lambda>fs. iterdir fs dir = Inr names) \<and> list_all2 (member_read w w' dir) (sort names) ms)"

lemma member_read_widen: "member_read u v dir name m \<Longrightarrow> later w u \<Longrightarrow> later v w' \<Longrightarrow> member_read w w' dir name m"
  unfolding member_read_def by (elim exE conjE, intro exI conjI) (assumption | erule (2) met_widen)+

lemma source_member_met: "source_member env dir name w = Inr (m, w') \<Longrightarrow> member_read w w' dir name m"
proof -
  assume "source_member env dir name w = Inr (m, w')"
  then obtain len bs w1 where w1: "look env (\<lambda>fs. rbind (stat fs (child dir name)) (\<lambda>st. Inr (st_size st))) w = Inr (len, w1)"
    "look env (\<lambda>fs. read_bytes fs (child dir name)) w1 = Inr (bs, w')" "\<not> int (length bs) < len" "m = tar_info name 0 (take (nat len) bs)"
    by (auto simp: source_member_def wbind_Inr wlift_Inr split: if_splits)
  have "met w w1 (\<lambda>fs. \<exists>st. stat fs (child dir name) = Inr st \<and> st_size st = len)"
    using look_met [OF w1(1)] by (rule met_mono) (auto simp: rbind_eq_Inr)
  note st = met_widen [OF this later_refl stepsD [OF steps_look w1(2)]]
  show ?thesis
    unfolding member_read_def
    using met_widen [OF look_met [OF w1(2)] stepsD [OF steps_look w1(1)] later_refl] st w1(3,4)
    by (intro exI [of _ bs] exI [of _ len]) simp
qed

text \<open>A loop that appends what it finds.\<close>

lemma gather_met:
  assumes body: "\<And>acc x acc' v v'. f acc x v = Inr (acc', v') \<Longrightarrow> \<exists>y. acc' = acc @ g x y \<and> P v v' x y"
    and "\<And>acc x. steps (f acc x)"
    and widen: "\<And>u v w w' x y. P u v x y \<Longrightarrow> later w u \<Longrightarrow> later v w' \<Longrightarrow> P w w' x y"
  shows "wloop f acc xs w = Inr (acc', w') \<Longrightarrow> \<exists>ys. list_all2 (P w w') xs ys \<and> acc' = acc @ concat (map2 g xs ys)"
proof (induction xs arbitrary: acc w)
  case (Cons x xs)
  from Cons.prems obtain acc1 w1 where w1: "f acc x w = Inr (acc1, w1)" "wloop f acc1 xs w1 = Inr (acc', w')" by (auto simp: result_simps)
  from body [OF w1(1)] obtain y where y: "acc1 = acc @ g x y" "P w w1 x y" by blast
  from Cons.IH [OF w1(2)] obtain ys where ys: "list_all2 (P w1 w') xs ys" "acc' = acc1 @ concat (map2 g xs ys)" by blast
  have l: "later w w1" "later w1 w'" using stepsD [OF assms(2) w1(1)] stepsD [OF steps_loop [OF assms(2)] w1(2)] .
  have "list_all2 (P w w') xs ys" using ys(1) by (rule list_all2_mono) (rule widen [OF _ l(1) later_refl])
  then show ?case using y ys(2) widen [OF y(2) later_refl l(2)] by (intro exI [of _ "y # ys"]) simp
qed (simp add: wlift_Inr)

lemma source_members_met: "source_members env dir w = Inr (ms, w') \<Longrightarrow> members_read w w' dir ms"
proof -
  let ?f = "\<lambda>ms name. wbind (source_member env dir name) (\<lambda>m. wlift (Inr (ms @ [m])))"
  assume "source_members env dir w = Inr (ms, w')"
  then obtain names w1 where w1: "look env (\<lambda>fs. iterdir fs dir) w = Inr (names, w1)" "wloop ?f [] (sort names) w1 = Inr (ms, w')"
    unfolding source_members_def wbind_Inr by blast
  have st: "steps (?f acc x)" for acc x by (intro steps_intros)
  have "\<exists>ys. list_all2 (member_read w1 w' dir) (sort names) ys \<and> ms = [] @ concat (map2 (\<lambda>_ m. [m]) (sort names) ys)"
    by (rule gather_met [OF _ st member_read_widen w1(2)]) (auto simp: wbind_Inr wlift_Inr dest: source_member_met)
  then obtain ys where ys: "list_all2 (member_read w1 w' dir) (sort names) ys" "ms = concat (map2 (\<lambda>_ m. [m]) (sort names) ys)" by auto
  have "concat (map2 (\<lambda>_ m. [m]) ns bs) = bs" if "list_all2 Q ns bs" for Q and ns :: "string list" and bs :: "member list"
    using that by (induction rule: list_all2_induct) auto
  then have "list_all2 (member_read w1 w' dir) (sort names) ms" using ys by metis
  then have "list_all2 (member_read w w' dir) (sort names) ms"
    by (rule list_all2_mono) (rule member_read_widen [OF _ stepsD [OF steps_look w1(1)] later_refl])
  then show ?thesis
    unfolding members_read_def using met_widen [OF look_met [OF w1(1)] later_refl stepsD [OF steps_loop [OF st] w1(2)]] by blast
qed

text \<open>The archive was read, and the contents of each member have the digest of the staged file of its name.\<close>

definition archive_checked :: "(bytes \<Rightarrow> member list result) \<Rightarrow> world \<Rightarrow> world \<Rightarrow> ppath \<Rightarrow> ppath \<Rightarrow> bool" where
  "archive_checked untar w w' archive dir \<longleftrightarrow>
     (\<exists>raw ms. met w w' (\<lambda>fs. read_bytes fs archive = Inr raw) \<and> untar raw = Inr ms \<and>
        list_all (\<lambda>i. \<exists>dat. extractfile ms i = Inr dat \<and>
          had_digest w w' (p_join dir (parse_path (m_name (ms ! i)))) (sha256_hex dat)) [0..<length ms])"

lemma check_archive_met: "check_archive untar env archive dir w = Inr (u, w') \<Longrightarrow> archive_checked untar w w' archive dir"
proof -
  assume "check_archive untar env archive dir w = Inr (u, w')"
  then obtain ms w1 where w1: "look env (\<lambda>fs. rbind (read_bytes fs archive) untar) w = Inr (ms, w1)"
    "each (check_member env ms dir) [0..<length ms] w1 = Inr ((), w')" by (auto simp: check_archive_def wbind_Inr)
  from look_met [OF w1(1)] obtain raw where raw: "met w w1 (\<lambda>fs. read_bytes fs archive = Inr raw)" "untar raw = Inr ms"
    by (auto simp: met_def list_ex_iff rbind_eq_Inr)
  have "\<exists>dat. extractfile ms i = Inr dat \<and> had_digest w w' (p_join dir (parse_path (m_name (ms ! i)))) (sha256_hex dat)"
    if "i \<in> set [0..<length ms]" for i
  proof -
    from each_body [OF w1(2) release_steps(4) that] obtain v v' where v: "later w1 v" "check_member env ms dir i v = Inr ((), v')"
      "later v' w'" by blast
    from v(2) obtain dat where "extractfile ms i = Inr dat"
      "expect env (p_join dir (parse_path (m_name (ms ! i)))) (\<lambda>d. raise_if (sha256_hex dat \<noteq> d) (ValueError ''source changed while packaging'')) v = Inr ((), v')"
      by (auto simp: check_member_def wbind_Inr wlift_Inr)
    then show ?thesis
      using had_digest_widen [OF _ later_trans [OF stepsD [OF steps_look w1(1)] v(1)] v(3)]
      by (auto simp: raise_if_eq_Inr dest!: expect_met)
  qed
  then show ?thesis
    unfolding archive_checked_def list_all_iff
    using met_widen [OF raw(1) later_refl stepsD [OF steps_each [OF release_steps(4)] w1(2)]] raw(2) by blast
qed

definition assets_small :: "world \<Rightarrow> world \<Rightarrow> ppath \<Rightarrow> bool" where
  "assets_small w w' output \<longleftrightarrow> (\<exists>names. met w w' (\<lambda>fs. iterdir fs output = Inr names) \<and>
     list_all (\<lambda>name. met w w' (\<lambda>fs. \<exists>st. stat fs (child output name) = Inr st \<and> st_size st < MAX_ASSET)) names)"

lemma asset_size_met: "asset_size env p w = Inr (u, w') \<Longrightarrow> met w w' (\<lambda>fs. \<exists>st. stat fs p = Inr st \<and> st_size st < MAX_ASSET)"
proof -
  assume "asset_size env p w = Inr (u, w')"
  then obtain len where "look env (\<lambda>fs. rbind (stat fs p) (\<lambda>st. Inr (st_size st))) w = Inr (len, w')" "len < MAX_ASSET"
    by (auto simp: asset_size_def wbind_Inr wlift_Inr raise_if_eq_Inr)
  from look_met [OF this(1)] show ?thesis by (rule met_mono) (use \<open>len < MAX_ASSET\<close> in \<open>auto simp: rbind_eq_Inr\<close>)
qed

lemma asset_sizes_met: "asset_sizes env output w = Inr (u, w') \<Longrightarrow> assets_small w w' output"
proof -
  assume "asset_sizes env output w = Inr (u, w')"
  then obtain names w1 where w1: "look env (\<lambda>fs. iterdir fs output) w = Inr (names, w1)"
    "each (\<lambda>name. asset_size env (child output name)) names w1 = Inr ((), w')" by (auto simp: asset_sizes_def wbind_Inr)
  have "list_all (\<lambda>name. met w1 w' (\<lambda>fs. \<exists>st. stat fs (child output name) = Inr st \<and> st_size st < MAX_ASSET)) names"
    by (rule each_met [OF w1(2) release_steps(5) asset_size_met])
  then show ?thesis
    unfolding assets_small_def list_all_iff
    using met_widen [OF look_met [OF w1(1)] later_refl stepsD [OF steps_each [OF release_steps(5)] w1(2)]]
      met_widen [OF _ stepsD [OF steps_look w1(1)] later_refl] by blast
qed

text \<open>The inventory: a line for every name found in the directory, in order, with the digest its file was found with.\<close>

definition assets_listed :: "world \<Rightarrow> world \<Rightarrow> ppath \<Rightarrow> string \<Rightarrow> bool" where
  "assets_listed w w' output listing \<longleftrightarrow> (\<exists>names ds. met w w' (\<lambda>fs. iterdir fs output = Inr names) \<and>
     list_all2 (\<lambda>name d. had_digest w w' (child output name) d) (sort names) ds \<and>
     listing = concat (map2 (\<lambda>name d. sum_line d name) (sort names) ds))"

lemma asset_lines_met: "asset_lines env output w = Inr (listing, w') \<Longrightarrow> assets_listed w w' output listing"
proof -
  let ?f = "\<lambda>txt name. wbind (look env (\<lambda>fs. checksum fs (child output name))) (\<lambda>d. wlift (Inr (txt @ sum_line d name)))"
  let ?P = "\<lambda>w w' name d. had_digest w w' (child output name) d"
  assume "asset_lines env output w = Inr (listing, w')"
  then obtain names w1 where w1: "look env (\<lambda>fs. iterdir fs output) w = Inr (names, w1)" "wloop ?f [] (sort names) w1 = Inr (listing, w')"
    unfolding asset_lines_def wbind_Inr by blast
  have st: "steps (?f acc x)" for acc x by (intro steps_intros)
  have "\<exists>ds. list_all2 (?P w1 w') (sort names) ds \<and> listing = [] @ concat (map2 (\<lambda>name d. sum_line d name) (sort names) ds)"
    by (rule gather_met [OF _ st had_digest_widen w1(2)]) (auto simp: wbind_Inr wlift_Inr dest: look_digest)
  then obtain ds where ds: "list_all2 (?P w1 w') (sort names) ds" "listing = concat (map2 (\<lambda>name d. sum_line d name) (sort names) ds)" by auto
  have "list_all2 (?P w w') (sort names) ds"
    using ds(1) by (rule list_all2_mono) (rule had_digest_widen [OF _ stepsD [OF steps_look w1(1)] later_refl])
  then show ?thesis
    unfolding assets_listed_def
    using ds(2) met_widen [OF look_met [OF w1(1)] later_refl stepsD [OF steps_loop [OF st] w1(2)]] by blast
qed


end
