(* ===== verification/Evidence.thy ===== *)
theory Evidence
  imports Public_Audit Plain_Dirs
begin

text \<open>
  \<open>scripts/compile-evidence.py\<close>: a text-only report about a build. Every text is scanned by
  the public audit before anything is written, and only the listed names are written. The
  lemmas show that the exported directory is exactly these files.
\<close>

definition EV_PRODUCTS :: "string list" where
  "EV_PRODUCTS = [''uImage.buffalo'', ''initrd.buffalo'', ''packages.manifest'',
     ''rootfs-inventory.json'', ''upstream-delta.patch'', ''public-files.sha256'',
     ''kernel-patches.sha256'', ''build.manifest'', ''SHA256SUMS'']"

definition EV_TEXT :: "string list" where
  "EV_TEXT = [''packages.manifest'', ''rootfs-inventory.json'', ''upstream-delta.patch'',
     ''public-files.sha256'', ''kernel-patches.sha256'', ''build.manifest'', ''runner.txt'']"

definition ev_digest :: "fsys \<Rightarrow> ppath \<Rightarrow> string result" where
  "ev_digest fs p =
     (let bad = ValueError ''missing, empty or symlinked product'' in
      if is_symlink fs p \<or> \<not> is_file fs p then Inl bad
      else rbind (stat fs p) (\<lambda>st. if st_size st = 0 then Inl bad else hashed fs p))"

definition read_report :: "fsys \<Rightarrow> ppath \<Rightarrow> string \<Rightarrow> (string \<times> bytes) result" where
  "read_report fs source name =
     rbind (ev_digest fs (child source name)) (\<lambda>_.
     rbind (stat fs (child source name)) (\<lambda>st.
     if st_size st > MAX_BYTES then Inl (ValueError ''oversized report'')
     else rbind (read_bytes fs (child source name)) (\<lambda>val.
     if findings val \<noteq> [] then Inl (ValueError ''report failed privacy scan'')
     else rbind (decode_utf8 val) (\<lambda>_. Inr (name, val)))))"

definition ev_readme :: string where
  "ev_readme =
     ''Compile-only evidence, NOT a bootable firmware bundle.'' @ [CHR 0x0A]
     @ ''Firmware was built and hashed on this runner but is not uploaded.'' @ [CHR 0x0A]
     @ ''Corresponding-source and license review must precede binary distribution.'' @ [CHR 0x0A]
     @ ''Matching hashes from independent runners do not establish hardware support.'' @ [CHR 0x0A]"

text \<open>\<open>repo\<close> is \<open>Path(__file__).resolve().parents[1]\<close>.\<close>

definition export :: "fsys \<Rightarrow> ppath \<Rightarrow> ppath \<Rightarrow> ppath \<Rightarrow> fsys result" where
  "export fs repo source output =
     (if is_symlink fs source \<or> exists fs output then Inl (ValueError ''unsafe source or existing output directory'')
      else
        rbind (map_result (\<lambda>name. rbind (ev_digest fs (child source name)) (\<lambda>d. Inr (name, d))) EV_PRODUCTS) (\<lambda>hashes.
        rbind (map_result (read_report fs source) EV_TEXT) (\<lambda>texts.
        rbind (mkdir_parents False fs output) (\<lambda>fs.
        rbind (for_each (write_to output) fs texts) (\<lambda>fs.
        rbind (write_bytes fs (child output ''products.sha256'') (concat (map (\<lambda>(name, d). sum_line d name) hashes))) (\<lambda>fs.
        rbind (write_bytes fs (child output ''README.txt'') ev_readme) (\<lambda>fs.
        rbind (copyfile fs (child (child repo ''LICENSES'') ''GPL-2.0'') (child output ''GPL-2.0.txt'')) (\<lambda>fs.
        rbind (copyfile fs (child repo ''LICENSE'') (child output ''MIT.txt'')) (\<lambda>fs.
        rbind (sum_lines ev_digest fs output) (\<lambda>txt.
        write_bytes fs (child output ''EVIDENCE-SHA256SUMS'') txt))))))))))"

text \<open>\<open>__main__\<close>: the two paths, and one message for every refusal.\<close>

definition evidence_main :: "fsys \<Rightarrow> ppath \<Rightarrow> string list \<Rightarrow> fsys result" where
  "evidence_main fs repo args =
     (let r = (case args of
          [source, output] \<Rightarrow> export fs repo (parse_path source) (parse_path output)
        | _ \<Rightarrow> Inl (ValueError ''expected source and fresh output directory''))
      in case r of
          Inl (OSError _) \<Rightarrow> Inl (SystemExit ''Compile evidence export failed; inspect inputs privately'')
        | Inl (ValueError _) \<Rightarrow> Inl (SystemExit ''Compile evidence export failed; inspect inputs privately'')
        | _ \<Rightarrow> r)"

subsection \<open>What is read\<close>

text \<open>This digest looks at the last component of a path only.\<close>

definition product_file :: "fsys \<Rightarrow> ppath \<Rightarrow> bytes \<Rightarrow> bool" where
  "product_file fs p bs \<longleftrightarrow> \<not> is_symlink fs p \<and> (\<exists>m. stat fs p = Inr (File m bs)) \<and> bs \<noteq> []"

interpretation evidence: file_digest ev_digest product_file
proof
  fix fs p d bs
  show "ev_digest fs p = Inr d \<longleftrightarrow> (\<exists>bs. product_file fs p bs \<and> d = sha256_hex bs)"
  proof (cases "stat fs p")
    case (Inr n)
    then show ?thesis by (cases n) (auto simp: ev_digest_def product_file_def is_file_def hashed_def read_bytes_file st_size_def Let_def)
  qed (simp add: ev_digest_def product_file_def is_file_def Let_def)
  show "product_file fs p bs \<Longrightarrow> read_bytes fs p = Inr bs" by (auto simp: product_file_def read_bytes_file)
qed

text \<open>A file of a real directory that is there and not empty.\<close>

definition product_at :: "fsys \<Rightarrow> string list \<Rightarrow> string \<Rightarrow> bytes \<Rightarrow> bool" where
  "product_at fs dir name bs \<longleftrightarrow> (\<exists>m. nodes fs (dir @ [name]) = Some (File m bs)) \<and> bs \<noteq> []"

lemma ev_digest_at:
  assumes "real_dir fs dir" "name \<noteq> ''..''"
  shows "ev_digest fs (at (dir @ [name])) = Inr d \<longleftrightarrow> (\<exists>bs. product_at fs dir name bs \<and> d = sha256_hex bs)"
proof (cases "nodes fs (dir @ [name])")
  case None
  then show ?thesis using assms by (simp add: ev_digest_def is_file_def stat_child product_at_def Let_def)
next
  case (Some n)
  then show ?thesis using assms
    by (cases n) (auto simp: ev_digest_def is_file_def stat_child is_symlink_child product_at_def Let_def
        hashed_def read_child st_size_def)
qed

definition public_text :: "fsys \<Rightarrow> string list \<Rightarrow> string \<times> bytes \<Rightarrow> bool" where
  "public_text fs dir = (\<lambda>(name, val). product_at fs dir name val \<and> int (length val) \<le> MAX_BYTES \<and>
     hazard_free val \<and> valid_utf8 val)"

lemma read_report_at:
  assumes "real_dir fs dir" "name \<noteq> ''..''"
  shows "read_report fs (at dir) name = Inr (name', val) \<longleftrightarrow> name' = name \<and> public_text fs dir (name, val)"
proof (cases "\<exists>bs. product_at fs dir name bs")
  case False
  then have "read_report fs (at dir) name \<noteq> Inr (name', val)"
    using ev_digest_at [OF assms] by (auto simp: read_report_def result_simps)
  with False show ?thesis by (auto simp: public_text_def)
next
  case True
  then obtain bs m where bs: "product_at fs dir name bs" "nodes fs (dir @ [name]) = Some (File m bs)"
    by (auto simp: product_at_def)
  then have "stat fs (at (dir @ [name])) = Inr (File m bs)" "read_bytes fs (at (dir @ [name])) = Inr bs"
    "ev_digest fs (at (dir @ [name])) = Inr (sha256_hex bs)"
    using assms ev_digest_at [OF assms] by (auto simp: stat_child read_child)
  moreover have "product_at fs dir name val \<longleftrightarrow> val = bs" using bs by (auto simp: product_at_def)
  ultimately show ?thesis
    by (auto simp: read_report_def public_text_def st_size_def findings_hazards decode_utf8_def not_less)
qed

subsection \<open>What is written\<close>

text \<open>The files of an export: the texts, the product digests, the notes and the licenses.\<close>

definition ev_files :: "bytes dict \<Rightarrow> string dict \<Rightarrow> bytes \<Rightarrow> bytes \<Rightarrow> bytes dict" where
  "ev_files texts hashes gpl mit =
     texts @ [(''products.sha256'', concat (map (\<lambda>(name, d). sum_line d name) hashes)), (''README.txt'', ev_readme),
       (''GPL-2.0.txt'', gpl), (''MIT.txt'', mit)]"

lemma ev_names:
  "distinct (EV_TEXT @ [''products.sha256'', ''README.txt'', ''GPL-2.0.txt'', ''MIT.txt'', ''EVIDENCE-SHA256SUMS''])"
  "list_all (\<lambda>n. n \<noteq> ''..'') (EV_TEXT @ EV_PRODUCTS @ [''products.sha256'', ''README.txt'', ''GPL-2.0.txt'', ''MIT.txt'', ''EVIDENCE-SHA256SUMS''])"
  by code_simp+

lemma map_result_pairs:
  "(\<And>x y. x \<in> set xs \<Longrightarrow> f x = Inr y \<longleftrightarrow> fst y = x \<and> P y) \<Longrightarrow>
     map_result f xs = Inr ys \<longleftrightarrow> map fst ys = xs \<and> list_all P ys"
  by (induction xs arbitrary: ys) (auto simp: result_simps)

definition product_hash :: "fsys \<Rightarrow> string list \<Rightarrow> string \<times> string \<Rightarrow> bool" where
  "product_hash fs dir = (\<lambda>(name, d). \<exists>bs. product_at fs dir name bs \<and> d = sha256_hex bs)"

lemma export_reads:
  assumes "real_dir fs s"
  shows "map_result (\<lambda>name. rbind (ev_digest fs (child (at s) name)) (\<lambda>d. Inr (name, d))) EV_PRODUCTS = Inr hashes \<longleftrightarrow>
      map fst hashes = EV_PRODUCTS \<and> list_all (product_hash fs s) hashes"
    "map_result (read_report fs (at s)) EV_TEXT = Inr texts \<longleftrightarrow> map fst texts = EV_TEXT \<and> list_all (public_text fs s) texts"
proof -
  show "map_result (\<lambda>name. rbind (ev_digest fs (child (at s) name)) (\<lambda>d. Inr (name, d))) EV_PRODUCTS = Inr hashes \<longleftrightarrow>
      map fst hashes = EV_PRODUCTS \<and> list_all (product_hash fs s) hashes"
  proof (rule map_result_pairs)
    fix name :: string and y :: "string \<times> string" assume "name \<in> set EV_PRODUCTS"
    then have "name \<noteq> ''..''" using ev_names(2) by (auto simp: list_all_iff)
    then show "rbind (ev_digest fs (child (at s) name)) (\<lambda>d. Inr (name, d)) = Inr y \<longleftrightarrow> fst y = name \<and> product_hash fs s y"
      using ev_digest_at [OF assms, of name] by (cases y) (auto simp: result_simps product_hash_def)
  qed
  show "map_result (read_report fs (at s)) EV_TEXT = Inr texts \<longleftrightarrow> map fst texts = EV_TEXT \<and> list_all (public_text fs s) texts"
  proof (rule map_result_pairs)
    fix name :: string and y :: "string \<times> bytes" assume "name \<in> set EV_TEXT"
    then have "name \<noteq> ''..''" using ev_names(2) by (auto simp: list_all_iff)
    then show "read_report fs (at s) name = Inr y \<longleftrightarrow> fst y = name \<and> public_text fs s y"
      using read_report_at [OF assms, of name] by (cases y) auto
  qed
qed

lemma ev_files_keys:
  "map fst texts = EV_TEXT \<Longrightarrow>
     dict_keys (ev_files texts hashes gpl mit) = EV_TEXT @ [''products.sha256'', ''README.txt'', ''GPL-2.0.txt'', ''MIT.txt'']"
  by (simp add: ev_files_def dict_keys_def)

lemma ev_files_nonempty:
  assumes keys: "map fst texts = EV_TEXT" and texts: "list_all (\<lambda>(n, val). val \<noteq> []) texts"
    and hashes: "map fst hashes = EV_PRODUCTS" and licenses: "gpl \<noteq> []" "mit \<noteq> []"
    and m: "map_of (ev_files texts hashes gpl mit) n = Some bs"
  shows "bs \<noteq> []" "n \<noteq> ''..''"
proof -
  have mem: "(n, bs) \<in> set (ev_files texts hashes gpl mit)" using m by (rule map_of_SomeD)
  then have "n \<in> set (dict_keys (ev_files texts hashes gpl mit))" by (force simp: dict_keys_def)
  then show "n \<noteq> ''..''" using ev_names(2) unfolding ev_files_keys [OF keys] by (auto simp: list_all_iff)
  have "hashes \<noteq> []" using hashes by (auto simp: EV_PRODUCTS_def)
  then have "concat (map (\<lambda>(name, d). sum_line d name) hashes) \<noteq> []" by (cases hashes) (auto simp: sum_line_def)
  then show "bs \<noteq> []" using mem texts licenses by (auto simp: ev_files_def list_all_iff ev_readme_def)
qed

lemma ev_writes:
  assumes out: "fresh_out fs out" and keys: "map fst texts = EV_TEXT" and ne: "list_all (\<lambda>(n, val). val \<noteq> []) texts"
    and hashes: "map fst hashes = EV_PRODUCTS"
    and repo: "real_dir fs r" "real_dir fs (r @ [''LICENSES''])"
      "product_at fs (r @ [''LICENSES'']) ''GPL-2.0'' gpl" "product_at fs r ''LICENSE'' mit"
  defines "files \<equiv> ev_files texts hashes gpl mit"
  defines "w \<equiv> \<lambda>files. put_files out (perm_for fs 438) files (make_out fs out)"
  shows "for_each (write_to (at out)) (w []) texts = Inr (w texts)"
    "write_bytes (w texts) (at (out @ [''products.sha256''])) (concat (map (\<lambda>(name, d). sum_line d name) hashes)) = Inr (w (take 8 files))"
    "write_bytes (w (take 8 files)) (at (out @ [''README.txt''])) ev_readme = Inr (w (take 9 files))"
    "copyfile (w (take 9 files)) (at ((r @ [''LICENSES'']) @ [''GPL-2.0''])) (at (out @ [''GPL-2.0.txt''])) = Inr (w (take 10 files))"
    "copyfile (w (take 10 files)) (at (r @ [''LICENSE''])) (at (out @ [''MIT.txt''])) = Inr (w files)"
    "sum_lines ev_digest (w files) (at out) = Inr (listing_of files)"
    "write_bytes (w files) (at (out @ [''EVIDENCE-SHA256SUMS''])) (listing_of files) = Inr (w (files @ [(''EVIDENCE-SHA256SUMS'', listing_of files)]))"
proof -
  have len: "length texts = 7" using arg_cong [OF keys, of length] by (simp add: EV_TEXT_def)
  then have takes: "take 8 files = texts @ [(''products.sha256'', concat (map (\<lambda>(name, d). sum_line d name) hashes))]"
    "take 9 files = take 8 files @ [(''README.txt'', ev_readme)]" "take 10 files = take 9 files @ [(''GPL-2.0.txt'', gpl)]"
    "files = take 10 files @ [(''MIT.txt'', mit)]"
    by (simp_all add: files_def ev_files_def)
  have dk: "dict_keys files = EV_TEXT @ [''products.sha256'', ''README.txt'', ''GPL-2.0.txt'', ''MIT.txt'']"
    unfolding files_def using keys by (rule ev_files_keys)
  then have d: "distinct (dict_keys files)" using ev_names(1) by simp
  have ne: "bs \<noteq> []" "n \<noteq> ''..''" if "map_of files n = Some bs" for n bs
    using ev_files_nonempty [OF keys ne hashes _ _ that [unfolded files_def]] repo(3,4) by (simp_all add: product_at_def)
  have dtake: "distinct (dict_keys (take n files))" for n using d by (simp add: dict_keys_def take_map [symmetric])
  have tk: "dict_keys texts = EV_TEXT" using keys by (simp add: dict_keys_def)
  show "for_each (write_to (at out)) (w []) texts = Inr (w texts)"
    using write_files [OF make_out(2) [OF out], of texts] ev_names make_out(3,4) [OF out] tk
    by (auto simp: w_def list_all_iff)
  have nk: "n \<notin> set (dict_keys (take k files))" if "n \<notin> set (drop 0 (take k (dict_keys files)))" for n k
    using that by (simp add: dict_keys_def take_map)
  note wn = write_next [OF out dtake]
  show "write_bytes (w texts) (at (out @ [''products.sha256''])) (concat (map (\<lambda>(name, d). sum_line d name) hashes)) = Inr (w (take 8 files))"
    using write_next(1) [OF out, of texts "''products.sha256''"] ev_names(1) tk unfolding takes(1) w_def by simp
  show "write_bytes (w (take 8 files)) (at (out @ [''README.txt''])) ev_readme = Inr (w (take 9 files))"
    using wn(1) [of "''README.txt''" 8] unfolding takes(2) w_def by (simp add: nk dk EV_TEXT_def)
  have rd: "read_bytes (w fl) (at (dir @ [n])) = Inr bs" if "real_dir fs dir" "n \<noteq> ''..''" "product_at fs dir n bs" for fl dir n bs
    using make_out_keeps [OF out that(1)] that(2,3) unfolding w_def product_at_def by (metis read_child)
  show "copyfile (w (take 9 files)) (at ((r @ [''LICENSES'']) @ [''GPL-2.0''])) (at (out @ [''GPL-2.0.txt''])) = Inr (w (take 10 files))"
    using wn(2) [of "''GPL-2.0.txt''" 9] rd [OF repo(2) _ repo(3), unfolded w_def] unfolding takes(3) w_def by (simp add: nk dk EV_TEXT_def)
  have "copyfile (w (take 10 files)) (at (r @ [''LICENSE''])) (at (out @ [''MIT.txt''])) = Inr (w (take 10 files @ [(''MIT.txt'', mit)]))"
    using wn(2) [of "''MIT.txt''" 10] rd [OF repo(1) _ repo(4), unfolded w_def] unfolding w_def by (simp add: nk dk EV_TEXT_def)
  then show "copyfile (w (take 10 files)) (at (r @ [''LICENSE''])) (at (out @ [''MIT.txt''])) = Inr (w files)"
    unfolding takes(4) [symmetric] .
  have nodes: "nodes (w files) (out @ [n]) = map_option (File (perm_for fs 438)) (map_of files n)" for n
    unfolding w_def by (rule put_files_out(2) [OF out d])
  have real: "real_dir (w files) out" unfolding w_def by (rule put_files_out(1) [OF out d])
  show "sum_lines ev_digest (w files) (at out) = Inr (listing_of files)"
    by (rule evidence.listing_made [OF real d nodes]) (auto simp: product_file_def is_symlink_child [OF real] stat_child [OF real] nodes ne)
  show "write_bytes (w files) (at (out @ [''EVIDENCE-SHA256SUMS''])) (listing_of files) = Inr (w (files @ [(''EVIDENCE-SHA256SUMS'', listing_of files)]))"
    using write_next(1) [OF out d, of "''EVIDENCE-SHA256SUMS''"] ev_names(1) dk unfolding w_def by simp
qed

lemma export_runs:
  assumes out: "fresh_out fs out" and src: "real_dir fs s"
    and repo: "real_dir fs r" "real_dir fs (r @ [''LICENSES''])"
      "product_at fs (r @ [''LICENSES'']) ''GPL-2.0'' gpl" "product_at fs r ''LICENSE'' mit"
    and texts: "map fst texts = EV_TEXT" "list_all (public_text fs s) texts"
    and hashes: "map fst hashes = EV_PRODUCTS" "list_all (product_hash fs s) hashes"
  shows "export fs (at r) (at s) (at out) =
    (let files = ev_files texts hashes gpl mit in
     Inr (put_files out (perm_for fs 438) (files @ [(''EVIDENCE-SHA256SUMS'', listing_of files)]) (make_out fs out)))"
proof -
  have ne: "list_all (\<lambda>(n, val). val \<noteq> []) texts"
    using texts(2) by (auto simp: list_all_iff public_text_def product_at_def)
  note w = ev_writes [OF out texts(1) ne hashes(1) repo]
  have "\<not> is_symlink fs (at s)" "\<not> exists fs (at out)"
    using is_symlink_real [OF src] fresh_not_exists [OF out] by simp_all
  moreover have "map_result (\<lambda>name. rbind (ev_digest fs (child (at s) name)) (\<lambda>d. Inr (name, d))) EV_PRODUCTS = Inr hashes"
    "map_result (read_report fs (at s)) EV_TEXT = Inr texts"
    using export_reads [OF src] texts hashes by blast+
  ultimately show ?thesis
    using w make_out(1) [OF out] by (simp add: export_def Let_def)
qed

text \<open>
  C14: The evidence directory is exactly what it should be. With the repository's license files
  in place, a real source directory and a fresh output, \<open>export\<close> succeeds exactly when every
  listed product is a non-empty plain file and every listed text is, besides, of bounded size,
  valid UTF-8 and free of hazards; and the output then holds these texts unchanged, the
  digests of the products, the notes, the two licenses and a checksum line for each of them,
  and nothing else: no product itself and no unlisted file.
\<close>

theorem export_exact:
  assumes "fresh_out fs out" and "real_dir fs s"
    and "real_dir fs r" and "real_dir fs (r @ [''LICENSES''])"
    and "product_at fs (r @ [''LICENSES'']) ''GPL-2.0'' gpl" and "product_at fs r ''LICENSE'' mit"
  shows "export fs (at r) (at s) (at out) = Inr fs' \<longleftrightarrow>
    (\<exists>texts hashes. map fst texts = EV_TEXT \<and> list_all (public_text fs s) texts \<and>
       map fst hashes = EV_PRODUCTS \<and> list_all (product_hash fs s) hashes \<and>
       (let files = ev_files texts hashes gpl mit in
        fs' = put_files out (perm_for fs 438) (files @ [(''EVIDENCE-SHA256SUMS'', listing_of files)]) (make_out fs out)))"
proof
  assume e: "export fs (at r) (at s) (at out) = Inr fs'"
  then obtain hashes texts where
    "map_result (\<lambda>name. rbind (ev_digest fs (child (at s) name)) (\<lambda>d. Inr (name, d))) EV_PRODUCTS = Inr hashes"
    "map_result (read_report fs (at s)) EV_TEXT = Inr texts"
    by (auto simp: export_def result_simps split: if_splits)
  then have "map fst texts = EV_TEXT" "list_all (public_text fs s) texts"
    "map fst hashes = EV_PRODUCTS" "list_all (product_hash fs s) hashes"
    using export_reads [OF assms(2)] by blast+
  with export_runs [OF assms this] e show "\<exists>texts hashes. map fst texts = EV_TEXT \<and> list_all (public_text fs s) texts \<and>
       map fst hashes = EV_PRODUCTS \<and> list_all (product_hash fs s) hashes \<and>
       (let files = ev_files texts hashes gpl mit in
        fs' = put_files out (perm_for fs 438) (files @ [(''EVIDENCE-SHA256SUMS'', listing_of files)]) (make_out fs out))"
    by (auto simp: Let_def)
next
  assume "\<exists>texts hashes. map fst texts = EV_TEXT \<and> list_all (public_text fs s) texts \<and>
       map fst hashes = EV_PRODUCTS \<and> list_all (product_hash fs s) hashes \<and>
       (let files = ev_files texts hashes gpl mit in
        fs' = put_files out (perm_for fs 438) (files @ [(''EVIDENCE-SHA256SUMS'', listing_of files)]) (make_out fs out))"
  then show "export fs (at r) (at s) (at out) = Inr fs'"
    using export_runs [OF assms] by (auto simp: Let_def)
qed

definition sample_work :: fsys where
  "sample_work = \<lparr>fs_entries =
     [([''r''], Dir 493), ([''s''], Dir 493), ([''o''], Dir 493), ([''r'', ''LICENSES''], Dir 493),
      ([''r'', ''LICENSE''], File 420 ''MIT''), ([''r'', ''LICENSES'', ''GPL-2.0''], File 420 ''GPL'')]
     @ map (\<lambda>n. ([''s'', n], File 420 ''ok'')) (''runner.txt'' # EV_PRODUCTS), cwd = [], umask = 18\<rparr>"

lemma sample_work_nodes:
  "nodes sample_work [''r''] = Some (Dir 493)" "nodes sample_work [''s''] = Some (Dir 493)" "nodes sample_work [''o''] = Some (Dir 493)"
  "nodes sample_work [''r'', ''LICENSES''] = Some (Dir 493)" "nodes sample_work [''r'', ''LICENSE''] = Some (File 420 ''MIT'')"
  "nodes sample_work [''r'', ''LICENSES'', ''GPL-2.0''] = Some (File 420 ''GPL'')"
  "nodes sample_work [''o'', ''x''] = None"
  "list_all (\<lambda>n. nodes sample_work [''s'', n] = Some (File 420 ''ok'')) (''runner.txt'' # EV_PRODUCTS)"
  by code_simp+

lemma sample_work_dirs:
  "real_dir sample_work [''r'']" "real_dir sample_work [''s'']" "real_dir sample_work [''o'']" "real_dir sample_work ([''r''] @ [''LICENSES''])"
  using real_dir_snoc [of sample_work "[]"] real_dir_snoc [of sample_work "[''r'']" "''LICENSES''"] sample_work_nodes by auto

lemma sample_work_wf: "wf_tree sample_work"
proof -
  have "list_all (\<lambda>(l, n). length l \<le> 1 \<or> (case nodes sample_work (butlast l) of Some (Dir _) \<Rightarrow> True | _ \<Rightarrow> False)) (fs_entries sample_work)"
    by code_simp
  then have "loc = [] \<or> (\<exists>m. nodes sample_work loc = Some (Dir m))" if "nodes sample_work (loc @ [c]) \<noteq> None" for loc c
    using that unfolding nodes_entry by (fastforce simp: list_all_iff split: option.splits node.splits)
  then show ?thesis unfolding wf_tree_def by blast
qed

lemma sample_text_clean: "hazard_free ''ok'' \<and> valid_utf8 ''ok''"
proof -
  have "findings ''ok'' = [] \<and> valid_utf8 ''ok''" by code_simp
  then show ?thesis by (simp add: findings_hazards)
qed

theorem export_exact_witness:
  "\<exists>fs'. export sample_work (at [''r'']) (at [''s'']) (at [''o'', ''x'']) = Inr fs'"
proof -
  let ?texts = "map (\<lambda>n. (n, ''ok'')) EV_TEXT" and ?hashes = "map (\<lambda>n. (n, sha256_hex ''ok'')) EV_PRODUCTS"
  have out: "fresh_out sample_work [''o'', ''x'']"
    using sample_work_wf sample_work_dirs sample_work_nodes by (simp add: fresh_out_def)
  have lic: "product_at sample_work ([''r''] @ [''LICENSES'']) ''GPL-2.0'' ''GPL''" "product_at sample_work [''r''] ''LICENSE'' ''MIT''"
    by (simp_all add: product_at_def sample_work_nodes)
  have there: "product_at sample_work [''s''] n ''ok''" if "n \<in> set EV_TEXT \<union> set EV_PRODUCTS" for n
    using sample_work_nodes(8) that by (auto simp: product_at_def list_all_iff EV_TEXT_def EV_PRODUCTS_def)
  have "list_all (public_text sample_work [''s'']) ?texts" "list_all (product_hash sample_work [''s'']) ?hashes"
    using there sample_text_clean by (auto simp: list_all_iff public_text_def product_hash_def MAX_BYTES_def)
  moreover have "map fst ?texts = EV_TEXT" "map fst ?hashes = EV_PRODUCTS" by (simp_all add: comp_def)
  ultimately show ?thesis unfolding export_exact [OF out sample_work_dirs(2,1,4) lic] Let_def by blast
qed

end
