(* ===== verification/Py_Dumps.thy ===== *)
theory Py_Dumps
  imports Py_Json
begin

text \<open>
  \<open>json.dumps(value, indent=2)\<close>, with or without \<open>sort_keys\<close>: the text the scripts write.
  Characters outside printable ASCII are escaped, those beyond the first plane as two
  surrogates.
\<close>

definition byte_val :: "char \<Rightarrow> int" where
  "byte_val c = of_char c"

text \<open>The code point of one character, given as its UTF-8 bytes.\<close>

definition code_point :: "string \<Rightarrow> int" where
  "code_point p =
     (case p of
        [a] \<Rightarrow> byte_val a
      | [a, b] \<Rightarrow> (byte_val a - 192) * 64 + (byte_val b - 128)
      | [a, b, c] \<Rightarrow> (byte_val a - 224) * 4096 + (byte_val b - 128) * 64 + (byte_val c - 128)
      | [a, b, c, d] \<Rightarrow> (byte_val a - 240) * 262144 + (byte_val b - 128) * 4096 + (byte_val c - 128) * 64 + (byte_val d - 128)
      | _ \<Rightarrow> 0)"

definition backslash :: char where "backslash = CHR 0x5C"

definition unicode_escape :: "int \<Rightarrow> string" where
  "unicode_escape n = backslash # CHR ''u'' # zfill 4 (to_base 16 n)"

definition short_escapes :: "(string \<times> char) list" where
  "short_escapes = [([CHR 0x22], CHR 0x22), ([backslash], backslash), ([CHR 0x0A], CHR ''n''), ([CHR 0x0D], CHR ''r''),
     ([CHR 0x09], CHR ''t''), ([CHR 0x08], CHR ''b''), ([CHR 0x0C], CHR ''f'')]"

definition escape_point :: "string \<Rightarrow> string" where
  "escape_point p =
     (case map_of short_escapes p of
        Some c \<Rightarrow> [backslash, c]
      | None \<Rightarrow>
          let n = code_point p in
          if list_all printable p then p
          else if n < 65536 then unicode_escape n
          else let m = n - 65536 in unicode_escape (55296 + m div 1024) @ unicode_escape (56320 + m mod 1024))"

definition dumps_str :: "string \<Rightarrow> string" where
  "dumps_str s = [CHR 0x22] @ concat (map escape_point (code_points s)) @ [CHR 0x22]"

definition new_line :: "nat \<Rightarrow> string" where
  "new_line k = CHR 0x0A # replicate (2 * k) (CHR '' '')"

text \<open>An object or array: its items on lines of their own, or nothing between the brackets.\<close>

definition bracketed :: "string \<Rightarrow> string \<Rightarrow> nat \<Rightarrow> string list \<Rightarrow> string" where
  "bracketed l r k items =
     (if items = [] then l @ r
      else l @ new_line (Suc k) @ join (CHR '','' # new_line (Suc k)) items @ new_line k @ r)"

lemma size_object_item: "(k, v) \<in> set d \<Longrightarrow> size v < size (JObj d)"
  by (induction d) auto

lemma size_array_item: "v \<in> set xs \<Longrightarrow> size v < size (JArr xs)"
  by (induction xs) auto

function dumps_at :: "bool \<Rightarrow> nat \<Rightarrow> json \<Rightarrow> string" where
  "dumps_at sk k JNull = ''null''"
| "dumps_at sk k (JBool b) = (if b then ''true'' else ''false'')"
| "dumps_at sk k (JInt n) = str_int n"
| "dumps_at sk k (JFloat s) = s"
| "dumps_at sk k (JStr s) = dumps_str s"
| "dumps_at sk k (JArr xs) = bracketed ''['' '']'' k (map (dumps_at sk (Suc k)) xs)"
| "dumps_at sk k (JObj d) =
     bracketed [CHR 0x7B] [CHR 0x7D] k
       (map (\<lambda>p. dumps_str (fst p) @ '': '' @ dumps_at sk (Suc k) (snd p)) (if sk then sort_key fst d else d))"
  by pat_completeness auto
termination
  by (relation "measure (\<lambda>(sk, k, j). size j)") (auto dest: size_array_item size_object_item split: if_splits)

definition dumps :: "bool \<Rightarrow> json \<Rightarrow> string" where
  "dumps sk j = dumps_at sk 0 j"

end
