(* ===== verification/Rootfs_Audit.thy ===== *)
theory Rootfs_Audit
  imports Plain_Dirs Py_Dumps
begin

text \<open>
  \<open>scripts/audit-rootfs.py\<close>: the generic root file system must carry the reviewed defaults, no
  keys and none of the deselected tools; its inventory describes every node in it. The lemmas
  read the checks back as facts about the tree.
\<close>

definition sub :: "ppath \<Rightarrow> string \<Rightarrow> ppath" where
  "sub root name = p_join root (parse_path name)"

definition default_names :: "string list" where
  "default_names = [''dropbear'', ''network'', ''firewall'']"

definition forbidden_tools :: "string list" where
  "forbidden_tools = [''etc/init.d/dnsmasq'', ''etc/init.d/odhcpd'', ''usr/sbin/pppd'',
     ''usr/sbin/fw_setenv'', ''usr/sbin/fw_printenv'', ''etc/config/dhcp'']"

definition check_parent :: "fsys \<Rightarrow> ppath \<Rightarrow> string \<Rightarrow> unit result" where
  "check_parent fs root name =
     raise_if (is_symlink fs (sub root name) \<or> \<not> is_dir fs (sub root name))
       (SystemExit ''unsafe generic rootfs configuration parent'')"

text \<open>\<open>repo\<close> is \<open>Path(__file__).resolve().parents[1]\<close>.\<close>

definition check_default :: "fsys \<Rightarrow> ppath \<Rightarrow> ppath \<Rightarrow> string \<Rightarrow> unit result" where
  "check_default fs repo root name =
     (let path = child (sub root ''etc/config'') name;
          bad = SystemExit ''generic rootfs defaults differ from the reviewed public overlay''
      in if is_symlink fs path then Inl bad
         else rbind (read_bytes fs path) (\<lambda>a.
              rbind (read_bytes fs (child (sub (sub repo ''openwrt/files'') ''etc/config'') name)) (\<lambda>b.
              raise_if (a \<noteq> b) bad)))"

definition check_key_dir :: "fsys \<Rightarrow> ppath \<Rightarrow> string \<Rightarrow> unit result" where
  "check_key_dir fs root name =
     (let path = sub root name in
      if is_symlink fs path \<or> exists fs path \<and> \<not> is_dir fs path
      then Inl (SystemExit ''unsafe generic rootfs key directory'')
      else if exists fs path
      then rbind (iterdir fs path) (\<lambda>names.
             raise_if (names \<noteq> []) (SystemExit ''generic rootfs contains SSH key or authorization files''))
      else Inr ())"

definition check_tool :: "fsys \<Rightarrow> ppath \<Rightarrow> string \<Rightarrow> unit result" where
  "check_tool fs root name =
     raise_if (exists fs (sub root name) \<or> is_symlink fs (sub root name))
       (SystemExit (''unexpected router or environment tool in NAS rootfs: '' @ name))"

text \<open>
  One entry of the inventory. The kinds of this file system are the three of the model, so
  \<open>special\<close> does not occur.
\<close>

definition inventory_entry :: "fsys \<Rightarrow> ppath \<Rightarrow> json result" where
  "inventory_entry fs path =
     rbind (lstat fs path) (\<lambda>st.
       case st of
         Link target \<Rightarrow> Inr (JObj [(''type'', JStr ''symlink''), (''mode'', JInt (st_perm st)), (''target'', JStr target)])
       | Dir _ \<Rightarrow> Inr (JObj [(''type'', JStr ''directory''), (''mode'', JInt (st_perm st))])
       | File _ _ \<Rightarrow>
           rbind (hashed fs path) (\<lambda>d.
           rbind (stat fs path) (\<lambda>st'.
           Inr (JObj [(''type'', JStr ''file''), (''mode'', JInt (st_perm st)), (''sha256'', JStr d),
             (''size'', JInt (st_size st'))]))))"

definition rootfs_inventory :: "fsys \<Rightarrow> ppath \<Rightarrow> json dict result" where
  "rootfs_inventory fs root =
     rbind (rglob fs root) (\<lambda>found.
       for_each (\<lambda>inv rel. rbind (inventory_entry fs (root\<lparr>p_tail := p_tail root @ rel\<rparr>)) (\<lambda>e.
         Inr (dict_set (join ''/'' rel) e inv))) [] (sort found))"

definition audit_rootfs :: "fsys \<Rightarrow> ppath \<Rightarrow> ppath \<Rightarrow> ppath \<Rightarrow> fsys result" where
  "audit_rootfs fs repo root output =
     rbind (for_each (\<lambda>_. check_parent fs root) () [''etc'', ''etc/config'']) (\<lambda>_.
     rbind (for_each (\<lambda>_. check_default fs repo root) () default_names) (\<lambda>_.
     rbind (for_each (\<lambda>_. check_key_dir fs root) () [''etc/dropbear'', ''root/.ssh'']) (\<lambda>_.
     rbind (for_each (\<lambda>_. check_tool fs root) () forbidden_tools) (\<lambda>_.
     rbind (rootfs_inventory fs root) (\<lambda>inv.
     write_bytes fs output (dumps True (JObj inv) @ [CHR 0x0A]))))))"

subsection \<open>The checks as facts about the tree\<close>

text \<open>No component of a location is \<open>..\<close> or contains a slash.\<close>

definition plain_names :: "fsys \<Rightarrow> bool" where
  "plain_names fs \<longleftrightarrow> (\<forall>l. nodes fs l \<noteq> None \<longrightarrow> (\<forall>c \<in> set l. c \<noteq> ''..'' \<and> c \<noteq> [] \<and> CHR ''/'' \<notin> set c))"

lemma wf_real_below:
  "wf_tree fs \<Longrightarrow> plain_names fs \<Longrightarrow> real_dir fs r \<Longrightarrow> nodes fs (r @ cs @ [c]) \<noteq> None \<Longrightarrow> real_dir fs (r @ cs)"
proof (induction cs arbitrary: c rule: rev_induct)
  case (snoc d cs)
  have "nodes fs ((r @ cs @ [d]) @ [c]) \<noteq> None" using snoc.prems(4) by simp
  then obtain m where m: "nodes fs (r @ cs @ [d]) = Some (Dir m)"
    using snoc.prems(1) unfolding wf_tree_def by blast
  then have "real_dir fs (r @ cs)" "d \<noteq> ''..''"
    using snoc by (auto simp: plain_names_def)
  then show ?case using m real_dir_snoc [of fs "r @ cs" d] by simp
qed simp

text \<open>What neither exists nor is a link is not in the tree.\<close>

lemma absent:
  assumes "wf_tree fs" "plain_names fs" "real_dir fs r" "cs \<noteq> []"
    and "\<not> exists fs (at (r @ cs))" "\<not> is_symlink fs (at (r @ cs))"
  shows "nodes fs (r @ cs) = None"
proof (rule ccontr)
  assume n: "nodes fs (r @ cs) \<noteq> None"
  obtain ds c where cs: "cs = ds @ [c]" using assms(4) by (cases cs rule: rev_cases) auto
  have rd: "real_dir fs (r @ ds)" using wf_real_below [OF assms(1-3)] n cs by simp
  have "c \<noteq> ''..''" using n assms(2) cs by (auto simp: plain_names_def)
  then show False
    using assms(5,6) n exists_child [OF rd, of c] is_symlink_child [OF rd, of c] cs by auto
qed

lemma sub_at: "confined (parse_path name) \<Longrightarrow> sub (at r) name = at (r @ p_tail (parse_path name))"
  by (simp add: sub_def p_join_def confined_def at_def)

lemma names_confined:
  "list_all (\<lambda>n. confined (parse_path n) \<and> p_tail (parse_path n) \<noteq> []) ([''etc'', ''etc/config'', ''etc/dropbear'', ''root/.ssh''] @ forbidden_tools)"
  by code_simp

lemma parsed_names:
  "p_tail (parse_path ''etc'') = [''etc'']" "p_tail (parse_path ''etc/config'') = [''etc'', ''config'']"
  "p_tail (parse_path ''etc/dropbear'') = [''etc'', ''dropbear'']" "p_tail (parse_path ''root/.ssh'') = [''root'', ''.ssh'']"
  by code_simp+

lemma is_dir_child:
  "real_dir fs loc \<Longrightarrow> c \<noteq> ''..'' \<Longrightarrow> no_link fs (loc @ [c]) \<Longrightarrow> is_dir fs (at (loc @ [c])) \<longleftrightarrow> (\<exists>m. nodes fs (loc @ [c]) = Some (Dir m))"
  by (cases "nodes fs (loc @ [c])") (auto simp: is_dir_def stat_child split: node.splits)

lemma check_parent_at:
  "real_dir fs loc \<Longrightarrow> sub (at r) name = at (loc @ [c]) \<Longrightarrow> c \<noteq> ''..'' \<Longrightarrow>
     check_parent fs (at r) name = Inr u \<longleftrightarrow> real_dir fs (loc @ [c])"
  using is_dir_child [of fs loc c] by (auto simp: check_parent_def raise_if_eq_Inr is_symlink_child)

text \<open>The configuration parents, as one condition.\<close>

lemma check_parents:
  assumes "real_dir fs r"
  shows "for_each (\<lambda>_. check_parent fs (at r)) () [''etc'', ''etc/config''] = Inr u \<longleftrightarrow> real_dir fs (r @ [''etc'', ''config''])"
proof -
  have s: "sub (at r) ''etc'' = at (r @ [''etc''])" "sub (at r) ''etc/config'' = at ((r @ [''etc'']) @ [''config''])"
    using sub_at [of "''etc''" r] sub_at [of "''etc/config''" r] names_confined parsed_names by simp_all
  have "real_dir fs (r @ [''etc'', ''config'']) \<longleftrightarrow> real_dir fs ((r @ [''etc'']) @ [''config''])" by simp
  then show ?thesis
    using check_parent_at [OF assms s(1)] check_parent_at [OF _ s(2)] unfolding for_each_unit
    by (auto simp del: append_assoc append.simps)
qed

definition public_default :: "ppath \<Rightarrow> string \<Rightarrow> ppath" where
  "public_default repo name = child (sub (sub repo ''openwrt/files'') ''etc/config'') name"

lemma check_default_at:
  assumes "real_dir fs (r @ [''etc'', ''config''])" "name \<noteq> ''..''" "check_default fs repo (at r) name = Inr u"
  shows "\<exists>m bs. nodes fs (r @ [''etc'', ''config'', name]) = Some (File m bs) \<and> read_bytes fs (public_default repo name) = Inr bs"
proof -
  have path: "child (sub (at r) ''etc/config'') name = at ((r @ [''etc'', ''config'']) @ [name])"
    using sub_at [of "''etc/config''" r] names_confined parsed_names by simp
  have nl: "no_link fs ((r @ [''etc'', ''config'']) @ [name])"
    using assms is_symlink_child [OF assms(1,2)] unfolding check_default_def path by (auto split: if_splits)
  show ?thesis
    using assms(3) nl stat_child [OF assms(1,2) nl] is_symlink_child [OF assms(1,2)]
    unfolding check_default_def path Let_def public_default_def [symmetric]
    by (auto simp: result_simps read_bytes_def split: option.splits node.splits if_splits)
qed

text \<open>After the test, nothing lies in the directory, wherever links would lead.\<close>

lemma check_key_dir_at:
  assumes fs: "wf_tree fs" "plain_names fs" "real_dir fs r" and s: "sub (at r) name = at (r @ cs)" and cs: "cs \<noteq> []"
    and ok: "check_key_dir fs (at r) name = Inr u"
  shows "children fs (r @ cs) = []"
proof (rule ccontr)
  assume "children fs (r @ cs) \<noteq> []"
  then obtain x where x: "nodes fs (r @ cs @ [x]) \<noteq> None"
    using set_children [of _ fs "r @ cs"] by (cases "children fs (r @ cs)") fastforce+
  then have rd: "real_dir fs (r @ cs)" by (rule wf_real_below [OF fs])
  then have "iterdir fs (at (r @ cs)) = Inr (children fs (r @ cs))" "exists fs (at (r @ cs))"
    using stat_real [OF rd] by (auto simp: iterdir_at exists_def)
  then show False
    using ok \<open>children fs (r @ cs) \<noteq> []\<close> unfolding check_key_dir_def s by (auto simp: raise_if_def Let_def split: if_splits)
qed

lemma check_tool_at:
  assumes "wf_tree fs" "plain_names fs" "real_dir fs r" "name \<in> set forbidden_tools" "check_tool fs (at r) name = Inr u"
  shows "nodes fs (r @ p_tail (parse_path name)) = None"
proof -
  have c: "confined (parse_path name)" "p_tail (parse_path name) \<noteq> []"
    using names_confined assms(4) by (auto simp: list_all_iff)
  show ?thesis
    using absent [OF assms(1-3) c(2)] assms(5) by (auto simp: check_tool_def raise_if_eq_Inr sub_at [OF c(1)])
qed

subsection \<open>The inventory\<close>

definition describe :: "node \<Rightarrow> json" where
  "describe n =
     (case n of
        Link target \<Rightarrow> JObj [(''type'', JStr ''symlink''), (''mode'', JInt 511), (''target'', JStr target)]
      | Dir m \<Rightarrow> JObj [(''type'', JStr ''directory''), (''mode'', JInt m)]
      | File m bs \<Rightarrow> JObj [(''type'', JStr ''file''), (''mode'', JInt m), (''sha256'', JStr (sha256_hex bs)),
          (''size'', JInt (int (length bs)))])"

definition inventory_of :: "fsys \<Rightarrow> string list \<Rightarrow> json dict" where
  "inventory_of fs r = map (\<lambda>rel. (join ''/'' rel, describe (the (nodes fs (r @ rel))))) (sort (below fs r))"

lemma inventory_entry_at:
  assumes "wf_tree fs" "plain_names fs" "real_dir fs r" "rel \<noteq> []" "nodes fs (r @ rel) = Some n"
  shows "inventory_entry fs (at (r @ rel)) = Inr (describe n)"
proof -
  obtain cs c where rel: "rel = cs @ [c]" using assms(4) by (cases rel rule: rev_cases) auto
  have rd: "real_dir fs (r @ cs)" by (rule wf_real_below [OF assms(1-3), of _ c]) (use assms(5) rel in simp)
  have c: "c \<noteq> ''..''" using assms(2,5) rel by (auto simp: plain_names_def)
  show ?thesis
  proof (cases n)
    case (File m bs)
    then have "nodes fs ((r @ cs) @ [c]) = Some (File m bs)" using assms(5) rel by simp
    with lstat_child [OF rd c] stat_child [OF rd c] read_child [OF rd c] show ?thesis
      using File rel by (simp add: inventory_entry_def hashed_def describe_def st_perm_def st_size_def)
  next
    case (Dir m)
    then show ?thesis using lstat_child [OF rd c] assms(5) rel by (simp add: inventory_entry_def describe_def st_perm_def)
  next
    case (Link t)
    then show ?thesis using lstat_child [OF rd c] assms(5) rel by (simp add: inventory_entry_def describe_def st_perm_def)
  qed
qed

lemma join_inj:
  assumes "a \<noteq> []" "b \<noteq> []" "\<And>c. c \<in> set a \<union> set b \<Longrightarrow> CHR ''/'' \<notin> set c" "join ''/'' a = join ''/'' b"
  shows "a = b"
proof -
  have "split_on (CHR ''/'') (join ''/'' a) = a" "split_on (CHR ''/'') (join ''/'' b) = b"
    using assms(1-3) by (intro split_on_join; blast)+
  then show ?thesis using assms(4) by metis
qed

lemma for_each_dict:
  "(\<And>x. x \<in> set xs \<Longrightarrow> f x = Inr (v x)) \<Longrightarrow> distinct (dict_keys acc @ map k xs) \<Longrightarrow>
     for_each (\<lambda>d x. rbind (f x) (\<lambda>e. Inr (dict_set (k x) e d))) acc xs = Inr (acc @ map (\<lambda>x. (k x, v x)) xs)"
proof (induction xs arbitrary: acc)
  case (Cons x xs)
  then have "for_each (\<lambda>d x. rbind (f x) (\<lambda>e. Inr (dict_set (k x) e d))) (acc @ [(k x, v x)]) xs
      = Inr ((acc @ [(k x, v x)]) @ map (\<lambda>x. (k x, v x)) xs)"
    by (intro Cons.IH) (auto simp: dict_keys_def)
  with Cons.prems show ?case by (simp add: dict_set_new)
qed simp

lemma inventory_exact:
  assumes "wf_tree fs" "plain_names fs" "real_dir fs r"
  shows "rootfs_inventory fs (at r) = Inr (inventory_of fs r)"
proof -
  have "rglob fs (at r) = Inr (below fs r)" by (simp add: rglob_def resolve_at [OF assms(3)])
  moreover have "for_each (\<lambda>inv rel. rbind (inventory_entry fs ((at r)\<lparr>p_tail := p_tail (at r) @ rel\<rparr>)) (\<lambda>e.
      Inr (dict_set (join ''/'' rel) e inv))) [] (sort (below fs r)) = Inr ([] @ inventory_of fs r)"
    unfolding inventory_of_def
  proof (rule for_each_dict)
    fix rel assume "rel \<in> set (sort (below fs r))"
    then have "rel \<noteq> []" "nodes fs (r @ rel) \<noteq> None" by (simp_all add: set_below)
    then show "inventory_entry fs ((at r)\<lparr>p_tail := p_tail (at r) @ rel\<rparr>) = Inr (describe (the (nodes fs (r @ rel))))"
      using inventory_entry_at [OF assms] by (auto simp: at_def)
  next
    have "inj_on (join ''/'') (set (below fs r))"
    proof (rule inj_onI)
      fix a b assume ab: "a \<in> set (below fs r)" "b \<in> set (below fs r)" "join ''/'' a = join ''/'' b"
      show "a = b"
      proof (rule join_inj [OF _ _ _ ab(3)])
        show "CHR ''/'' \<notin> set c" if "c \<in> set a \<union> set b" for c
        proof -
          from that ab(1,2) obtain rel where "c \<in> set (r @ rel)" "nodes fs (r @ rel) \<noteq> None"
            by (auto simp: set_below)
          then show ?thesis using assms(2) unfolding plain_names_def by blast
        qed
      qed (use ab set_below in auto)
    qed
    moreover have "distinct (below fs r)" by (simp add: below_def)
    ultimately show "distinct (dict_keys [] @ map (join ''/'') (sort (below fs r)))"
      by (simp add: dict_keys_def distinct_map)
  qed
  ultimately show ?thesis by (simp add: rootfs_inventory_def)
qed

text \<open>
  C15: A root file system that passes is generic. For a well-formed tree, whenever the audit
  succeeds, the configuration directory is real and holds the three reviewed defaults byte for
  byte; no location below \<open>etc/dropbear\<close> or \<open>root/.ssh\<close> and none of the deselected tools exists
  in the tree; and the text written is the sorted inventory of every node, with the digest of
  every file.
\<close>

theorem audit_rootfs_generic:
  assumes fs: "wf_tree fs" "plain_names fs" "real_dir fs r" and ok: "audit_rootfs fs repo (at r) output = Inr fs'"
  shows "real_dir fs (r @ [''etc'', ''config'']) \<and>
    list_all (\<lambda>name. \<exists>m bs. nodes fs (r @ [''etc'', ''config'', name]) = Some (File m bs) \<and>
      read_bytes fs (public_default repo name) = Inr bs) default_names \<and>
    children fs (r @ [''etc'', ''dropbear'']) = [] \<and> children fs (r @ [''root'', ''.ssh'']) = [] \<and>
    list_all (\<lambda>name. nodes fs (r @ p_tail (parse_path name)) = None) forbidden_tools \<and>
    write_bytes fs output (dumps True (JObj (inventory_of fs r)) @ [CHR 0x0A]) = Inr fs'"
proof -
  from ok have c: "for_each (\<lambda>_. check_parent fs (at r)) () [''etc'', ''etc/config''] = Inr ()"
    "list_all (\<lambda>name. check_default fs repo (at r) name = Inr ()) default_names"
    "list_all (\<lambda>name. check_key_dir fs (at r) name = Inr ()) [''etc/dropbear'', ''root/.ssh'']"
    "list_all (\<lambda>name. check_tool fs (at r) name = Inr ()) forbidden_tools"
    "write_bytes fs output (dumps True (JObj (inventory_of fs r)) @ [CHR 0x0A]) = Inr fs'"
    by (auto simp: audit_rootfs_def rbind_eq_Inr for_each_unit inventory_exact [OF fs] simp del: for_each.simps)
  have rd: "real_dir fs (r @ [''etc'', ''config''])" using c(1) check_parents [OF fs(3)] by blast
  moreover have "list_all (\<lambda>name. \<exists>m bs. nodes fs (r @ [''etc'', ''config'', name]) = Some (File m bs) \<and>
      read_bytes fs (public_default repo name) = Inr bs) default_names"
    using c(2) check_default_at [OF rd] unfolding list_all_iff by (auto simp: default_names_def)
  moreover have "sub (at r) ''etc/dropbear'' = at (r @ [''etc'', ''dropbear''])" "sub (at r) ''root/.ssh'' = at (r @ [''root'', ''.ssh''])"
    using sub_at [of "''etc/dropbear''" r] sub_at [of "''root/.ssh''" r] names_confined parsed_names by simp_all
  then have "children fs (r @ [''etc'', ''dropbear'']) = []" "children fs (r @ [''root'', ''.ssh'']) = []"
    using c(3) check_key_dir_at [OF fs] by simp_all
  moreover have "list_all (\<lambda>name. nodes fs (r @ p_tail (parse_path name)) = None) forbidden_tools"
    using c(4) check_tool_at [OF fs] by (auto simp: list_all_iff)
  ultimately show ?thesis using c(5) by blast
qed

definition sample_rootfs :: fsys where
  "sample_rootfs = \<lparr>fs_entries =
     map (\<lambda>d. (d, Dir 493)) [[''r''], [''r'', ''etc''], [''r'', ''etc'', ''config''], [''p''], [''p'', ''openwrt''],
       [''p'', ''openwrt'', ''files''], [''p'', ''openwrt'', ''files'', ''etc''], [''p'', ''openwrt'', ''files'', ''etc'', ''config''], [''o'']]
     @ map (\<lambda>n. ([''r'', ''etc'', ''config'', n], File 384 ''x'')) default_names
     @ map (\<lambda>n. ([''p'', ''openwrt'', ''files'', ''etc'', ''config'', n], File 420 ''x'')) default_names,
     cwd = [], umask = 18\<rparr>"

lemma sample_rootfs_checks:
  "closed_entries sample_rootfs"
  "list_all (\<lambda>(l, n). list_all (\<lambda>c. c \<noteq> ''..'' \<and> c \<noteq> [] \<and> CHR ''/'' \<notin> set c) l) (fs_entries sample_rootfs)"
  "nodes sample_rootfs [''r''] = Some (Dir 493)" "nodes sample_rootfs [''o''] = Some (Dir 493)" "nodes sample_rootfs [''o'', ''x''] = None"
  "for_each (\<lambda>_. check_parent sample_rootfs (at [''r''])) () [''etc'', ''etc/config''] = Inr ()"
  "for_each (\<lambda>_. check_default sample_rootfs (at [''p'']) (at [''r''])) () default_names = Inr ()"
  "for_each (\<lambda>_. check_key_dir sample_rootfs (at [''r''])) () [''etc/dropbear'', ''root/.ssh''] = Inr ()"
  "for_each (\<lambda>_. check_tool sample_rootfs (at [''r''])) () forbidden_tools = Inr ()"
  by code_simp+

theorem audit_rootfs_generic_witness:
  "nodes sample_rootfs [''r'', ''usr'', ''sbin'', ''pppd''] = None \<and> children sample_rootfs [''r'', ''etc'', ''dropbear''] = []"
proof -
  have "wf_tree sample_rootfs" using sample_rootfs_checks(1) by (rule closed_entries)
  moreover have "plain_names sample_rootfs"
    using sample_rootfs_checks(2) unfolding plain_names_def nodes_entry by (fastforce simp: list_all_iff)
  moreover have rd: "real_dir sample_rootfs [''r'']" "real_dir sample_rootfs [''o'']"
    using real_dir_snoc [of sample_rootfs "[]"] sample_rootfs_checks(3,4) by auto
  moreover obtain fs' where "write_bytes sample_rootfs (at ([''o''] @ [''x'']))
      (dumps True (JObj (inventory_of sample_rootfs [''r''])) @ [CHR 0x0A]) = Inr fs'"
    using write_child_new [OF rd(2), of "''x''"] sample_rootfs_checks(5) by simp
  moreover from this have "audit_rootfs sample_rootfs (at [''p'']) (at [''r'']) (at ([''o''] @ [''x''])) = Inr fs'"
    using sample_rootfs_checks inventory_exact [OF calculation(1-3)] by (simp add: audit_rootfs_def del: for_each.simps)
  moreover have "p_tail (parse_path ''usr/sbin/pppd'') = [''usr'', ''sbin'', ''pppd'']" by code_simp
  ultimately show ?thesis
    using audit_rootfs_generic [of sample_rootfs "[''r'']" "at [''p'']" "at ([''o''] @ [''x''])" fs']
    by (simp add: forbidden_tools_def)
qed

end
