(* ===== verification/Py_Loads.thy ===== *)
theory Py_Loads
  imports Py_Dumps
begin

text \<open>
  \<open>json.loads\<close>: a recursive descent over the text. A float keeps its spelling, the last of
  several equal keys wins, and \<open>\u\<close> escapes become UTF-8 (a lone surrogate is kept as three
  bytes). The depth of nesting is bounded by the length of the text, so fuel of that size is
  enough.
\<close>

definition json_ws :: "string \<Rightarrow> string" where
  "json_ws s = dropWhile (\<lambda>c. c \<in> {CHR '' '', CHR 0x09, CHR 0x0A, CHR 0x0D}) s"

definition json_error :: exn where "json_error = ValueError ''JSONDecodeError''"

subsection \<open>Strings\<close>

definition char_of_int :: "int \<Rightarrow> char" where
  "char_of_int n = char_of n"

definition utf8_point :: "int \<Rightarrow> string" where
  "utf8_point n =
     (if n < 128 then [char_of_int n]
      else if n < 2048 then map char_of_int [192 + n div 64, 128 + n mod 64]
      else if n < 65536 then map char_of_int [224 + n div 4096, 128 + (n div 64) mod 64, 128 + n mod 64]
      else map char_of_int [240 + n div 262144, 128 + (n div 4096) mod 64, 128 + (n div 64) mod 64, 128 + n mod 64])"

fun hex4 :: "string \<Rightarrow> (int \<times> string) option" where
  "hex4 (a # b # c # d # s) =
     (case (hex_val a, hex_val b, hex_val c, hex_val d) of
        (Some x, Some y, Some z, Some w) \<Rightarrow> Some (((x * 16 + y) * 16 + z) * 16 + w, s)
      | _ \<Rightarrow> None)"
| "hex4 _ = None"

text \<open>After \<open>\u\<close>: one code unit, or two when they are a surrogate pair.\<close>

definition unescape_unicode :: "string \<Rightarrow> (string \<times> string) option" where
  "unescape_unicode s =
     (case hex4 s of
        None \<Rightarrow> None
      | Some (n, t) \<Rightarrow>
          if 55296 \<le> n \<and> n < 56320 \<and> startswith [backslash, CHR ''u''] t
          then (case hex4 (drop 2 t) of
                  None \<Rightarrow> None
                | Some (m, u) \<Rightarrow>
                    if 56320 \<le> m \<and> m < 57344
                    then Some (utf8_point (65536 + (n - 55296) * 1024 + (m - 56320)), u)
                    else Some (utf8_point n, t))
          else Some (utf8_point n, t))"

definition short_unescapes :: "(char \<times> char) list" where
  "short_unescapes = (CHR ''/'', CHR ''/'') # map (\<lambda>(p, c). (c, hd p)) short_escapes"

text \<open>The rest of a string after its opening quote, and what follows the closing one.\<close>

fun loads_str :: "nat \<Rightarrow> string \<Rightarrow> (string \<times> string) option" where
  "loads_str 0 s = None"
| "loads_str (Suc k) [] = None"
| "loads_str (Suc k) (c # s) =
     (if c = CHR 0x22 then Some ([], s)
      else if c = backslash then
        (case s of
           [] \<Rightarrow> None
         | e # t \<Rightarrow>
             (case (if e = CHR ''u'' then unescape_unicode t
                    else map_option (\<lambda>d. ([d], t)) (map_of short_unescapes e)) of
                None \<Rightarrow> None
              | Some (p, u) \<Rightarrow> map_option (\<lambda>(q, v). (p @ q, v)) (loads_str k u)))
      else if c < CHR 0x20 then None
      else map_option (\<lambda>(q, v). (c # q, v)) (loads_str k s))"

subsection \<open>Numbers\<close>

definition is_dec :: "char \<Rightarrow> bool" where
  "is_dec c \<longleftrightarrow> CHR ''0'' \<le> c \<and> c \<le> CHR ''9''"

definition dec_value :: "string \<Rightarrow> int" where
  "dec_value s = foldl (\<lambda>n c. 10 * n + (of_char c - 48)) 0 s"

text \<open>\<open>(-?(?:0|[1-9][0-9]*))(\.[0-9]+)?([eE][-+]?[0-9]+)?\<close>: integer part, fraction, exponent.\<close>

definition take_frac :: "string \<Rightarrow> string" where
  "take_frac s = (case s of c # t \<Rightarrow>
     (let d = takeWhile is_dec t in if c = CHR ''.'' \<and> d \<noteq> [] then c # d else []) | [] \<Rightarrow> [])"

definition take_exp :: "string \<Rightarrow> string" where
  "take_exp s = (case s of
     c # t \<Rightarrow>
       if c \<in> {CHR ''e'', CHR ''E''} then
         (let sg = (case t of x # _ \<Rightarrow> if x \<in> {CHR ''+'', CHR ''-''} then [x] else [] | [] \<Rightarrow> []);
              d = takeWhile is_dec (drop (length sg) t)
          in if d \<noteq> [] then c # sg @ d else [])
       else []
   | [] \<Rightarrow> [])"

definition loads_number :: "string \<Rightarrow> (json \<times> string) option" where
  "loads_number s =
     (let sg = (if startswith ''-'' s then ''-'' else []); t = drop (length sg) s;
          digits = (if startswith ''0'' t then ''0'' else takeWhile is_dec t);
          u = drop (length digits) t; frac = take_frac u;
          v = drop (length frac) u; ex = take_exp v
      in if digits = [] then None
         else if frac = [] \<and> ex = [] then Some (JInt (if sg = [] then dec_value digits else - dec_value digits), u)
         else Some (JFloat (sg @ digits @ frac @ ex), drop (length ex) v))"

subsection \<open>Values\<close>

definition json_words :: "(string \<times> json) list" where
  "json_words = [(''null'', JNull), (''true'', JBool True), (''false'', JBool False),
     (''NaN'', JFloat ''NaN''), (''Infinity'', JFloat ''Infinity''), (''-Infinity'', JFloat ''-Infinity'')]"

definition dict_of :: "(string \<times> 'a) list \<Rightarrow> 'a dict" where
  "dict_of ps = dict_update [] ps"

fun loads_value :: "nat \<Rightarrow> string \<Rightarrow> (json \<times> string) option"
  and loads_items :: "nat \<Rightarrow> string \<Rightarrow> (json list \<times> string) option"
  and loads_members :: "nat \<Rightarrow> string \<Rightarrow> ((string \<times> json) list \<times> string) option" where
  "loads_value 0 s = None"
| "loads_value (Suc k) s =
     (case s of
        [] \<Rightarrow> None
      | c # t \<Rightarrow>
          if c = CHR 0x22 then map_option (\<lambda>(p, u). (JStr p, u)) (loads_str (Suc (length t)) t)
          else if c = CHR 0x5B then
            (let u = json_ws t in
             if startswith [CHR 0x5D] u then Some (JArr [], tl u)
             else map_option (\<lambda>(xs, v). (JArr xs, v)) (loads_items k u))
          else if c = CHR 0x7B then
            (let u = json_ws t in
             if startswith [CHR 0x7D] u then Some (JObj [], tl u)
             else map_option (\<lambda>(ps, v). (JObj (dict_of ps), v)) (loads_members k u))
          else (case filter (\<lambda>(w, j). startswith w s) json_words of
                  (w, j) # _ \<Rightarrow> Some (j, drop (length w) s)
                | [] \<Rightarrow> loads_number s))"
| "loads_items 0 s = None"
| "loads_items (Suc k) s =
     (case loads_value k s of
        None \<Rightarrow> None
      | Some (j, t) \<Rightarrow>
          (let u = json_ws t in
           if startswith [CHR 0x5D] u then Some ([j], tl u)
           else if startswith '','' u then map_option (\<lambda>(xs, v). (j # xs, v)) (loads_items k (json_ws (tl u)))
           else None))"
| "loads_members 0 s = None"
| "loads_members (Suc k) s =
     (if \<not> startswith [CHR 0x22] s then None
      else case loads_str (Suc (length s)) (tl s) of
        None \<Rightarrow> None
      | Some (key, t) \<Rightarrow>
          (let u = json_ws t in
           if \<not> startswith '':'' u then None
           else case loads_value k (json_ws (tl u)) of
               None \<Rightarrow> None
             | Some (j, v) \<Rightarrow>
                 (let w = json_ws v in
                  if startswith [CHR 0x7D] w then Some ([(key, j)], tl w)
                  else if startswith '','' w then map_option (\<lambda>(ps, x). ((key, j) # ps, x)) (loads_members k (json_ws (tl w)))
                  else None)))"

definition loads :: "string \<Rightarrow> json result" where
  "loads s =
     (case loads_value (2 * length s + 2) (json_ws s) of
        None \<Rightarrow> Inl json_error
      | Some (j, rest) \<Rightarrow> if json_ws rest = [] then Inr j else Inl json_error)"

text \<open>
  \<open>json.loads\<close> of bytes: UTF-8 unless a byte order mark or a zero byte says otherwise; what those
  decode to is an argument.
\<close>

definition UTF8_BOM :: bytes where "UTF8_BOM = [CHR 0xEF, CHR 0xBB, CHR 0xBF]"

definition json_bytes :: "(bytes \<Rightarrow> string result) \<Rightarrow> bytes \<Rightarrow> json result" where
  "json_bytes decode raw =
     rbind (if valid_utf8 raw \<and> CHR 0x00 \<notin> set raw \<and> \<not> startswith UTF8_BOM raw then Inr raw else decode raw) loads"

end
