(* ===== verification/Offline.thy ===== *)
theory Offline
  imports Stage Py_Loads
begin

text \<open>
  \<open>scripts/report-offline-products.py\<close>: the products of the offline rebuild against the digests
  of the restored manifest.
\<close>

text \<open>\<open>dict(line.split('=', 1) for line in ...)\<close>: later lines replace earlier ones.\<close>

definition put_pair :: "string dict \<Rightarrow> string \<Rightarrow> string dict result" where
  "put_pair d line = (case split_at ''='' line of
     None \<Rightarrow> Inl (ValueError ''dictionary update sequence element'')
   | Some (key, val) \<Rightarrow> Inr (dict_set key val d))"

definition offline_manifest :: "fsys \<Rightarrow> ppath \<Rightarrow> string dict result" where
  "offline_manifest fs work =
     rbind (read_string fs (child (child work ''bundle'') ''build.manifest'')) (\<lambda>txt.
       for_each put_pair [] (splitlines txt))"

record product_result =
  pr_name :: string
  pr_sha256 :: string
  pr_expected :: string
  pr_match :: bool

definition compare_product :: "fsys \<Rightarrow> ppath \<Rightarrow> string dict \<Rightarrow> string \<Rightarrow> product_result result" where
  "compare_product fs work manifest name =
     rbind (read_bytes fs (child (child work ''artifacts'') name)) (\<lambda>bs.
     rbind (dict_get manifest (product_field name)) (\<lambda>expected.
     Inr \<lparr>pr_name = name, pr_sha256 = sha256_hex bs, pr_expected = expected, pr_match = (sha256_hex bs = expected)\<rparr>))"

definition is_true :: "json \<Rightarrow> string \<Rightarrow> bool result" where
  "is_true j k = rbind (json_get j k JNull) (\<lambda>v. Inr (v = JBool True))"

record offline_report =
  or_zip :: json
  or_commit :: string
  or_config_match :: bool
  or_products :: "product_result list"
  or_products_match :: bool
  or_passed :: bool

definition offline_result :: "fsys \<Rightarrow> ppath \<Rightarrow> offline_report result" where
  "offline_result fs work =
     rbind (offline_manifest fs work) (\<lambda>manifest.
     rbind (rbind (read_string fs (child work ''offline-config-result.json'')) loads) (\<lambda>config.
     rbind (map_result (compare_product fs work manifest) products) (\<lambda>ps.
     rbind (rbind (is_true config ''valid_inputs'') (\<lambda>v. if v then is_true config ''match'' else Inr False)) (\<lambda>config_match.
     let products_match = list_all pr_match ps in
     rbind (rbind (rbind (read_string fs (child work ''RESTORED.json'')) loads) (\<lambda>j. getitem j ''source_zip_sha256'')) (\<lambda>zip.
     rbind (dict_get manifest ''REPOSITORY_COMMIT'') (\<lambda>commit.
     Inr \<lparr>or_zip = zip, or_commit = commit, or_config_match = config_match, or_products = ps,
          or_products_match = products_match, or_passed = (config_match \<and> products_match)\<rparr>))))))"

text \<open>The report as it is printed: the constant claims it makes besides are all here.\<close>

definition report_json :: "offline_report \<Rightarrow> json" where
  "report_json r = JObj
     [(''source_zip_sha256'', or_zip r), (''source_project_commit'', JStr (or_commit r)),
      (''network_isolated'', JBool True), (''compiler_cache_used'', JBool False),
      (''offline_compile_and_packaging_passed'', JBool True),
      (''kernel_config_match'', JBool (or_config_match r)),
      (''products'', JObj (map (\<lambda>p. (pr_name p, JObj [(''sha256'', JStr (pr_sha256 p)), (''expected_sha256'', JStr (pr_expected p)),
         (''match'', JBool (pr_match p))])) (or_products r))),
      (''all_products_match'', JBool (or_products_match r)), (''all_checks_passed'', JBool (or_passed r)),
      (''license_review_complete'', JBool False), (''firmware_distribution_authorized'', JBool False)]"

text \<open>The script writes its report also when it fails: the file system, and how it ends.\<close>

definition offline_main :: "fsys \<Rightarrow> ppath \<Rightarrow> (fsys \<times> unit result) result" where
  "offline_main fs work =
     rbind (offline_result fs work) (\<lambda>r.
     rbind (open_xb fs (child work ''offline-result.json'') (dumps True (report_json r) @ [CHR 0x0A])) (\<lambda>fs.
     Inr (fs, raise_if (\<not> or_passed r)
       (SystemExit ''offline build completed but configuration or product hashes differ; review required''))))"

subsection \<open>What the report says\<close>

text \<open>A rebuilt product and the digest the restored manifest names for it.\<close>

definition rebuilt :: "fsys \<Rightarrow> ppath \<Rightarrow> string dict \<Rightarrow> string \<Rightarrow> bytes \<times> string \<Rightarrow> bool" where
  "rebuilt fs work manifest name = (\<lambda>(bs, expected).
     read_bytes fs (child (child work ''artifacts'') name) = Inr bs \<and> map_of manifest (product_field name) = Some expected)"

definition product_entry :: "string \<Rightarrow> bytes \<times> string \<Rightarrow> string \<times> json" where
  "product_entry name = (\<lambda>(bs, expected). (name, JObj [(''sha256'', JStr (sha256_hex bs)), (''expected_sha256'', JStr expected),
     (''match'', JBool (sha256_hex bs = expected))]))"

lemma product_results:
  "map_result (compare_product fs work manifest) names = Inr ps \<Longrightarrow>
     \<exists>bs. list_all2 (rebuilt fs work manifest) names bs \<and>
       map (\<lambda>p. (pr_name p, JObj [(''sha256'', JStr (pr_sha256 p)), (''expected_sha256'', JStr (pr_expected p)),
         (''match'', JBool (pr_match p))])) ps = map2 product_entry names bs \<and>
       (list_all pr_match ps \<longleftrightarrow> list_all (\<lambda>(bs, expected). sha256_hex bs = expected) bs)"
proof (induction names arbitrary: ps)
  case (Cons name names)
  then obtain p ps' where p: "compare_product fs work manifest name = Inr p"
    "map_result (compare_product fs work manifest) names = Inr ps'" "ps = p # ps'" by (auto simp: result_simps)
  from p(1) obtain b e where b: "read_bytes fs (child (child work ''artifacts'') name) = Inr b"
    "map_of manifest (product_field name) = Some e"
    "p = \<lparr>pr_name = name, pr_sha256 = sha256_hex b, pr_expected = e, pr_match = (sha256_hex b = e)\<rparr>"
    by (auto simp: compare_product_def result_simps)
  from Cons.IH [OF p(2)] obtain bs where "list_all2 (rebuilt fs work manifest) names bs"
    "map (\<lambda>p. (pr_name p, JObj [(''sha256'', JStr (pr_sha256 p)), (''expected_sha256'', JStr (pr_expected p)),
         (''match'', JBool (pr_match p))])) ps' = map2 product_entry names bs"
    "list_all pr_match ps' \<longleftrightarrow> list_all (\<lambda>(bs, expected). sha256_hex bs = expected) bs" by blast
  moreover have "rebuilt fs work manifest name (b, e)" using b by (simp add: rebuilt_def)
  moreover have "product_entry name (b, e) = (name, JObj [(''sha256'', JStr (sha256_hex b)), (''expected_sha256'', JStr e),
      (''match'', JBool (sha256_hex b = e))])" by (simp add: product_entry_def)
  ultimately show ?case by (intro exI [of _ "(b, e) # bs"]) (simp add: p(3) b(3))
qed simp

lemma is_true_iff: "is_true j k = Inr True \<longleftrightarrow> (\<exists>d. j = JObj d \<and> map_of d k = Some (JBool True))"
  by (auto simp: is_true_def json_get_def result_simps split: json.splits option.splits)

lemma offline_result_Inr:
  assumes "offline_result fs work = Inr r"
  obtains manifest config restored zip commit bs where "offline_manifest fs work = Inr manifest"
    "rbind (read_string fs (child work ''offline-config-result.json'')) loads = Inr config"
    "rbind (read_string fs (child work ''RESTORED.json'')) loads = Inr restored" "getitem restored ''source_zip_sha256'' = Inr zip"
    "map_of manifest ''REPOSITORY_COMMIT'' = Some commit" "list_all2 (rebuilt fs work manifest) products bs"
    "or_zip r = zip" "or_commit r = commit"
    "map (\<lambda>p. (pr_name p, JObj [(''sha256'', JStr (pr_sha256 p)), (''expected_sha256'', JStr (pr_expected p)),
       (''match'', JBool (pr_match p))])) (or_products r) = map2 product_entry products bs"
    "or_config_match r \<longleftrightarrow> is_true config ''valid_inputs'' = Inr True \<and> is_true config ''match'' = Inr True"
    "or_products_match r \<longleftrightarrow> list_all (\<lambda>(bs, expected). sha256_hex bs = expected) bs"
    "or_passed r \<longleftrightarrow> or_config_match r \<and> or_products_match r"
proof -
  obtain manifest config ps v restored zip commit where m: "offline_manifest fs work = Inr manifest"
    "rbind (read_string fs (child work ''offline-config-result.json'')) loads = Inr config"
    "map_result (compare_product fs work manifest) products = Inr ps"
    "rbind (is_true config ''valid_inputs'') (\<lambda>v. if v then is_true config ''match'' else Inr False) = Inr v"
    "rbind (read_string fs (child work ''RESTORED.json'')) loads = Inr restored" "getitem restored ''source_zip_sha256'' = Inr zip"
    "dict_get manifest ''REPOSITORY_COMMIT'' = Inr commit"
    "r = \<lparr>or_zip = zip, or_commit = commit, or_config_match = v, or_products = ps,
          or_products_match = list_all pr_match ps, or_passed = (v \<and> list_all pr_match ps)\<rparr>"
    using assms unfolding offline_result_def Let_def rbind_eq_Inr by force
  have "v \<longleftrightarrow> is_true config ''valid_inputs'' = Inr True \<and> is_true config ''match'' = Inr True"
    using m(4) by (auto simp: result_simps split: if_splits)
  moreover have "map_of manifest ''REPOSITORY_COMMIT'' = Some commit" using m(7) by (simp add: dict_get_def split: option.splits)
  ultimately show thesis using product_results [OF m(3)] m that by force
qed

text \<open>
  C31: The offline report is honest. When a report is produced, it is recorded in the new file
  \<open>offline-result.json\<close> whatever it says: it names the restored ZIP and the project commit of the
  restored manifest; for every product the digest of the rebuilt file, the digest the manifest
  names and whether they agree; and its verdicts are that all of them agree, that the
  configuration comparison found valid inputs and a match, and both together. It never grants
  distribution. The script ends without an error exactly when both hold.
\<close>

theorem offline_verdict:
  "case offline_main fs work of
     Inl _ \<Rightarrow> True
   | Inr (fs', outcome) \<Rightarrow> \<exists>manifest config restored zip commit bs rep.
       offline_manifest fs work = Inr manifest \<and>
       rbind (read_string fs (child work ''offline-config-result.json'')) loads = Inr config \<and>
       rbind (read_string fs (child work ''RESTORED.json'')) loads = Inr restored \<and>
       getitem restored ''source_zip_sha256'' = Inr zip \<and> map_of manifest ''REPOSITORY_COMMIT'' = Some commit \<and>
       list_all2 (rebuilt fs work manifest) products bs \<and>
       (let config_ok = (is_true config ''valid_inputs'' = Inr True \<and> is_true config ''match'' = Inr True);
            products_ok = list_all (\<lambda>(bs, expected). sha256_hex bs = expected) bs in
        open_xb fs (child work ''offline-result.json'') (dumps True (JObj rep) @ [CHR 0x0A]) = Inr fs' \<and>
        map_of rep ''source_zip_sha256'' = Some zip \<and> map_of rep ''source_project_commit'' = Some (JStr commit) \<and>
        map_of rep ''products'' = Some (JObj (map2 product_entry products bs)) \<and>
        map_of rep ''kernel_config_match'' = Some (JBool config_ok) \<and>
        map_of rep ''all_products_match'' = Some (JBool products_ok) \<and>
        map_of rep ''all_checks_passed'' = Some (JBool (config_ok \<and> products_ok)) \<and>
        map_of rep ''firmware_distribution_authorized'' = Some (JBool False) \<and>
        (outcome = Inr () \<longleftrightarrow> config_ok \<and> products_ok))"
proof (cases "offline_main fs work")
  case (Inr res)
  obtain fs' outcome where res: "res = (fs', outcome)" by (cases res)
  from Inr res obtain r where r: "offline_result fs work = Inr r"
    "open_xb fs (child work ''offline-result.json'') (dumps True (report_json r) @ [CHR 0x0A]) = Inr fs'"
    "outcome = raise_if (\<not> or_passed r) (SystemExit ''offline build completed but configuration or product hashes differ; review required'')"
    by (auto simp: offline_main_def result_simps)
  obtain rep where rep: "report_json r = JObj rep" by (simp add: report_json_def)
  from r(1) show ?thesis
  proof (rule offline_result_Inr)
    fix manifest config restored zip commit bs
    assume m: "offline_manifest fs work = Inr manifest"
      "rbind (read_string fs (child work ''offline-config-result.json'')) loads = Inr config"
      "rbind (read_string fs (child work ''RESTORED.json'')) loads = Inr restored" "getitem restored ''source_zip_sha256'' = Inr zip"
      "map_of manifest ''REPOSITORY_COMMIT'' = Some commit" "list_all2 (rebuilt fs work manifest) products bs"
    assume v: "or_zip r = zip" "or_commit r = commit"
      "map (\<lambda>p. (pr_name p, JObj [(''sha256'', JStr (pr_sha256 p)), (''expected_sha256'', JStr (pr_expected p)),
         (''match'', JBool (pr_match p))])) (or_products r) = map2 product_entry products bs"
      "or_config_match r \<longleftrightarrow> is_true config ''valid_inputs'' = Inr True \<and> is_true config ''match'' = Inr True"
      "or_products_match r \<longleftrightarrow> list_all (\<lambda>(bs, expected). sha256_hex bs = expected) bs"
      "or_passed r \<longleftrightarrow> or_config_match r \<and> or_products_match r"
    have says: "map_of rep ''source_zip_sha256'' = Some (or_zip r)" "map_of rep ''source_project_commit'' = Some (JStr (or_commit r))"
      "map_of rep ''products'' = Some (JObj (map2 product_entry products bs))"
      "map_of rep ''kernel_config_match'' = Some (JBool (or_config_match r))"
      "map_of rep ''all_products_match'' = Some (JBool (or_products_match r))"
      "map_of rep ''all_checks_passed'' = Some (JBool (or_passed r))"
      "map_of rep ''firmware_distribution_authorized'' = Some (JBool False)"
      using rep v(3) by (auto simp: report_json_def)
    have ends: "outcome = Inr () \<longleftrightarrow> or_passed r" using r(3) by (simp add: raise_if_def)
    show ?thesis
      unfolding Inr res sum.case prod.case Let_def
      by (rule exI [of _ manifest], rule exI [of _ config], rule exI [of _ restored], rule exI [of _ zip],
          rule exI [of _ commit], rule exI [of _ bs], rule exI [of _ rep])
        (use m r(2) rep says v(1,2) ends in \<open>simp add: v(4-6)\<close>)
  qed
qed simp

end
