(* ===== verification/Confinement.thy ===== *)
theory Confinement
  imports Extract
begin

text \<open>
  What \<open>extract_tree\<close> does to the file system, for an archive of any contents: the members of a
  checked archive, the plain members written first, the links written last, and the proof that
  no path below the new directory leads out of it.
\<close>

subsection \<open>Walking where no link is\<close>

lemma walk_plain:
  assumes "''..'' \<notin> set cs" and "walk fs follow fuel cur cs = Inr loc"
    and "\<And>k t. 0 < k \<Longrightarrow> k \<le> length cs \<Longrightarrow> nodes fs (cur @ take k cs) = Some (Link t) \<Longrightarrow> k = length cs \<and> \<not> follow"
  shows "loc = cur @ cs \<and> (\<forall>k. 0 < k \<and> k < length cs \<longrightarrow> (\<exists>m. nodes fs (cur @ take k cs) = Some (Dir m)))"
  using assms
proof (induction cs arbitrary: cur)
  case (Cons c cs)
  have step: "0 < k \<Longrightarrow> k \<le> length cs \<Longrightarrow> nodes fs ((cur @ [c]) @ take k cs) = Some (Link t) \<Longrightarrow> k = length cs \<and> \<not> follow" for k t
    using Cons.prems(3) [of "Suc k" t] by simp
  show ?case
  proof (cases "\<exists>m. nodes fs (cur @ [c]) = Some (Dir m)")
    case True
    then have "loc = (cur @ [c]) @ cs \<and> (\<forall>k. 0 < k \<and> k < length cs \<longrightarrow> (\<exists>m. nodes fs ((cur @ [c]) @ take k cs) = Some (Dir m)))"
      using Cons.prems(1,2) step by (intro Cons.IH) auto
    moreover have "\<exists>m. nodes fs (cur @ take k (c # cs)) = Some (Dir m)" if "0 < k" "k < length (c # cs)" for k
    proof (cases k)
      case (Suc j)
      then show ?thesis using that True calculation by (cases "j = 0") auto
    qed (use that in simp)
    ultimately show ?thesis by simp
  next
    case False
    have "nodes fs (cur @ [c]) = Some (Link t) \<Longrightarrow> cs = [] \<and> \<not> follow" for t
      using Cons.prems(3) [of 1 t] by auto
    then show ?thesis
      using False Cons.prems(1,2) by (auto split: option.splits node.splits if_splits)
  qed
qed simp

subsection \<open>A tree being filled\<close>

text \<open>
  The state of a run that unpacks into \<open>out\<close>: outside of \<open>out\<close> nothing has changed, and the
  links inside are among those that \<open>ls\<close> allows.
\<close>

definition filling :: "fsys \<Rightarrow> string list \<Rightarrow> (string list \<Rightarrow> string \<Rightarrow> bool) \<Rightarrow> fsys \<Rightarrow> bool" where
  "filling fs0 out ls fs \<longleftrightarrow> wf_tree fs \<and> real_dir fs out \<and>
     (\<forall>l. \<not> is_relative_to l out \<longrightarrow> nodes fs l = nodes fs0 l) \<and>
     (\<forall>r t. nodes fs (out @ r) = Some (Link t) \<longrightarrow> ls r t)"

lemma relative_append [simp]: "is_relative_to (out @ r) out"
  by (simp add: is_relative_to_def)

lemma relative_iff: "is_relative_to l out \<longleftrightarrow> (\<exists>r. l = out @ r)"
  unfolding is_relative_to_def by (metis append_eq_conv_conj append_take_drop_id)

lemma filling_resolve:
  assumes "filling fs0 out ls fs" "''..'' \<notin> set cs" "resolve fs follow (at (out @ cs)) = Inr loc"
    and "\<And>k t. 0 < k \<Longrightarrow> k \<le> length cs \<Longrightarrow> ls (take k cs) t \<Longrightarrow> k = length cs \<and> \<not> follow"
  shows "loc = out @ cs" "\<And>k. k < length cs \<Longrightarrow> real_dir fs (out @ take k cs)"
proof -
  have rd: "real_dir fs out" and ls: "\<And>r t. nodes fs (out @ r) = Some (Link t) \<Longrightarrow> ls r t"
    using assms(1) by (auto simp: filling_def)
  have w: "walk fs follow MAX_LINKS out cs = Inr loc" using assms(3) resolve_real [OF rd] by simp
  have p: "loc = out @ cs \<and> (\<forall>k. 0 < k \<and> k < length cs \<longrightarrow> (\<exists>m. nodes fs (out @ take k cs) = Some (Dir m)))"
    by (rule walk_plain [OF assms(2) w]) (use assms(4) ls in blast)
  show "loc = out @ cs" using p by blast
  show "real_dir fs (out @ take k cs)" if "k < length cs" for k
    using that
  proof (induction k)
    case (Suc k)
    then have "take (Suc k) cs = take k cs @ [cs ! k]" by (intro take_Suc_conv_app_nth) simp
    moreover have "cs ! k \<noteq> ''..''" using assms(2) Suc.prems by (metis Suc_lessD nth_mem)
    moreover have "\<exists>m. nodes fs (out @ take (Suc k) cs) = Some (Dir m)" using p Suc.prems by blast
    ultimately show ?case using Suc real_dir_snoc [of fs "out @ take k cs" "cs ! k"] by simp
  qed (use rd in simp)
qed

lemma filling_create:
  assumes f: "filling fs0 out ls fs" and cs: "''..'' \<notin> set cs" and ok: "create fs (at (out @ cs)) n = Inr fs'"
    and no: "\<And>k t. 0 < k \<Longrightarrow> k < length cs \<Longrightarrow> \<not> ls (take k cs) t"
    and n: "\<And>t. n = Link t \<Longrightarrow> ls cs t"
  shows "fs' = fs_put (out @ cs) n fs" "nodes fs (out @ cs) = None" "cs \<noteq> []" "filling fs0 out ls fs'" "extends fs' fs"
proof -
  obtain loc where loc: "resolve fs False (at (out @ cs)) = Inr loc" "fs' = fs_put loc n fs" "\<nexists>nd. node_at fs loc = Inr nd"
    using ok by (auto simp: create_def result_simps split: sum.split_asm) (metis sum.exhaust)
  have "loc = out @ cs" and dirs: "\<And>k. k < length cs \<Longrightarrow> real_dir fs (out @ take k cs)"
    using filling_resolve [OF f cs loc(1)] no by (metis le_neq_implies_less)+
  then show fs': "fs' = fs_put (out @ cs) n fs" and none: "nodes fs (out @ cs) = None"
    using loc by (auto simp: node_at_def split: if_splits option.splits)
  have rd: "real_dir fs out" and wf: "wf_tree fs" using f by (auto simp: filling_def)
  show ne: "cs \<noteq> []"
  proof
    assume "cs = []"
    then have "node_at fs out = Inr (Dir m)" if "stat fs (at out) = Inr (Dir m)" for m
      using that rd by (simp add: stat_def resolve_at)
    then show False using stat_real [OF rd] loc(3) \<open>loc = out @ cs\<close> \<open>cs = []\<close> by auto
  qed
  then obtain d c where d: "cs = d @ [c]" by (cases cs rule: rev_cases) auto
  have "real_dir fs (out @ d)" using dirs [of "length d"] d by simp
  then have "out @ d = [] \<or> (\<exists>m. nodes fs (out @ d) = Some (Dir m))"
    by (cases "out @ d" rule: rev_cases) auto
  then have "wf_tree fs'" using wf_tree_put [OF wf, of "out @ d" c n] none d fs' by simp
  moreover have "real_dir fs' out" using rd none fs' by (auto intro: real_dir_put_other)
  ultimately show "filling fs0 out ls fs'"
    using f n fs' by (auto simp: filling_def relative_iff)
  show "extends fs' fs" using none fs' by (simp add: extends_put)
qed


subsection \<open>The members of a checked archive\<close>

definition member_at :: "member \<Rightarrow> string list" where
  "member_at m = p_tail (parse_path (m_name m))"

definition keyed :: "member \<Rightarrow> string \<times> member" where
  "keyed m = (as_posix (parse_path (m_name m)), m)"

lemma keyed_fields [simp]: "fst (keyed m) = as_posix (parse_path (m_name m))" "snd (keyed m) = m"
  by (simp_all add: keyed_def)

lemma add_member_Inr:
  "add_member names m = Inr names' \<longleftrightarrow>
     restore_safe_name (m_name m) = Inr (parse_path (m_name m)) \<and> fst (keyed m) \<notin> set (dict_keys names) \<and>
     m_kind m \<in> {Regular, Directory, Symlink} \<and> (m_kind m = Symlink \<longrightarrow> \<not> unsafe_link (fst (keyed m)) (m_link m)) \<and> names' = names @ [keyed m]"
  by (cases "m_kind m") (auto simp: add_member_def Let_def result_simps restore_safe_name_def keyed_def dict_set_new)

lemma add_members:
  "for_each add_member names ms = Inr names' \<Longrightarrow> distinct (dict_keys names) \<Longrightarrow>
     names' = names @ map keyed ms \<and> distinct (dict_keys names') \<and>
     list_all (\<lambda>m. restore_safe_name (m_name m) = Inr (parse_path (m_name m)) \<and> m_kind m \<in> {Regular, Directory, Symlink}) ms"
proof (induction ms arbitrary: names)
  case (Cons m ms)
  then obtain names1 where n: "add_member names m = Inr names1" "for_each add_member names1 ms = Inr names'"
    by (auto simp: result_simps)
  moreover from n(1) Cons.prems(2) have "distinct (dict_keys names1)"
    by (auto simp: add_member_Inr dict_keys_def keyed_def)
  ultimately show ?case using Cons.IH [of names1] unfolding add_member_Inr by auto
qed simp

lemma checked_members:
  assumes "check_members ms = Inr names"
  shows "names = map keyed ms" "distinct (map (fst \<circ> keyed) ms)" "list_ex (bad_ancestor names) (dict_keys names) = False"
    "m \<in> set ms \<Longrightarrow> restore_safe_name (m_name m) = Inr (parse_path (m_name m))"
    "m \<in> set ms \<Longrightarrow> m_kind m \<in> {Regular, Directory, Symlink}"
  using assms add_members [of "[]" ms names]
  by (auto simp: check_members_def result_simps dict_keys_def list_all_iff split: if_splits)

lemma safe_member:
  assumes "restore_safe_name (m_name m) = Inr (parse_path (m_name m))"
  shows "confined (parse_path (m_name m))" "''..'' \<notin> set (member_at m)" "''.git'' \<notin> set (member_at m)"
    "p_join (at out) (parse_path (fst (keyed m))) = at (out @ member_at m)"
    "p_root (parse_path (m_name m)) = []"
proof -
  show c: "p_root (parse_path (m_name m)) = []" "''..'' \<notin> set (member_at m)" "''.git'' \<notin> set (member_at m)"
    using assms by (auto simp: restore_safe_name_def member_at_def parts_def is_absolute_def Let_def split: if_splits)
  then show "confined (parse_path (m_name m))" by (simp add: confined_def is_absolute_def member_at_def)
  show "p_join (at out) (parse_path (fst (keyed m))) = at (out @ member_at m)"
    using c by (simp add: parse_as_posix p_join_def is_absolute_def member_at_def)
qed

lemma distinct_members:
  assumes "check_members ms = Inr names"
  shows "distinct (map member_at ms)"
proof -
  have key: "(fst \<circ> keyed) m = as_posix \<lparr>p_root = [], p_tail = member_at m\<rparr>" if "m \<in> set ms" for m
    using safe_member(5) [OF checked_members(4) [OF assms that]]
    by (cases "parse_path (m_name m)") (simp add: member_at_def)
  have "inj_on member_at (set ms)"
  proof (rule inj_onI)
    fix x y assume x: "x \<in> set ms" and y: "y \<in> set ms" and eq: "member_at x = member_at y"
    have "(fst \<circ> keyed) x = (fst \<circ> keyed) y" using key [OF x] key [OF y] eq by simp
    moreover have "inj_on (fst \<circ> keyed) (set ms)" using checked_members(2) [OF assms] by (simp add: distinct_map)
    ultimately show "x = y" using x y by (meson inj_onD)
  qed
  then show ?thesis using checked_members(2) [OF assms] by (simp add: distinct_map)
qed

lemma ancestor_is_directory:
  assumes "check_members ms = Inr names" "m \<in> set ms" "m' \<in> set ms" "k < length (member_at m)" "take k (member_at m) = member_at m'"
  shows "m_kind m' = Directory"
proof -
  note c = checked_members [OF assms(1)]
  note s = safe_member [OF c(4) [OF assms(2)]] and s' = safe_member [OF c(4) [OF assms(3)]]
  let ?p = "parse_path (fst (keyed m))" and ?q = "(parse_path (m_name m))\<lparr>p_tail := member_at m'\<rparr>"
  have p: "?p = parse_path (m_name m)" by (simp add: parse_as_posix)
  have "?q \<in> set (parents ?p)" using assms(4,5) unfolding p parents_def by (force simp: member_at_def)
  moreover have "?q = parse_path (m_name m')" using s(5) s'(5) by (simp add: member_at_def)
  moreover have "fst (keyed m) \<in> set (dict_keys names)" using assms(2) c(1) by (simp add: dict_keys_def)
  ultimately have "\<not> (case map_of names (fst (keyed m')) of None \<Rightarrow> False | Some m \<Rightarrow> m_kind m \<noteq> Directory)"
    using c(3) by (auto simp: list_ex_iff bad_ancestor_def)
  moreover have "map_of names (fst (keyed m')) = Some m'"
    using c(1,2) assms(3) by (intro map_of_is_SomeI) (auto simp: keyed_def comp_def)
  ultimately show ?thesis by simp
qed


subsection \<open>Directories and files\<close>

abbreviation no_links :: "string list \<Rightarrow> string \<Rightarrow> bool" where
  "no_links \<equiv> \<lambda>_ _. False"

text \<open>What a step adds lies on the way to the member it is about.\<close>

definition grown :: "string list \<Rightarrow> string list \<Rightarrow> fsys \<Rightarrow> fsys \<Rightarrow> bool" where
  "grown out cs fs fs' \<longleftrightarrow> extends fs' fs \<and> (\<forall>r. nodes fs' (out @ r) \<noteq> nodes fs (out @ r) \<longrightarrow> r = take (length r) cs)"

lemma grown_refl [simp]: "grown out cs fs fs"
  by (simp add: grown_def)

lemma grown_trans: "grown out cs fs fs1 \<Longrightarrow> grown out cs fs1 fs2 \<Longrightarrow> grown out cs fs fs2"
  unfolding grown_def by (metis extends_trans)

lemma grown_put: "nodes fs (out @ cs) = None \<Longrightarrow> grown out cs fs (fs_put (out @ cs) n fs)"
  by (auto simp: grown_def extends_put)

lemma grown_butlast: "grown out (butlast cs) fs fs' \<Longrightarrow> grown out cs fs fs'"
proof -
  have "r = take (length r) cs" if "r = take (length r) (butlast cs)" for r
  proof -
    have "length r \<le> length (butlast cs)" using that by (metis length_take min.cobounded1)
    then have "length r \<le> length cs - 1" by simp
    then have "take (length r) (butlast cs) = take (length r) cs" by (simp add: butlast_conv_take min_absorb1)
    then show ?thesis using that by simp
  qed
  then show "grown out (butlast cs) fs fs' \<Longrightarrow> grown out cs fs fs'" unfolding grown_def by blast
qed

lemma create_real_dir: "real_dir fs loc \<Longrightarrow> create fs (at loc) n = Inl EEXIST"
  by (cases loc rule: rev_cases) (auto simp: create_def resolve_at, auto simp: node_at_def)

lemma os_mkdir_plain:
  assumes "filling fs0 out no_links fs" "''..'' \<notin> set cs" "os_mkdir fs (at (out @ cs)) = Inr fs'"
  shows "filling fs0 out no_links fs'" "real_dir fs' (out @ cs)" "grown out cs fs fs'"
proof -
  note c = filling_create [OF assms(1,2) assms(3) [unfolded os_mkdir_def]]
  show f': "filling fs0 out no_links fs'" by (rule c) simp_all
  have put: "fs' = fs_put (out @ cs) (Dir (perm_for fs 511)) fs" and none: "nodes fs (out @ cs) = None" and ne: "cs \<noteq> []"
    by (rule c; simp)+
  show "grown out cs fs fs'" using none put by (simp add: grown_put)
  obtain d x where d: "cs = d @ [x]" using ne by (cases cs rule: rev_cases) auto
  have "resolve fs False (at (out @ cs)) \<noteq> Inl e" for e using assms(3) by (auto simp: os_mkdir_def create_def)
  then obtain loc where "resolve fs False (at (out @ cs)) = Inr loc" by (cases "resolve fs False (at (out @ cs))") auto
  then have "real_dir fs (out @ take (length d) cs)"
    by (rule filling_resolve(2) [OF assms(1,2)]) (simp_all add: d)
  then have "real_dir fs (out @ d)" using d by simp
  then have "real_dir fs' (out @ d)" using none put d by (auto intro: real_dir_put_other)
  then show "real_dir fs' (out @ cs)"
    using put d assms(2) real_dir_snoc [of fs' "out @ d" x] by auto
qed

lemma is_dir_plain:
  assumes "filling fs0 out no_links fs" "''..'' \<notin> set cs" "is_dir fs (at (out @ cs))"
  shows "real_dir fs (out @ cs)"
proof (cases cs rule: rev_cases)
  case Nil
  then show ?thesis using assms(1) by (simp add: filling_def)
next
  case (snoc d x)
  obtain loc m where r: "resolve fs True (at (out @ cs)) = Inr loc" "node_at fs loc = Inr (Dir m)"
    using assms(3) by (auto simp: is_dir_def stat_def result_simps split: sum.split_asm node.split_asm)
  have "loc = out @ cs" "real_dir fs (out @ take (length d) cs)"
    by (rule filling_resolve [OF assms(1,2) r(1)]; simp add: snoc)+
  then show ?thesis using r(2) snoc assms(2) real_dir_snoc [of fs "out @ d" x] node_at_child [of fs "out @ d" x]
    by (auto split: option.splits)
qed

lemma mkdir_plain:
  assumes "filling fs0 out no_links fs" "''..'' \<notin> set cs" "mkdir ok fs (at (out @ cs)) = Inr fs'"
  shows "filling fs0 out no_links fs' \<and> real_dir fs' (out @ cs) \<and> grown out cs fs fs'"
  using assms(3) os_mkdir_plain [OF assms(1,2)] is_dir_plain [OF assms(1,2)] assms(1)
  by (auto simp: mkdir_def tolerate_def split: sum.split_asm if_splits)

lemma mkdir_at_plain:
  "filling fs0 out no_links fs \<Longrightarrow> ''..'' \<notin> set cs \<Longrightarrow> mkdir_at k ok fs (at (out @ cs)) = Inr fs' \<Longrightarrow>
     filling fs0 out no_links fs' \<and> real_dir fs' (out @ cs) \<and> grown out cs fs fs'"
proof (induction k arbitrary: ok cs fs fs')
  case 0
  then show ?case using mkdir_plain by simp
next
  case (Suc k)
  show ?case
  proof (cases "os_mkdir fs (at (out @ cs)) = Inl ENOENT")
    case True
    have ne: "cs \<noteq> []"
    proof
      assume "cs = []"
      then show False using True Suc.prems(1) create_real_dir [of fs out]
        by (simp add: filling_def os_mkdir_def EEXIST_def ENOENT_def)
    qed
    then have dd: "butlast (out @ cs) = out @ butlast cs" "''..'' \<notin> set (butlast cs)"
      using Suc.prems(2) by (auto simp: butlast_append dest: in_set_butlastD)
    obtain fs1 where m: "mkdir_at k True fs (at (out @ butlast cs)) = Inr fs1" "mkdir ok fs1 (at (out @ cs)) = Inr fs'"
      using True Suc.prems(3) dd by (auto simp: result_simps)
    from Suc.IH [OF Suc.prems(1) dd(2) m(1)] have "filling fs0 out no_links fs1" "grown out cs fs fs1"
      by (auto intro: grown_butlast)
    with mkdir_plain [OF _ Suc.prems(2) m(2)] show ?thesis by (blast intro: grown_trans)
  next
    case False
    then show ?thesis using Suc.prems os_mkdir_plain [OF Suc.prems(1,2)] is_dir_plain [OF Suc.prems(1,2)]
      by (auto simp: tolerate_def split: sum.split_asm if_splits)
  qed
qed


lemma mkdir_real:
  assumes "real_dir fs l"
  shows "mkdir True fs (at l) = Inr fs" "mkdir_parents True fs (at l) = Inr fs"
proof -
  have e: "os_mkdir fs (at l) = Inl EEXIST" "is_dir fs (at l)"
    using create_real_dir [OF assms] stat_real [OF assms] by (auto simp: os_mkdir_def is_dir_def)
  then show "mkdir True fs (at l) = Inr fs" by (simp add: mkdir_def tolerate_def EEXIST_def ENOENT_def)
  with e show "mkdir_parents True fs (at l) = Inr fs"
    unfolding mkdir_parents_def by (cases "length (p_tail (at l))") (simp_all add: tolerate_def EEXIST_def ENOENT_def)
qed

text \<open>Replacing the contents or the permissions of a file keeps the state.\<close>

lemma filling_file:
  assumes "filling fs0 out ls (fs_put (out @ cs) (File m bs) fs)"
  shows "filling fs0 out ls (fs_put (out @ cs) (File m' bs') (fs_put (out @ cs) (File m bs) fs))"
proof -
  let ?a = "fs_put (out @ cs) (File m bs) fs" and ?b = "fs_put (out @ cs) (File m' bs') (fs_put (out @ cs) (File m bs) fs)"
  have n: "nodes ?b l = (if l = out @ cs then Some (File m' bs') else nodes ?a l)" for l by simp
  have d: "(\<exists>k. nodes ?b l = Some (Dir k)) \<longleftrightarrow> (\<exists>k. nodes ?a l = Some (Dir k))" "nodes ?b l = None \<longleftrightarrow> nodes ?a l = None" for l
    by auto
  have "wf_tree ?b" using assms unfolding filling_def wf_tree_def d by blast
  moreover have "real_dir ?b out" using assms unfolding filling_def real_dir_def d by blast
  ultimately show ?thesis using assms by (auto simp: filling_def relative_iff)
qed

subsection \<open>The two passes over the members\<close>

text \<open>The node a member becomes.\<close>

definition as_member :: "member \<Rightarrow> node option \<Rightarrow> bool" where
  "as_member m nd \<longleftrightarrow>
     (case m_kind m of
        Regular \<Rightarrow> nd = Some (File (member_mode m) (m_data m))
      | Directory \<Rightarrow> (\<exists>perm. nd = Some (Dir perm))
      | Symlink \<Rightarrow> nd = Some (Link (m_link m))
      | _ \<Rightarrow> False)"

lemma as_member_extends: "extends fs' fs \<Longrightarrow> as_member m (nodes fs l) \<Longrightarrow> as_member m (nodes fs' l)"
  by (auto simp: as_member_def extends_def split: member_kind.splits)

text \<open>A regular file that is created and given its mode.\<close>

lemma unpack_file_plain:
  assumes f: "filling fs0 out no_links fs" and dir: "real_dir fs (out @ d)" and plain: "''..'' \<notin> set (d @ [x])"
    and o: "open_xb fs (at (out @ d @ [x])) data = Inr fs1" "chmod fs1 (at (out @ d @ [x])) mode = Inr fs'"
  shows "filling fs0 out no_links fs' \<and> grown out (d @ [x]) fs fs' \<and> nodes fs' (out @ d @ [x]) = Some (File mode data)"
proof -
  let ?c = "d @ [x]"
  have new: "fs1 = fs_put (out @ ?c) (File (perm_for fs 438) data) fs" "nodes fs (out @ ?c) = None"
    and f1: "filling fs0 out no_links fs1"
    by (rule filling_create [OF f plain o(1) [unfolded open_xb_def]]; simp)+
  have "real_dir fs1 (out @ d)" using dir new by (auto intro: real_dir_put_other)
  then have put: "fs' = fs_put (out @ ?c) (File mode data) fs1"
    using o(2) new(1) plain chmod_child [of fs1 "out @ d" x] by auto
  then have "nodes fs' = (nodes fs)(out @ ?c \<mapsto> File mode data)" using new(1) by simp
  moreover have "filling fs0 out no_links fs'" using f1 unfolding put new(1) by (rule filling_file)
  ultimately show ?thesis using new(2) by (auto simp: grown_def extends_def)
qed

lemma unpack_plain_step:
  assumes f: "filling fs0 out no_links fs" "out \<noteq> []" and safe: "restore_safe_name (m_name m) = Inr (parse_path (m_name m))"
    and ok: "unpack_plain (at out) fs (keyed m) = Inr fs'"
  shows "filling fs0 out no_links fs' \<and> grown out (member_at m) fs fs' \<and>
    (m_kind m \<in> {Directory, Regular} \<longrightarrow> as_member m (nodes fs' (out @ member_at m)))"
proof -
  let ?c = "member_at m"
  note s = safe_member [OF safe]
  have dst: "p_join (at out) (parse_path (as_posix (parse_path (m_name m)))) = at (out @ ?c)" using s(4) by simp
  obtain fs1 where p: "mkdir_parents True fs (p_parent (at (out @ ?c))) = Inr fs1"
    and rest: "(if m_kind m = Directory then mkdir True fs1 (at (out @ ?c))
      else if m_kind m = Regular then rbind (open_xb fs1 (at (out @ ?c)) (m_data m)) (\<lambda>fs. chmod fs (at (out @ ?c)) (member_mode m))
      else Inr fs1) = Inr fs'"
    using ok unfolding unpack_plain_def keyed_def prod.case Let_def dst rbind_eq_Inr [of "mkdir_parents _ _ _"] by blast
  show ?thesis
  proof (cases "?c = []")
    case True
    have rd: "real_dir fs out" "real_dir fs (butlast out)"
      using f by (auto simp: filling_def butlast_conv_take intro: real_dir_take)
    have "fs1 = fs" using p mkdir_real(2) [OF rd(2)] True by (simp add: p_parent_def)
    moreover have "fs' = fs1 \<and> m_kind m \<noteq> Regular"
      using rest calculation mkdir_real(1) [OF rd(1)] create_real_dir [OF rd(1)] True by (auto simp: open_xb_def split: if_splits)
    moreover have "\<exists>perm. nodes fs out = Some (Dir perm)"
      using rd(1) f(2) by (cases out rule: rev_cases) auto
    ultimately show ?thesis using True f by (auto simp: as_member_def)
  next
    case False
    have b: "p_parent (at (out @ ?c)) = at (out @ butlast ?c)" "''..'' \<notin> set (butlast ?c)"
      using False s(2) by (auto simp: p_parent_def butlast_append dest: in_set_butlastD)
    have m1: "filling fs0 out no_links fs1" "grown out ?c fs fs1" "real_dir fs1 (out @ butlast ?c)"
      using mkdir_at_plain [OF f(1) b(2)] p b(1) by (auto simp: mkdir_parents_def intro: grown_butlast)
    obtain d x where d: "?c = d @ [x]" using False by (cases ?c rule: rev_cases) auto
    show ?thesis
    proof (cases "m_kind m")
      case Directory
      then have "mkdir True fs1 (at (out @ ?c)) = Inr fs'" using rest by simp
      from mkdir_plain [OF m1(1) s(2) this] m1(2) show ?thesis
        using Directory d real_dir_snoc [of fs' "out @ d" x] by (auto simp: as_member_def intro: grown_trans)
    next
      case Regular
      then obtain fs2 where o: "open_xb fs1 (at (out @ ?c)) (m_data m) = Inr fs2" "chmod fs2 (at (out @ ?c)) (member_mode m) = Inr fs'"
        using rest by (auto simp: rbind_eq_Inr)
      have "real_dir fs1 (out @ d)" using m1(3) d by simp
      from unpack_file_plain [OF m1(1) this s(2) [unfolded d] o [unfolded d]]
      show ?thesis using m1(2) Regular by (auto simp: d as_member_def intro: grown_trans)
    qed (use m1 rest in auto)
  qed
qed


lemma filling_loop:
  assumes step: "\<And>fs fs' m. m \<in> set ms \<Longrightarrow> filling fs0 out ls fs \<Longrightarrow> f fs (keyed m) = Inr fs' \<Longrightarrow>
      filling fs0 out ls fs' \<and> grown out (member_at m) fs fs' \<and> (m_kind m \<in> kinds \<longrightarrow> as_member m (nodes fs' (out @ member_at m)))"
    and "filling fs0 out ls fs" and "for_each f fs (map keyed ms) = Inr fs'"
  shows "filling fs0 out ls fs' \<and> extends fs' fs \<and>
    (\<forall>r. nodes fs' (out @ r) \<noteq> nodes fs (out @ r) \<longrightarrow> (\<exists>m \<in> set ms. r = take (length r) (member_at m))) \<and>
    (\<forall>m \<in> set ms. m_kind m \<in> kinds \<longrightarrow> as_member m (nodes fs' (out @ member_at m)))"
  using assms
proof (induction ms arbitrary: fs)
  case (Cons m ms)
  from Cons.prems(3) obtain fs1 where fs1: "f fs (keyed m) = Inr fs1" "for_each f fs1 (map keyed ms) = Inr fs'"
    by (auto simp: result_simps)
  have s: "filling fs0 out ls fs1" "grown out (member_at m) fs fs1"
    "m_kind m \<in> kinds \<longrightarrow> as_member m (nodes fs1 (out @ member_at m))"
    using Cons.prems(1) [OF _ Cons.prems(2) fs1(1)] by auto
  have "filling fs0 out ls fs' \<and> extends fs' fs1 \<and>
    (\<forall>r. nodes fs' (out @ r) \<noteq> nodes fs1 (out @ r) \<longrightarrow> (\<exists>m \<in> set ms. r = take (length r) (member_at m))) \<and>
    (\<forall>m \<in> set ms. m_kind m \<in> kinds \<longrightarrow> as_member m (nodes fs' (out @ member_at m)))"
    by (rule Cons.IH [OF _ s(1) fs1(2)]) (rule Cons.prems(1), simp_all)
  then have ih: "filling fs0 out ls fs'" "extends fs' fs1"
    "\<And>r. nodes fs' (out @ r) \<noteq> nodes fs1 (out @ r) \<Longrightarrow> \<exists>m \<in> set ms. r = take (length r) (member_at m)"
    "\<And>m. m \<in> set ms \<Longrightarrow> m_kind m \<in> kinds \<Longrightarrow> as_member m (nodes fs' (out @ member_at m))"
    by blast+
  have "\<exists>m \<in> set (m # ms). r = take (length r) (member_at m)" if "nodes fs' (out @ r) \<noteq> nodes fs (out @ r)" for r
    using that ih(3) [of r] s(2) by (cases "nodes fs' (out @ r) = nodes fs1 (out @ r)") (auto simp: grown_def)
  moreover have "extends fs' fs" using ih(2) s(2) by (auto simp: grown_def intro: extends_trans)
  moreover have "\<forall>m \<in> set (m # ms). m_kind m \<in> kinds \<longrightarrow> as_member m (nodes fs' (out @ member_at m))"
    using ih(4) as_member_extends [OF ih(2)] s(3) by auto
  ultimately show ?case using ih(1) by blast
qed simp

definition links_of :: "member list \<Rightarrow> string list \<Rightarrow> string \<Rightarrow> bool" where
  "links_of ms r t \<longleftrightarrow> (\<exists>m \<in> set ms. m_kind m = Symlink \<and> r = member_at m \<and> t = m_link m)"

lemma unpack_link_step:
  assumes c: "check_members ms = Inr names" and m: "m \<in> set ms" and f: "filling fs0 out (links_of ms) fs"
    and ok: "unpack_link (at out) fs (keyed m) = Inr fs'"
  shows "filling fs0 out (links_of ms) fs' \<and> grown out (member_at m) fs fs' \<and>
    (m_kind m \<in> {Symlink} \<longrightarrow> as_member m (nodes fs' (out @ member_at m)))"
proof (cases "m_kind m = Symlink")
  case True
  note s = safe_member [OF checked_members(4) [OF c m]]
  have "create fs (at (out @ member_at m)) (Link (m_link m)) = Inr fs'"
    using ok s(4) [of out] True by (auto simp: unpack_link_def keyed_def symlink_to_def)
  moreover have "\<not> links_of ms (take k (member_at m)) t" if "k < length (member_at m)" for k t
    using ancestor_is_directory [OF c m _ that] by (auto simp: links_of_def)
  moreover have "links_of ms (member_at m) (m_link m)" using m True by (auto simp: links_of_def)
  ultimately have "fs' = fs_put (out @ member_at m) (Link (m_link m)) fs \<and> nodes fs (out @ member_at m) = None \<and> filling fs0 out (links_of ms) fs'"
    using filling_create [OF f s(2), of "Link (m_link m)" fs'] by auto
  then show ?thesis using True by (auto simp: as_member_def intro: grown_put)
next
  case False
  then show ?thesis using ok f by (auto simp: unpack_link_def keyed_def)
qed

subsection \<open>No way out\<close>

text \<open>When every link in the tree leads to a place in the tree, so does every path without \<open>..\<close>.\<close>

lemma realpath_inside:
  assumes wf: "wf_tree fs" and rd: "real_dir fs out"
    and links: "\<And>r t. nodes fs (out @ r) = Some (Link t) \<Longrightarrow>
      ''..'' \<notin> set r \<and> (\<exists>loc. py_resolve fs (at (out @ r)) = Inr loc \<and> is_relative_to loc out)"
  shows "''..'' \<notin> set cs \<Longrightarrow> is_relative_to cur out \<Longrightarrow> \<exists>loc. realpath fs [] cur cs = Some loc \<and> is_relative_to loc out"
proof (induction cs arbitrary: cur)
  case (Cons c cs)
  obtain r where r: "cur = out @ r" using Cons.prems(2) by (auto simp: relative_iff)
  have next_in: "is_relative_to (cur @ [c]) out" using r by (simp add: relative_iff)
  show ?case
  proof (cases "\<exists>t. nodes fs (cur @ [c]) = Some (Link t)")
    case True
    then obtain t where t: "nodes fs (cur @ [c]) = Some (Link t)" by blast
    obtain loc where loc: "py_resolve fs (at (cur @ [c])) = Inr loc" "is_relative_to loc out"
      using links [of "r @ [c]" t] t r by auto
    have up: "\<exists>m. nodes fs (take n cur) = Some (Dir m)" if "0 < n" "n \<le> length cur" for n
      using wf_tree_dirs [OF wf, of "take n cur" "drop n cur @ [c]"] t that by (auto simp flip: append_assoc)
    have "realpath fs [] [] (cur @ [c]) = realpath fs [] cur [c]" if "''..'' \<notin> set cur"
      using realpath_real [OF that, of fs "[]" "[]" "[c]"] up by simp
    moreover have "''..'' \<notin> set cur"
      using rd links [of "r @ [c]" t] t r by (auto simp: real_dir_def)
    ultimately have "realpath fs [] cur [c] = Some loc"
      using loc(1) by (auto simp: py_resolve_def split: option.splits)
    then have "realpath fs [] cur (c # cs) = realpath fs [] loc cs"
      using Cons.prems(1) t by (cases "is_absolute (parse_path t)") (auto split: option.splits)
    then show ?thesis using Cons.IH [of loc] Cons.prems(1) loc(2) by simp
  next
    case False
    then have "realpath fs [] cur (c # cs) = realpath fs [] (cur @ [c]) cs"
      using Cons.prems(1) by (auto split: option.splits node.splits)
    then show ?thesis using Cons.IH [OF _ next_in] Cons.prems(1) by simp
  qed
qed simp


text \<open>The kernel's resolution of a path goes where \<open>resolve()\<close> said, when both succeed.\<close>

lemma walk_realpath:
  "realpath fs busy cur ts = Some mid \<Longrightarrow> walk fs True fuel cur (ts @ rest) = Inr loc \<Longrightarrow>
     \<exists>fuel'. walk fs True fuel' mid rest = Inr loc"
proof (induction fs busy cur ts arbitrary: mid fuel rest rule: realpath.induct)
  case (2 fs busy cur c cs)
  note real = \<open>realpath fs busy cur (c # cs) = Some mid\<close> and walked = \<open>walk fs True fuel cur ((c # cs) @ rest) = Inr loc\<close>
  show ?case
  proof (cases "c = ''..''")
    case True
    then show ?thesis using 2(1) [of mid fuel rest] real walked by auto
  next
    case False
    show ?thesis
    proof (cases "nodes fs (cur @ [c])")
      case None
      then show ?thesis using False 2(2) [of mid fuel rest] real walked by (auto split: if_splits)
    next
      case (Some n)
      show ?thesis
      proof (cases n)
        case (Link t)
        let ?start = "if is_absolute (parse_path t) then [] else cur"
        obtain mid1 where r: "cur @ [c] \<notin> set busy" "realpath fs ((cur @ [c]) # busy) ?start (p_tail (parse_path t)) = Some mid1"
          "realpath fs busy mid1 cs = Some mid"
          using real False Some Link by (auto split: if_splits option.splits)
        have "walk fs True (fuel - 1) ?start (p_tail (parse_path t) @ cs @ rest) = Inr loc"
          using walked False Some Link by (auto simp: Let_def split: if_splits)
        then obtain fuel1 where "walk fs True fuel1 mid1 (cs @ rest) = Inr loc"
          using 2(5) [OF False Some Link r(1), of mid1 "fuel - 1" "cs @ rest"] r(2) by blast
        then show ?thesis using 2(6) [OF False Some Link r(1,2), of mid fuel1 rest] r(3) by blast
      next
        case (Dir m)
        then show ?thesis using False Some 2(4) [of n m mid fuel rest] real walked by auto
      next
        case (File m bs)
        then show ?thesis using False Some 2(3) [of n m bs mid fuel rest] real walked by (auto split: if_splits)
      qed
    qed
  qed
qed auto


subsection \<open>The whole run\<close>

lemma make_out_single:
  assumes "fresh_out fs out"
  shows "mkdir ok fs (at out) = Inr (make_out fs out)"
  using assms by (auto elim!: fresh_outE simp: mkdir_def os_mkdir_def create_child make_out_def)

lemma filling_start:
  assumes "fresh_out fs out"
  shows "filling fs out no_links (make_out fs out)" "nodes (make_out fs out) (out @ r) = None \<or> r = []"
proof -
  obtain d c where d: "out = d @ [c]" "real_dir fs d" "c \<noteq> ''..''" "nodes fs (d @ [c]) = None"
    using assms by (rule fresh_outE)
  then have "d = [] \<or> (\<exists>m. nodes fs d = Some (Dir m))" by (cases d rule: rev_cases) auto
  then have "wf_tree (make_out fs out)"
    using assms d wf_tree_put [of fs d c] by (auto simp: make_out_def fresh_out_def)
  moreover have n: "nodes (make_out fs out) (out @ r) = (if r = [] then Some (Dir (perm_for fs 511)) else None)" for r
    using fresh_below [OF assms, of r] by (simp add: make_out_def)
  ultimately show "filling fs out no_links (make_out fs out)"
    using make_out(2) [OF assms] make_out(5) [OF assms] unfolding filling_def
    by (metis is_relative_to_def option.distinct(1) option.inject node.distinct(5) take_all order_refl)
  show "nodes (make_out fs out) (out @ r) = None \<or> r = []" using n by auto
qed

lemma filling_weaken: "filling fs0 out no_links fs \<Longrightarrow> filling fs0 out ls fs"
  by (auto simp: filling_def)

text \<open>Everything a successful run does.\<close>

lemma extract_tree_Inr:
  assumes out: "fresh_out fs out" and ok: "extract_tree untar fs archive (at out) = Inr fs'"
  obtains raw ms names where "read_bytes fs archive = Inr raw" "untar raw = Inr ms" "check_members ms = Inr names"
    "filling fs out (links_of ms) fs'"
    "\<forall>m \<in> set ms. as_member m (nodes fs' (out @ member_at m))"
    "\<forall>r. nodes fs' (out @ r) \<noteq> None \<longrightarrow> r = [] \<or> (\<exists>m \<in> set ms. r = take (length r) (member_at m))"
    "\<forall>m \<in> set ms. m_kind m = Symlink \<longrightarrow> (\<exists>loc. py_resolve fs' (at (out @ member_at m)) = Inr loc \<and> is_relative_to loc out)"
proof -
  obtain raw ms names fs1 fs2 root where r: "read_bytes fs archive = Inr raw" "untar raw = Inr ms" "check_members ms = Inr names"
    "for_each (unpack_plain (at out)) (make_out fs out) names = Inr fs1"
    "for_each (unpack_link (at out)) fs1 names = Inr fs2"
    "py_resolve fs2 (at out) = Inr root" "for_each (\<lambda>_. check_link fs2 (at out) root) () names = Inr ()" "fs' = fs2"
    using ok make_out_single [OF out] by (auto simp: extract_tree_def rbind_eq_Inr)
  note c = checked_members [OF r(3)]
  have "out \<noteq> []" using out by (simp add: fresh_out_def)
  have p: "filling fs out no_links fs1 \<and> extends fs1 (make_out fs out) \<and>
    (\<forall>r. nodes fs1 (out @ r) \<noteq> nodes (make_out fs out) (out @ r) \<longrightarrow> (\<exists>m \<in> set ms. r = take (length r) (member_at m))) \<and>
    (\<forall>m \<in> set ms. m_kind m \<in> {Directory, Regular} \<longrightarrow> as_member m (nodes fs1 (out @ member_at m)))"
    by (rule filling_loop [OF _ filling_start(1) [OF out] r(4) [unfolded c(1)]], rule unpack_plain_step)
      (use c(4) \<open>out \<noteq> []\<close> in auto)
  have l: "filling fs out (links_of ms) fs2 \<and> extends fs2 fs1 \<and>
    (\<forall>r. nodes fs2 (out @ r) \<noteq> nodes fs1 (out @ r) \<longrightarrow> (\<exists>m \<in> set ms. r = take (length r) (member_at m))) \<and>
    (\<forall>m \<in> set ms. m_kind m \<in> {Symlink} \<longrightarrow> as_member m (nodes fs2 (out @ member_at m)))"
    by (rule filling_loop [OF _ filling_weaken r(5) [unfolded c(1)]], rule unpack_link_step [OF r(3)]) (use p in auto)
  have "real_dir fs2 out" using l by (simp add: filling_def)
  then have root: "root = out" using r(6) py_resolve_at by simp
  show thesis
  proof (rule that [OF r(1-3)]; (intro ballI allI impI)?)
    show "filling fs out (links_of ms) fs'" using l r(8) by blast
    show "as_member m (nodes fs' (out @ member_at m))" if m: "m \<in> set ms" for m
    proof (cases "m_kind m = Symlink")
      case False
      then have "as_member m (nodes fs1 (out @ member_at m))" using p m c(5) [OF m] by (cases "m_kind m") auto
      then show ?thesis using as_member_extends l r(8) by blast
    qed (use l m r(8) in blast)
    show "r = [] \<or> (\<exists>m \<in> set ms. r = take (length r) (member_at m))" if "nodes fs' (out @ r) \<noteq> None" for r
      using that p l filling_start(2) [OF out, of r] r(8) by metis
    show "\<exists>loc. py_resolve fs' (at (out @ member_at m)) = Inr loc \<and> is_relative_to loc out"
      if m: "m \<in> set ms" "m_kind m = Symlink" for m
    proof -
      have "keyed m \<in> set names" using m c(1) by simp
      then have "check_link fs2 (at out) root (keyed m) = Inr ()" using r(7) by (simp add: for_each_unit list_all_iff)
      then show ?thesis
        using safe_member(4) [OF c(4) [OF m(1)], of out] m(2) root r(8)
        by (auto simp: check_link_def keyed_def result_simps split: sum.splits)
    qed
  qed
qed


text \<open>
  C3: Unpacking an archive is confined, whatever the archive contains. When \<open>extract_tree\<close>
  succeeds in a new directory, nothing outside that directory has changed, and no path below
  it that is written without \<open>..\<close> leads out of it: neither \<open>resolve()\<close>, which always succeeds
  there, nor the resolution the operating system does when such a path is opened, however
  many links the archive put on the way.
\<close>

theorem extract_tree_confined:
  assumes "fresh_out fs out" and "extract_tree untar fs archive (at out) = Inr fs'"
  shows "(\<forall>l. is_relative_to l out \<or> nodes fs' l = nodes fs l) \<and>
    (\<forall>cs. ''..'' \<in> set cs \<or>
       (\<exists>loc. py_resolve fs' (at (out @ cs)) = Inr loc \<and> is_relative_to loc out \<and>
          resolve fs' True (at (out @ cs)) \<in> insert (Inr loc) (range Inl)))"
proof -
  from assms obtain raw ms names where r: "read_bytes fs archive = Inr raw" "untar raw = Inr ms" "check_members ms = Inr names" "filling fs out (links_of ms) fs'"
    "\<forall>m \<in> set ms. as_member m (nodes fs' (out @ member_at m))"
    "\<forall>r. nodes fs' (out @ r) \<noteq> None \<longrightarrow> r = [] \<or> (\<exists>m \<in> set ms. r = take (length r) (member_at m))"
    "\<forall>m \<in> set ms. m_kind m = Symlink \<longrightarrow> (\<exists>loc. py_resolve fs' (at (out @ member_at m)) = Inr loc \<and> is_relative_to loc out)"
    by (rule extract_tree_Inr)
  have wf: "wf_tree fs'" and rd: "real_dir fs' out" using r(4) by (simp_all add: filling_def)
  have links: "''..'' \<notin> set p \<and> (\<exists>loc. py_resolve fs' (at (out @ p)) = Inr loc \<and> is_relative_to loc out)"
    if lk: "nodes fs' (out @ p) = Some (Link t)" for p t
  proof -
    obtain m where "m \<in> set ms" "m_kind m = Symlink" "p = member_at m"
      using lk r(4) unfolding filling_def links_of_def by blast
    then show ?thesis using r(7) safe_member(2) [OF checked_members(4) [OF r(3)]] by blast
  qed
  have "\<exists>loc. py_resolve fs' (at (out @ cs)) = Inr loc \<and> is_relative_to loc out \<and>
      resolve fs' True (at (out @ cs)) \<in> insert (Inr loc) (range Inl)" if cs: "''..'' \<notin> set cs" for cs
  proof -
    have "\<exists>loc. realpath fs' [] out cs = Some loc \<and> is_relative_to loc out"
      by (rule realpath_inside [OF wf rd _ cs]) (rule links, assumption, simp add: is_relative_to_def)
    then obtain loc where loc: "realpath fs' [] out cs = Some loc" "is_relative_to loc out" by blast
    have "realpath fs' [] [] (out @ cs) = Some loc"
      using loc(1) realpath_real [of out fs' "[]" "[]" cs] rd by (simp add: real_dir_def)
    moreover have "loc' = loc" if "resolve fs' True (at (out @ cs)) = Inr loc'" for loc'
      using walk_realpath [OF loc(1), of MAX_LINKS "[]" loc'] that resolve_real [OF rd] by simp
    ultimately show ?thesis
      using loc(2) by (cases "resolve fs' True (at (out @ cs))") (auto simp: py_resolve_def)
  qed
  then show ?thesis using r(4) unfolding filling_def by blast
qed

text \<open>An archive with a directory, an executable file and a link back to it.\<close>

definition sample_members :: "member list" where
  "sample_members =
     [\<lparr>m_name = ''src/'', m_kind = Directory, m_link = [], m_mode = 493, m_mtime = 0, m_size = 0, m_data = []\<rparr>,
      \<lparr>m_name = ''src/x'', m_kind = Regular, m_link = [], m_mode = 509, m_mtime = 0, m_size = 1, m_data = ''x''\<rparr>,
      \<lparr>m_name = ''src/link'', m_kind = Symlink, m_link = ''../src/x'', m_mode = 511, m_mtime = 0, m_size = 0, m_data = []\<rparr>]"

definition sample_disk :: fsys where
  "sample_disk = \<lparr>fs_entries = [([''a''], File 420 ''tar''), ([''d''], Dir 493)], cwd = [], umask = 18\<rparr>"

lemma sample_disk_checks:
  "closed_entries sample_disk" "nodes sample_disk [''d''] = Some (Dir 493)" "nodes sample_disk [''d'', ''t''] = None"
  "nodes sample_disk [''a''] = Some (File 420 ''tar'')"
  "\<not> isl (extract_tree (\<lambda>_. Inr sample_members) sample_disk (at [''a'']) (at [''d'', ''t'']))"
  by code_simp+

lemma sample_disk_fresh: "fresh_out sample_disk [''d'', ''t'']"
  using sample_disk_checks real_dir_snoc [of sample_disk "[]" "''d''"] closed_entries [of sample_disk]
  by (simp add: fresh_out_def)

lemma sample_disk_run:
  obtains fs' where "extract_tree (\<lambda>_. Inr sample_members) sample_disk (at [''a'']) (at [''d'', ''t'']) = Inr fs'"
  using sample_disk_checks(5) by (cases "extract_tree (\<lambda>_. Inr sample_members) sample_disk (at [''a'']) (at [''d'', ''t''])") auto

theorem extract_tree_confined_witness:
  "\<exists>fs'. extract_tree (\<lambda>_. Inr sample_members) sample_disk (at [''a'']) (at [''d'', ''t'']) = Inr fs' \<and>
     nodes fs' [''a''] = Some (File 420 ''tar'') \<and>
     (\<exists>loc. py_resolve fs' (at [''d'', ''t'', ''src'', ''link'']) = Inr loc \<and> is_relative_to loc [''d'', ''t''])"
proof -
  obtain fs' where ok: "extract_tree (\<lambda>_. Inr sample_members) sample_disk (at [''a'']) (at [''d'', ''t'']) = Inr fs'"
    by (rule sample_disk_run)
  note c = extract_tree_confined [OF sample_disk_fresh ok]
  have "nodes fs' [''a''] = Some (File 420 ''tar'')"
    using conjunct1 [OF c, THEN spec, of "[''a'']"] sample_disk_checks(4) by (simp add: is_relative_to_def)
  moreover have "\<exists>loc. py_resolve fs' (at [''d'', ''t'', ''src'', ''link'']) = Inr loc \<and> is_relative_to loc [''d'', ''t'']"
    using conjunct2 [OF c, THEN spec, of "[''src'', ''link'']"] by auto
  ultimately show ?thesis using ok by blast
qed

text \<open>
  C22: Unpacking an archive is exact. When \<open>extract_tree\<close> succeeds in a new directory, every
  member of the archive has become the node its header describes, files with the mode 0755 or
  0644 and the archived contents, links with the archived target, under the name of the member,
  which has no root, no \<open>..\<close> and no \<open>.git\<close> in it; and there is nothing else in the directory
  but the directories on the way to members.
\<close>

theorem extract_tree_exact:
  assumes "fresh_out fs out" and "extract_tree untar fs archive (at out) = Inr fs'"
  shows "\<exists>raw ms. read_bytes fs archive = Inr raw \<and> untar raw = Inr ms \<and> sum_list (map m_size ms) \<le> LIMIT \<and>
    distinct (map member_at ms) \<and>
    list_all (\<lambda>m. confined (parse_path (m_name m)) \<and> ''.git'' \<notin> set (member_at m) \<and>
       as_member m (nodes fs' (out @ member_at m))) ms \<and>
    (\<forall>rel. rel \<in> set (below fs' out) \<longleftrightarrow> rel \<noteq> [] \<and> list_ex (\<lambda>m. rel = take (length rel) (member_at m)) ms)"
proof -
  from assms obtain raw ms names where r: "read_bytes fs archive = Inr raw" "untar raw = Inr ms" "check_members ms = Inr names" "filling fs out (links_of ms) fs'"
    "\<forall>m \<in> set ms. as_member m (nodes fs' (out @ member_at m))"
    "\<forall>r. nodes fs' (out @ r) \<noteq> None \<longrightarrow> r = [] \<or> (\<exists>m \<in> set ms. r = take (length r) (member_at m))"
    "\<forall>m \<in> set ms. m_kind m = Symlink \<longrightarrow> (\<exists>loc. py_resolve fs' (at (out @ member_at m)) = Inr loc \<and> is_relative_to loc out)"
    by (rule extract_tree_Inr)
  note c = checked_members [OF r(3)]
  have "sum_list (map m_size ms) \<le> LIMIT" using r(3) by (auto simp: check_members_def split: if_splits)
  moreover have "distinct (map member_at ms)" using distinct_members [OF r(3)] .
  moreover have "rel \<in> set (below fs' out) \<longleftrightarrow> rel \<noteq> [] \<and> list_ex (\<lambda>m. rel = take (length rel) (member_at m)) ms" for rel
  proof
    assume "rel \<in> set (below fs' out)"
    then show "rel \<noteq> [] \<and> list_ex (\<lambda>m. rel = take (length rel) (member_at m)) ms"
      using r(6) by (auto simp: set_below list_ex_iff)
  next
    assume rel: "rel \<noteq> [] \<and> list_ex (\<lambda>m. rel = take (length rel) (member_at m)) ms"
    then obtain m where m: "m \<in> set ms" "rel = take (length rel) (member_at m)" by (auto simp: list_ex_iff)
    have "nodes fs' (out @ rel @ drop (length rel) (member_at m)) \<noteq> None"
      using bspec [OF r(5) m(1)] m(2) append_take_drop_id [of "length rel" "member_at m"]
      by (auto simp: as_member_def split: member_kind.splits)
    moreover have "wf_tree fs'" using r(4) by (simp add: filling_def)
    ultimately have "nodes fs' (out @ rel) \<noteq> None"
      using wf_tree_below [of fs' "out @ rel"] rel by fastforce
    then show "rel \<in> set (below fs' out)" using rel by (simp add: set_below)
  qed
  moreover have "list_all (\<lambda>m. confined (parse_path (m_name m)) \<and> ''.git'' \<notin> set (member_at m) \<and>
       as_member m (nodes fs' (out @ member_at m))) ms"
    using safe_member(1,3) [OF c(4)] r(5) by (auto simp: list_all_iff)
  ultimately show ?thesis using r(1,2) by blast
qed


theorem extract_tree_exact_witness:
  "\<exists>fs'. extract_tree (\<lambda>_. Inr sample_members) sample_disk (at [''a'']) (at [''d'', ''t'']) = Inr fs' \<and>
     [''src'', ''x''] \<in> set (below fs' [''d'', ''t'']) \<and> [''x''] \<notin> set (below fs' [''d'', ''t''])"
proof -
  obtain fs' where ok: "extract_tree (\<lambda>_. Inr sample_members) sample_disk (at [''a'']) (at [''d'', ''t'']) = Inr fs'"
    by (rule sample_disk_run)
  from extract_tree_exact [OF sample_disk_fresh ok]
  have "rel \<in> set (below fs' [''d'', ''t'']) \<longleftrightarrow>
      rel \<noteq> [] \<and> list_ex (\<lambda>m. rel = take (length rel) (member_at m)) sample_members" for rel by auto
  moreover have "list_ex (\<lambda>m. [''src'', ''x''] = take 2 (member_at m)) sample_members"
    "\<not> list_ex (\<lambda>m. [''x''] = take 1 (member_at m)) sample_members" by code_simp+
  ultimately show ?thesis using ok by (simp add: numeral_2_eq_2)
qed

end
