(* ===== verification/Source_Restore.thy ===== *)
theory Source_Restore
  imports Confinement Offline Written_Text
begin

text \<open>
  \<open>restore\<close> of \<open>scripts/restore-source-review.py\<close>: a source-review ZIP with a digest known
  beforehand is verified and unpacked into a fresh directory. The lemmas show what a directory
  that was restored without an error holds.
\<close>

subsection \<open>What the standard library does\<close>

text \<open>
  A member of a ZIP file; reading it may fail (its CRC is checked). The formats of archives,
  the decoding of JSON bytes that are not plain UTF-8, the comparison of a floating-point number
  with an integer and the text of a list or dictionary are the library's.
\<close>

record zmember =
  z_name :: string
  z_size :: int
  z_data :: "bytes result"

record libs =
  lib_unzip :: "bytes \<Rightarrow> zmember list result"
  lib_untar :: "bytes \<Rightarrow> member list result"
  lib_decode :: "bytes \<Rightarrow> string result"
  lib_float_eq :: "string \<Rightarrow> int \<Rightarrow> bool"
  lib_repr :: "json \<Rightarrow> string"

definition loads_bytes :: "libs \<Rightarrow> bytes \<Rightarrow> json result" where
  "loads_bytes L = json_bytes (lib_decode L)"

definition eq_int :: "libs \<Rightarrow> json \<Rightarrow> int \<Rightarrow> bool" where
  "eq_int L j n = (case j of JInt m \<Rightarrow> m = n | JBool b \<Rightarrow> n = (if b then 1 else 0) | JFloat s \<Rightarrow> lib_float_eq L s n | _ \<Rightarrow> False)"

definition py_str :: "libs \<Rightarrow> json \<Rightarrow> string" where
  "py_str L j = (case j of JStr s \<Rightarrow> s | JInt n \<Rightarrow> str_int n | JBool True \<Rightarrow> ''True'' | JBool False \<Rightarrow> ''False'' | JNull \<Rightarrow> ''None''
     | _ \<Rightarrow> lib_repr L j)"

text \<open>\<open>line.split(maxsplit=1)\<close>\<close>

definition split_word :: "string \<Rightarrow> string list" where
  "split_word s =
     (let (w, u) = break_at ws_seqs (lstrip s); v = lstrip u in
      if w = [] then [] else if v = [] then [w] else [w, v])"

subsection \<open>The ZIP file\<close>

definition FEEDS :: "string list" where
  "FEEDS = [''luci'', ''packages'', ''routing'', ''telephony'', ''video'']"

definition feed_archive :: "string \<Rightarrow> string" where
  "feed_archive name = ''feed-'' @ name @ ''.tar''"

definition MEMBERS :: "string list" where
  "MEMBERS =
     [''PROJECT-LICENSE.txt'', ''README.txt'', ''SHA256SUMS'', ''build.manifest'', ''downloads.tar'', ''linux.config'',
      ''openwrt.config'', ''package-metadata.txt'', ''packages.manifest'', ''project.tar'', ''source-review.json'', ''runner.txt'',
      ''target-metadata.txt'', ''upstream-delta.patch'', ''openwrt-upstream.tar'', ''THIRD-PARTY-NOTICES.tar'']
     @ map feed_archive FEEDS"

definition OPTIONAL_MEMBERS :: "string list" where
  "OPTIONAL_MEMBERS = [''THIRD-PARTY-NOTICES.tar'']"

definition z_read :: "zmember list \<Rightarrow> string \<Rightarrow> bytes result" where
  "z_read zs name = (case map_of (map (\<lambda>z. (z_name z, z_data z)) zs) name of None \<Rightarrow> Inl (KeyError name) | Some r \<Rightarrow> r)"

definition check_zip :: "zmember list \<Rightarrow> unit result" where
  "check_zip zs =
     (let names = map z_name zs in
      if \<not> distinct names \<or> \<not> list_all (\<lambda>n. n \<in> set MEMBERS) names
        \<or> \<not> list_all (\<lambda>n. n \<in> set OPTIONAL_MEMBERS \<or> n \<in> set names) MEMBERS
      then Inl (ValueError ''unexpected or duplicate ZIP members'')
      else raise_if (sum_list (map z_size zs) > LIMIT) (ValueError ''ZIP exceeds limits''))"

definition add_checksum :: "string dict \<Rightarrow> string \<Rightarrow> string dict result" where
  "add_checksum checksums line =
     (case split_word line of
        [digest, name] \<Rightarrow>
          if name \<in> set (dict_keys checksums) \<or> \<not> fullmatch SHA256 digest
          then Inl (ValueError ''invalid checksum inventory'')
          else Inr (dict_set name digest checksums)
      | _ \<Rightarrow> Inl (ValueError ''not enough values to unpack''))"

definition read_checksums :: "zmember list \<Rightarrow> string dict result" where
  "read_checksums zs =
     rbind (z_read zs ''SHA256SUMS'') (\<lambda>raw.
     rbind (decode_utf8 raw) (\<lambda>txt.
     rbind (for_each add_checksum [] (splitlines txt)) (\<lambda>checksums.
     if set (dict_keys checksums) \<noteq> set (map z_name zs) - {''SHA256SUMS''}
     then Inl (ValueError ''incomplete checksum inventory'')
     else Inr checksums)))"

definition verify_member :: "zmember list \<Rightarrow> string \<times> string \<Rightarrow> unit result" where
  "verify_member zs = (\<lambda>(name, digest).
     rbind (z_read zs name) (\<lambda>bs. raise_if (sha256_hex bs \<noteq> digest) (ValueError ''source member checksum mismatch'')))"

subsection \<open>The report\<close>

definition source_report :: "libs \<Rightarrow> zmember list \<Rightarrow> json result" where
  "source_report L zs =
     rbind (rbind (z_read zs ''source-review.json'') (loads_bytes L)) (\<lambda>report.
     let bad = ValueError ''unsupported source report'' in
     rbind (getitem report ''format'') (\<lambda>fmt.
     if \<not> eq_int L fmt 1 then Inl bad
     else rbind (rbind (getitem report ''feed_commits'') py_set) (\<lambda>feeds.
          if set feeds \<noteq> set (map JStr FEEDS) then Inl bad else Inr report)))"

definition disagreement :: "libs \<Rightarrow> string dict \<Rightarrow> string dict \<Rightarrow> json \<Rightarrow> bool result" where
  "disagreement L checksums fds report =
     any_result (\<lambda>differs. differs)
       [rbind (dict_get fds ''REPOSITORY_COMMIT'') (\<lambda>v. rbind (getitem report ''project_commit'') (\<lambda>c. Inr (c \<noteq> JStr v))),
        rbind (dict_get fds ''OPENWRT_COMMIT'') (\<lambda>v. rbind (getitem report ''openwrt_commit'') (\<lambda>c. Inr (c \<noteq> JStr v))),
        rbind (dict_get fds ''CONFIG_SHA256'') (\<lambda>v. rbind (dict_get checksums ''openwrt.config'') (\<lambda>c. Inr (c \<noteq> v))),
        rbind (dict_get fds ''SOURCE_DATE_EPOCH'') (\<lambda>v. rbind (getitem report ''source_date_epoch'') (\<lambda>c. Inr (py_str L c \<noteq> v)))]"

definition zip_manifest :: "zmember list \<Rightarrow> string dict result" where
  "zip_manifest zs =
     rbind (rbind (z_read zs ''build.manifest'') decode_utf8) (\<lambda>txt. for_each put_pair [] (splitlines txt))"

text \<open>Everything that is checked before anything is written.\<close>

definition check_bundle :: "libs \<Rightarrow> zmember list \<Rightarrow> (string dict \<times> json) result" where
  "check_bundle L zs =
     rbind (check_zip zs) (\<lambda>_.
     rbind (read_checksums zs) (\<lambda>checksums.
     rbind (for_each (\<lambda>_. verify_member zs) () checksums) (\<lambda>_.
     rbind (source_report L zs) (\<lambda>report.
     rbind (zip_manifest zs) (\<lambda>fds.
     rbind (disagreement L checksums fds report) (\<lambda>differs.
     if differs then Inl (ValueError ''source report and manifest disagree'')
     else Inr (checksums, report)))))))"

subsection \<open>Unpacking\<close>

definition put_member :: "zmember list \<Rightarrow> ppath \<Rightarrow> fsys \<Rightarrow> string \<Rightarrow> fsys result" where
  "put_member zs bundle fs name = rbind (z_read zs name) (\<lambda>bs. open_xb fs (child bundle name) bs)"

definition unpack_trees :: "libs \<Rightarrow> ppath \<Rightarrow> ppath \<Rightarrow> fsys \<Rightarrow> fsys result" where
  "unpack_trees L bundle output fs =
     (let feeds = child (child output ''openwrt'') ''feeds'' in
      rbind (extract_tree (lib_untar L) fs (child bundle ''project.tar'') (child output ''project'')) (\<lambda>fs.
      rbind (extract_tree (lib_untar L) fs (child bundle ''openwrt-upstream.tar'') (child output ''openwrt'')) (\<lambda>fs.
      rbind (mkdir False fs feeds) (\<lambda>fs.
      rbind (for_each (\<lambda>fs name. extract_tree (lib_untar L) fs (child bundle (feed_archive name)) (child feeds name)) fs FEEDS) (\<lambda>fs.
      extract_tree (lib_untar L) fs (child bundle ''downloads.tar'') (child output ''downloads''))))))"

subsection \<open>The downloads\<close>

definition download_dir :: "ppath \<Rightarrow> ppath" where
  "download_dir output = child (child output ''downloads'') ''dl''"

definition check_download :: "libs \<Rightarrow> fsys \<Rightarrow> ppath \<Rightarrow> json \<Rightarrow> unit result" where
  "check_download L fs output item =
     rbind (getitem item ''name'') (\<lambda>name.
     case name of
       JStr s \<Rightarrow>
         (let path = p_join (download_dir output) (parse_path s); bad = ValueError ''invalid restored download'' in
          if is_symlink fs path \<or> \<not> is_file fs path then Inl bad
          else rbind (stat fs path) (\<lambda>st.
               rbind (getitem item ''size'') (\<lambda>size.
               if \<not> eq_int L size (st_size st) then Inl bad
               else rbind (read_bytes fs path) (\<lambda>bs.
                    rbind (getitem item ''sha256'') (\<lambda>digest.
                    raise_if (digest \<noteq> JStr (sha256_hex bs)) (ValueError ''restored download digest mismatch''))))))
     | _ \<Rightarrow> Inl (TypeError ''unsupported operand''))"

definition download_name :: "json \<Rightarrow> json result" where
  "download_name item =
     rbind (getitem item ''name'') (\<lambda>n. if hashable n then Inr n else Inl (TypeError ''unhashable''))"

definition check_downloads :: "libs \<Rightarrow> fsys \<Rightarrow> ppath \<Rightarrow> json \<Rightarrow> unit result" where
  "check_downloads L fs output report =
     rbind (iterdir fs (download_dir output)) (\<lambda>actual.
     rbind (rbind (getitem report ''downloads'') py_iter) (\<lambda>items.
     rbind (map_result download_name items) (\<lambda>names.
     if \<not> distinct names \<or> set names \<noteq> set (map JStr actual)
     then Inl (ValueError ''download inventory mismatch'')
     else for_each (\<lambda>_. check_download L fs output) () items)))"

subsection \<open>\<open>restore\<close>\<close>

definition restored_json :: "string \<Rightarrow> json \<Rightarrow> json \<Rightarrow> json" where
  "restored_json expected project openwrt = JObj
     [(''source_zip_sha256'', JStr expected), (''project_commit'', project), (''openwrt_commit'', openwrt),
      (''offline_rebuild_verified'', JBool False), (''license_review_complete'', JBool False)]"

text \<open>What is written, once everything has been checked.\<close>

definition restore_files :: "libs \<Rightarrow> zmember list \<Rightarrow> json \<Rightarrow> string \<Rightarrow> ppath \<Rightarrow> fsys \<Rightarrow> fsys result" where
  "restore_files L zs report expected output fs =
     (let bundle = child output ''bundle'' in
      rbind (mkdir_parents False fs output) (\<lambda>fs.
      rbind (mkdir False fs bundle) (\<lambda>fs.
      rbind (for_each (put_member zs bundle) fs (sort (map z_name zs))) (\<lambda>fs.
      rbind (unpack_trees L bundle output fs) (\<lambda>fs.
      rbind (check_downloads L fs output report) (\<lambda>_.
      rbind (getitem report ''project_commit'') (\<lambda>project.
      rbind (getitem report ''openwrt_commit'') (\<lambda>openwrt.
      write_bytes fs (child output ''RESTORED.json'')
        (dumps False (restored_json expected project openwrt) @ [CHR 0x0A])))))))))"

definition restore :: "libs \<Rightarrow> fsys \<Rightarrow> ppath \<Rightarrow> string \<Rightarrow> ppath \<Rightarrow> fsys result" where
  "restore L fs archive expected output =
     (if \<not> fullmatch SHA256 expected then Inl (ValueError ''an independently pinned ZIP SHA-256 is required'')
      else if symlinked fs archive \<or> symlinked fs output then Inl (ValueError ''symlinked input or output path'')
      else if exists fs output then Inl (ValueError ''output already exists'')
      else
      rbind (read_bytes fs archive) (\<lambda>raw.
      if sha256_hex raw \<noteq> expected then Inl (ValueError ''source ZIP differs from pinned digest'')
      else
      rbind (lib_unzip L raw) (\<lambda>zs.
      rbind (check_bundle L zs) (\<lambda>(checksums, report). restore_files L zs report expected output fs))))"

subsection \<open>Writing below a directory\<close>

text \<open>\<open>fs'\<close> has everything \<open>fs\<close> has, and differs from it below \<open>root\<close> only.\<close>

definition adds_below :: "string list \<Rightarrow> fsys \<Rightarrow> fsys \<Rightarrow> bool" where
  "adds_below root fs fs' \<longleftrightarrow> wf_tree fs' \<and> extends fs' fs \<and> (\<forall>l. is_relative_to l root \<or> nodes fs' l = nodes fs l)"

lemma adds_below_refl: "wf_tree fs \<Longrightarrow> adds_below root fs fs"
  by (simp add: adds_below_def)

lemma adds_below_trans: "adds_below root a b \<Longrightarrow> adds_below root b c \<Longrightarrow> adds_below root a c"
  unfolding adds_below_def by (metis extends_trans)

lemma adds_below_weaken: "adds_below (root @ r) a b \<Longrightarrow> adds_below root a b"
  unfolding adds_below_def relative_iff by (metis append.assoc)

lemma adds_below_wf: "adds_below root a b \<Longrightarrow> wf_tree b"
  by (simp add: adds_below_def)

lemma adds_below_real_dir: "adds_below root a b \<Longrightarrow> real_dir a l \<Longrightarrow> real_dir b l"
  by (auto simp: adds_below_def intro: extends_real_dir)

lemma adds_below_node: "adds_below root a b \<Longrightarrow> nodes a l = Some n \<Longrightarrow> nodes b l = Some n"
  by (simp add: adds_below_def extends_def)

lemma adds_below_other: "adds_below root a b \<Longrightarrow> \<not> is_relative_to l root \<Longrightarrow> nodes b l = nodes a l"
  by (auto simp: adds_below_def)

lemma create_below:
  assumes "wf_tree fs" "real_dir fs d" "c \<noteq> ''..''" "create fs (at (d @ [c])) n = Inr fs'"
  shows "fs' = fs_put (d @ [c]) n fs" "nodes fs (d @ [c]) = None" "adds_below (d @ [c]) fs fs'"
proof -
  have r: "resolve fs False (at (d @ [c])) = Inr (d @ [c])" using assms(2,3) by (simp add: resolve_child)
  then show none: "nodes fs (d @ [c]) = None" and put: "fs' = fs_put (d @ [c]) n fs"
    using assms(4) by (auto simp: create_def split: option.splits)
  have "d = [] \<or> (\<exists>m. nodes fs d = Some (Dir m))" using assms(2) by (cases d rule: rev_cases) auto
  then show "adds_below (d @ [c]) fs fs'"
    using wf_tree_put [OF assms(1) _ none] none put by (auto simp: adds_below_def extends_put is_relative_to_def)
qed

lemma mkdir_below:
  assumes "wf_tree fs" "real_dir fs d" "c \<noteq> ''..''" "mkdir False fs (at (d @ [c])) = Inr fs'"
  shows "nodes fs (d @ [c]) = None" "adds_below (d @ [c]) fs fs'" "real_dir fs' (d @ [c])"
    "r \<noteq> [] \<Longrightarrow> nodes fs' (d @ [c] @ r) = None"
proof -
  have c: "create fs (at (d @ [c])) (Dir (perm_for fs 511)) = Inr fs'"
    using assms(4) by (auto simp: mkdir_def os_mkdir_def tolerate_def split: sum.splits if_splits)
  note b = create_below [OF assms(1-3) c]
  show "nodes fs (d @ [c]) = None" "adds_below (d @ [c]) fs fs'" by (rule b)+
  show "real_dir fs' (d @ [c])" using assms(2,3) b(1,2) by (auto intro: real_dir_put_other)
  show "r \<noteq> [] \<Longrightarrow> nodes fs' (d @ [c] @ r) = None"
    using wf_tree_below [OF assms(1) _ b(2), of r] b(1) by auto
qed

text \<open>The members of an archive, where they belong.\<close>

definition unpacked :: "libs \<Rightarrow> fsys \<Rightarrow> bytes \<Rightarrow> string list \<Rightarrow> bool" where
  "unpacked L fs raw dir \<longleftrightarrow>
     (\<exists>ms. lib_untar L raw = Inr ms \<and> list_all (\<lambda>m. as_member m (nodes fs (dir @ member_at m))) ms)"

lemma unpacked_adds: "adds_below root a b \<Longrightarrow> unpacked L a raw dir \<Longrightarrow> unpacked L b raw dir"
  using as_member_extends unfolding unpacked_def adds_below_def list_all_iff by blast

lemma extract_below:
  assumes "wf_tree fs" "real_dir fs d" "c \<noteq> ''..''" "extract_tree (lib_untar L) fs archive (at (d @ [c])) = Inr fs'"
  shows "adds_below (d @ [c]) fs fs'" "real_dir fs' (d @ [c])" "\<exists>raw. read_bytes fs archive = Inr raw \<and> unpacked L fs' raw (d @ [c])"
proof -
  obtain fs1 where "mkdir False fs (at (d @ [c])) = Inr fs1"
    using assms(4) by (auto simp: extract_tree_def result_simps)
  then have none: "nodes fs (d @ [c]) = None" by (rule mkdir_below [OF assms(1-3)])
  then have fresh: "fresh_out fs (d @ [c])" using assms(1-3) by (simp add: fresh_out_def)
  from fresh assms(4) obtain raw ms names where r: "read_bytes fs archive = Inr raw" "lib_untar L raw = Inr ms" "check_members ms = Inr names"
    "filling fs (d @ [c]) (links_of ms) fs'"
    "\<forall>m \<in> set ms. as_member m (nodes fs' ((d @ [c]) @ member_at m))"
    "\<forall>r. nodes fs' ((d @ [c]) @ r) \<noteq> None \<longrightarrow> r = [] \<or> (\<exists>m \<in> set ms. r = take (length r) (member_at m))"
    "\<forall>m \<in> set ms. m_kind m = Symlink \<longrightarrow> (\<exists>loc. py_resolve fs' (at ((d @ [c]) @ member_at m)) = Inr loc \<and> is_relative_to loc (d @ [c]))"
    by (rule extract_tree_Inr)
  have "extends fs' fs"
  proof (rule extendsI)
    fix l assume "nodes fs l \<noteq> None"
    then have "\<not> is_relative_to l (d @ [c])" using fresh_below [OF fresh] unfolding relative_iff by auto
    then show "nodes fs' l = nodes fs l" using r(4) by (simp add: filling_def)
  qed
  then show "adds_below (d @ [c]) fs fs'" "real_dir fs' (d @ [c])"
    using r(4) unfolding filling_def adds_below_def by blast+
  show "\<exists>raw. read_bytes fs archive = Inr raw \<and> unpacked L fs' raw (d @ [c])"
    using r(1,2,5) unfolding unpacked_def list_all_iff by blast
qed


subsection \<open>The bundle\<close>

definition bundled :: "zmember list \<Rightarrow> fsys \<Rightarrow> string list \<Rightarrow> string \<Rightarrow> bool" where
  "bundled zs fs b n \<longleftrightarrow> (\<exists>m bs. z_read zs n = Inr bs \<and> nodes fs (b @ [n]) = Some (File m bs))"

definition from_member :: "libs \<Rightarrow> zmember list \<Rightarrow> fsys \<Rightarrow> string \<Rightarrow> string list \<Rightarrow> bool" where
  "from_member L zs fs n dir \<longleftrightarrow> (\<exists>bs. z_read zs n = Inr bs \<and> unpacked L fs bs dir)"

lemma bundled_adds: "adds_below root a b \<Longrightarrow> bundled zs a d n \<Longrightarrow> bundled zs b d n"
  unfolding bundled_def by (meson adds_below_node)

lemma from_member_adds: "adds_below root a b \<Longrightarrow> from_member L zs a n dir \<Longrightarrow> from_member L zs b n dir"
  unfolding from_member_def by (meson unpacked_adds)

lemma put_members:
  "wf_tree fs \<Longrightarrow> real_dir fs d \<Longrightarrow> for_each (put_member zs (at d)) fs names = Inr fs' \<Longrightarrow> ''..'' \<notin> set names \<Longrightarrow>
     adds_below d fs fs' \<and> list_all (bundled zs fs' d) names"
proof (induction names arbitrary: fs)
  case Nil
  then show ?case by (simp add: adds_below_refl)
next
  case (Cons n names)
  obtain fs1 where n: "put_member zs (at d) fs n = Inr fs1" "for_each (put_member zs (at d)) fs1 names = Inr fs'"
    using Cons.prems(3) unfolding for_each.simps rbind_eq_Inr by blast
  then obtain bs where bs: "z_read zs n = Inr bs" "create fs (at (d @ [n])) (File (perm_for fs 438) bs) = Inr fs1"
    by (auto simp: put_member_def open_xb_def result_simps)
  have "n \<noteq> ''..''" using Cons.prems(4) by auto
  note c = create_below [OF Cons.prems(1,2) this bs(2)]
  have ih: "adds_below d fs1 fs'" "list_all (bundled zs fs' d) names"
    using Cons.IH [OF adds_below_wf [OF c(3)] adds_below_real_dir [OF c(3) Cons.prems(2)] n(2)] Cons.prems(4) by auto
  have "adds_below d fs fs'" using adds_below_weaken [OF c(3)] ih(1) by (rule adds_below_trans)
  moreover have "bundled zs fs1 d n" using bs(1) c(1) by (auto simp: bundled_def)
  ultimately show ?case using ih bundled_adds by auto
qed

lemma extract_bundled:
  assumes "wf_tree fs" "real_dir fs d" "c \<noteq> ''..''" "extract_tree (lib_untar L) fs (at (b @ [a])) (at (d @ [c])) = Inr fs'"
    and "real_dir fs b" "a \<noteq> ''..''" "bundled zs fs b a"
  shows "adds_below (d @ [c]) fs fs'" "real_dir fs' (d @ [c])" "from_member L zs fs' a (d @ [c])"
proof -
  note e = extract_below [OF assms(1-4)]
  show "adds_below (d @ [c]) fs fs'" "real_dir fs' (d @ [c])" by (rule e)+
  show "from_member L zs fs' a (d @ [c])"
    using e(3) assms(5-7) by (auto simp: bundled_def from_member_def read_child)
qed

lemma feed_loop:
  "wf_tree fs \<Longrightarrow> real_dir fs d \<Longrightarrow> ''..'' \<notin> set names \<Longrightarrow> real_dir fs b \<Longrightarrow> ''..'' \<notin> feed_archive ` set names \<Longrightarrow>
   list_all (\<lambda>n. bundled zs fs b (feed_archive n)) names \<Longrightarrow>
   for_each (\<lambda>fs n. extract_tree (lib_untar L) fs (at (b @ [feed_archive n])) (at (d @ [n]))) fs names = Inr fs' \<Longrightarrow>
     adds_below d fs fs' \<and> list_all (\<lambda>n. from_member L zs fs' (feed_archive n) (d @ [n])) names"
proof (induction names arbitrary: fs)
  case Nil
  then show ?case by (simp add: adds_below_refl)
next
  case (Cons n names)
  obtain fs1 where n: "extract_tree (lib_untar L) fs (at (b @ [feed_archive n])) (at (d @ [n])) = Inr fs1"
    "for_each (\<lambda>fs n. extract_tree (lib_untar L) fs (at (b @ [feed_archive n])) (at (d @ [n]))) fs1 names = Inr fs'"
    using Cons.prems(7) unfolding for_each.simps rbind_eq_Inr by blast
  have "n \<noteq> ''..''" "feed_archive n \<noteq> ''..''" "bundled zs fs b (feed_archive n)" using Cons.prems(3,5,6) by auto
  note e = extract_bundled [OF Cons.prems(1,2) this(1) n(1) Cons.prems(4) this(2,3)]
  have "list_all (\<lambda>n. bundled zs fs1 b (feed_archive n)) names"
    using Cons.prems(6) bundled_adds [OF e(1)] by (auto simp: list_all_iff)
  then have ih: "adds_below d fs1 fs'" "list_all (\<lambda>n. from_member L zs fs' (feed_archive n) (d @ [n])) names"
    using Cons.IH [OF adds_below_wf [OF e(1)] adds_below_real_dir [OF e(1) Cons.prems(2)] _
        adds_below_real_dir [OF e(1) Cons.prems(4)] _ _ n(2)] Cons.prems(3,5) by auto
  have "adds_below d fs fs'" using adds_below_weaken [OF e(1)] ih(1) by (rule adds_below_trans)
  then show ?case using ih from_member_adds [OF ih(1) e(3)] by simp
qed

text \<open>The trees, each with the archive it is unpacked from.\<close>

definition source_trees :: "(string \<times> string list) list" where
  "source_trees =
     [(''project.tar'', [''project'']), (''openwrt-upstream.tar'', [''openwrt'']), (''downloads.tar'', [''downloads''])]
     @ map (\<lambda>n. (feed_archive n, [''openwrt'', ''feeds'', n])) FEEDS"

lemma unpack_trees_Inr:
  assumes wf: "wf_tree fs" and out: "real_dir fs out" and b: "real_dir fs (out @ [''bundle''])"
    and bs: "list_all (bundled zs fs (out @ [''bundle''])) (map fst source_trees)"
    and ok: "unpack_trees L (at (out @ [''bundle''])) (at out) fs = Inr fs'"
  shows "adds_below out fs fs'" "list_all (\<lambda>(a, ds). from_member L zs fs' a (out @ ds)) source_trees"
    "c \<notin> {''project'', ''openwrt'', ''downloads''} \<Longrightarrow> nodes fs' (out @ [c]) = nodes fs (out @ [c])"
proof -
  let ?b = "out @ [''bundle'']" and ?feeds = "(out @ [''openwrt'']) @ [''feeds'']"
  obtain f1 f2 f3 f4 where r:
    "extract_tree (lib_untar L) fs (at (?b @ [''project.tar''])) (at (out @ [''project''])) = Inr f1"
    "extract_tree (lib_untar L) f1 (at (?b @ [''openwrt-upstream.tar''])) (at (out @ [''openwrt''])) = Inr f2"
    "mkdir False f2 (at ?feeds) = Inr f3"
    "for_each (\<lambda>fs n. extract_tree (lib_untar L) fs (at (?b @ [feed_archive n])) (at (?feeds @ [n]))) f3 FEEDS = Inr f4"
    "extract_tree (lib_untar L) f4 (at (?b @ [''downloads.tar''])) (at (out @ [''downloads''])) = Inr fs'"
    using ok unfolding unpack_trees_def Let_def child_at rbind_eq_Inr by blast
  have b0: "bundled zs fs ?b ''project.tar''" "bundled zs fs ?b ''openwrt-upstream.tar''" "bundled zs fs ?b ''downloads.tar''"
    "list_all (\<lambda>n. bundled zs fs ?b (feed_archive n)) FEEDS"
    using bs by (auto simp: source_trees_def list_all_iff)
  note s1 = extract_bundled [OF wf out _ r(1) b _ b0(1)]
  have a1: "adds_below (out @ [''project'']) fs f1" and t1: "from_member L zs f1 ''project.tar'' (out @ [''project''])"
    by (rule s1; simp)+
  note w1 = adds_below_wf [OF a1] and d1 = adds_below_real_dir [OF a1]
  note s2 = extract_bundled [OF w1 d1 [OF out] _ r(2) d1 [OF b] _ bundled_adds [OF a1 b0(2)]]
  have a2: "adds_below (out @ [''openwrt'']) f1 f2" and o2: "real_dir f2 (out @ [''openwrt''])"
    and t2: "from_member L zs f2 ''openwrt-upstream.tar'' (out @ [''openwrt''])" by (rule s2; simp)+
  note w2 = adds_below_wf [OF a2]
  note s3 = mkdir_below [OF w2 o2 _ r(3)]
  have a3: "adds_below ?feeds f2 f3" and o3: "real_dir f3 ?feeds" by (rule s3; simp)+
  note w3 = adds_below_wf [OF a3]
  have b3: "bundled zs fs ?b n \<Longrightarrow> bundled zs f3 ?b n" for n using a1 a2 a3 bundled_adds by blast
  have rb3: "real_dir fs l \<Longrightarrow> real_dir f3 l" for l using a1 a2 a3 adds_below_real_dir by blast
  have "list_all (\<lambda>n. bundled zs f3 ?b (feed_archive n)) FEEDS" using b0(4) b3 by (auto simp: list_all_iff)
  then have s4: "adds_below ?feeds f3 f4" "list_all (\<lambda>n. from_member L zs f4 (feed_archive n) (?feeds @ [n])) FEEDS"
    using feed_loop [OF w3 o3 _ rb3 [OF b] _ _ r(4)] by (auto simp: FEEDS_def feed_archive_def)
  note w4 = adds_below_wf [OF s4(1)] and d4 = adds_below_real_dir [OF s4(1)]
  note s5 = extract_bundled [OF w4 d4 [OF rb3 [OF out]] _ r(5) d4 [OF rb3 [OF b]] _ bundled_adds [OF s4(1) b3 [OF b0(3)]]]
  have a5: "adds_below (out @ [''downloads'']) f4 fs'" and t5: "from_member L zs fs' ''downloads.tar'' (out @ [''downloads''])"
    by (rule s5; simp)+
  have out_steps: "adds_below out fs f1" "adds_below out f1 f2" "adds_below out f2 f3" "adds_below out f3 f4" "adds_below out f4 fs'"
    using a1 a2 adds_below_weaken [OF adds_below_weaken [OF a3]] adds_below_weaken [OF adds_below_weaken [OF s4(1)]] a5
    by (auto intro: adds_below_weaken)
  then show "adds_below out fs fs'" by (meson adds_below_trans)
  have "from_member L zs fs' ''project.tar'' (out @ [''project''])" "from_member L zs fs' ''openwrt-upstream.tar'' (out @ [''openwrt''])"
    using from_member_adds [OF a5 from_member_adds [OF s4(1) from_member_adds [OF a3 from_member_adds [OF a2 t1]]]]
      from_member_adds [OF a5 from_member_adds [OF s4(1) from_member_adds [OF a3 t2]]] by simp_all
  moreover have "list_all (\<lambda>n. from_member L zs fs' (feed_archive n) (?feeds @ [n])) FEEDS"
    using s4(2) from_member_adds [OF a5] by (auto simp: list_all_iff)
  ultimately show "list_all (\<lambda>(a, ds). from_member L zs fs' a (out @ ds)) source_trees"
    using t5 by (simp add: source_trees_def list_all_iff)
  show "nodes fs' (out @ [c]) = nodes fs (out @ [c])" if c: "c \<notin> {''project'', ''openwrt'', ''downloads''}"
  proof -
    have "\<not> is_relative_to (out @ [c]) (out @ [''project''])" "\<not> is_relative_to (out @ [c]) (out @ [''openwrt''])"
      "\<not> is_relative_to (out @ [c]) ?feeds" "\<not> is_relative_to (out @ [c]) (out @ [''downloads''])"
      using c by (auto simp: is_relative_to_def)
    then show ?thesis using a1 a2 a3 s4(1) a5 by (simp add: adds_below_other)
  qed
qed


subsection \<open>What has been checked\<close>

definition verified_zip :: "zmember list \<Rightarrow> string dict \<Rightarrow> bool" where
  "verified_zip zs checksums \<longleftrightarrow>
     distinct (map z_name zs) \<and> set (map z_name zs) \<subseteq> set MEMBERS \<and> set MEMBERS \<subseteq> set (map z_name zs) \<union> set OPTIONAL_MEMBERS \<and>
     sum_list (map z_size zs) \<le> LIMIT \<and> set (dict_keys checksums) = set (map z_name zs) - {''SHA256SUMS''} \<and>
     list_all (\<lambda>(n, digest). \<exists>bs. z_read zs n = Inr bs \<and> sha256_hex bs = digest) checksums"

definition matching_report :: "libs \<Rightarrow> string dict \<Rightarrow> string dict \<Rightarrow> json \<Rightarrow> bool" where
  "matching_report L checksums fds report \<longleftrightarrow>
     (\<exists>project openwrt config stamp.
        map_of fds ''REPOSITORY_COMMIT'' = Some project \<and> getitem report ''project_commit'' = Inr (JStr project) \<and>
        map_of fds ''OPENWRT_COMMIT'' = Some openwrt \<and> getitem report ''openwrt_commit'' = Inr (JStr openwrt) \<and>
        map_of fds ''CONFIG_SHA256'' = Some config \<and> map_of checksums ''openwrt.config'' = Some config \<and>
        map_of fds ''SOURCE_DATE_EPOCH'' = Some (py_str L stamp) \<and> getitem report ''source_date_epoch'' = Inr stamp)"

lemma no_disagreement: "disagreement L checksums fds report = Inr False \<Longrightarrow> matching_report L checksums fds report"
  unfolding disagreement_def any_result_False matching_report_def
  by (auto simp: result_simps)

lemma check_bundle_Inr:
  assumes "check_bundle L zs = Inr (checksums, report)"
  shows "verified_zip zs checksums \<and> source_report L zs = Inr report \<and>
    (\<exists>fds. zip_manifest zs = Inr fds \<and> matching_report L checksums fds report)"
proof -
  obtain fds where r: "check_zip zs = Inr ()" "read_checksums zs = Inr checksums"
    "for_each (\<lambda>_. verify_member zs) () checksums = Inr ()" "source_report L zs = Inr report" "zip_manifest zs = Inr fds"
    "disagreement L checksums fds report = Inr False"
    using assms by (auto simp: check_bundle_def result_simps split: if_splits)
  have "verified_zip zs checksums"
    using r(1-3) by (auto simp: verified_zip_def check_zip_def Let_def read_checksums_def verify_member_def for_each_unit
        list_all_iff result_simps split: if_splits)
  then show ?thesis using r(4,5) no_disagreement [OF r(6)] by blast
qed

text \<open>A download that is present, plain, and the one the report describes.\<close>

definition good_download :: "libs \<Rightarrow> fsys \<Rightarrow> ppath \<Rightarrow> json \<Rightarrow> bool" where
  "good_download L fs output item \<longleftrightarrow>
     (\<exists>name size m bs. getitem item ''name'' = Inr (JStr name) \<and> getitem item ''size'' = Inr size \<and>
        \<not> is_symlink fs (p_join (download_dir output) (parse_path name)) \<and>
        stat fs (p_join (download_dir output) (parse_path name)) = Inr (File m bs) \<and>
        eq_int L size (int (length bs)) \<and> getitem item ''sha256'' = Inr (JStr (sha256_hex bs)))"

definition complete_downloads :: "libs \<Rightarrow> fsys \<Rightarrow> ppath \<Rightarrow> json \<Rightarrow> bool" where
  "complete_downloads L fs output report \<longleftrightarrow>
     (\<exists>items names actual. rbind (getitem report ''downloads'') py_iter = Inr items \<and>
        iterdir fs (download_dir output) = Inr actual \<and>
        map_result (\<lambda>item. getitem item ''name'') items = Inr names \<and> distinct names \<and> set names = set (map JStr actual) \<and>
        list_all (good_download L fs output) items)"

lemma check_download_Inr:
  assumes "check_download L fs output item = Inr ()"
  shows "good_download L fs output item"
proof -
  obtain j where j: "getitem item ''name'' = Inr j" using assms by (auto simp: check_download_def result_simps)
  with assms obtain s where s: "j = JStr s" by (cases j) (auto simp: check_download_def)
  let ?p = "p_join (download_dir output) (parse_path s)"
  have ok: "\<not> is_symlink fs ?p" "is_file fs ?p" using assms j s by (auto simp: check_download_def Let_def split: if_splits)
  from ok(2) obtain m bs where st: "stat fs ?p = Inr (File m bs)" by (rule is_fileE)
  then show ?thesis
    using assms j s ok read_bytes_file [OF st]
    by (auto simp: check_download_def good_download_def Let_def result_simps st_size_def split: if_splits)
qed

lemma map_download_names: "map_result download_name items = Inr names \<Longrightarrow> map_result (\<lambda>item. getitem item ''name'') items = Inr names"
  by (induction items arbitrary: names) (auto simp: download_name_def result_simps split: if_splits)

lemma check_downloads_Inr:
  assumes "check_downloads L fs output report = Inr ()"
  shows "complete_downloads L fs output report"
proof -
  obtain actual items names where r: "iterdir fs (download_dir output) = Inr actual"
    "rbind (getitem report ''downloads'') py_iter = Inr items" "map_result download_name items = Inr names"
    "distinct names" "set names = set (map JStr actual)" "for_each (\<lambda>_. check_download L fs output) () items = Inr ()"
    using assms unfolding check_downloads_def rbind_eq_Inr [of "iterdir _ _"] rbind_eq_Inr [of "rbind _ _"] rbind_eq_Inr [of "map_result _ _"]
    by (auto split: if_splits)
  then show ?thesis
    unfolding complete_downloads_def for_each_unit list_all_iff using map_download_names check_download_Inr by blast
qed

lemma mkdir_parents_child:
  assumes "real_dir fs d" "c \<noteq> ''..''"
  shows "mkdir_parents False fs (at (d @ [c])) = mkdir False fs (at (d @ [c]))"
proof -
  have "os_mkdir fs (at (d @ [c])) \<noteq> Inl ENOENT"
    using assms by (auto simp: os_mkdir_def create_def resolve_child EEXIST_def ENOENT_def split: option.splits)
  then show ?thesis by (auto simp: mkdir_parents_def mkdir_def tolerate_def split: sum.splits)
qed

lemma tree_members:
  assumes "verified_zip zs checksums"
  shows "''..'' \<notin> set (map z_name zs)" "set (map fst source_trees) \<subseteq> set (map z_name zs)"
proof -
  have "''..'' \<notin> set MEMBERS" "set (map fst source_trees) \<subseteq> set MEMBERS - set OPTIONAL_MEMBERS" by code_simp+
  then show "''..'' \<notin> set (map z_name zs)" "set (map fst source_trees) \<subseteq> set (map z_name zs)"
    using assms unfolding verified_zip_def by blast+
qed

text \<open>
  C1: A restored directory is what the pinned ZIP contains. When \<open>restore\<close> succeeds into a new
  directory of a real directory, the ZIP has the pinned digest, its members are exactly the
  expected ones, and each of them has the digest the inventory names and is in \<open>bundle\<close>, byte
  for byte; the report agrees with the manifest on both commits, the configuration and the
  epoch; every member of every source archive is in its tree; every download the report lists
  is a plain file of the stated size and digest, and there is no other in \<open>dl\<close>; and nothing
  outside the directory has changed.
\<close>

theorem restore_verified:
  assumes "wf_tree fs" "real_dir fs d" "c \<noteq> ''..''" and ok: "restore L fs archive expected (at (d @ [c])) = Inr fs'"
  shows "\<exists>raw zs checksums report fds tree.
    read_bytes fs archive = Inr raw \<and> sha256_hex raw = expected \<and> lib_unzip L raw = Inr zs \<and>
    verified_zip zs checksums \<and> source_report L zs = Inr report \<and>
    zip_manifest zs = Inr fds \<and> matching_report L checksums fds report \<and>
    list_all (bundled zs tree (d @ [c, ''bundle''])) (map z_name zs) \<and>
    list_all (\<lambda>(a, ds). from_member L zs tree a (d @ c # ds)) source_trees \<and>
    complete_downloads L tree (at (d @ [c])) report \<and>
    adds_below (d @ [c]) fs tree \<and>
    (\<exists>m text. nodes fs' = (nodes tree)(d @ [c, ''RESTORED.json''] \<mapsto> File m text))"
proof -
  let ?out = "d @ [c]" and ?b = "(d @ [c]) @ [''bundle'']"
  obtain raw zs checksums report f1 f2 f3 f4 project openwrt where r:
    "\<not> exists fs (at ?out)" "read_bytes fs archive = Inr raw" "sha256_hex raw = expected" "lib_unzip L raw = Inr zs"
    "check_bundle L zs = Inr (checksums, report)"
    "mkdir_parents False fs (at ?out) = Inr f1" "mkdir False f1 (at ?b) = Inr f2"
    "for_each (put_member zs (at ?b)) f2 (sort (map z_name zs)) = Inr f3"
    "unpack_trees L (at ?b) (at ?out) f3 = Inr f4" "check_downloads L f4 (at ?out) report = Inr ()"
    "write_bytes f4 (at (?out @ [''RESTORED.json''])) (dumps False (restored_json expected project openwrt) @ [CHR 0x0A]) = Inr fs'"
    using ok by (auto simp: restore_def restore_files_def Let_def rbind_eq_Inr split: if_splits)
  obtain fds where chk: "verified_zip zs checksums" "source_report L zs = Inr report" "zip_manifest zs = Inr fds"
    "matching_report L checksums fds report" using check_bundle_Inr [OF r(5)] by blast
  have "mkdir False fs (at ?out) = Inr f1" using r(6) mkdir_parents_child [OF assms(2,3)] by simp
  note m1 = mkdir_below [OF assms(1-3) this]
  note m2 = mkdir_below [OF adds_below_wf [OF m1(2)] m1(3) _ r(7)]
  have b2: "adds_below ?b f1 f2" "real_dir f2 ?b" by (rule m2; simp)+
  note names = tree_members [OF chk(1)]
  have "adds_below ?b f2 f3 \<and> list_all (bundled zs f3 ?b) (sort (map z_name zs))"
    using names(1) by (intro put_members [OF adds_below_wf [OF b2(1)] b2(2) r(8)]) simp
  then have b3: "adds_below ?b f2 f3" "list_all (bundled zs f3 ?b) (map z_name zs)" by (auto simp: list_all_iff)
  have out3: "real_dir f3 ?out" "real_dir f3 ?b" using m1(3) b2 b3(1) adds_below_real_dir by blast+
  have "list_all (bundled zs f3 ?b) (map fst source_trees)" using b3(2) names(2) by (auto simp: list_all_iff)
  note u = unpack_trees_Inr [OF adds_below_wf [OF b3(1)] out3 this r(9)]
  have "nodes f4 (?out @ [''RESTORED.json'']) = nodes f3 (?out @ [''RESTORED.json''])" by (rule u) simp
  also have "\<dots> = nodes f1 (?out @ [''RESTORED.json''])"
    using adds_below_other [OF b3(1)] adds_below_other [OF b2(1)] by (simp add: is_relative_to_def)
  also have "\<dots> = None" using m1(4) [of "[''RESTORED.json'']"] by simp
  finally have "fs' = fs_put (?out @ [''RESTORED.json''])
      (File (perm_for f4 438) (dumps False (restored_json expected project openwrt) @ [CHR 0x0A])) f4"
    using write_child_new [OF adds_below_real_dir [OF u(1) out3(1)]] r(11) by simp
  then have "\<exists>m text. nodes fs' = (nodes f4)(?out @ [''RESTORED.json''] \<mapsto> File m text)" by auto
  moreover have "adds_below ?out fs f4"
    using m1(2) adds_below_weaken [OF b2(1)] adds_below_weaken [OF b3(1)] u(1) by (meson adds_below_trans)
  moreover have "list_all (bundled zs f4 ?b) (map z_name zs)"
    using b3(2) bundled_adds [OF u(1)] by (auto simp: list_all_iff)
  ultimately show ?thesis using r(2-4) chk u(2) check_downloads_Inr [OF r(10)] by auto
qed

subsection \<open>A run\<close>

text \<open>Checksum lines and fields are read back as they were written.\<close>

lemma lstrip_visible: "list_all visible s \<Longrightarrow> s \<noteq> [] \<Longrightarrow> lstrip (s @ t) = s @ t"
  using sep_len_sep_free [OF visible_sep_free, of "hd s" "tl s" "tl s @ t"]
  by (cases s) (simp_all add: lstrip.simps)

lemma split_word_pair:
  assumes "list_all visible d" "d \<noteq> []" "list_all visible n" "n \<noteq> []"
  shows "split_word (d @ ''  '' @ n) = [d, n]"
proof -
  have "lstrip (d @ ''  '' @ n) = d @ ''  '' @ n" using assms(1,2) by (rule lstrip_visible)
  moreover have "break_at ws_seqs (d @ ''  '' @ n) = (d, ''  '' @ n)"
    using break_at_sep_free [OF visible_sep_free [OF assms(1)], of "''  '' @ n"] by (simp add: sep_len_space)
  moreover have "lstrip (''  '' @ n) = n"
    using lstrip_visible [OF assms(3,4), of "[]"] by (simp add: lstrip.simps [of "CHR '' '' # _"] sep_len_space)
  ultimately show ?thesis using assms(2,4) by (simp add: split_word_def)
qed

lemma add_checksums:
  "list_all (\<lambda>(n, d). fullmatch SHA256 d \<and> list_all visible n \<and> n \<noteq> []) entries \<Longrightarrow> distinct (dict_keys (acc @ entries)) \<Longrightarrow>
     for_each add_checksum acc (map (\<lambda>(n, d). d @ ''  '' @ n) entries) = Inr (acc @ entries)"
proof (induction entries arbitrary: acc)
  case (Cons e entries)
  obtain n d where e: "e = (n, d)" by (cases e)
  have "list_all visible d" using Cons.prems(1) e by (auto intro!: fullmatch_visible) code_simp
  moreover have "d \<noteq> []" using Cons.prems(1) e digest_length [of d] by auto
  ultimately have "split_word (d @ ''  '' @ n) = [d, n]" using Cons.prems(1) e by (intro split_word_pair) auto
  then have "add_checksum acc (d @ ''  '' @ n) = Inr (acc @ [(n, d)])"
    using Cons.prems e by (simp add: add_checksum_def dict_set_new dict_keys_def)
  then show ?case using Cons.IH [of "acc @ [(n, d)]"] Cons.prems e by (simp add: dict_keys_def)
qed simp

lemma read_checksums_written:
  assumes fds: "list_all (\<lambda>(n, d). fullmatch SHA256 d \<and> list_all visible n \<and> n \<noteq> []) entries" and "distinct (dict_keys entries)"
    and "z_read zs ''SHA256SUMS'' = Inr (sums_text entries)" and "set (dict_keys entries) = set (map z_name zs) - {''SHA256SUMS''}"
  shows "read_checksums zs = Inr entries"
proof -
  let ?ls = "map (\<lambda>(n, d). d @ ''  '' @ n) entries"
  have pr: "list_all (list_all printable) ?ls"
    using fds digest_printable visible_printable by (fastforce simp: list_all_iff printable_def less_eq_char_def)
  have written: "sums_text entries = concat (map (\<lambda>l. l @ [CHR 0x0A]) ?ls)"
    by (auto simp: sums_text_def sum_line_def intro!: arg_cong [of _ _ concat])
  have "for_each add_checksum [] ?ls = Inr entries" using add_checksums [OF fds, of "[]"] assms(2) by simp
  moreover have "decode_utf8 (sums_text entries) = Inr (sums_text entries)" "splitlines (sums_text entries) = ?ls"
    unfolding written by (rule decode_unlines [OF pr], rule splitlines_unlines [OF pr])
  ultimately show ?thesis using assms(3,4) by (simp add: read_checksums_def)
qed

lemma put_pairs:
  "list_all (\<lambda>(key, val). CHR ''='' \<notin> set key) fds \<Longrightarrow> distinct (dict_keys (acc @ fds)) \<Longrightarrow>
     for_each put_pair acc (map (\<lambda>(key, val). key @ ''='' @ val) fds) = Inr (acc @ fds)"
proof (induction fds arbitrary: acc)
  case (Cons f fds)
  obtain k v where f: "f = (k, v)" by (cases f)
  have "put_pair acc (k @ ''='' @ v) = Inr (acc @ [(k, v)])"
    using Cons.prems f by (simp add: put_pair_def split_at_char dict_set_new dict_keys_def)
  then show ?case using Cons.IH [of "acc @ [(k, v)]"] Cons.prems f by (simp add: dict_keys_def)
qed simp

text \<open>A report, with a tilde for the quotation mark.\<close>

definition run_report_text :: string where
  "run_report_text = map (\<lambda>c. if c = CHR ''~'' then CHR 0x22 else c)
     (''{~format~: 1, ~project_commit~: ~p~, ~openwrt_commit~: ~o~, ~feed_commits~: [~luci~, ~packages~, ~routing~, ~telephony~, ~video~],''
      @ ''~source_date_epoch~: 0, ~downloads~: []}'')"

definition run_files :: "string \<Rightarrow> string \<Rightarrow> bytes dict" where
  "run_files sums manifest =
     map (\<lambda>n. (n, if n = ''SHA256SUMS'' then sums else if n = ''build.manifest'' then manifest
        else if n = ''source-review.json'' then run_report_text else if n = ''downloads.tar'' then ''d'' else if n = ''project.tar'' then ''p'' else ''t''))
       (filter (\<lambda>n. n \<notin> set OPTIONAL_MEMBERS) MEMBERS)"

definition run_zip :: "string \<Rightarrow> string \<Rightarrow> zmember list" where
  "run_zip sums manifest = map (\<lambda>(n, bs). \<lparr>z_name = n, z_size = 1, z_data = Inr bs\<rparr>) (run_files sums manifest)"

definition dl_member :: member where
  "dl_member = \<lparr>m_name = ''dl/'', m_kind = Directory, m_link = [], m_mode = 493, m_mtime = 0, m_size = 0, m_data = []\<rparr>"

text \<open>Archives that are empty but for these members of the project and of the downloads.\<close>

definition run_libs :: "member list \<Rightarrow> member list \<Rightarrow> zmember list \<Rightarrow> libs" where
  "run_libs project downloads zs = \<lparr>lib_unzip = \<lambda>_. Inr zs,
     lib_untar = \<lambda>raw. Inr (if raw = ''d'' then dl_member # downloads else if raw = ''p'' then project else []),
     lib_decode = \<lambda>_. Inl StructError, lib_float_eq = \<lambda>_ _. False, lib_repr = \<lambda>_. []\<rparr>"

definition run_report :: json where
  "run_report = JObj [(''format'', JInt 1), (''project_commit'', JStr ''p''), (''openwrt_commit'', JStr ''o''),
     (''feed_commits'', JArr (map JStr FEEDS)), (''source_date_epoch'', JInt 0), (''downloads'', JArr [])]"

lemma run_restore_files:
  "\<not> isl (restore_files (run_libs [] [] zs) (run_zip sums manifest) run_report expected (at [''d'', ''t'']) sample_disk)"
  by code_simp

lemma run_zip_facts:
  "check_zip (run_zip s m) = Inr ()"
  "z_read (run_zip s m) ''SHA256SUMS'' = Inr s"
  "z_read (run_zip s m) ''build.manifest'' = Inr m"
  "source_report (run_libs p d zs) (run_zip s m) = Inr run_report"
  by code_simp+

definition run_fields :: "string dict" where
  "run_fields = [(''REPOSITORY_COMMIT'', ''p''), (''OPENWRT_COMMIT'', ''o''), (''CONFIG_SHA256'', sha256_hex ''t''), (''SOURCE_DATE_EPOCH'', ''0'')]"

definition run_manifest :: string where "run_manifest = fields_text run_fields"

definition run_sums :: "string dict" where
  "run_sums = map (\<lambda>(n, bs). (n, sha256_hex bs)) (filter (\<lambda>(n, bs). n \<noteq> ''SHA256SUMS'') (run_files [] run_manifest))"

definition run_source_zip :: "zmember list" where
  "run_source_zip = run_zip (sums_text run_sums) run_manifest"

lemma run_names:
  "map fst (run_files s m) = filter (\<lambda>n. n \<notin> set OPTIONAL_MEMBERS) MEMBERS"
  "map z_name (run_zip s m) = filter (\<lambda>n. n \<notin> set OPTIONAL_MEMBERS) MEMBERS"
  "list_all (\<lambda>n. list_all visible n \<and> n \<noteq> []) MEMBERS" "distinct MEMBERS"
  by (simp_all add: run_files_def run_zip_def comp_def case_prod_beta) code_simp+

lemma run_read:
  assumes "(n, bs) \<in> set (run_files s m)"
  shows "z_read (run_zip s m) n = Inr bs"
proof -
  have "distinct (map fst (run_files s m))" using run_names(1,4) by (simp add: distinct_filter)
  then have "map_of (run_files s m) n = Some bs" using assms by simp
  then have "map_of (map (\<lambda>(n, bs). (n, Inr bs :: bytes result)) (run_files s m)) n = Some (Inr bs)"
    by (simp add: map_of_map)
  then show ?thesis by (simp add: z_read_def run_zip_def comp_def case_prod_unfold)
qed

lemma run_sums_fields:
  "dict_keys run_sums = filter (\<lambda>n. n \<noteq> ''SHA256SUMS'') (filter (\<lambda>n. n \<notin> set OPTIONAL_MEMBERS) MEMBERS)"
  "list_all (\<lambda>(n, d). fullmatch SHA256 d \<and> list_all visible n \<and> n \<noteq> []) run_sums"
proof -
  show k: "dict_keys run_sums = filter (\<lambda>n. n \<noteq> ''SHA256SUMS'') (filter (\<lambda>n. n \<notin> set OPTIONAL_MEMBERS) MEMBERS)"
    unfolding run_names(1) [of "[]" run_manifest, symmetric]
    by (simp add: dict_keys_def run_sums_def comp_def case_prod_unfold filter_map)
  have "\<exists>bs. d = sha256_hex bs" "n \<in> set (dict_keys run_sums)" if "(n, d) \<in> set run_sums" for n d
    using that by (auto simp: run_sums_def dict_keys_def intro: rev_image_eqI)
  then show "list_all (\<lambda>(n, d). fullmatch SHA256 d \<and> list_all visible n \<and> n \<noteq> []) run_sums"
    using sha256_hex_form run_names(3) unfolding list_all_iff k by fastforce
qed

lemma run_checksums: "read_checksums run_source_zip = Inr run_sums"
proof (rule read_checksums_written [OF run_sums_fields(2)])
  show "distinct (dict_keys run_sums)" using run_names(4) by (simp add: run_sums_fields(1) distinct_filter)
  show "z_read run_source_zip ''SHA256SUMS'' = Inr (sums_text run_sums)" by (simp add: run_source_zip_def run_zip_facts(2))
  show "set (dict_keys run_sums) = set (map z_name run_source_zip) - {''SHA256SUMS''}"
    unfolding run_sums_fields(1) run_source_zip_def run_names(2) by auto
qed

lemma run_zip_manifest: "zip_manifest run_source_zip = Inr run_fields"
proof -
  let ?ls = "map (\<lambda>(k, v). k @ ''='' @ v) run_fields"
  have hex: "list_all printable (sha256_hex ''t'')" using sha256_hex_form by (rule digest_printable)
  have pr: "list_all (list_all printable) ?ls" using hex by (simp add: run_fields_def printable_def less_eq_char_def)
  have written: "run_manifest = concat (map (\<lambda>l. l @ [CHR 0x0A]) ?ls)"
    by (auto simp: run_manifest_def fields_text_def intro!: arg_cong [of _ _ concat])
  have "list_all (\<lambda>(k, v). CHR ''='' \<notin> set k) run_fields" "distinct (dict_keys run_fields)"
    by (simp_all add: run_fields_def dict_keys_def)
  then have "for_each put_pair [] ?ls = Inr run_fields" using put_pairs [of run_fields "[]"] by simp
  moreover have "decode_utf8 run_manifest = Inr run_manifest" "splitlines run_manifest = ?ls"
    unfolding written by (rule decode_unlines [OF pr], rule splitlines_unlines [OF pr])
  ultimately show ?thesis by (simp add: zip_manifest_def run_source_zip_def run_zip_facts(3))
qed

lemma run_bundle: "check_bundle (run_libs p d zs) run_source_zip = Inr (run_sums, run_report)"
proof -
  have "verify_member run_source_zip e = Inr ()" if el: "e \<in> set run_sums" for e
  proof -
    obtain n d where e: "e = (n, d)" by (cases e)
    then obtain bs where bs: "(n, bs) \<in> set (run_files [] run_manifest)" "d = sha256_hex bs" "n \<noteq> ''SHA256SUMS''"
      using el unfolding run_sums_def by fastforce
    then have "(n, bs) \<in> set (run_files (sums_text run_sums) run_manifest)" by (auto simp: run_files_def)
    then show ?thesis using bs(2) e by (simp add: verify_member_def run_source_zip_def run_read)
  qed
  then have "for_each (\<lambda>_. verify_member run_source_zip) () run_sums = Inr ()" by (simp add: for_each_unit list_all_iff)
  moreover have "(''openwrt.config'', ''t'') \<in> set (run_files [] run_manifest)" by (simp add: run_files_def MEMBERS_def OPTIONAL_MEMBERS_def)
  then have "(''openwrt.config'', sha256_hex ''t'') \<in> set run_sums" by (force simp: run_sums_def)
  moreover have "distinct (map fst run_sums)" using run_names(4) run_sums_fields(1) by (simp add: dict_keys_def distinct_filter)
  ultimately have "map_of run_sums ''openwrt.config'' = Some (sha256_hex ''t'')"
    "for_each (\<lambda>_. verify_member run_source_zip) () run_sums = Inr ()" by simp_all
  moreover have "str_int 0 = ''0''" by code_simp
  ultimately have "disagreement (run_libs p d zs) run_sums run_fields run_report = Inr False"
    by (simp add: disagreement_def dict_get_def run_fields_def run_report_def getitem_def py_str_def)
  then show ?thesis
    using run_checksums run_zip_manifest \<open>for_each _ _ _ = _\<close>
    by (simp add: check_bundle_def run_source_zip_def run_zip_facts)
qed

lemma run_restored:
  assumes "restore_files (run_libs p d run_source_zip) run_source_zip run_report (sha256_hex ''tar'') (at [''d'', ''t'']) sample_disk = Inr fs'"
  shows "restore (run_libs p d run_source_zip) sample_disk (at [''a'']) (sha256_hex ''tar'') (at [''d'', ''t'']) = Inr fs'"
proof -
  have "\<not> symlinked sample_disk (at [''a''])" "\<not> symlinked sample_disk (at [''d'', ''t''])" "\<not> exists sample_disk (at [''d'', ''t''])"
    "read_bytes sample_disk (at [''a'']) = Inr ''tar''" by code_simp+
  then show ?thesis using assms run_bundle sha256_hex_form by (simp add: restore_def run_libs_def)
qed

lemma run_restore:
  obtains fs' where "restore (run_libs [] [] run_source_zip) sample_disk (at [''a'']) (sha256_hex ''tar'') (at [''d'', ''t'']) = Inr fs'"
  using run_restore_files [of run_source_zip "sums_text run_sums" run_manifest "sha256_hex ''tar''"] run_restored
  unfolding run_source_zip_def [symmetric]
  by (cases "restore_files (run_libs [] [] run_source_zip) run_source_zip run_report (sha256_hex ''tar'') (at [''d'', ''t'']) sample_disk") auto

theorem restore_verified_witness:
  "\<exists>fs' tree. restore (run_libs [] [] run_source_zip) sample_disk (at [''a'']) (sha256_hex ''tar'') (at ([''d''] @ [''t''])) = Inr fs' \<and>
     nodes fs' [''d'', ''t'', ''RESTORED.json''] \<noteq> None \<and> adds_below [''d'', ''t''] sample_disk tree"
proof -
  obtain fs' where "restore (run_libs [] [] run_source_zip) sample_disk (at [''a'']) (sha256_hex ''tar'') (at [''d'', ''t'']) = Inr fs'"
    by (rule run_restore)
  then have ok: "restore (run_libs [] [] run_source_zip) sample_disk (at [''a'']) (sha256_hex ''tar'') (at ([''d''] @ [''t''])) = Inr fs'"
    by simp
  have "wf_tree sample_disk" "real_dir sample_disk [''d'']" "''t'' \<noteq> ''..''"
    using sample_disk_fresh sample_disk_checks(1,2) real_dir_snoc [of sample_disk "[]" "''d''"]
    by (simp_all add: closed_entries)
  from restore_verified [OF this ok] obtain tree m bs
    where "adds_below ([''d''] @ [''t'']) sample_disk tree"
      "nodes fs' = (nodes tree)([''d''] @ [''t'', ''RESTORED.json''] \<mapsto> File m bs)" by blast
  with ok show ?thesis by (intro exI [of _ fs'] exI [of _ tree]) simp
qed

subsection \<open>What the checks do not cover\<close>

definition link_member :: "string \<Rightarrow> string \<Rightarrow> member" where
  "link_member name target =
     \<lparr>m_name = name, m_kind = Symlink, m_link = target, m_mode = 511, m_mtime = 0, m_size = 0, m_data = []\<rparr>"

text \<open>
  A link of the project that goes to its own directory, out of it, through a directory beside it
  that is not there yet, and back; and a link of the downloads to the directory it is in.
\<close>

definition passing_links :: "member list" where
  "passing_links = [link_member ''d/q'' ''..'', link_member ''l'' ''d/q/../downloads/z/../../project/y'']"

definition turning_links :: "member list" where
  "turning_links = [link_member ''z'' ''.'']"

text \<open>The trees alone, whatever the ZIP file, its checksums and its manifest say.\<close>

lemma passing_restored:
  "case restore_files (run_libs passing_links turning_links zs) (run_zip sums manifest) run_report expected (at [''d'', ''t'']) sample_disk of
     Inl _ \<Rightarrow> False
   | Inr fs \<Rightarrow> nodes fs [''d'', ''t'', ''project'', ''l''] = Some (Link ''d/q/../downloads/z/../../project/y'') \<and>
       py_resolve fs (at [''d'', ''t'', ''project'', ''l'']) = Inr [''d'', ''project'', ''y'']"
  by code_simp


end
