(* ===== verification/Collect_Notices.thy ===== *)
theory Collect_Notices
  imports Plain_Dirs Public_Audit Py_Dumps Py_Loads "HOL-Library.Product_Lexorder"
begin

text \<open>
  \<open>scripts/collect-notices.py\<close>: license notices are found in the source archives and copied
  into a review archive. The lemmas show that no selected notice is lost, that every one written
  has the digest it was selected with, and that every named notice of every archive is found.
\<close>

subsection \<open>Names\<close>

definition source_name :: regex where
  "source_name = Seq (Cls alnum_ranges)
     (star (Cls (alnum_ranges @ map rng [CHR ''.'', CHR ''_'', CHR ''+'', CHR ''~'', CHR ''-''])))"

text \<open>
  A letter under \<open>re.IGNORECASE\<close>: besides its other case, the dotted and the dotless i and the
  long s, each in UTF-8.
\<close>

definition any_case :: "char \<Rightarrow> regex" where
  "any_case c = alts ([chr1 c, chr1 (shift_char (- 32) c)]
     @ (if c = CHR ''i'' then [lit [CHR 0xC4, CHR 0xB0], lit [CHR 0xC4, CHR 0xB1]]
        else if c = CHR ''s'' then [lit [CHR 0xC5, CHR 0xBF]] else []))"

definition notice_name :: regex where
  "notice_name = Seq (alts (map (\<lambda>w. seqs (map any_case w)) [''copying'', ''copyright'', ''license'', ''licence'', ''notice'']))
     (opt (Seq (Cls (map rng [CHR ''.'', CHR ''_'', CHR ''-''])) (star (NCls [rng (CHR 0x0A)]))))"

definition is_notice :: "string \<Rightarrow> bool" where
  "is_notice name =
     (let path = parse_path name in
      fullmatch notice_name (p_name path) \<or>
      list_ex (\<lambda>p. py_lower p \<in> {''licenses'', ''licences''}) (butlast (parts path)))"

definition MAX_NOTICE :: int where "MAX_NOTICE = 8 * 1024 * 1024"

subsection \<open>Reading an archive\<close>

definition notice_digest :: "fsys \<Rightarrow> ppath \<Rightarrow> string result" where
  "notice_digest = checked_digest ''non-regular or symlinked source''"

interpretation noticed: file_digest notice_digest holds
  by unfold_locales (auto simp: notice_digest_def checked_digest_Inr holds_read)

text \<open>
  \<open>source_tar\<close>: the members are read from a stream, through \<open>zstd\<close> for some names; the stream
  may break, or the decompressor fail, after any number of them. \<open>stream\<close> gives both.
\<close>

type_synonym stream = "bool \<Rightarrow> bytes \<Rightarrow> member list \<times> unit result"

definition source_tar :: "stream \<Rightarrow> fsys \<Rightarrow> ppath \<Rightarrow> ('s \<Rightarrow> member \<Rightarrow> 's result) \<Rightarrow> 's \<Rightarrow> 's result" where
  "source_tar stream fs path body st =
     rbind (read_bytes fs path) (\<lambda>raw.
     let (ms, ending) = stream (endswith ''.zst'' (p_name path)) raw in
     rbind (for_each body st ms) (\<lambda>st. rbind ending (\<lambda>_. Inr st)))"

definition py_fullmatch :: "regex \<Rightarrow> json \<Rightarrow> bool result" where
  "py_fullmatch r j = (case j of JStr s \<Rightarrow> Inr (fullmatch r s) | _ \<Rightarrow> Inl (TypeError ''expected string''))"

subsection \<open>\<open>discover\<close>\<close>

text \<open>A source and a member of it, and the item that describes the member.\<close>

type_synonym notice_key = "string \<times> string"

definition notice_key :: "json \<Rightarrow> notice_key result" where
  "notice_key f = rbind (str_field f ''source'') (\<lambda>s. rbind (str_field f ''member'') (\<lambda>m. Inr (s, m)))"

definition item_fields :: "string \<Rightarrow> string \<Rightarrow> member \<Rightarrow> json dict" where
  "item_fields source expected m =
     [(''source'', JStr source), (''source_sha256'', JStr expected), (''member'', JStr (m_name m)), (''sha256'', JStr (sha256_hex (m_data m)))]"

definition differs_from :: "json \<Rightarrow> json dict \<Rightarrow> bool result" where
  "differs_from selected item = any_result (\<lambda>(k, v). rbind (getitem selected k) (\<lambda>w. Inr (w \<noteq> v))) item"

definition discover_member ::
  "string \<Rightarrow> string \<Rightarrow> (notice_key \<times> json) list \<times> string list \<Rightarrow> member \<Rightarrow> ((notice_key \<times> json) list \<times> string list) result" where
  "discover_member source expected = (\<lambda>(records, members) m.
     if \<not> is_notice (m_name m) \<or> m_kind m \<noteq> Regular then Inr (records, members)
     else if m_name m \<in> set members \<or> m_size m > MAX_NOTICE then Inl (ValueError ''duplicate or oversized notice'')
     else
       (let item = item_fields source expected m; key = (source, m_name m) in
        case map_of records key of
          None \<Rightarrow> Inr (records @ [(key, JObj item)], members @ [m_name m])
        | Some selected \<Rightarrow> rbind (differs_from selected item) (\<lambda>d.
            if d then Inl (ValueError ''selected notice differs from supplied source'')
            else Inr (records, members @ [m_name m]))))"

definition discover_source ::
  "(fsys \<Rightarrow> fsys) \<Rightarrow> stream \<Rightarrow> ppath \<Rightarrow> fsys \<times> (notice_key \<times> json) list \<times> string list \<Rightarrow> json
     \<Rightarrow> (fsys \<times> (notice_key \<times> json) list \<times> string list) result" where
  "discover_source env stream downloads = (\<lambda>(fs, records, seen) entry.
     rbind (getitem entry ''name'') (\<lambda>name.
     rbind (getitem entry ''sha256'') (\<lambda>checksum.
     let bad = ValueError ''invalid or duplicate source inventory entry'' in
     rbind (py_fullmatch source_name name) (\<lambda>a.
     if \<not> a then Inl bad
     else rbind (py_fullmatch SHA256 checksum) (\<lambda>b.
     rbind (str_field entry ''name'') (\<lambda>source.
     rbind (str_field entry ''sha256'') (\<lambda>expected.
     if \<not> b \<or> source \<in> set seen then Inl bad
     else
       (let path = child downloads source in
        rbind (notice_digest fs path) (\<lambda>d.
        if d \<noteq> expected then Inl (ValueError ''source archive checksum mismatch'')
        else
          (let fs = env fs in
           rbind (source_tar stream fs path (discover_member source expected) (records, [])) (\<lambda>(records, members).
           let fs = env fs in
           rbind (notice_digest fs path) (\<lambda>d.
           if d \<noteq> expected then Inl (ValueError ''source changed during notice discovery'')
           else Inr (fs, records, seen @ [source])))))))))))))"

text \<open>A source or a member of the selection that is no string is refused at once.\<close>

definition discover ::
  "(fsys \<Rightarrow> fsys) \<Rightarrow> stream \<Rightarrow> fsys \<Rightarrow> ppath \<Rightarrow> json \<Rightarrow> json \<Rightarrow> (fsys \<times> json) result" where
  "discover env stream fs downloads inventory selection =
     rbind (rbind (getitem selection ''files'') py_iter) (\<lambda>files.
     rbind (map_result notice_key files) (\<lambda>keys.
     if \<not> distinct keys then Inl (ValueError ''duplicate notice selection'')
     else
       rbind (rbind (getitem inventory ''downloads'') py_iter) (\<lambda>entries.
       rbind (for_each (discover_source env stream downloads) (fs, zip keys files, []) entries) (\<lambda>(fs, records, seen).
       let missing = sort (filter (\<lambda>s. s \<notin> set seen) (remdups (map (fst \<circ> fst) records))) in
       if missing \<noteq> [] then Inl (ValueError (''selected source missing from inventory: '' @ join '', '' missing))
       else Inr (fs, JObj [(''files'', JArr (map snd (sort_key fst records)))])))))"

subsection \<open>\<open>collect\<close>\<close>

definition unsafe_notice :: "json \<Rightarrow> json \<Rightarrow> bool result" where
  "unsafe_notice source mem =
     (case mem of
        JStr m \<Rightarrow>
          (let path = parse_path m in
           rbind (py_fullmatch source_name source) (\<lambda>a. Inr
             (\<not> a \<or> is_absolute path \<or> ''..'' \<in> set (parts path) \<or> m = [] \<or> CHR 0x5C \<in> set m \<or> as_posix path \<noteq> m)))
      | _ \<Rightarrow> Inl (TypeError ''argument should be a str''))"

definition check_item ::
  "notice_key list \<times> json list dict \<Rightarrow> json \<Rightarrow> (notice_key list \<times> json list dict) result" where
  "check_item = (\<lambda>(seen, groups) item.
     rbind (getitem item ''source'') (\<lambda>source.
     rbind (getitem item ''member'') (\<lambda>mem.
     rbind (unsafe_notice source mem) (\<lambda>bad.
     if bad then Inl (ValueError ''unsafe notice path'')
     else
       rbind (for_each (\<lambda>_ key. rbind (rbind (getitem item key) (py_fullmatch SHA256)) (\<lambda>ok.
           raise_if (\<not> ok) (ValueError ''invalid notice checksum''))) () [''source_sha256'', ''sha256'']) (\<lambda>_.
       rbind (notice_key item) (\<lambda>(s, m).
       if (s, m) \<in> set seen then Inl (ValueError ''duplicate notice selection'')
       else Inr (seen @ [(s, m)],
         dict_set s ((case map_of groups s of None \<Rightarrow> [] | Some items \<Rightarrow> items) @ [item]) groups)))))))"

definition payload_name :: "string \<Rightarrow> string \<Rightarrow> string" where
  "payload_name source name = ''notices/'' @ source @ ''/'' @ name"

definition take_notice ::
  "string \<Rightarrow> json dict \<Rightarrow> bytes dict \<times> string list \<Rightarrow> member \<Rightarrow> (bytes dict \<times> string list) result" where
  "take_notice source wanted = (\<lambda>(payloads, found) m.
     case map_of wanted (m_name m) of
       None \<Rightarrow> Inr (payloads, found)
     | Some item \<Rightarrow>
         if m_name m \<in> set found \<or> m_kind m \<noteq> Regular \<or> m_size m > MAX_NOTICE
         then Inl (ValueError ''duplicate, linked or oversized notice'')
         else rbind (getitem item ''sha256'') (\<lambda>d.
           if JStr (sha256_hex (m_data m)) \<noteq> d then Inl (ValueError ''notice checksum mismatch'')
           else Inr (dict_set (payload_name source (m_name m)) (m_data m) payloads, found @ [m_name m])))"

definition collect_source ::
  "(fsys \<Rightarrow> fsys) \<Rightarrow> stream \<Rightarrow> ppath \<Rightarrow> fsys \<times> bytes dict \<Rightarrow> string \<times> json list \<Rightarrow> (fsys \<times> bytes dict) result" where
  "collect_source env stream downloads = (\<lambda>(fs, payloads) (source, items).
     (let path = child downloads source in
      rbind (map_result (\<lambda>item. str_field item ''source_sha256'') items) (\<lambda>expected.
      rbind (if length (remdups expected) \<noteq> 1 then Inr True
             else rbind (notice_digest fs path) (\<lambda>d. Inr (d \<notin> set expected))) (\<lambda>bad.
      if bad then Inl (ValueError ''source archive checksum mismatch'')
      else
        rbind (map_result (\<lambda>item. str_field item ''member'') items) (\<lambda>names.
        let wanted = dict_update [] (zip names items); fs = env fs in
        rbind (source_tar stream fs path (take_notice source wanted) (payloads, [])) (\<lambda>(payloads, found).
        let fs = env fs in
        rbind (if set found \<noteq> set names then Inr True
               else rbind (notice_digest fs path) (\<lambda>d. Inr (d \<notin> set expected))) (\<lambda>bad.
        if bad then Inl (ValueError ''missing notice or changed source archive'')
        else Inr (fs, payloads))))))))"

definition notice_index :: "json list \<Rightarrow> json" where
  "notice_index files = JObj
     [(''scope'', JStr ''Selected original notices; not a completeness or release approval.''), (''files'', JArr files)]"

definition collect_notices ::
  "(fsys \<Rightarrow> fsys) \<Rightarrow> stream \<Rightarrow> (member list \<Rightarrow> bytes) \<Rightarrow> fsys \<Rightarrow> ppath \<Rightarrow> json \<Rightarrow> ppath \<Rightarrow> fsys result" where
  "collect_notices env stream tar fs downloads selection output =
     (if exists fs output \<or> symlinked fs output then Inl (ValueError ''existing or symlinked output'')
      else
        rbind (rbind (getitem selection ''files'') py_iter) (\<lambda>files.
        rbind (for_each check_item ([], []) files) (\<lambda>(seen, groups).
        if seen = [] then Inl (ValueError ''empty notice selection'')
        else
          rbind (for_each (collect_source env stream downloads) (fs, []) (sort_key fst groups)) (\<lambda>(fs, payloads).
          rbind (map_result notice_key files) (\<lambda>keys.
          let report = notice_index (map snd (sort_key fst (zip keys files)));
              payloads = dict_set ''INDEX.json'' (dumps True report @ [CHR 0x0A]) payloads in
          open_xb fs output (tar (map (\<lambda>(name, blob). tar_info name 0 blob) (sort_key fst payloads))))))))"

text \<open>The script: the selection, extended by what \<open>discover\<close> finds when an inventory is given.\<close>

definition read_json :: "fsys \<Rightarrow> ppath \<Rightarrow> json result" where
  "read_json fs p = rbind (notice_digest fs p) (\<lambda>_. rbind (rbind (read_bytes fs p) read_text) loads)"

definition notices_main ::
  "(fsys \<Rightarrow> fsys) \<Rightarrow> stream \<Rightarrow> (member list \<Rightarrow> bytes) \<Rightarrow> fsys \<Rightarrow> ppath \<Rightarrow> ppath \<Rightarrow> ppath \<Rightarrow> ppath option \<Rightarrow> fsys result" where
  "notices_main env stream tar fs downloads selection output inventory =
     rbind (read_json fs selection) (\<lambda>sel.
     rbind (case inventory of
              None \<Rightarrow> Inr (fs, sel)
            | Some p \<Rightarrow> rbind (read_json fs p) (\<lambda>inv. discover env stream fs downloads inv sel)) (\<lambda>(fs, sel).
     collect_notices env stream tar fs downloads sel output))"


subsection \<open>The selection, sorted by source\<close>

definition safe_key :: "notice_key \<Rightarrow> bool" where
  "safe_key = (\<lambda>(s, m). fullmatch source_name s \<and> confined (parse_path m) \<and> m \<noteq> [] \<and> CHR 0x5C \<notin> set m \<and> as_posix (parse_path m) = m)"

definition group_of :: "json list \<Rightarrow> notice_key list \<Rightarrow> string \<Rightarrow> json list \<Rightarrow> bool" where
  "group_of files seen s items \<longleftrightarrow> items \<noteq> [] \<and> set items \<subseteq> set files \<and>
     (\<exists>names. map_result notice_key items = Inr (map (Pair s) names) \<and> distinct names \<and> Pair s ` set names \<subseteq> set seen)"

definition grouped :: "json list \<Rightarrow> notice_key list \<times> json list dict \<Rightarrow> bool" where
  "grouped files = (\<lambda>(seen, groups).
     map_result notice_key files = Inr seen \<and> distinct seen \<and> list_all safe_key seen \<and> distinct (dict_keys groups) \<and>
     (\<forall>s items. map_of groups s = Some items \<longrightarrow> group_of files seen s items) \<and>
     (\<forall>item \<in> set files. \<exists>s m items. notice_key item = Inr (s, m) \<and> map_of groups s = Some items \<and> item \<in> set items))"

lemma check_item_Inr:
  assumes "check_item (seen, groups) item = Inr st"
  obtains s m where "notice_key item = Inr (s, m)" "safe_key (s, m)" "(s, m) \<notin> set seen"
    "st = (seen @ [(s, m)], dict_set s ((case map_of groups s of None \<Rightarrow> [] | Some items \<Rightarrow> items) @ [item]) groups)"
proof -
  obtain source mem s m where r: "getitem item ''source'' = Inr source" "getitem item ''member'' = Inr mem"
    "unsafe_notice source mem = Inr False" "notice_key item = Inr (s, m)" "(s, m) \<notin> set seen"
    "st = (seen @ [(s, m)], dict_set s ((case map_of groups s of None \<Rightarrow> [] | Some items \<Rightarrow> items) @ [item]) groups)"
    using assms by (auto simp: check_item_def rbind_eq_Inr split: if_split_asm prod.split_asm)
  from r(1,2,4) have "source = JStr s" "mem = JStr m"
    by (auto simp: notice_key_def str_field_def rbind_eq_Inr split: json.split_asm)
  with r(3) have "safe_key (s, m)"
    by (auto simp: unsafe_notice_def py_fullmatch_def Let_def safe_key_def confined_def parts_def is_absolute_def split: if_split_asm)
  with r show thesis by (intro that)
qed

lemma grouped_step:
  assumes g: "grouped files st" and ok: "check_item st item = Inr st'"
  shows "grouped (files @ [item]) st'"
proof -
  obtain seen groups where st: "st = (seen, groups)" by (cases st)
  from ok st obtain s m where r: "notice_key item = Inr (s, m)" "safe_key (s, m)" "(s, m) \<notin> set seen"
    "st' = (seen @ [(s, m)], dict_set s ((case map_of groups s of None \<Rightarrow> [] | Some items \<Rightarrow> items) @ [item]) groups)"
    using check_item_Inr by blast
  let ?old = "case map_of groups s of None \<Rightarrow> [] | Some items \<Rightarrow> items" and ?seen = "seen @ [(s, m)]"
  have grow: "group_of files seen t items \<Longrightarrow> group_of (files @ [item]) ?seen t items" for t items
    unfolding group_of_def by fastforce
  have "\<exists>names. map_result notice_key ?old = Inr (map (Pair s) names) \<and> distinct names \<and> Pair s ` set names \<subseteq> set seen \<and> set ?old \<subseteq> set files"
    using g st unfolding grouped_def group_of_def by (cases "map_of groups s") fastforce+
  then obtain names where n: "map_result notice_key ?old = Inr (map (Pair s) names)" "distinct names" "Pair s ` set names \<subseteq> set seen"
    "set ?old \<subseteq> set files" by blast
  have "m \<notin> set names" using n(3) r(3) by auto
  then have new: "group_of (files @ [item]) ?seen s (?old @ [item])"
    using n r(1) unfolding group_of_def by (intro conjI exI [of _ "names @ [m]"]) (auto simp: map_result_append)
  have "map_result notice_key (files @ [item]) = Inr ?seen" using g st r(1) by (simp add: grouped_def map_result_append)
  moreover have "\<exists>s' m' items. notice_key i = Inr (s', m') \<and> map_of (dict_set s (?old @ [item]) groups) s' = Some items \<and> i \<in> set items"
    if i: "i \<in> set (files @ [item])" for i
  proof (cases "i \<in> set files")
    case True
    then obtain s' m' items where "notice_key i = Inr (s', m')" "map_of groups s' = Some items" "i \<in> set items"
      using g st by (auto simp: grouped_def)
    then show ?thesis by (cases "s' = s") auto
  next
    case False
    then show ?thesis using i r(1) by auto
  qed
  ultimately show ?thesis
    using g st r new grow unfolding r(4) grouped_def by (auto simp: distinct_dict_set)
qed

lemma grouped_all:
  assumes "for_each check_item ([], []) files = Inr st"
  shows "grouped files st"
  using assms by (rule for_each_history) (simp add: grouped_def dict_keys_def, rule grouped_step)


subsection \<open>The payloads\<close>

lemma source_name_slash: "fullmatch source_name s \<Longrightarrow> CHR ''/'' \<notin> set s"
  by (erule fullmatch_avoids) code_simp

lemma payload_name_eq:
  assumes "CHR ''/'' \<notin> set s" "CHR ''/'' \<notin> set s'" "payload_name s n = payload_name s' n'"
  shows "s = s' \<and> n = n'"
proof -
  have "s @ CHR ''/'' # n = s' @ CHR ''/'' # n'" using assms(3) by (simp add: payload_name_def)
  moreover have "takeWhile (\<lambda>c. c \<noteq> CHR ''/'') (s @ CHR ''/'' # n) = s" "takeWhile (\<lambda>c. c \<noteq> CHR ''/'') (s' @ CHR ''/'' # n') = s'"
    using assms(1,2) by (simp_all add: takeWhile_tail) (metis (mono_tags, lifting) takeWhile_eq_all_conv)+
  ultimately have "s = s'" by metis
  with assms(3) show ?thesis by (simp add: payload_name_def)
qed

definition blob_for :: "bytes dict \<Rightarrow> string \<Rightarrow> string \<Rightarrow> json \<Rightarrow> bool" where
  "blob_for payloads s m item \<longleftrightarrow>
     (\<exists>blob. map_of payloads (payload_name s m) = Some blob \<and> getitem item ''sha256'' = Inr (JStr (sha256_hex blob)))"

text \<open>One archive: what has been found is there with the digest that was wanted; nothing else changes.\<close>

definition taking :: "string \<Rightarrow> json dict \<Rightarrow> bytes dict \<Rightarrow> bytes dict \<times> string list \<Rightarrow> bool" where
  "taking source wanted before = (\<lambda>(payloads, found).
     distinct (dict_keys payloads) \<and>
     (\<forall>n \<in> set found. \<exists>item. map_of wanted n = Some item \<and> blob_for payloads source n item) \<and>
     (\<forall>k. k \<notin> payload_name source ` set found \<longrightarrow> map_of payloads k = map_of before k))"

lemma take_notice_step:
  assumes "taking source wanted before st" "take_notice source wanted st m = Inr st'"
  shows "taking source wanted before st'"
proof (cases "map_of wanted (m_name m)")
  case None
  then show ?thesis using assms by (cases st) (simp add: take_notice_def)
next
  case (Some item)
  obtain payloads found where st: "st = (payloads, found)" by (cases st)
  have r: "getitem item ''sha256'' = Inr (JStr (sha256_hex (m_data m)))" "m_name m \<notin> set found"
    "st' = (dict_set (payload_name source (m_name m)) (m_data m) payloads, found @ [m_name m])"
    using assms(2) st Some by (auto simp: take_notice_def rbind_eq_Inr split: if_split_asm)
  have "payload_name source n \<noteq> payload_name source (m_name m)" if "n \<in> set found" for n
    using that r(2) by (auto simp: payload_name_def)
  then show ?thesis
    using assms(1) st r Some unfolding taking_def r(3) by (auto simp: blob_for_def distinct_dict_set)
qed

lemma source_tar_Inr:
  "source_tar stream fs path body st = Inr st' \<longleftrightarrow>
     (\<exists>raw ms. read_bytes fs path = Inr raw \<and> stream (endswith ''.zst'' (p_name path)) raw = (ms, Inr ()) \<and> for_each body st ms = Inr st')"
  by (cases "read_bytes fs path") (auto simp: source_tar_def rbind_eq_Inr Let_def split: prod.splits)

text \<open>All archives: every item done is there, and every payload belongs to an item done.\<close>

definition gathered :: "(string \<times> json list) list \<Rightarrow> fsys \<times> bytes dict \<Rightarrow> bool" where
  "gathered done = (\<lambda>(fs, payloads).
     distinct (dict_keys payloads) \<and>
     (\<forall>(s, items) \<in> set done. \<forall>item \<in> set items. \<exists>m. notice_key item = Inr (s, m) \<and> blob_for payloads s m item) \<and>
     (\<forall>k. map_of payloads k \<noteq> None \<longrightarrow>
        (\<exists>(s, items) \<in> set done. \<exists>item \<in> set items. \<exists>m. notice_key item = Inr (s, m) \<and> k = payload_name s m)))"


lemma zip_dict: "distinct names \<Longrightarrow> dict_update [] (zip names items) = zip names (items :: 'a list)"
  by (subst dict_update_new) (auto simp: dict_keys_def distinct_take map_fst_zip_take)

lemma map_result_str_fields:
  assumes "map_result notice_key items = Inr (map (Pair s) names)"
  shows "map_result (\<lambda>item. str_field item ''member'') items = Inr names"
  using assms by (induction items arbitrary: names) (auto simp: result_simps notice_key_def Cons_eq_map_conv)

text \<open>A source that is searched to its end: each wanted member was found, and nothing else changed.\<close>

lemma collect_source_taken:
  assumes before: "distinct (dict_keys payloads)"
    and n: "map_result notice_key items = Inr (map (Pair s) names)" "distinct names"
    and ok: "collect_source env stream downloads (fs, payloads) (s, items) = Inr st"
  obtains fs2 payloads' where "st = (fs2, payloads')" "distinct (dict_keys payloads')"
    "\<And>m. m \<in> set names \<Longrightarrow> \<exists>item. map_of (zip names items) m = Some item \<and> blob_for payloads' s m item"
    "\<And>k. k \<notin> payload_name s ` set names \<Longrightarrow> map_of payloads' k = map_of payloads k"
proof -
  note names = map_result_str_fields [OF n(1)]
  obtain fs1 fs2 payloads' found where r:
    "source_tar stream fs1 (child downloads s) (take_notice s (zip names items)) (payloads, []) = Inr (payloads', found)"
    "set found = set names" "st = (fs2, payloads')"
    using ok unfolding collect_source_def
    by (auto simp: rbind_eq_Inr Let_def names zip_dict [OF n(2)] split: if_split_asm prod.split_asm)
  obtain ms where "for_each (take_notice s (zip names items)) (payloads, []) ms = Inr (payloads', found)"
    using r(1) by (auto simp: source_tar_Inr)
  then have "taking s (zip names items) payloads (payloads', found)"
    by (rule for_each_invariant) (use before take_notice_step in \<open>auto simp: taking_def\<close>)
  with that r(2,3) show thesis by (auto simp: taking_def)
qed

lemma collect_source_step:
  assumes g: "gathered done (fs, payloads)" and grp: "group_of files seen s items" and safe: "list_all safe_key seen"
    and s: "s \<notin> fst ` set done" "\<forall>t \<in> fst ` set done. CHR ''/'' \<notin> set t" "CHR ''/'' \<notin> set s"
    and ok: "collect_source env stream downloads (fs, payloads) (s, items) = Inr st"
  shows "gathered (done @ [(s, items)]) st"
proof -
  obtain names where n: "map_result notice_key items = Inr (map (Pair s) names)" "distinct names"
    using grp by (auto simp: group_of_def)
  have "distinct (dict_keys payloads)" using g by (simp add: gathered_def)
  from collect_source_taken [OF this n ok] obtain fs2 payloads' where r: "st = (fs2, payloads')"
    and t: "distinct (dict_keys payloads')"
    "\<And>m. m \<in> set names \<Longrightarrow> \<exists>item. map_of (zip names items) m = Some item \<and> blob_for payloads' s m item"
    "\<And>k. k \<notin> payload_name s ` set names \<Longrightarrow> map_of payloads' k = map_of payloads k" by metis
  have keyed: "(m, item) \<in> set (zip names items) \<Longrightarrow> notice_key item = Inr (s, m)" for m item
    using map_result_zip [OF n(1)] by (fastforce simp: zip_map1 case_prod_beta)
  have len: "length names = length items" using map_result_length [OF n(1)] by simp
  have here: "\<exists>m. m \<in> set names \<and> notice_key item = Inr (s, m) \<and> blob_for payloads' s m item" if item: "item \<in> set items" for item
  proof -
    obtain m where m: "(m, item) \<in> set (zip names items)" using item len by (metis in_set_impl_in_set_zip2 prod.exhaust)
    then have "map_of (zip names items) m = Some item" using n(2) len by (simp add: map_of_zip_is_Some distinct_map)
    moreover have "m \<in> set names" using m by (rule set_zip_leftD)
    ultimately show ?thesis using keyed [OF m] t(2) [of m] by auto
  qed
  have kept: "blob_for payloads' s' m item" if "blob_for payloads s' m item" "s' \<in> fst ` set done" for s' m item
  proof -
    have "s' \<noteq> s" "CHR ''/'' \<notin> set s'" using that(2) s by auto
    then have "payload_name s' m \<notin> payload_name s ` set names" using payload_name_eq s(3) by blast
    then show ?thesis using that(1) t(3) by (simp add: blob_for_def)
  qed
  have old: "\<exists>m. notice_key item = Inr (s', m) \<and> blob_for payloads' s' m item"
    if "(s', items') \<in> set done" "item \<in> set items'" for s' items' item
  proof -
    have "\<exists>m. notice_key item = Inr (s', m) \<and> blob_for payloads s' m item" using g that by (auto simp: gathered_def)
    then show ?thesis using kept that(1) by (metis fst_conv image_eqI)
  qed
  have keys: "\<exists>(s', items') \<in> set (done @ [(s, items)]). \<exists>item \<in> set items'. \<exists>m. notice_key item = Inr (s', m) \<and> k = payload_name s' m"
    if k: "map_of payloads' k \<noteq> None" for k
  proof (cases "k \<in> payload_name s ` set names")
    case True
    then obtain m where m: "m \<in> set names" "k = payload_name s m" by blast
    then obtain item where "(m, item) \<in> set (zip names items)" using t(2) map_of_SomeD by fastforce
    then show ?thesis using keyed m(2) set_zip_rightD by fastforce
  next
    case False
    then show ?thesis using g t(3) k by (fastforce simp: gathered_def)
  qed
  show ?thesis
    unfolding gathered_def r prod.case
  proof (intro conjI allI impI)
    show "\<forall>(s', items') \<in> set (done @ [(s, items)]). \<forall>item \<in> set items'. \<exists>m. notice_key item = Inr (s', m) \<and> blob_for payloads' s' m item"
      using old here by (simp add: ball_Un) blast
  qed (use t(1) keys in auto)
qed

lemma group_members:
  assumes "grouped files (keys, groups)" "(s, items) \<in> set groups"
  shows "group_of files keys s items" "CHR ''/'' \<notin> set s"
proof -
  have keys: "list_all safe_key keys" "distinct (map fst groups)" using assms(1) by (simp_all add: grouped_def dict_keys_def)
  show grp: "group_of files keys s items" using assms keys(2) by (auto simp: grouped_def)
  obtain names where n: "items \<noteq> []" "map_result notice_key items = Inr (map (Pair s) names)" "Pair s ` set names \<subseteq> set keys"
    using grp by (auto simp: group_of_def)
  then obtain m where "(s, m) \<in> set keys" using map_result_length [OF n(2)] by (cases names) auto
  then have "safe_key (s, m)" using keys(1) by (auto simp: list_all_iff)
  then show "CHR ''/'' \<notin> set s" using source_name_slash by (simp add: safe_key_def)
qed

text \<open>All archives of a selection, one after the other.\<close>

lemma collect_sources_gathered:
  assumes g: "grouped files (keys, groups)"
    and ok: "for_each (collect_source env stream downloads) (fs, []) (sort_key fst groups) = Inr st"
  shows "gathered (sort_key fst groups) st"
  using ok
proof (rule for_each_history)
  have keys: "list_all safe_key keys" "distinct (map fst groups)" using g by (simp_all add: grouped_def dict_keys_def)
  fix us x vs st st' assume x: "sort_key fst groups = us @ x # vs" "gathered us st" "collect_source env stream downloads st x = Inr st'"
  obtain s items where si: "x = (s, items)" by (cases x)
  have sub: "set us \<subseteq> set groups" "x \<in> set groups" using arg_cong [OF x(1), of set] by auto
  have "distinct (map fst (sort_key fst groups))" using keys(2) unfolding distinct_map set_sort distinct_sort .
  then have "distinct (map fst (us @ x # vs))" unfolding x(1) .
  then have "s \<notin> fst ` set us" using si by auto
  moreover have "\<forall>t \<in> fst ` set us. CHR ''/'' \<notin> set t" using group_members(2) [OF g] sub(1) by fastforce
  moreover obtain fs2 pl where st: "st = (fs2, pl)" by (cases st)
  moreover have grps: "(s, items) \<in> set groups" using sub(2) si by simp
  ultimately show "gathered (us @ [x]) st'"
    using collect_source_step [OF x(2) [unfolded st] group_members(1) [OF g grps] keys(1) _ _ group_members(2) [OF g grps] x(3) [unfolded st si]]
      si by simp
qed (simp add: gathered_def dict_keys_def)

text \<open>So the payloads are those of the selection.\<close>

lemma gathered_payloads:
  assumes g: "grouped files (keys, groups)" and gat: "gathered (sort_key fst groups) (fs1, payloads)"
    and keys: "map_result notice_key files = Inr keys"
  shows "\<forall>item \<in> set files. \<exists>s m. notice_key item = Inr (s, m) \<and> blob_for payloads s m item"
    "set (dict_keys payloads) = (\<lambda>(s, m). payload_name s m) ` set keys"
proof -
  have blobs: "\<exists>m. notice_key item = Inr (s, m) \<and> blob_for payloads s m item" if "(s, items) \<in> set groups" "item \<in> set items" for s items item
    using gat that by (auto simp: gathered_def)
  show items: "\<forall>item \<in> set files. \<exists>s m. notice_key item = Inr (s, m) \<and> blob_for payloads s m item"
  proof
    fix item assume "item \<in> set files"
    then obtain s items where "map_of groups s = Some items" "item \<in> set items" using g by (auto simp: grouped_def)
    then show "\<exists>s m. notice_key item = Inr (s, m) \<and> blob_for payloads s m item" using blobs map_of_SomeD by metis
  qed
  have in_keys: "k \<in> set keys" if "item \<in> set files" "notice_key item = Inr k" for item k
    using map_result_mem [OF keys that(1)] that(2) by simp
  show "set (dict_keys payloads) = (\<lambda>(s, m). payload_name s m) ` set keys"
  proof (intro equalityI subsetI)
    fix k assume "k \<in> set (dict_keys payloads)"
    then have "map_of payloads k \<noteq> None" by (simp add: dict_keys_def map_of_eq_None_iff)
    then obtain s items item m where m: "(s, items) \<in> set groups" "item \<in> set items"
      "notice_key item = Inr (s, m)" "k = payload_name s m" using gat by (auto simp: gathered_def)
    then have "item \<in> set files" using group_members(1) [OF g m(1)] unfolding group_of_def by blast
    then show "k \<in> (\<lambda>(s, m). payload_name s m) ` set keys" using in_keys [OF _ m(3)] m(4) by force
  next
    fix k assume "k \<in> (\<lambda>(s, m). payload_name s m) ` set keys"
    then obtain s m where sm: "k = payload_name s m" "(s, m) \<in> set keys" by auto
    from map_result_in_set [OF keys sm(2)] obtain item where k: "k = payload_name s m" "item \<in> set files" "notice_key item = Inr (s, m)"
      using sm(1) by blast
    then have "blob_for payloads s m item" using items by auto
    then show "k \<in> set (dict_keys payloads)" using k(1) by (force simp: blob_for_def dict_keys_def dest: map_of_SomeD)
  qed
qed

text \<open>
  C13: The review archive holds every selected notice and nothing else. Whatever other processes
  do to the inputs meanwhile, when \<open>collect\<close> succeeds the selection is not empty, no notice is in
  it twice, every source and member name is confined, and the members of the archive that is
  created are, in order of their names, the index of the whole selection and one file for each
  selected notice, whose contents have the digest the selection names.
\<close>

theorem collect_notices_exact:
  "case collect_notices env stream tar fs downloads selection output of
     Inl _ \<Rightarrow> True
   | Inr fs' \<Rightarrow> \<exists>files keys payloads fs1.
       rbind (getitem selection ''files'') py_iter = Inr files \<and> map_result notice_key files = Inr keys \<and>
       keys \<noteq> [] \<and> distinct keys \<and> list_all safe_key keys \<and>
       distinct (dict_keys payloads) \<and>
       set (dict_keys payloads) = insert ''INDEX.json'' ((\<lambda>(s, m). payload_name s m) ` set keys) \<and>
       map_of payloads ''INDEX.json'' = Some (dumps True (notice_index (map snd (sort_key fst (zip keys files)))) @ [CHR 0x0A]) \<and>
       list_all (\<lambda>item. \<exists>s m. notice_key item = Inr (s, m) \<and> blob_for payloads s m item) files \<and>
       open_xb fs1 output (tar (map (\<lambda>(name, blob). tar_info name 0 blob) (sort_key fst payloads))) = Inr fs'"
proof (cases "collect_notices env stream tar fs downloads selection output")
  case (Inr fs')
  obtain files seen keys groups fs1 payloads where r:
    "rbind (getitem selection ''files'') py_iter = Inr files" "for_each check_item ([], []) files = Inr (seen, groups)" "seen \<noteq> []"
    "for_each (collect_source env stream downloads) (fs, []) (sort_key fst groups) = Inr (fs1, payloads)"
    "open_xb fs1 output (tar (map (\<lambda>(name, blob). tar_info name 0 blob) (sort_key fst
       (dict_set ''INDEX.json'' (dumps True (notice_index (map snd (sort_key fst (zip keys files)))) @ [CHR 0x0A]) payloads)))) = Inr fs'"
    "map_result notice_key files = Inr keys"
    using Inr unfolding collect_notices_def
    by (auto simp: rbind_eq_Inr [of "rbind _ _"] rbind_eq_Inr [of "for_each _ _ _"] rbind_eq_Inr [of "map_result _ _"] Let_def
        split: if_split_asm prod.split_asm)
  let ?payloads = "dict_set ''INDEX.json'' (dumps True (notice_index (map snd (sort_key fst (zip keys files)))) @ [CHR 0x0A]) payloads"
  have "grouped files (seen, groups)" using r(2) by (rule grouped_all)
  moreover from this have seen: "seen = keys" using r(6) by (simp add: grouped_def)
  ultimately have g: "grouped files (keys, groups)" by simp
  then have keys: "distinct keys" "list_all safe_key keys" by (simp_all add: grouped_def)
  have gat: "gathered (sort_key fst groups) (fs1, payloads)" using collect_sources_gathered [OF g r(4)] .
  note pl = gathered_payloads [OF g gat r(6)]
  have "blob_for ?payloads s m item" if "blob_for payloads s m item" for s m item
    using that by (simp add: blob_for_def payload_name_def)
  then have "list_all (\<lambda>item. \<exists>s m. notice_key item = Inr (s, m) \<and> blob_for ?payloads s m item) files"
    using pl(1) unfolding list_all_iff by blast
  moreover have "distinct (dict_keys ?payloads)" using gat by (auto simp: gathered_def intro: distinct_dict_set)
  moreover have "set (dict_keys ?payloads) = insert ''INDEX.json'' ((\<lambda>(s, m). payload_name s m) ` set keys)"
    using pl(2) by (simp add: keys_dict_set)
  ultimately show ?thesis
    unfolding Inr sum.case using r(1,3,5,6) keys seen
    by (intro exI [of _ files] exI [of _ keys] exI [of _ ?payloads] exI [of _ fs1]) simp
qed simp


subsection \<open>Discovery\<close>

definition records_ok :: "(notice_key \<times> json) list \<Rightarrow> bool" where
  "records_ok records \<longleftrightarrow> distinct (map fst records) \<and> list_all (\<lambda>(k, item). notice_key item = Inr k) records"

text \<open>The item of a member: the four fields say what the member is, whatever else the selection adds.\<close>

definition described :: "(notice_key \<times> json) list \<Rightarrow> string \<Rightarrow> string \<Rightarrow> member \<Rightarrow> bool" where
  "described records source expected m \<longleftrightarrow>
     (\<exists>item. map_of records (source, m_name m) = Some item \<and> list_all (\<lambda>(k, v). getitem item k = Inr v) (item_fields source expected m))"

definition named_notice :: "member \<Rightarrow> bool" where
  "named_notice m \<longleftrightarrow> m_kind m = Regular \<and> is_notice (m_name m)"

lemma described_append: "described records source expected m \<Longrightarrow> described (records @ new) source expected m"
  by (auto simp: described_def map_add_Some_iff)

lemma differs_from_False: "differs_from selected item = Inr False \<longleftrightarrow> list_all (\<lambda>(k, v). getitem selected k = Inr v) item"
  by (auto simp: differs_from_def any_result_False list_all_iff result_simps)

definition exploring :: "string \<Rightarrow> string \<Rightarrow> (notice_key \<times> json) list \<Rightarrow> member list \<Rightarrow> (notice_key \<times> json) list \<times> string list \<Rightarrow> bool" where
  "exploring source expected before ms = (\<lambda>(records, members).
     records_ok records \<and> (\<exists>new. records = before @ new) \<and>
     list_all (described records source expected) (filter named_notice ms))"

lemma discover_member_step:
  assumes e: "exploring source expected before ms st" and ok: "discover_member source expected st m = Inr st'"
  shows "exploring source expected before (ms @ [m]) st'"
proof -
  obtain records members where st: "st = (records, members)" by (cases st)
  show ?thesis
  proof (cases "named_notice m")
    case False
    then show ?thesis using e ok st by (auto simp: discover_member_def exploring_def named_notice_def split: if_split_asm)
  next
    case True
    let ?item = "item_fields source expected m"
    have key: "notice_key (JObj ?item) = Inr (source, m_name m)"
      by (simp add: notice_key_def str_field_def getitem_def dict_get_def item_fields_def)
    show ?thesis
    proof (cases "map_of records (source, m_name m)")
      case None
      then have "st' = (records @ [((source, m_name m), JObj ?item)], members @ [m_name m])"
        using ok st True by (auto simp: discover_member_def named_notice_def Let_def split: if_split_asm)
      moreover have "(source, m_name m) \<notin> fst ` set records" using None by (simp add: map_of_eq_None_iff)
      moreover have "described (records @ [((source, m_name m), JObj ?item)]) source expected m"
        using None by (auto simp: described_def map_add_def item_fields_def getitem_def dict_get_def)
      ultimately show ?thesis
        using e st True key described_append by (auto simp: exploring_def records_ok_def list_all_iff)
    next
      case (Some item)
      then have "differs_from item ?item = Inr False" "st' = (records, members @ [m_name m])"
        using ok st True by (auto simp: discover_member_def named_notice_def Let_def rbind_eq_Inr split: if_split_asm)
      then have "described records source expected m" using Some by (simp add: described_def differs_from_False)
      then show ?thesis using e st True \<open>st' = _\<close> by (simp add: exploring_def)
    qed
  qed
qed

text \<open>One entry of the inventory: the archive has its digest, and every notice in it is described.\<close>

definition explored :: "stream \<Rightarrow> fsys \<Rightarrow> ppath \<Rightarrow> (notice_key \<times> json) list \<Rightarrow> json \<Rightarrow> bool" where
  "explored stream fs downloads records entry \<longleftrightarrow>
     (\<exists>source expected raw ms. str_field entry ''name'' = Inr source \<and> str_field entry ''sha256'' = Inr expected \<and>
        holds fs (child downloads source) raw \<and> sha256_hex raw = expected \<and>
        stream (endswith ''.zst'' source) raw = (ms, Inr ()) \<and>
        list_all (described records source expected) (filter named_notice ms))"

definition exploring_all ::
  "stream \<Rightarrow> fsys \<Rightarrow> ppath \<Rightarrow> (notice_key \<times> json) list \<Rightarrow> json list \<Rightarrow> fsys \<times> (notice_key \<times> json) list \<times> string list \<Rightarrow> bool" where
  "exploring_all stream fs downloads before entries = (\<lambda>(fs1, records, seen).
     fs1 = fs \<and> records_ok records \<and> (\<exists>new. records = before @ new) \<and> list_all (explored stream fs downloads records) entries)"

lemma discover_source_step:
  assumes e: "exploring_all stream fs downloads before entries st" and ok: "discover_source id stream downloads st entry = Inr st'"
  shows "exploring_all stream fs downloads before (entries @ [entry]) st'"
proof -
  obtain records seen where st: "st = (fs, records, seen)" using e by (cases st) (simp add: exploring_all_def)
  obtain source expected records' members where r: "str_field entry ''name'' = Inr source" "str_field entry ''sha256'' = Inr expected"
    "notice_digest fs (child downloads source) = Inr expected"
    "source_tar stream fs (child downloads source) (discover_member source expected) (records, []) = Inr (records', members)"
    "st' = (fs, records', seen @ [source])"
    using ok st by (auto simp: discover_source_def rbind_eq_Inr Let_def split: if_split_asm prod.split_asm)
  obtain raw where raw: "holds fs (child downloads source) raw" "sha256_hex raw = expected"
    using r(3) by (auto simp: noticed.digest_iff)
  have "p_name (child downloads source) = source" by (simp add: p_name_def child_def)
  then obtain ms where ms: "stream (endswith ''.zst'' source) raw = (ms, Inr ())"
    "for_each (discover_member source expected) (records, []) ms = Inr (records', members)"
    using r(4) holds_read [OF raw(1)] by (auto simp: source_tar_Inr)
  have "exploring source expected records ms (records', members)"
    using ms(2) by (rule for_each_history) (use e st discover_member_step in \<open>auto simp: exploring_all_def exploring_def\<close>)
  then have x: "records_ok records'" "\<exists>new. records' = records @ new" "list_all (described records' source expected) (filter named_notice ms)"
    by (auto simp: exploring_def)
  have "explored stream fs downloads records' entry" using r(1,2) raw ms(1) x(3) by (auto simp: explored_def)
  moreover have "explored stream fs downloads records' i" if "explored stream fs downloads records i" for i
    using that x(2) described_append unfolding explored_def list_all_iff by blast
  ultimately show ?thesis using e st r(5) x(1,2) by (auto simp: exploring_all_def list_all_iff)
qed

text \<open>
  C24: Discovery misses nothing. When \<open>discover\<close> succeeds, every archive of the inventory has
  the digest the inventory names, and every regular member of it that is named like a license
  notice is in the result, with the digest of its contents and of its archive; nothing the
  selection had is lost or changed, and the result is sorted and without duplicates.
\<close>

theorem discover_complete:
  "case discover id stream fs downloads inventory selection of
     Inl _ \<Rightarrow> True
   | Inr (fs', sel) \<Rightarrow> \<exists>files entries records.
       fs' = fs \<and> rbind (getitem selection ''files'') py_iter = Inr files \<and> rbind (getitem inventory ''downloads'') py_iter = Inr entries \<and>
       sel = JObj [(''files'', JArr (map snd records))] \<and> sorted_wrt (<) (map fst records) \<and> records_ok records \<and>
       set files \<subseteq> set (map snd records) \<and> list_all (explored stream fs downloads records) entries"
proof (cases "discover id stream fs downloads inventory selection")
  case (Inr res)
  obtain files keys entries fs1 records seen where r: "rbind (getitem selection ''files'') py_iter = Inr files"
    "map_result notice_key files = Inr keys" "distinct keys"
    "rbind (getitem inventory ''downloads'') py_iter = Inr entries"
    "for_each (discover_source id stream downloads) (fs, zip keys files, []) entries = Inr (fs1, records, seen)"
    "res = (fs1, JObj [(''files'', JArr (map snd (sort_key fst records)))])"
    using Inr unfolding discover_def
    by (auto simp: rbind_eq_Inr [of "rbind _ _"] rbind_eq_Inr [of "for_each _ _ _"] rbind_eq_Inr [of "map_result _ _"] Let_def
        split: if_split_asm prod.split_asm)
  have len: "length keys = length files" using map_result_length [OF r(2)] by simp
  have start: "records_ok (zip keys files)"
    using r(3) len map_result_zip [OF r(2)] by (simp add: records_ok_def list_all_iff)
  have "exploring_all stream fs downloads (zip keys files) entries (fs1, records, seen)"
    using r(5) by (rule for_each_history) (simp add: exploring_all_def start, rule discover_source_step)
  then have x: "fs1 = fs" "records_ok records" "\<exists>new. records = zip keys files @ new" "list_all (explored stream fs downloads records) entries"
    by (auto simp: exploring_all_def)
  let ?sorted = "sort_key fst records"
  have dist: "distinct (map fst ?sorted)" using x(2) unfolding records_ok_def distinct_map set_sort distinct_sort by blast
  have look: "map_of ?sorted = map_of records"
  proof
    fix k
    have "map_of ?sorted k = Some v \<longleftrightarrow> map_of records k = Some v" for v
      using dist x(2) by (simp add: records_ok_def)
    then show "map_of ?sorted k = map_of records k" by (metis not_None_eq)
  qed
  have "sorted_wrt (<) (map fst ?sorted)" using dist sorted_sort_key by (auto simp: strict_sorted_iff)
  moreover have "records_ok ?sorted" using x(2) dist by (simp add: records_ok_def list_all_iff)
  moreover have "set files \<subseteq> set (map snd ?sorted)"
  proof
    fix f assume "f \<in> set files"
    then obtain k where "(k, f) \<in> set (zip keys files)" using len by (metis in_set_impl_in_set_zip2 prod.exhaust)
    then show "f \<in> set (map snd ?sorted)" using x(3) by force
  qed
  moreover have "list_all (explored stream fs downloads ?sorted) entries"
    using x(4) unfolding explored_def [abs_def] described_def [abs_def] look .
  ultimately show ?thesis unfolding Inr sum.case r(6) prod.case x(1) using r(1,4) by blast
qed simp

end
