(* ===== verification/Collect_Source.thy ===== *)
theory Collect_Source
  imports Collect_Notices
begin

text \<open>
  \<open>scripts/collect-source-review.py\<close>: the sources of a build are collected for review: the
  committed files of every checkout, the downloads, the resolved configurations and the
  manifest, with a report and an inventory. The lemmas show what a collection that succeeds
  has compared, and what its files are.
\<close>

subsection \<open>Inputs\<close>

definition source_feeds :: "string list" where
  "source_feeds = [''packages'', ''luci'', ''routing'', ''telephony'', ''video'']"

definition SOURCE_SUFFIXES :: "string list" where
  "SOURCE_SUFFIXES = [''.tar.gz'', ''.tar.bz2'', ''.tar.xz'', ''.tar.zst'', ''.tgz'', ''.tar'', ''.zip'', ''.gz'', ''.bz2'', ''.xz'', ''.zst'',
     ''.patch'', ''.c'']"

definition regular :: "fsys \<Rightarrow> ppath \<Rightarrow> unit result" where
  "regular fs path =
     (if symlinked fs path then Inl (ValueError ''symlinked input'')
      else if \<not> is_file fs path then Inl (ValueError ''missing, empty or non-regular input'')
      else rbind (stat fs path) (\<lambda>st. raise_if (st_size st = 0) (ValueError ''missing, empty or non-regular input'')))"

definition source_digest :: "fsys \<Rightarrow> ppath \<Rightarrow> string result" where
  "source_digest fs path = rbind (regular fs path) (\<lambda>_. hashed fs path)"

text \<open>
  The output of \<open>git -C root args\<close> on the files as they are; a failing command raises
  \<open>CalledProcessError\<close>. What \<open>git\<close> answers is an argument.
\<close>

type_synonym git = "fsys \<Rightarrow> ppath \<Rightarrow> string list \<Rightarrow> bytes result"

definition git_text :: "git \<Rightarrow> fsys \<Rightarrow> ppath \<Rightarrow> string list \<Rightarrow> string result" where
  "git_text git fs root args = rbind (rbind (git fs root args) decode_utf8) (\<lambda>s. Inr (strip s))"

definition archive_git :: "git \<Rightarrow> ppath \<Rightarrow> string \<Rightarrow> ppath \<Rightarrow> fsys \<Rightarrow> fsys result" where
  "archive_git git root expected destination fs =
     (let bad = ValueError ''source checkout differs from locked commit'' in
      if \<not> fullmatch SHA1 expected then Inl bad
      else rbind (git_text git fs root [''rev-parse'', ''HEAD'']) (\<lambda>head.
        if head \<noteq> expected then Inl bad
        else rbind (open_xb fs destination []) (\<lambda>opened.
             rbind (git opened root [''archive'', ''--format=tar'', expected]) (\<lambda>bs. open_xb fs destination bs))))"

subsection \<open>The locks\<close>

definition lock_comment :: "string \<Rightarrow> bool" where
  "lock_comment line \<longleftrightarrow> line = [] \<or> startswith ''#'' line"

definition lock_field :: "string dict \<Rightarrow> string \<Rightarrow> string dict result" where
  "lock_field values line = (if lock_comment line then Inr values else add_field ''duplicate lock field'' values line)"

definition feed_field :: "string dict \<Rightarrow> string \<Rightarrow> string dict result" where
  "feed_field feeds line =
     (if lock_comment line then Inr feeds
      else case split_on (CHR ''|'') line of
          [name, url, revision] \<Rightarrow>
            if name \<notin> set source_feeds \<or> name \<in> set (dict_keys feeds) \<or> \<not> fullmatch SHA1 revision
            then Inl (ValueError ''invalid feed lock'')
            else if \<not> startswith ''https://'' url then Inl (ValueError ''invalid feed URL'')
            else Inr (dict_set name revision feeds)
        | _ \<Rightarrow> Inl (ValueError ''unpack''))"

definition lock_lines :: "fsys \<Rightarrow> ppath \<Rightarrow> string list result" where
  "lock_lines fs path = rbind (regular fs path) (\<lambda>_. rbind (rbind (read_bytes fs path) read_text) (\<lambda>txt. Inr (splitlines txt)))"

definition read_locks :: "fsys \<Rightarrow> ppath \<Rightarrow> (string \<times> string dict) result" where
  "read_locks fs repo =
     rbind (lock_lines fs (child repo ''openwrt.lock'')) (\<lambda>lines.
     rbind (for_each lock_field [] lines) (\<lambda>values.
     rbind (dict_get values ''OPENWRT_COMMIT'') (\<lambda>commit.
     if \<not> fullmatch SHA1 commit then Inl (ValueError ''invalid OpenWrt commit'')
     else
       rbind (lock_lines fs (child repo ''feeds.lock'')) (\<lambda>lines.
       rbind (for_each feed_field [] lines) (\<lambda>feeds.
       if set (dict_keys feeds) \<noteq> set source_feeds then Inl (ValueError ''incomplete feed lock'')
       else Inr (commit, feeds))))))"

subsection \<open>The downloads\<close>

definition download_inputs :: "fsys \<Rightarrow> ppath \<Rightarrow> string list result" where
  "download_inputs fs directory =
     (if \<not> is_dir fs directory \<or> symlinked fs directory then Inl (ValueError ''unsafe download directory'')
      else rbind (sorted_dir fs directory) (\<lambda>names.
        if names = [] then Inl (ValueError ''empty source download directory'')
        else rbind (for_each (\<lambda>_ name. rbind (regular fs (child directory name)) (\<lambda>_.
               raise_if (\<not> fullmatch source_name name \<or> \<not> list_ex (\<lambda>sfx. endswith sfx name) SOURCE_SUFFIXES)
                 (ValueError ''unexpected download entry; review it before expanding the allowlist''))) () names) (\<lambda>_.
             Inr names)))"

definition download_item :: "string \<Rightarrow> int \<Rightarrow> string \<Rightarrow> json" where
  "download_item name n checksum = JObj [(''name'', JStr name), (''size'', JInt n), (''sha256'', JStr checksum)]"

text \<open>
  One download: hashed, copied into the archive, and hashed again. \<open>addfile\<close> copies as many
  bytes as \<open>stat\<close> reported and fails when there are fewer; what other processes do between the
  steps is \<open>env\<close>.
\<close>

definition archive_download ::
  "(fsys \<Rightarrow> fsys) \<Rightarrow> ppath \<Rightarrow> int \<Rightarrow> fsys \<times> member list \<times> json list \<Rightarrow> string \<Rightarrow> (fsys \<times> member list \<times> json list) result" where
  "archive_download env directory epoch = (\<lambda>(fs, ms, inventory) name.
     (let path = child directory name in
      rbind (source_digest fs path) (\<lambda>checksum.
      let fs = env fs in
      rbind (stat fs path) (\<lambda>st.
      let fs = env fs in
      rbind (regular fs path) (\<lambda>_.
      rbind (read_bytes fs path) (\<lambda>bs.
      if int (length bs) < st_size st then Inl (OSError ''unexpected end of data'')
      else
        (let fs = env fs; m = tar_info (''dl/'' @ name) epoch (take (nat (st_size st)) bs) in
         rbind (source_digest fs path) (\<lambda>again.
         if again \<noteq> checksum then Inl (ValueError ''source input changed during collection'')
         else Inr (fs, ms @ [m], inventory @ [download_item name (st_size st) checksum])))))))))"

definition archive_downloads ::
  "(fsys \<Rightarrow> fsys) \<Rightarrow> (member list \<Rightarrow> bytes) \<Rightarrow> fsys \<Rightarrow> ppath \<Rightarrow> string list \<Rightarrow> ppath \<Rightarrow> int \<Rightarrow> (fsys \<times> json list) result" where
  "archive_downloads env tar fs directory names destination epoch =
     rbind (open_xb fs destination []) (\<lambda>fs.
     rbind (for_each (archive_download env directory epoch) (fs, [], []) names) (\<lambda>(fs, ms, inventory).
     rbind (write_bytes fs destination (tar ms)) (\<lambda>fs. Inr (fs, inventory))))"

subsection \<open>The build\<close>

text \<open>\<open>source.glob('build_dir/target-*/linux-*/linux-*/.config')\<close>\<close>

definition glob_dirs :: "fsys \<Rightarrow> string \<Rightarrow> ppath list \<Rightarrow> ppath list" where
  "glob_dirs fs pat ps = concat (map (\<lambda>p. case iterdir fs p of
     Inl _ \<Rightarrow> []
   | Inr names \<Rightarrow> map (child p) (filter (\<lambda>n. fullmatch (glob pat) n \<and> is_dir fs (child p n)) names)) ps)"

definition linux_configs :: "fsys \<Rightarrow> ppath \<Rightarrow> ppath list" where
  "linux_configs fs source =
     (let build = child source ''build_dir'' in
      filter (exists fs) (map (\<lambda>p. child p ''.config'')
        (glob_dirs fs ''linux-*'' (glob_dirs fs ''linux-*'' (glob_dirs fs ''target-*'' (if is_dir fs build then [build] else []))))))"

definition metadata :: "ppath \<Rightarrow> ppath \<Rightarrow> ppath \<Rightarrow> (string \<times> ppath) list" where
  "metadata source artifacts linux_config =
     [(''openwrt.config'', child source ''.config''), (''linux.config'', linux_config),
      (''package-metadata.txt'', child (child source ''tmp'') ''.packageinfo''),
      (''target-metadata.txt'', child (child source ''tmp'') ''.targetinfo'')]
     @ map (\<lambda>n. (n, child artifacts n)) [''packages.manifest'', ''build.manifest'', ''upstream-delta.patch'', ''runner.txt'']"

text \<open>\<open>int(s)\<close> for ASCII digits, with a sign and single underscores between digits.\<close>

fun scan_digits :: "int \<Rightarrow> bool \<Rightarrow> string \<Rightarrow> int option" where
  "scan_digits n seen [] = (if seen then Some n else None)"
| "scan_digits n seen (c # s) =
     (if is_dec c then scan_digits (10 * n + (of_char c - 48)) True s
      else if c = CHR ''_'' \<and> seen then scan_digits n False s
      else None)"

definition py_int :: "string \<Rightarrow> int result" where
  "py_int s =
     (let t = strip s; (neg, u) = (if startswith ''-'' t then (True, tl t) else if startswith ''+'' t then (False, tl t) else (False, t))
      in case scan_digits 0 False u of None \<Rightarrow> Inl (ValueError ''invalid literal for int()'') | Some n \<Rightarrow> Inr (if neg then - n else n))"

definition expected_fields :: "string \<Rightarrow> string \<Rightarrow> string \<Rightarrow> int \<Rightarrow> string dict" where
  "expected_fields project_commit commit config epoch =
     [(''REPOSITORY_COMMIT'', project_commit), (''OPENWRT_COMMIT'', commit), (''CONFIG_SHA256'', config), (''SOURCE_DATE_EPOCH'', str_int epoch)]"

definition review_report :: "string \<Rightarrow> string \<Rightarrow> string dict \<Rightarrow> int \<Rightarrow> json list \<Rightarrow> json" where
  "review_report project_commit commit feeds epoch inventory = JObj
     [(''format'', JInt 1), (''purpose'', JStr ''source review candidate, not a firmware release''),
      (''project_commit'', JStr project_commit), (''openwrt_commit'', JStr commit),
      (''feed_commits'', JObj (map (\<lambda>(n, r). (n, JStr r)) feeds)), (''source_date_epoch'', JInt epoch),
      (''downloads'', JArr inventory),
      (''offline_rebuild_verified'', JBool False), (''license_review_complete'', JBool False), (''firmware_distribution_authorized'', JBool False)]"

definition review_readme :: string where
  "review_readme = concat (map (\<lambda>l. l @ [CHR 0x0A])
     [''Source review candidate; no built firmware is included.'',
      ''project.tar contains the build scripts, patches and public overlay.'',
      ''openwrt-upstream.tar and feed-*.tar contain their exact committed sources.'',
      ''downloads.tar contains every archive in this build download directory.'',
      ''Resolved configurations and package metadata accompany these inputs.'',
      ''Git metadata and build outputs are deliberately excluded.'',
      ''Missing inputs, license obligations and offline reconstruction still need review.'',
      ''This is not yet a validated corresponding-source offering.''])"

subsection \<open>\<open>collect\<close>\<close>

text \<open>What is compared before anything is written.\<close>

record build_inputs =
  bi_commit :: string
  bi_feeds :: "string dict"
  bi_project :: string
  bi_epoch :: int
  bi_metadata :: "(string \<times> ppath) list"
  bi_downloads :: "string list"

definition check_inputs ::
  "git \<Rightarrow> fsys \<Rightarrow> ppath \<Rightarrow> ppath \<Rightarrow> ppath \<Rightarrow> ppath \<Rightarrow> ppath option \<Rightarrow> build_inputs result" where
  "check_inputs git fs repo source downloads artifacts selection =
     rbind (git_text git fs repo [''status'', ''--porcelain'']) (\<lambda>status.
     if status \<noteq> [] then Inl (ValueError ''project checkout must be clean'')
     else if \<not> is_file fs (child (child source ''.git'') ''ls420d-managed'') then Inl (ValueError ''source checkout is not managed by this project'')
     else
       rbind (case selection of None \<Rightarrow> Inr () | Some p \<Rightarrow> regular fs p) (\<lambda>_.
       rbind (read_locks fs repo) (\<lambda>(commit, feeds).
       rbind (git_text git fs repo [''rev-parse'', ''HEAD'']) (\<lambda>project.
       rbind (rbind (git_text git fs source [''show'', ''-s'', ''--format=%ct'', commit]) py_int) (\<lambda>epoch.
       case linux_configs fs source of
         [linux_config] \<Rightarrow>
           (let meta = metadata source artifacts linux_config in
            rbind (for_each (\<lambda>_ (n, p). regular fs p) () meta) (\<lambda>_.
            rbind (read_fields ''duplicate build manifest field'' fs (child artifacts ''build.manifest'')) (\<lambda>fds.
            rbind (source_digest fs (child source ''.config'')) (\<lambda>config.
            if list_ex (\<lambda>(k, v). map_of fds k \<noteq> Some v) (expected_fields project commit config epoch)
            then Inl (ValueError ''source inputs do not match the firmware build manifest'')
            else
              rbind (download_inputs fs downloads) (\<lambda>names.
              Inr \<lparr>bi_commit = commit, bi_feeds = feeds, bi_project = project, bi_epoch = epoch, bi_metadata = meta, bi_downloads = names\<rparr>)))))
       | _ \<Rightarrow> Inl (ValueError ''expected exactly one resolved Linux configuration''))))))"

text \<open>
  The notices are collected by running the script of that component; when it fails, so does the
  collection. \<open>stream\<close>, \<open>tar\<close> and \<open>env\<close> are its arguments.
\<close>

definition add_notices ::
  "(fsys \<Rightarrow> fsys) \<Rightarrow> stream \<Rightarrow> (member list \<Rightarrow> bytes) \<Rightarrow> fsys \<Rightarrow> ppath \<Rightarrow> ppath \<Rightarrow> ppath option \<Rightarrow> fsys result" where
  "add_notices env stream tar fs downloads output selection =
     (case selection of
        None \<Rightarrow> Inr fs
      | Some p \<Rightarrow>
          (case notices_main env stream tar fs downloads p (child output ''THIRD-PARTY-NOTICES.tar'') (Some (child output ''source-review.json'')) of
             Inl _ \<Rightarrow> Inl (SubprocessError ''collect-notices.py'')
           | Inr fs \<Rightarrow> Inr fs))"

definition archive_feed :: "git \<Rightarrow> ppath \<Rightarrow> ppath \<Rightarrow> fsys \<Rightarrow> string \<times> string \<Rightarrow> fsys result" where
  "archive_feed git source output fs = (\<lambda>(name, revision).
     archive_git git (child (child source ''feeds'') name) revision (child output (''feed-'' @ name @ ''.tar'')) fs)"

definition copy_metadata :: "ppath \<Rightarrow> fsys \<Rightarrow> string \<times> ppath \<Rightarrow> fsys result" where
  "copy_metadata output fs = (\<lambda>(name, path). copyfile fs path (child output name))"

definition collect_source_review ::
  "git \<Rightarrow> (fsys \<Rightarrow> fsys) \<Rightarrow> stream \<Rightarrow> (member list \<Rightarrow> bytes) \<Rightarrow> fsys \<Rightarrow> ppath \<Rightarrow> ppath \<Rightarrow> ppath \<Rightarrow> ppath \<Rightarrow> ppath \<Rightarrow> ppath option
     \<Rightarrow> fsys result" where
  "collect_source_review git env stream tar fs repo source downloads artifacts output selection =
     (if symlinked fs output \<or> exists fs output then Inl (ValueError ''existing or symlinked output'')
      else
        rbind (any_result (inside fs output) [source, downloads]) (\<lambda>within.
        if within then Inl (ValueError ''output must be outside source and downloads'')
        else
          rbind (check_inputs git fs repo source downloads artifacts selection) (\<lambda>b.
          rbind (mkdir_parents False fs output) (\<lambda>fs.
          rbind (archive_git git repo (bi_project b) (child output ''project.tar'') fs) (\<lambda>fs.
          rbind (archive_git git source (bi_commit b) (child output ''openwrt-upstream.tar'') fs) (\<lambda>fs.
          rbind (for_each (archive_feed git source output) fs (sort_key fst (bi_feeds b))) (\<lambda>fs.
          rbind (for_each (copy_metadata output) fs (bi_metadata b)) (\<lambda>fs.
          rbind (archive_downloads env tar fs downloads (bi_downloads b) (child output ''downloads.tar'') (bi_epoch b)) (\<lambda>(fs, inventory).
          let report = review_report (bi_project b) (bi_commit b) (bi_feeds b) (bi_epoch b) inventory in
          rbind (write_bytes fs (child output ''source-review.json'') (dumps True report @ [CHR 0x0A])) (\<lambda>fs.
          rbind (add_notices env stream tar fs downloads output selection) (\<lambda>fs.
          rbind (write_bytes fs (child output ''README.txt'') review_readme) (\<lambda>fs.
          rbind (copyfile fs (child repo ''LICENSE'') (child output ''PROJECT-LICENSE.txt'')) (\<lambda>fs.
          rbind (sum_lines source_digest fs output) (\<lambda>sums.
          write_bytes fs (child output ''SHA256SUMS'') sums))))))))))))))"

text \<open>The script: known failures become one message that reveals nothing of the inputs.\<close>

definition collection_error :: "exn \<Rightarrow> bool" where
  "collection_error e = (case e of OSError _ \<Rightarrow> True | ValueError _ \<Rightarrow> True | KeyError _ \<Rightarrow> True | SubprocessError _ \<Rightarrow> True | _ \<Rightarrow> False)"

definition collect_main ::
  "git \<Rightarrow> (fsys \<Rightarrow> fsys) \<Rightarrow> stream \<Rightarrow> (member list \<Rightarrow> bytes) \<Rightarrow> fsys \<Rightarrow> ppath \<Rightarrow> ppath \<Rightarrow> ppath \<Rightarrow> ppath \<Rightarrow> ppath \<Rightarrow> ppath option
     \<Rightarrow> fsys result" where
  "collect_main git env stream tar fs repo source downloads artifacts output selection =
     (case collect_source_review git env stream tar fs repo source downloads artifacts output selection of
        Inr fs' \<Rightarrow> Inr fs'
      | Inl e \<Rightarrow> Inl (if collection_error e
          then SystemExit ''Source collection failed; inspect inputs privately. Do not distribute partial output.'' else e))"

end
