(* ===== verification/Review_Output.thy ===== *)
theory Review_Output
  imports Collect_Source
begin

text \<open>
  What \<open>collect\<close> of \<open>scripts/collect-source-review.py\<close> writes: the output directory is followed
  from one step to the next, as the list of the files that are in it.
\<close>

subsection \<open>Checked inputs\<close>

lemma regular_Inr: "regular fs p = Inr u \<longleftrightarrow> (\<exists>bs. holds fs p bs \<and> bs \<noteq> [])"
  by (auto simp: regular_def holds_def is_file_def st_size_def split: sum.splits node.splits if_splits)

lemma source_digest_Inr: "source_digest fs p = Inr d \<longleftrightarrow> (\<exists>bs. holds fs p bs \<and> bs \<noteq> [] \<and> d = sha256_hex bs)"
proof -
  have "source_digest fs p = Inr d \<longleftrightarrow> (\<exists>u. regular fs p = Inr u) \<and> hashed fs p = Inr d"
    by (simp add: source_digest_def result_simps)
  then show ?thesis by (auto simp: regular_Inr hashed_def result_simps holds_def read_bytes_file)
qed

interpretation collected_files: file_digest source_digest "\<lambda>fs p bs. holds fs p bs \<and> bs \<noteq> []"
  by unfold_locales (auto simp: source_digest_Inr holds_read)

lemma feed_fields:
  "for_each feed_field feeds ls = Inr feeds' \<Longrightarrow> distinct (dict_keys feeds) \<Longrightarrow> list_all (\<lambda>(n, r). fullmatch SHA1 r) feeds \<Longrightarrow>
     distinct (dict_keys feeds') \<and> list_all (\<lambda>(n, r). fullmatch SHA1 r) feeds'"
proof (induction ls arbitrary: feeds)
  case (Cons l ls)
  then obtain feeds1 where n: "feed_field feeds l = Inr feeds1" "for_each feed_field feeds1 ls = Inr feeds'" by (auto simp: result_simps)
  have "distinct (dict_keys feeds1) \<and> list_all (\<lambda>(n, r). fullmatch SHA1 r) feeds1"
    using n(1) Cons.prems(2,3) by (auto simp: feed_field_def dict_set_new dict_keys_def split: if_splits list.splits)
  then show ?case using Cons.IH [OF n(2)] by blast
qed simp

definition locked :: "string \<Rightarrow> string dict \<Rightarrow> bool" where
  "locked commit feeds \<longleftrightarrow> fullmatch SHA1 commit \<and> distinct (dict_keys feeds) \<and> set (dict_keys feeds) = set source_feeds \<and>
     list_all (\<lambda>(n, r). fullmatch SHA1 r) feeds"

lemma read_locks_Inr: "read_locks fs repo = Inr (commit, feeds) \<Longrightarrow> locked commit feeds"
  by (auto simp: read_locks_def locked_def result_simps dict_keys_def split: if_splits dest!: feed_fields)

lemma sorted_feeds:
  assumes "locked commit feeds"
  shows "map fst (sort_key fst feeds) = [''luci'', ''packages'', ''routing'', ''telephony'', ''video'']"
proof -
  have "distinct (map fst (sort_key fst feeds))"
    using assms unfolding locked_def dict_keys_def distinct_map set_sort distinct_sort by blast
  moreover have "sorted (map fst (sort_key fst feeds))" by simp
  moreover have "set (map fst (sort_key fst feeds)) = set [''luci'', ''packages'', ''routing'', ''telephony'', ''video'']"
    using assms by (auto simp: locked_def dict_keys_def source_feeds_def)
  moreover have "sorted [''luci'', ''packages'', ''routing'', ''telephony'', ''video'']" by code_simp
  ultimately show ?thesis by (intro sorted_distinct_set_unique) simp_all
qed

subsection \<open>The output so far\<close>

definition filled :: "fsys \<Rightarrow> string list \<Rightarrow> bytes dict \<Rightarrow> fsys" where
  "filled fs out files = put_files out (perm_for fs 438) files (make_out fs out)"

lemma filled_snoc: "filled fs out (files @ [(n, bs)]) = fs_put (out @ [n]) (File (perm_for fs 438) bs) (filled fs out files)"
  by (simp add: filled_def)

lemma fs_put_again: "fs_put l n (fs_put l k fs) = fs_put l n fs"
  by (simp add: fs_put_def)

lemma filled_fields [simp]: "cwd (filled fs out files) = cwd fs" "perm_for (filled fs out files) mode = perm_for fs mode"
  by (induction files rule: rev_induct) (auto simp: filled_def make_out_def)

lemma filled_extends: "fresh_out fs out \<Longrightarrow> extends (filled fs out files) fs"
proof -
  assume out: "fresh_out fs out"
  have "l \<noteq> out" "l \<noteq> out @ [name]" if "nodes fs l = Some nd" for l nd name
    using that fresh_below [OF out, of "[]"] fresh_below [OF out, of "[name]"] by auto
  then show ?thesis using make_out(5) [OF out] unfolding extends_def filled_def by (simp add: nodes_put_files_other)
qed

lemma filled_node:
  "fresh_out fs out \<Longrightarrow> distinct (dict_keys files) \<Longrightarrow>
     nodes (filled fs out files) (out @ [n]) = map_option (File (perm_for fs 438)) (map_of files n)"
  "fresh_out fs out \<Longrightarrow> distinct (dict_keys files) \<Longrightarrow> real_dir (filled fs out files) out"
  unfolding filled_def by (rule put_files_out; assumption)+

lemma filled_absent:
  assumes "fresh_out fs out" "distinct (dict_keys files)"
  shows "n \<notin> set (dict_keys files) \<longleftrightarrow> nodes (filled fs out files) (out @ [n]) = None"
  using filled_node(1) [OF assms] by (simp add: dict_keys_def map_of_eq_None_iff)

text \<open>One step of each kind; exclusive creation implies that the name is new.\<close>

lemma filled_open:
  assumes out: "fresh_out fs out" and d: "distinct (dict_keys files)" and n: "n \<noteq> ''..''"
    and ok: "open_xb (filled fs out files) (at (out @ [n])) bs = Inr fs'"
  shows "n \<notin> set (dict_keys files) \<and> fs' = filled fs out (files @ [(n, bs)])"
proof -
  have "resolve (filled fs out files) False (at (out @ [n])) = Inr (out @ [n])"
    using filled_node(2) [OF out d] n by (simp add: resolve_child)
  then have "nodes (filled fs out files) (out @ [n]) = None" "fs' = fs_put (out @ [n]) (File (perm_for fs 438) bs) (filled fs out files)"
    using ok by (auto simp: open_xb_def create_def split: option.splits)
  then show ?thesis using filled_absent [OF out d] by (simp add: filled_snoc)
qed

lemma filled_write:
  assumes "fresh_out fs out" "distinct (dict_keys files)" "n \<noteq> ''..''" "n \<notin> set (dict_keys files)"
  shows "write_bytes (filled fs out files) (at (out @ [n])) bs = Inr (filled fs out (files @ [(n, bs)]))"
    "copyfile (filled fs out files) p (at (out @ [n])) = rbind (read_bytes (filled fs out files) p) (\<lambda>bs. Inr (filled fs out (files @ [(n, bs)])))"
  unfolding filled_def by (rule write_next [OF assms])+

lemma filled_overwrite:
  assumes "fresh_out fs out" "distinct (dict_keys files)" "n \<noteq> ''..''" "n \<notin> set (dict_keys files)"
  shows "write_bytes (filled fs out (files @ [(n, old)])) (at (out @ [n])) bs = Inr (filled fs out (files @ [(n, bs)]))"
proof -
  have d: "distinct (dict_keys (files @ [(n, old)]))" using assms(2,4) by (simp add: dict_keys_def)
  have "nodes (filled fs out (files @ [(n, old)])) (out @ [n]) = Some (File (perm_for fs 438) old)" by (simp add: filled_snoc)
  then show ?thesis
    using write_child_old [OF filled_node(2) [OF assms(1) d] assms(3)] by (simp add: filled_snoc fs_put_again)
qed

lemma holds_filled: "fresh_out fs out \<Longrightarrow> holds fs p bs \<Longrightarrow> read_bytes (filled fs out files) p = Inr bs"
  using read_bytes_extends [OF filled_extends, of fs out files p bs] holds_read by simp

text \<open>The inventory: when it can be made, it is the listing of the files.\<close>

lemma sum_lines_filled:
  assumes out: "fresh_out fs out" and d: "distinct (dict_keys files)" "''..'' \<notin> set (dict_keys files)"
    and ok: "sum_lines source_digest (filled fs out files) (at out) = Inr listing"
  shows "listing = listing_of files"
  by (rule collected_files.listing_of_files [OF filled_node(2) [OF out d(1)] d filled_node(1) [OF out d(1)] ok])

subsection \<open>The parts of the output\<close>

text \<open>The checkouts that are archived: a directory, the commit, and the name of the archive.\<close>

definition checkouts :: "ppath \<Rightarrow> ppath \<Rightarrow> build_inputs \<Rightarrow> (ppath \<times> string \<times> string) list" where
  "checkouts repo source b =
     [(repo, bi_project b, ''project.tar''), (source, bi_commit b, ''openwrt-upstream.tar'')]
     @ map (\<lambda>(n, r). (child (child source ''feeds'') n, r, ''feed-'' @ n @ ''.tar'')) (sort_key fst (bi_feeds b))"

definition archive_file :: "ppath \<times> string \<times> string \<Rightarrow> string" where
  "archive_file = (\<lambda>(root, expected, name). name)"

definition archive_one :: "git \<Rightarrow> ppath \<Rightarrow> fsys \<Rightarrow> ppath \<times> string \<times> string \<Rightarrow> fsys result" where
  "archive_one git output fs = (\<lambda>(root, expected, name). archive_git git root expected (child output name) fs)"

lemma archive_one_file: "archive_one git output fs (root, e, n) = archive_git git root e (child output n) fs"
  by (simp add: archive_one_def)

text \<open>
  What \<open>git\<close> archived of a checkout whose head was the expected commit. While it answered, the
  file system was that of the beginning with a part of the output.
\<close>

definition committed :: "git \<Rightarrow> fsys \<Rightarrow> ppath \<times> string \<times> string \<Rightarrow> bytes \<Rightarrow> bool" where
  "committed git fs = (\<lambda>(root, expected, name) bs. fullmatch SHA1 expected \<and>
     (\<exists>v w. extends v fs \<and> extends w fs \<and> git_text git v root [''rev-parse'', ''HEAD''] = Inr expected \<and>
        git w root [''archive'', ''--format=tar'', expected] = Inr bs))"

lemma archive_git_filled:
  assumes out: "fresh_out fs out" and d: "distinct (dict_keys files)" and n: "n \<noteq> ''..''"
    and ok: "archive_git git root e (at (out @ [n])) (filled fs out files) = Inr fs'"
  obtains bs where "committed git fs (root, e, n) bs" "n \<notin> set (dict_keys files)" "fs' = filled fs out (files @ [(n, bs)])"
proof -
  obtain opened bs where r: "fullmatch SHA1 e" "git_text git (filled fs out files) root [''rev-parse'', ''HEAD''] = Inr e"
    "open_xb (filled fs out files) (at (out @ [n])) [] = Inr opened"
    "git opened root [''archive'', ''--format=tar'', e] = Inr bs"
    "open_xb (filled fs out files) (at (out @ [n])) bs = Inr fs'"
    using ok by (auto simp: archive_git_def Let_def result_simps split: if_splits)
  have "extends opened fs" using filled_open [OF out d n r(3)] filled_extends [OF out] by simp
  then have "committed git fs (root, e, n) bs"
    using r(1,2,4) filled_extends [OF out, of files] unfolding committed_def by blast
  then show thesis using filled_open [OF out d n r(5)] that by blast
qed

lemma archives_filled:
  assumes out: "fresh_out fs out"
  shows "for_each (archive_one git (at out)) (filled fs out files) cs = Inr fs' \<Longrightarrow> distinct (dict_keys files) \<Longrightarrow>
     ''..'' \<notin> set (map archive_file cs) \<Longrightarrow>
     \<exists>bs. list_all2 (committed git fs) cs bs \<and> fs' = filled fs out (files @ zip (map archive_file cs) bs)"
proof (induction cs arbitrary: files)
  case (Cons c cs)
  obtain root e n where c: "c = (root, e, n)" by (cases c)
  have one: "archive_one git (at out) s c = archive_git git root e (at (out @ [n])) s" for s by (simp add: archive_one_def c)
  from Cons.prems(1) obtain fs1 where r: "archive_git git root e (at (out @ [n])) (filled fs out files) = Inr fs1"
    "for_each (archive_one git (at out)) fs1 cs = Inr fs'" by (auto simp: one result_simps)
  have "n \<noteq> ''..''" using Cons.prems(3) c by (auto simp: archive_file_def)
  from archive_git_filled [OF out Cons.prems(2) this r(1)] obtain b where b: "committed git fs (root, e, n) b"
    "n \<notin> set (dict_keys files)" "fs1 = filled fs out (files @ [(n, b)])" .
  have "distinct (dict_keys (files @ [(n, b)]))" using Cons.prems(2) b(2) by (simp add: dict_keys_def)
  from Cons.IH [OF r(2) [unfolded b(3)] this] obtain bs where
    "list_all2 (committed git fs) cs bs" "fs' = filled fs out ((files @ [(n, b)]) @ zip (map archive_file cs) bs)"
    using Cons.prems(3) by auto
  then show ?case using b(1) c by (intro exI [of _ "b # bs"]) (simp add: archive_file_def)
qed simp

definition plain_input :: "fsys \<Rightarrow> string \<times> ppath \<Rightarrow> bytes \<Rightarrow> bool" where
  "plain_input fs = (\<lambda>(name, path) bs. holds fs path bs \<and> bs \<noteq> [])"

lemma copies_filled:
  assumes out: "fresh_out fs out"
  shows "distinct (dict_keys files @ map fst xs) \<Longrightarrow> ''..'' \<notin> set (map fst xs) \<Longrightarrow> list_all (\<lambda>(n, p). regular fs p = Inr ()) xs \<Longrightarrow>
     \<exists>bs. list_all2 (plain_input fs) xs bs \<and>
       for_each (copy_metadata (at out)) (filled fs out files) xs = Inr (filled fs out (files @ zip (map fst xs) bs))"
proof (induction xs arbitrary: files)
  case (Cons x xs)
  obtain n p where x: "x = (n, p)" by (cases x)
  from Cons.prems(3) obtain b where b: "holds fs p b" "b \<noteq> []" by (auto simp: x regular_Inr)
  have n: "n \<noteq> ''..''" "n \<notin> set (dict_keys files)" "distinct (dict_keys files)" using Cons.prems(1,2) x by auto
  have step: "copy_metadata (at out) (filled fs out files) x = Inr (filled fs out (files @ [(n, b)]))"
    using filled_write(2) [OF out n(3,1,2)] holds_filled [OF out b(1)] by (simp add: copy_metadata_def x)
  have "distinct (dict_keys (files @ [(n, b)]) @ map fst xs)" using Cons.prems(1) x by (auto simp: dict_keys_def)
  from Cons.IH [OF this] obtain bs where
    "list_all2 (plain_input fs) xs bs"
    "for_each (copy_metadata (at out)) (filled fs out (files @ [(n, b)])) xs = Inr (filled fs out ((files @ [(n, b)]) @ zip (map fst xs) bs))"
    using Cons.prems(2,3) by auto
  then show ?case using b x step by (intro exI [of _ "b # bs"]) (simp add: plain_input_def)
qed simp

text \<open>The downloads: what the archive holds, and what the report says of it.\<close>

definition download_members :: "int \<Rightarrow> string list \<Rightarrow> bytes list \<Rightarrow> member list" where
  "download_members epoch names blobs = map2 (\<lambda>n bs. tar_info (''dl/'' @ n) epoch bs) names blobs"

definition download_items :: "string list \<Rightarrow> bytes list \<Rightarrow> json list" where
  "download_items names blobs = map2 (\<lambda>n bs. download_item n (int (length bs)) (sha256_hex bs)) names blobs"

definition same_reads :: "fsys \<Rightarrow> fsys \<Rightarrow> bool" where
  "same_reads fs' fs \<longleftrightarrow> (\<forall>p bs. holds fs p bs \<longrightarrow> read_bytes fs' p = Inr bs \<and> (\<exists>m. stat fs' p = Inr (File m bs)))"

lemma filled_same_reads: "fresh_out fs out \<Longrightarrow> same_reads (filled fs out files) fs"
  using stat_extends [OF filled_extends, of fs out files] holds_filled [of fs out]
  by (fastforce simp: same_reads_def holds_def)

lemma download_step:
  assumes "same_reads fs1 fs" "holds fs (child dir n) bs" "archive_download id dir epoch (fs1, ms, items) n = Inr st"
  shows "st = (fs1, ms @ [tar_info (''dl/'' @ n) epoch bs], items @ [download_item n (int (length bs)) (sha256_hex bs)])"
proof -
  obtain m where "read_bytes fs1 (child dir n) = Inr bs" "stat fs1 (child dir n) = Inr (File m bs)"
    using assms(1,2) by (auto simp: same_reads_def)
  moreover from this(1) have "source_digest fs1 (child dir n) = Inr d \<Longrightarrow> d = sha256_hex bs" for d
    by (auto simp: source_digest_def hashed_def result_simps)
  ultimately show ?thesis using assms(3) by (auto simp: archive_download_def Let_def result_simps st_size_def split: if_splits)
qed

lemma downloads_loop:
  "same_reads fs1 fs \<Longrightarrow> list_all (\<lambda>n. regular fs (child dir n) = Inr ()) names \<Longrightarrow>
     for_each (archive_download id dir epoch) (fs1, ms, items) names = Inr st \<Longrightarrow>
     \<exists>blobs. list_all2 (\<lambda>n. plain_input fs (n, child dir n)) names blobs \<and>
        st = (fs1, ms @ download_members epoch names blobs, items @ download_items names blobs)"
proof (induction names arbitrary: ms items)
  case Nil
  then show ?case by (auto simp: download_members_def download_items_def)
next
  case (Cons n names)
  then obtain bs where bs: "holds fs (child dir n) bs" "bs \<noteq> []" by (auto simp: regular_Inr)
  from Cons.prems(3) obtain st1 where r: "archive_download id dir epoch (fs1, ms, items) n = Inr st1"
    "for_each (archive_download id dir epoch) st1 names = Inr st" unfolding for_each.simps rbind_eq_Inr by blast
  note st1 = download_step [OF Cons.prems(1) bs(1) r(1)]
  from Cons.IH [OF Cons.prems(1) _ r(2) [unfolded st1]] Cons.prems(2) obtain blobs where
    "list_all2 (\<lambda>n. plain_input fs (n, child dir n)) names blobs"
    "st = (fs1, (ms @ [tar_info (''dl/'' @ n) epoch bs]) @ download_members epoch names blobs,
       (items @ [download_item n (int (length bs)) (sha256_hex bs)]) @ download_items names blobs)" by auto
  then show ?case
    using bs by (intro exI [of _ "bs # blobs"]) (simp add: plain_input_def download_members_def download_items_def)
qed

lemma downloads_filled:
  assumes out: "fresh_out fs out" and d: "distinct (dict_keys files)" and n: "n \<noteq> ''..''"
    and reg: "list_all (\<lambda>n. regular fs (child dir n) = Inr ()) names"
    and ok: "archive_downloads id tar (filled fs out files) dir names (at (out @ [n])) epoch = Inr (fs', items)"
  obtains blobs where "list_all2 (\<lambda>n. plain_input fs (n, child dir n)) names blobs" "n \<notin> set (dict_keys files)"
    "fs' = filled fs out (files @ [(n, tar (download_members epoch names blobs))])" "items = download_items names blobs"
proof -
  obtain opened fs1 ms where r: "open_xb (filled fs out files) (at (out @ [n])) [] = Inr opened"
    "for_each (archive_download id dir epoch) (opened, [], []) names = Inr (fs1, ms, items)"
    "write_bytes fs1 (at (out @ [n])) (tar ms) = Inr fs'"
    using ok by (auto simp: archive_downloads_def result_simps split: prod.splits)
  have o: "n \<notin> set (dict_keys files)" "opened = filled fs out (files @ [(n, [])])" using filled_open [OF out d n r(1)] by simp_all
  then have "same_reads opened fs" using filled_same_reads [OF out] by simp
  from downloads_loop [OF this reg r(2)] obtain blobs where b: "list_all2 (\<lambda>n. plain_input fs (n, child dir n)) names blobs"
    "fs1 = opened" "ms = download_members epoch names blobs" "items = download_items names blobs" by auto
  have "fs' = filled fs out (files @ [(n, tar ms)])" using r(3) b(2) o(2) filled_overwrite [OF out d n o(1)] by simp
  then show thesis using that b o(1) by simp
qed

text \<open>The notices, when they are asked for: the script leaves the inputs alone and creates one file.\<close>

lemma collect_source_same: "collect_source id stream dir (fs, payloads) x = Inr (fs', payloads') \<Longrightarrow> fs' = fs"
  by (cases x) (auto simp: collect_source_def Let_def result_simps split: if_splits prod.splits)

lemma collect_sources_same: "for_each (collect_source id stream dir) (fs, payloads) xs = Inr (fs', payloads') \<Longrightarrow> fs' = fs"
proof (induction xs arbitrary: fs payloads)
  case (Cons x xs)
  from Cons.prems obtain fs1 p1 where "collect_source id stream dir (fs, payloads) x = Inr (fs1, p1)"
    "for_each (collect_source id stream dir) (fs1, p1) xs = Inr (fs', payloads')"
    unfolding for_each.simps rbind_eq_Inr by auto
  then show ?case using collect_source_same Cons.IH by blast
qed simp

lemma collect_notices_opens: "collect_notices id stream tar fs dir sel p = Inr fs' \<Longrightarrow> \<exists>ms. open_xb fs p (tar ms) = Inr fs'"
  unfolding collect_notices_def Let_def
  by (auto simp: rbind_eq_Inr split: if_splits prod.splits dest!: collect_sources_same)

lemma discover_source_same: "discover_source id stream dir (fs, a) x = Inr (fs', b) \<Longrightarrow> fs' = fs"
  by (cases a) (auto simp: discover_source_def Let_def result_simps split: if_splits prod.splits)

lemma discover_sources_same: "for_each (discover_source id stream dir) (fs, a) xs = Inr (fs', b) \<Longrightarrow> fs' = fs"
proof (induction xs arbitrary: fs a)
  case (Cons x xs)
  from Cons.prems obtain fs1 a1 where "discover_source id stream dir (fs, a) x = Inr (fs1, a1)"
    "for_each (discover_source id stream dir) (fs1, a1) xs = Inr (fs', b)"
    unfolding for_each.simps rbind_eq_Inr by auto
  then show ?case using discover_source_same Cons.IH by blast
qed simp

lemma notices_main_opens:
  assumes "notices_main id stream tar fs dir sel p inventory = Inr fs'"
  shows "\<exists>ms. open_xb fs p (tar ms) = Inr fs'"
proof -
  obtain j fs1 k where r: "(case inventory of None \<Rightarrow> Inr (fs, j)
      | Some q \<Rightarrow> rbind (read_json fs q) (\<lambda>inv. discover id stream fs dir inv j)) = Inr (fs1, k)"
    "collect_notices id stream tar fs1 dir k p = Inr fs'"
    using assms by (auto simp: notices_main_def rbind_eq_Inr)
  have "fs1 = fs"
    using r(1) discover_sources_same by (fastforce simp: discover_def Let_def rbind_eq_Inr split: option.splits if_splits prod.splits)
  then show ?thesis using collect_notices_opens [OF r(2)] by simp
qed

definition notice_files :: "ppath option \<Rightarrow> bytes dict \<Rightarrow> bool" where
  "notice_files selection notices \<longleftrightarrow>
     (case selection of None \<Rightarrow> notices = [] | Some p \<Rightarrow> dict_keys notices = [''THIRD-PARTY-NOTICES.tar''])"

lemma notices_filled:
  assumes out: "fresh_out fs out" and d: "distinct (dict_keys files)"
    and ok: "add_notices id stream tar (filled fs out files) dir (at out) selection = Inr fs'"
  obtains notices where "notice_files selection notices" "fs' = filled fs out (files @ notices)" "distinct (dict_keys (files @ notices))"
proof (cases selection)
  case None
  then show thesis using ok d that [of "[]"] by (simp add: add_notices_def notice_files_def)
next
  case (Some p)
  let ?n = "''THIRD-PARTY-NOTICES.tar''"
  have "\<exists>bs. open_xb (filled fs out files) (at (out @ [?n])) bs = Inr fs'"
    using ok Some by (auto simp: add_notices_def split: sum.splits dest!: notices_main_opens)
  then obtain bs where "open_xb (filled fs out files) (at (out @ [?n])) bs = Inr fs'" by blast
  from filled_open [OF out d _ this] have "?n \<notin> set (dict_keys files) \<and> fs' = filled fs out (files @ [(?n, bs)])" by simp
  then show thesis using Some d that [of "[(?n, bs)]"] by (simp add: notice_files_def dict_keys_def)
qed

subsection \<open>The whole collection\<close>

lemma for_each_map: "for_each f s (map g xs) = for_each (\<lambda>s x. f s (g x)) s xs"
  by (induction xs arbitrary: s) simp_all

definition METADATA :: "string list" where
  "METADATA = [''openwrt.config'', ''linux.config'', ''package-metadata.txt'', ''target-metadata.txt'', ''packages.manifest'',
     ''build.manifest'', ''upstream-delta.patch'', ''runner.txt'']"

definition ARCHIVES :: "string list" where
  "ARCHIVES = [''project.tar'', ''openwrt-upstream.tar'', ''feed-luci.tar'', ''feed-packages.tar'', ''feed-routing.tar'',
     ''feed-telephony.tar'', ''feed-video.tar'']"

lemma archive_names:
  assumes "locked (bi_commit b) (bi_feeds b)"
  shows "map archive_file (checkouts repo source b) = ARCHIVES"
proof -
  have "map archive_file (checkouts repo source b)
      = [''project.tar'', ''openwrt-upstream.tar''] @ map (\<lambda>n. ''feed-'' @ n @ ''.tar'') (map fst (sort_key fst (bi_feeds b)))"
    by (simp add: checkouts_def archive_file_def case_prod_unfold)
  then show ?thesis unfolding sorted_feeds [OF assms] by (simp add: ARCHIVES_def)
qed

text \<open>What the checks before the first write establish.\<close>

definition checked_build :: "fsys \<Rightarrow> ppath \<Rightarrow> build_inputs \<Rightarrow> bool" where
  "checked_build fs downloads b \<longleftrightarrow>
     locked (bi_commit b) (bi_feeds b) \<and> map fst (bi_metadata b) = METADATA \<and>
     list_all (\<lambda>(n, p). regular fs p = Inr ()) (bi_metadata b) \<and>
     list_all (\<lambda>n. regular fs (child downloads n) = Inr ()) (bi_downloads b) \<and> list_all (fullmatch source_name) (bi_downloads b)"

lemma download_inputs_Inr:
  "download_inputs fs dir = Inr names \<Longrightarrow> list_all (\<lambda>n. regular fs (child dir n) = Inr ()) names \<and> list_all (fullmatch source_name) names"
  by (auto simp: download_inputs_def result_simps for_each_unit list_all_iff split: if_splits)

lemma only_one_Inr:
  "(case xs of [] \<Rightarrow> Inl e | [x] \<Rightarrow> f x | x # y # zs \<Rightarrow> Inl e) = Inr b \<longleftrightarrow> (\<exists>x. xs = [x] \<and> f x = Inr b)"
  by (auto split: list.splits)

lemma metadata_regular:
  "for_each (\<lambda>_ (n, p). regular fs p) () xs = Inr () \<Longrightarrow> list_all (\<lambda>(n, p). regular fs p = Inr ()) xs"
  by (induction xs) (auto simp: result_simps)

lemma check_inputs_Inr:
  assumes "check_inputs git fs repo source downloads artifacts selection = Inr b"
  shows "checked_build fs downloads b"
proof -
  obtain commit feeds project epoch p names where r:
    "read_locks fs repo = Inr (commit, feeds)"
    "for_each (\<lambda>_ (n, p). regular fs p) () (metadata source artifacts p) = Inr ()"
    "download_inputs fs downloads = Inr names"
    "b = \<lparr>bi_commit = commit, bi_feeds = feeds, bi_project = project, bi_epoch = epoch, bi_metadata = metadata source artifacts p, bi_downloads = names\<rparr>"
    using assms unfolding check_inputs_def Let_def
    by (auto simp: rbind_eq_Inr [of "git_text _ _ _ _"] rbind_eq_Inr [of "read_locks _ _"] rbind_eq_Inr [of "rbind _ _"]
        rbind_eq_Inr [of "case selection of None \<Rightarrow> Inr () | Some p \<Rightarrow> regular fs p"] rbind_eq_Inr [of "for_each _ _ _"]
        rbind_eq_Inr [of "read_fields _ _ _"] rbind_eq_Inr [of "source_digest _ _"] rbind_eq_Inr [of "download_inputs _ _"]
        only_one_Inr split: if_splits)
  have "list_all (\<lambda>(n, p). regular fs p = Inr ()) (metadata source artifacts p)" using r(2) by (rule metadata_regular)
  then show ?thesis
    using read_locks_Inr [OF r(1)] download_inputs_Inr [OF r(3)] r(4)
    by (simp add: checked_build_def metadata_def METADATA_def)
qed

text \<open>The files of a collection, in the order they are written.\<close>

definition review_files ::
  "(member list \<Rightarrow> bytes) \<Rightarrow> build_inputs \<Rightarrow> bytes list \<Rightarrow> bytes list \<Rightarrow> bytes list \<Rightarrow> bytes dict \<Rightarrow> bytes \<Rightarrow> bytes dict" where
  "review_files tar b trees copies blobs notices license =
     zip ARCHIVES trees @ zip METADATA copies
     @ [(''downloads.tar'', tar (download_members (bi_epoch b) (bi_downloads b) blobs)),
        (''source-review.json'', dumps True (review_report (bi_project b) (bi_commit b) (bi_feeds b) (bi_epoch b)
           (download_items (bi_downloads b) blobs)) @ [CHR 0x0A])]
     @ notices @ [(''README.txt'', review_readme), (''PROJECT-LICENSE.txt'', license)]"

definition collected ::
  "git \<Rightarrow> (member list \<Rightarrow> bytes) \<Rightarrow> fsys \<Rightarrow> ppath \<Rightarrow> ppath \<Rightarrow> ppath \<Rightarrow> ppath option \<Rightarrow> build_inputs \<Rightarrow> bytes dict \<Rightarrow> bool" where
  "collected git tar fs repo source downloads selection b files \<longleftrightarrow>
     (\<exists>trees copies blobs notices license.
        list_all2 (committed git fs) (checkouts repo source b) trees \<and>
        list_all2 (plain_input fs) (bi_metadata b) copies \<and>
        list_all2 (\<lambda>n. plain_input fs (n, child downloads n)) (bi_downloads b) blobs \<and>
        notice_files selection notices \<and>
        (\<exists>v. extends v fs \<and> read_bytes v (child repo ''LICENSE'') = Inr license) \<and>
        files = review_files tar b trees copies blobs notices license)"

lemma checkouts_loop:
  "rbind (for_each (archive_one git output) fs (checkouts repo source b)) k =
     rbind (archive_git git repo (bi_project b) (child output ''project.tar'') fs) (\<lambda>fs.
     rbind (archive_git git source (bi_commit b) (child output ''openwrt-upstream.tar'') fs) (\<lambda>fs.
     rbind (for_each (archive_feed git source output) fs (sort_key fst (bi_feeds b))) k))"
proof -
  have "archive_feed git source output = (\<lambda>fs x. archive_one git output fs
      ((\<lambda>(n, r). (child (child source ''feeds'') n, r, ''feed-'' @ n @ ''.tar'')) x))"
    by (auto simp: archive_feed_def archive_one_def fun_eq_iff)
  then show ?thesis by (simp add: checkouts_def archive_one_file for_each_map rbind_assoc)
qed

text \<open>\<open>collect\<close> as a loop over the checkouts.\<close>

lemma collect_unfold:
  "collect_source_review git env stream tar fs repo source downloads artifacts output selection =
     (if symlinked fs output \<or> exists fs output then Inl (ValueError ''existing or symlinked output'')
      else
        rbind (any_result (inside fs output) [source, downloads]) (\<lambda>within.
        if within then Inl (ValueError ''output must be outside source and downloads'')
        else
          rbind (check_inputs git fs repo source downloads artifacts selection) (\<lambda>b.
          rbind (mkdir_parents False fs output) (\<lambda>fs.
          rbind (for_each (archive_one git output) fs (checkouts repo source b)) (\<lambda>fs.
          rbind (for_each (copy_metadata output) fs (bi_metadata b)) (\<lambda>fs.
          rbind (archive_downloads env tar fs downloads (bi_downloads b) (child output ''downloads.tar'') (bi_epoch b)) (\<lambda>(fs, inventory).
          let report = review_report (bi_project b) (bi_commit b) (bi_feeds b) (bi_epoch b) inventory in
          rbind (write_bytes fs (child output ''source-review.json'') (dumps True report @ [CHR 0x0A])) (\<lambda>fs.
          rbind (add_notices env stream tar fs downloads output selection) (\<lambda>fs.
          rbind (write_bytes fs (child output ''README.txt'') review_readme) (\<lambda>fs.
          rbind (copyfile fs (child repo ''LICENSE'') (child output ''PROJECT-LICENSE.txt'')) (\<lambda>fs.
          rbind (sum_lines source_digest fs output) (\<lambda>sums.
          write_bytes fs (child output ''SHA256SUMS'') sums))))))))))))"
  unfolding collect_source_review_def checkouts_loop ..

lemma collect_steps:
  assumes "collect_source_review git id stream tar fs repo source downloads artifacts output selection = Inr fs'"
  obtains b f0 f1 f2 f3 items f4 f5 f6 f7 sums where
    "check_inputs git fs repo source downloads artifacts selection = Inr b"
    "mkdir_parents False fs output = Inr f0"
    "for_each (archive_one git output) f0 (checkouts repo source b) = Inr f1"
    "for_each (copy_metadata output) f1 (bi_metadata b) = Inr f2"
    "archive_downloads id tar f2 downloads (bi_downloads b) (child output ''downloads.tar'') (bi_epoch b) = Inr (f3, items)"
    "write_bytes f3 (child output ''source-review.json'')
       (dumps True (review_report (bi_project b) (bi_commit b) (bi_feeds b) (bi_epoch b) items) @ [CHR 0x0A]) = Inr f4"
    "add_notices id stream tar f4 downloads output selection = Inr f5"
    "write_bytes f5 (child output ''README.txt'') review_readme = Inr f6"
    "copyfile f6 (child repo ''LICENSE'') (child output ''PROJECT-LICENSE.txt'') = Inr f7"
    "sum_lines source_digest f7 output = Inr sums" "write_bytes f7 (child output ''SHA256SUMS'') sums = Inr fs'"
  using assms unfolding collect_unfold Let_def
  by (auto simp: rbind_eq_Inr split: if_splits)

lemma dict_keys_zip: "length vs = length ks \<Longrightarrow> dict_keys (zip ks vs) = ks"
  by (simp add: dict_keys_def)

lemma review_names: "distinct (ARCHIVES @ METADATA @ [''downloads.tar'', ''source-review.json''])" "''..'' \<notin> set ARCHIVES" "''..'' \<notin> set METADATA"
  by code_simp+

text \<open>The checkouts, the copies and the downloads.\<close>

lemma inputs_filled:
  assumes out: "fresh_out fs out" and chk: "checked_build fs downloads b"
    and r: "for_each (archive_one git (at out)) (filled fs out []) (checkouts repo source b) = Inr f1"
      "for_each (copy_metadata (at out)) f1 (bi_metadata b) = Inr f2"
      "archive_downloads id tar f2 downloads (bi_downloads b) (at (out @ [''downloads.tar''])) (bi_epoch b) = Inr (f3, items)"
  obtains trees copies blobs where
    "list_all2 (committed git fs) (checkouts repo source b) trees" "list_all2 (plain_input fs) (bi_metadata b) copies"
    "list_all2 (\<lambda>n. plain_input fs (n, child downloads n)) (bi_downloads b) blobs"
    "f3 = filled fs out (zip ARCHIVES trees @ zip METADATA copies @
       [(''downloads.tar'', tar (download_members (bi_epoch b) (bi_downloads b) blobs))])"
    "dict_keys (zip ARCHIVES trees @ zip METADATA copies) = ARCHIVES @ METADATA" "items = download_items (bi_downloads b) blobs"
proof -
  have b: "locked (bi_commit b) (bi_feeds b)" "map fst (bi_metadata b) = METADATA"
    "list_all (\<lambda>(n, p). regular fs p = Inr ()) (bi_metadata b)"
    "list_all (\<lambda>n. regular fs (child downloads n) = Inr ()) (bi_downloads b)"
    using chk by (simp_all add: checked_build_def)
  note an = archive_names [OF b(1), of repo source]
  from archives_filled [OF out r(1)] review_names(2) an obtain trees where
    t: "list_all2 (committed git fs) (checkouts repo source b) trees" "f1 = filled fs out (zip ARCHIVES trees)"
    by (auto simp: dict_keys_def)
  have kt: "dict_keys (zip ARCHIVES trees) = ARCHIVES"
    using list_all2_lengthD [OF t(1)] arg_cong [OF an, of length] by (intro dict_keys_zip) simp
  have "distinct (dict_keys (zip ARCHIVES trees) @ map fst (bi_metadata b))" using review_names(1) by (simp add: kt b(2))
  from copies_filled [OF out this] review_names(3) b(2,3) r(2) t(2) obtain copies where
    c: "list_all2 (plain_input fs) (bi_metadata b) copies" "f2 = filled fs out (zip ARCHIVES trees @ zip METADATA copies)"
    by auto
  let ?f2 = "zip ARCHIVES trees @ zip METADATA copies"
  have k2: "dict_keys ?f2 = ARCHIVES @ METADATA"
    using kt list_all2_lengthD [OF c(1)] arg_cong [OF b(2), of length] dict_keys_zip [of copies METADATA] by (simp add: dict_keys_def)
  have d2: "distinct (dict_keys ?f2)" using review_names(1) by (simp add: k2)
  have nd: "''downloads.tar'' \<noteq> ''..''" by simp
  obtain blobs where bl: "list_all2 (\<lambda>n. plain_input fs (n, child downloads n)) (bi_downloads b) blobs"
    "f3 = filled fs out (?f2 @ [(''downloads.tar'', tar (download_members (bi_epoch b) (bi_downloads b) blobs))])"
    "items = download_items (bi_downloads b) blobs"
    using r(3) [unfolded c(2)] by (rule downloads_filled [OF out d2 nd b(4)])
  then show thesis using that t(1) c(1) k2 by simp
qed

text \<open>The end of a run: the description, the license of the project, and the listing of everything.\<close>

lemma closing_filled:
  assumes out: "fresh_out fs out" and d: "distinct (dict_keys files)"
    and keys: "set (dict_keys files) \<subseteq> set (ARCHIVES @ METADATA @ [''downloads.tar'', ''source-review.json'', ''THIRD-PARTY-NOTICES.tar''])"
    and readme: "write_bytes (filled fs out files) (child (at out) ''README.txt'') review_readme = Inr f6"
    and copied: "copyfile f6 (child repo ''LICENSE'') (child (at out) ''PROJECT-LICENSE.txt'') = Inr f7"
    and sums: "sum_lines source_digest f7 (at out) = Inr sums" "write_bytes f7 (child (at out) ''SHA256SUMS'') sums = Inr fs'"
  obtains license where "read_bytes (filled fs out (files @ [(''README.txt'', review_readme)])) (child repo ''LICENSE'') = Inr license"
    "let files = files @ [(''README.txt'', review_readme), (''PROJECT-LICENSE.txt'', license)] in
      fs' = filled fs out (files @ [(''SHA256SUMS'', listing_of files)])"
proof -
  have fresh: "n \<notin> set (dict_keys files)" if "n \<in> {''README.txt'', ''PROJECT-LICENSE.txt'', ''SHA256SUMS'', ''..''}" for n
    using that keys unfolding ARCHIVES_def METADATA_def by auto
  let ?f6 = "files @ [(''README.txt'', review_readme)]"
  have f6: "f6 = filled fs out ?f6" using readme filled_write(1) [OF out d _ fresh] by simp
  have d6: "distinct (dict_keys ?f6)" "''PROJECT-LICENSE.txt'' \<notin> set (dict_keys ?f6)"
    using d fresh by (simp_all add: dict_keys_def)
  have nl: "''PROJECT-LICENSE.txt'' \<noteq> ''..''" by simp
  obtain license where l: "read_bytes f6 (child repo ''LICENSE'') = Inr license"
    "f7 = filled fs out (?f6 @ [(''PROJECT-LICENSE.txt'', license)])"
    using copied [unfolded child_at f6 filled_write(2) [OF out d6(1) nl d6(2)] rbind_eq_Inr] unfolding f6 by blast
  let ?f7 = "?f6 @ [(''PROJECT-LICENSE.txt'', license)]"
  have d7: "distinct (dict_keys ?f7)" "''..'' \<notin> set (dict_keys ?f7)" "''SHA256SUMS'' \<notin> set (dict_keys ?f7)"
    using d6 fresh by (simp_all add: dict_keys_def)
  have "sums = listing_of ?f7" using sums(1) unfolding l(2) by (rule sum_lines_filled [OF out d7(1,2)])
  then have "fs' = filled fs out (?f7 @ [(''SHA256SUMS'', listing_of ?f7)])"
    using sums(2) filled_write(1) [OF out d7(1) _ d7(3)] by (simp add: l(2))
  then show thesis using that l(1) by (simp add: f6)
qed

lemma collect_result:
  assumes out: "fresh_out fs out"
    and run: "collect_source_review git id stream tar fs repo source downloads artifacts (at out) selection = Inr fs'"
  shows "\<exists>b files. check_inputs git fs repo source downloads artifacts selection = Inr b \<and>
    collected git tar fs repo source downloads selection b files \<and>
    fs' = filled fs out (files @ [(''SHA256SUMS'', listing_of files)])"
proof -
  obtain b f0 f1 f2 f3 items f4 f5 f6 f7 sums where r:
    "check_inputs git fs repo source downloads artifacts selection = Inr b" "mkdir_parents False fs (at out) = Inr f0"
    "for_each (archive_one git (at out)) f0 (checkouts repo source b) = Inr f1"
    "for_each (copy_metadata (at out)) f1 (bi_metadata b) = Inr f2"
    "archive_downloads id tar f2 downloads (bi_downloads b) (child (at out) ''downloads.tar'') (bi_epoch b) = Inr (f3, items)"
    "write_bytes f3 (child (at out) ''source-review.json'')
       (dumps True (review_report (bi_project b) (bi_commit b) (bi_feeds b) (bi_epoch b) items) @ [CHR 0x0A]) = Inr f4"
    "add_notices id stream tar f4 downloads (at out) selection = Inr f5"
    "write_bytes f5 (child (at out) ''README.txt'') review_readme = Inr f6"
    "copyfile f6 (child repo ''LICENSE'') (child (at out) ''PROJECT-LICENSE.txt'') = Inr f7"
    "sum_lines source_digest f7 (at out) = Inr sums" "write_bytes f7 (child (at out) ''SHA256SUMS'') sums = Inr fs'"
    using run by (rule collect_steps)
  note chk = check_inputs_Inr [OF r(1)]
  have "f0 = filled fs out []" using r(2) make_out(1) [OF out] by (simp add: filled_def)
  from inputs_filled [OF out chk r(3) [unfolded this] r(4) r(5) [unfolded child_at]] obtain trees copies blobs where
    t: "list_all2 (committed git fs) (checkouts repo source b) trees" and c: "list_all2 (plain_input fs) (bi_metadata b) copies"
    and bl: "list_all2 (\<lambda>n. plain_input fs (n, child downloads n)) (bi_downloads b) blobs" and items: "items = download_items (bi_downloads b) blobs"
    and f3: "f3 = filled fs out (zip ARCHIVES trees @ zip METADATA copies @
       [(''downloads.tar'', tar (download_members (bi_epoch b) (bi_downloads b) blobs))])"
    and k2: "dict_keys (zip ARCHIVES trees @ zip METADATA copies) = ARCHIVES @ METADATA" .
  let ?f2 = "zip ARCHIVES trees @ zip METADATA copies"
  let ?f3 = "?f2 @ [(''downloads.tar'', tar (download_members (bi_epoch b) (bi_downloads b) blobs))]"
  let ?report = "dumps True (review_report (bi_project b) (bi_commit b) (bi_feeds b) (bi_epoch b) items) @ [CHR 0x0A]"
  let ?f4 = "?f3 @ [(''source-review.json'', ?report)]"
  have k4: "dict_keys ?f4 = ARCHIVES @ METADATA @ [''downloads.tar'', ''source-review.json'']" using k2 by (simp add: dict_keys_def)
  have d4: "distinct (dict_keys ?f4)" using review_names(1) by (simp only: k4)
  have d3: "distinct (dict_keys ?f3)" "''source-review.json'' \<notin> set (dict_keys ?f3)" using d4 by (simp_all add: dict_keys_def)
  have "f4 = filled fs out ?f4" using r(6) filled_write(1) [OF out d3(1) _ d3(2)] by (simp add: f3)
  with r(7) obtain notices where n: "notice_files selection notices" "f5 = filled fs out (?f4 @ notices)"
    "distinct (dict_keys (?f4 @ notices))" using notices_filled [OF out d4] by blast
  let ?f5 = "?f4 @ notices"
  have kn: "set (dict_keys notices) \<subseteq> {''THIRD-PARTY-NOTICES.tar''}" using n(1) by (auto simp: notice_files_def dict_keys_def split: option.splits)
  have "set (dict_keys ?f5) \<subseteq> set (ARCHIVES @ METADATA @ [''downloads.tar'', ''source-review.json'', ''THIRD-PARTY-NOTICES.tar''])"
    using k4 kn unfolding dict_keys_def map_append by (simp only: set_append) auto
  from closing_filled [OF out n(3) this r(8) [unfolded n(2)] r(9,10,11)] obtain license where
    l: "read_bytes (filled fs out (?f5 @ [(''README.txt'', review_readme)])) (child repo ''LICENSE'') = Inr license"
    and result: "let files = ?f5 @ [(''README.txt'', review_readme), (''PROJECT-LICENSE.txt'', license)] in
      fs' = filled fs out (files @ [(''SHA256SUMS'', listing_of files)])" .
  let ?f7 = "?f5 @ [(''README.txt'', review_readme), (''PROJECT-LICENSE.txt'', license)]"
  have parts: "?f7 = review_files tar b trees copies blobs notices license" by (simp add: review_files_def items)
  have ext: "extends (filled fs out (?f5 @ [(''README.txt'', review_readme)])) fs" by (rule filled_extends [OF out])
  have "collected git tar fs repo source downloads selection b ?f7"
    unfolding collected_def
    by (rule exI [of _ trees], rule exI [of _ copies], rule exI [of _ blobs], rule exI [of _ notices], rule exI [of _ license])
      (intro conjI t c bl n(1) parts exI [of _ "filled fs out (?f5 @ [(''README.txt'', review_readme)])"] ext l)
  with r(1) result [unfolded Let_def] show ?thesis by blast
qed

text \<open>
  C4: A collection is exact. When \<open>collect\<close> succeeds into a new directory of a real directory
  and nobody interferes, the inputs had passed every check; the new directory holds, and it is
  all that has changed: what \<open>git\<close> archived of each checkout, whose head was the locked or the
  project's commit; the resolved configurations and manifests and every download of the build,
  byte for byte, with the size and digest of each download in the report; the notices when they
  were selected, the explanation and the license; and the listing of the digests of all of these.
\<close>

theorem collect_exact:
  assumes out: "fresh_out fs out"
  shows "case collect_source_review git id stream tar fs repo source downloads artifacts (at out) selection of
     Inl _ \<Rightarrow> True
   | Inr fs' \<Rightarrow> \<exists>b files. check_inputs git fs repo source downloads artifacts selection = Inr b \<and>
       collected git tar fs repo source downloads selection b files \<and>
       fs' = filled fs out (files @ [(''SHA256SUMS'', listing_of files)])"
  using collect_result [OF out, of git stream tar repo source downloads artifacts selection]
  by (cases "collect_source_review git id stream tar fs repo source downloads artifacts (at out) selection") simp_all

end
