(* ===== verification/Review_Run.thy ===== *)
theory Review_Run
  imports Review_Output Written_Text
begin

text \<open>
  When \<open>collect\<close> of \<open>scripts/collect-source-review.py\<close> succeeds: with checked inputs, checkouts
  at the commits they are locked to and a new output directory, it does.
\<close>

lemma filled_create:
  assumes "fresh_out fs out" "distinct (dict_keys files)" "n \<noteq> ''..''" "n \<notin> set (dict_keys files)"
  shows "open_xb (filled fs out files) (at (out @ [n])) bs = Inr (filled fs out (files @ [(n, bs)]))"
  using create_child [OF filled_node(2) [OF assms(1,2)] assms(3)] filled_absent [OF assms(1,2), of n] assms(4)
  by (simp add: open_xb_def filled_snoc)

text \<open>What \<open>git\<close> is expected to answer, whatever else there is in the file system.\<close>

definition answered :: "git \<Rightarrow> fsys \<Rightarrow> ppath \<times> string \<times> string \<Rightarrow> bytes \<Rightarrow> bool" where
  "answered git fs = (\<lambda>(root, expected, name) bs. fullmatch SHA1 expected \<and> bs \<noteq> [] \<and>
     (\<forall>v. extends v fs \<longrightarrow> git_text git v root [''rev-parse'', ''HEAD''] = Inr expected \<and>
        git v root [''archive'', ''--format=tar'', expected] = Inr bs))"

lemma archive_git_runs:
  assumes "fresh_out fs out" "distinct (dict_keys files)" "n \<noteq> ''..''" "n \<notin> set (dict_keys files)" "answered git fs (root, e, n) bs"
  shows "archive_git git root e (at (out @ [n])) (filled fs out files) = Inr (filled fs out (files @ [(n, bs)]))"
  using assms(5) filled_create [OF assms(1-4)] filled_extends [OF assms(1)] by (simp add: archive_git_def answered_def)

lemma archives_run:
  assumes out: "fresh_out fs out"
  shows "list_all2 (answered git fs) cs bs \<Longrightarrow> distinct (dict_keys files @ map archive_file cs) \<Longrightarrow> ''..'' \<notin> set (map archive_file cs) \<Longrightarrow>
     for_each (archive_one git (at out)) (filled fs out files) cs = Inr (filled fs out (files @ zip (map archive_file cs) bs))"
proof (induction cs bs arbitrary: files rule: list_all2_induct)
  case (Cons c cs b bs)
  obtain root e n where c: "c = (root, e, n)" by (cases c)
  have n: "n \<noteq> ''..''" "n \<notin> set (dict_keys files)" "distinct (dict_keys files)"
    using Cons.prems c by (auto simp: archive_file_def)
  have "archive_one git (at out) (filled fs out files) c = Inr (filled fs out (files @ [(n, b)]))"
    using archive_git_runs [OF out n(3,1,2)] Cons.hyps(1) c by (simp add: archive_one_file)
  moreover have "distinct (dict_keys (files @ [(n, b)]) @ map archive_file cs)"
    using Cons.prems(1) c by (auto simp: dict_keys_def archive_file_def)
  ultimately show ?case
    using Cons.IH [of "files @ [(n, b)]"] Cons.prems(2) c by (simp add: archive_file_def)
qed simp

text \<open>Downloads in a real directory are hashed, copied and hashed again.\<close>

lemma download_runs:
  assumes "real_dir fs1 dl" "n \<noteq> ''..''" "nodes fs1 (dl @ [n]) = Some (File m bs)" "bs \<noteq> []"
  shows "archive_download id (at dl) epoch (fs1, ms, items) n =
    Inr (fs1, ms @ [tar_info (''dl/'' @ n) epoch bs], items @ [download_item n (int (length bs)) (sha256_hex bs)])"
proof -
  have h: "holds fs1 (at (dl @ [n])) bs" using assms holds_child by simp
  then have "regular fs1 (at (dl @ [n])) = Inr ()" "source_digest fs1 (at (dl @ [n])) = Inr (sha256_hex bs)"
    using assms(4) unfolding regular_Inr source_digest_Inr by blast+
  moreover have "stat fs1 (at (dl @ [n])) = Inr (File m bs)" using assms by (simp add: stat_child)
  ultimately show ?thesis using holds_read [OF h] by (simp add: archive_download_def Let_def st_size_def)
qed

lemma downloads_run:
  "real_dir fs1 dl \<Longrightarrow> ''..'' \<notin> set names \<Longrightarrow> list_all2 (\<lambda>n bs. bs \<noteq> [] \<and> (\<exists>m. nodes fs1 (dl @ [n]) = Some (File m bs))) names blobs \<Longrightarrow>
     for_each (archive_download id (at dl) epoch) (fs1, ms, items) names
       = Inr (fs1, ms @ download_members epoch names blobs, items @ download_items names blobs)"
proof (induction names arbitrary: ms items blobs)
  case Nil
  then show ?case by (simp add: download_members_def download_items_def)
next
  case (Cons n names)
  then obtain b bs where b: "blobs = b # bs" by (cases blobs) auto
  then obtain m where "nodes fs1 (dl @ [n]) = Some (File m b)" "b \<noteq> []" using Cons.prems(3) by auto
  then have step: "archive_download id (at dl) epoch (fs1, ms, items) n =
      Inr (fs1, ms @ [tar_info (''dl/'' @ n) epoch b], items @ [download_item n (int (length b)) (sha256_hex b)])"
    using Cons.prems(1,2) by (intro download_runs) auto
  have "''..'' \<notin> set names" "list_all2 (\<lambda>n bs. bs \<noteq> [] \<and> (\<exists>m. nodes fs1 (dl @ [n]) = Some (File m bs))) names bs"
    using Cons.prems(2,3) b by auto
  note rest = Cons.IH [OF Cons.prems(1) this]
  show ?case unfolding for_each.simps step rbind_Inr rest by (simp add: b download_members_def download_items_def)
qed

lemma listing_runs:
  assumes out: "fresh_out fs out" and d: "distinct (dict_keys files)" "''..'' \<notin> set (dict_keys files)"
    and ne: "list_all (\<lambda>(n, bs). bs \<noteq> []) files"
  shows "sum_lines source_digest (filled fs out files) (at out) = Inr (listing_of files)"
proof (rule collected_files.listing_made [OF filled_node(2) [OF out d(1)] d(1) filled_node(1) [OF out d(1)]])
  fix n bs assume n: "map_of files n = Some bs"
  have "(n, bs) \<in> set files" using n by (rule map_of_SomeD)
  then have "n \<noteq> ''..''" "bs \<noteq> []" using d(2) ne by (force simp: dict_keys_def list_all_iff)+
  then show "holds (filled fs out files) (at (out @ [n])) bs \<and> bs \<noteq> []"
    using n filled_node [OF out d(1)] holds_child by auto
qed

lemma plain_inputs:
  "list_all (\<lambda>n. regular fs (p n) = Inr ()) names \<Longrightarrow> \<exists>blobs. list_all2 (\<lambda>n. plain_input fs (n, p n)) names blobs"
  by (induction names) (auto simp: plain_input_def regular_Inr list_all2_Cons1)

lemma archive_downloads_runs:
  assumes out: "fresh_out fs out" and d: "distinct (dict_keys files)" and n: "n \<noteq> ''..''" "n \<notin> set (dict_keys files)"
    and dl: "real_dir fs dl" "''..'' \<notin> set names" and bl: "list_all2 (\<lambda>n. plain_input fs (n, at (dl @ [n]))) names blobs"
  shows "archive_downloads id tar (filled fs out files) (at dl) names (at (out @ [n])) epoch =
    Inr (filled fs out (files @ [(n, tar (download_members epoch names blobs))]), download_items names blobs)"
proof -
  let ?fs = "filled fs out (files @ [(n, [])])"
  have ext: "extends ?fs fs" by (rule filled_extends [OF out])
  have "bs \<noteq> [] \<and> (\<exists>m. nodes ?fs (dl @ [k]) = Some (File m bs))" if "k \<in> set names" "plain_input fs (k, at (dl @ [k])) bs" for k bs
    using that dl holds_child [OF dl(1), of k bs] ext by (auto simp: plain_input_def extends_def)
  then have "list_all2 (\<lambda>k bs. bs \<noteq> [] \<and> (\<exists>m. nodes ?fs (dl @ [k]) = Some (File m bs))) names blobs"
    using bl by (auto elim!: list.rel_mono_strong)
  note loop = downloads_run [OF extends_real_dir [OF ext dl(1)] dl(2) this]
  show ?thesis
    unfolding archive_downloads_def filled_create [OF out d n] rbind_Inr loop prod.case
    using filled_overwrite [OF out d n] by simp
qed

lemma nonempty_values: "list_all2 (\<lambda>x bs. bs \<noteq> []) xs vs \<Longrightarrow> list_all (\<lambda>(n, bs). bs \<noteq> []) (zip names vs)"
  by (auto simp: list_all_iff list_all2_conv_all_nth in_set_conv_nth)

lemma source_name_no_parent: "\<not> fullmatch source_name ''..''"
  by code_simp

text \<open>The checkouts, the copies and the downloads.\<close>

lemma inputs_run:
  assumes out: "fresh_out fs out" and chk: "checked_build fs (at dl) b" and dl: "real_dir fs dl"
    and ans: "list_all2 (answered git fs) (checkouts repo source b) trees"
  obtains copies blobs where "list_all2 (plain_input fs) (bi_metadata b) copies"
    "list_all2 (\<lambda>n. plain_input fs (n, at (dl @ [n]))) (bi_downloads b) blobs"
    "dict_keys (zip ARCHIVES trees @ zip METADATA copies) = ARCHIVES @ METADATA"
    "for_each (archive_one git (at out)) (make_out fs out) (checkouts repo source b) = Inr (filled fs out (zip ARCHIVES trees))"
    "for_each (copy_metadata (at out)) (filled fs out (zip ARCHIVES trees)) (bi_metadata b)
       = Inr (filled fs out (zip ARCHIVES trees @ zip METADATA copies))"
    "archive_downloads id tar (filled fs out (zip ARCHIVES trees @ zip METADATA copies)) (at dl) (bi_downloads b)
         (at (out @ [''downloads.tar''])) (bi_epoch b)
       = Inr (filled fs out (zip ARCHIVES trees @ zip METADATA copies @ [(''downloads.tar'', tar (download_members (bi_epoch b) (bi_downloads b) blobs))]),
           download_items (bi_downloads b) blobs)"
proof -
  have b: "locked (bi_commit b) (bi_feeds b)" "map fst (bi_metadata b) = METADATA"
    "list_all (\<lambda>(n, p). regular fs p = Inr ()) (bi_metadata b)"
    "list_all (\<lambda>n. regular fs (at (dl @ [n])) = Inr ()) (bi_downloads b)" "list_all (fullmatch source_name) (bi_downloads b)"
    using chk by (simp_all add: checked_build_def)
  have dots: "''..'' \<notin> set (bi_downloads b)" using b(5) source_name_no_parent by (auto simp: list_all_iff)
  note an = archive_names [OF b(1), of repo source]
  have "for_each (archive_one git (at out)) (filled fs out []) (checkouts repo source b) = Inr (filled fs out (zip ARCHIVES trees))"
    using archives_run [OF out ans, of "[]"] review_names(1,2) an by (simp add: dict_keys_def)
  note step1 = this [unfolded filled_def put_files_simps, folded filled_def]
  have lt: "length trees = length ARCHIVES" using list_all2_lengthD [OF ans] arg_cong [OF an, of length] by simp
  have kt: "dict_keys (zip ARCHIVES trees) = ARCHIVES" using lt by (rule dict_keys_zip)
  have "distinct (dict_keys (zip ARCHIVES trees) @ map fst (bi_metadata b))" using review_names(1) by (simp add: kt b(2))
  from copies_filled [OF out this] review_names(3) b(2,3) obtain copies where
    c: "list_all2 (plain_input fs) (bi_metadata b) copies"
      "for_each (copy_metadata (at out)) (filled fs out (zip ARCHIVES trees)) (bi_metadata b) = Inr (filled fs out (zip ARCHIVES trees @ zip METADATA copies))"
    by auto
  let ?f2 = "zip ARCHIVES trees @ zip METADATA copies"
  have lc: "length copies = length METADATA" using list_all2_lengthD [OF c(1)] arg_cong [OF b(2), of length] by simp
  have k2: "dict_keys ?f2 = ARCHIVES @ METADATA" using kt dict_keys_zip [OF lc] by (simp add: dict_keys_def)
  obtain blobs where bl: "list_all2 (\<lambda>n. plain_input fs (n, at (dl @ [n]))) (bi_downloads b) blobs"
    using plain_inputs [OF b(4)] by blast
  have "distinct (dict_keys ?f2)" "''downloads.tar'' \<notin> set (dict_keys ?f2)" "''downloads.tar'' \<noteq> ''..''"
    using review_names(1) unfolding k2 by auto
  from archive_downloads_runs [OF out this(1,3,2) dl dots bl, of tar "bi_epoch b"] show thesis
    using that [OF c(1) bl k2 step1 c(2)] by simp
qed

text \<open>The end of a collection, whatever notices there are: the description, the license and the listing.\<close>

lemma closing_runs:
  assumes out: "fresh_out fs out" and d: "distinct (dict_keys files)" and ne: "list_all (\<lambda>(n, bs). bs \<noteq> []) files"
    and keys: "set (dict_keys files) \<subseteq> set (ARCHIVES @ METADATA @ [''downloads.tar'', ''source-review.json'', ''THIRD-PARTY-NOTICES.tar''])"
    and lic: "holds fs (child repo ''LICENSE'') license" "license \<noteq> []"
  shows "rbind (write_bytes (filled fs out files) (child (at out) ''README.txt'') review_readme) (\<lambda>fs.
     rbind (copyfile fs (child repo ''LICENSE'') (child (at out) ''PROJECT-LICENSE.txt'')) (\<lambda>fs.
     rbind (sum_lines source_digest fs (at out)) (\<lambda>sums.
     write_bytes fs (child (at out) ''SHA256SUMS'') sums))) =
     (let files = files @ [(''README.txt'', review_readme), (''PROJECT-LICENSE.txt'', license)] in
      Inr (filled fs out (files @ [(''SHA256SUMS'', listing_of files)])))"
proof -
  have new: "n \<notin> set (dict_keys files)" if "n \<in> {''README.txt'', ''PROJECT-LICENSE.txt'', ''SHA256SUMS'', ''..''}" for n
    using that keys unfolding ARCHIVES_def METADATA_def by auto
  let ?f6 = "files @ [(''README.txt'', review_readme)]"
  let ?f7 = "?f6 @ [(''PROJECT-LICENSE.txt'', license)]"
  have d6: "distinct (dict_keys ?f6)" "''PROJECT-LICENSE.txt'' \<notin> set (dict_keys ?f6)" and
    d7: "distinct (dict_keys ?f7)" "''..'' \<notin> set (dict_keys ?f7)" "''SHA256SUMS'' \<notin> set (dict_keys ?f7)"
    using d new by (simp_all add: dict_keys_def)
  have "list_all (\<lambda>(n, bs). bs \<noteq> []) ?f7" using ne lic(2) by (simp add: review_readme_def)
  note list = listing_runs [OF out d7(1,2) this]
  show ?thesis
    using filled_write(1) [OF out d _ new] filled_write(2) [OF out d6(1) _ d6(2)] filled_write(1) [OF out d7(1) _ d7(3)]
      list holds_filled [OF out lic(1)] by simp
qed

text \<open>What has been written when the notices are collected.\<close>

definition before_notices :: "(member list \<Rightarrow> bytes) \<Rightarrow> build_inputs \<Rightarrow> bytes list \<Rightarrow> bytes list \<Rightarrow> bytes list \<Rightarrow> bytes dict" where
  "before_notices tar b trees copies blobs =
     zip ARCHIVES trees @ zip METADATA copies
     @ [(''downloads.tar'', tar (download_members (bi_epoch b) (bi_downloads b) blobs)),
        (''source-review.json'', dumps True (review_report (bi_project b) (bi_commit b) (bi_feeds b) (bi_epoch b)
           (download_items (bi_downloads b) blobs)) @ [CHR 0x0A])]"

definition notices_result ::
  "stream \<Rightarrow> (member list \<Rightarrow> bytes) \<Rightarrow> fsys \<Rightarrow> ppath \<Rightarrow> ppath \<Rightarrow> ppath option \<Rightarrow> fsys result" where
  "notices_result stream tar fs downloads output selection =
     (case selection of
        None \<Rightarrow> Inr fs
      | Some p \<Rightarrow> notices_main id stream tar fs downloads p (child output ''THIRD-PARTY-NOTICES.tar'') (Some (child output ''source-review.json'')))"

lemma add_notices_result:
  "add_notices id stream tar fs dl output selection =
     (case notices_result stream tar fs dl output selection of
        Inl _ \<Rightarrow> Inl (SubprocessError ''collect-notices.py'') | Inr fs \<Rightarrow> Inr fs)"
  by (simp add: add_notices_def notices_result_def split: option.splits)

definition notice_archive :: "(member list \<Rightarrow> bytes) \<Rightarrow> ppath option \<Rightarrow> bytes dict \<Rightarrow> bool" where
  "notice_archive tar selection notices \<longleftrightarrow>
     (case selection of None \<Rightarrow> notices = [] | Some _ \<Rightarrow> \<exists>ms. notices = [(''THIRD-PARTY-NOTICES.tar'', tar ms)])"

lemma notices_result_Inr:
  assumes out: "fresh_out fs out" and d: "distinct (dict_keys files)"
    and ok: "notices_result stream tar (filled fs out files) dl (at out) selection = Inr fs'"
  obtains notices where "notice_archive tar selection notices" "fs' = filled fs out (files @ notices)" "distinct (dict_keys (files @ notices))"
proof (cases selection)
  case None
  then show thesis using ok d that [of "[]"] by (simp add: notices_result_def notice_archive_def)
next
  case (Some p)
  let ?n = "''THIRD-PARTY-NOTICES.tar''"
  obtain ms where "open_xb (filled fs out files) (at (out @ [?n])) (tar ms) = Inr fs'"
    using ok Some notices_main_opens by (fastforce simp: notices_result_def)
  from filled_open [OF out d _ this] have "?n \<notin> set (dict_keys files) \<and> fs' = filled fs out (files @ [(?n, tar ms)])" by simp
  moreover have "notice_archive tar selection [(?n, tar ms)]" unfolding notice_archive_def Some option.case by blast
  ultimately show thesis using d that [of "[(?n, tar ms)]"] by (simp add: dict_keys_def)
qed

lemma notice_archive_keys: "notice_archive tar selection notices \<Longrightarrow> set (dict_keys notices) \<subseteq> {''THIRD-PARTY-NOTICES.tar''}"
  by (auto simp: notice_archive_def dict_keys_def split: option.splits)

lemma review_files_before:
  "review_files tar b trees copies blobs notices license =
     before_notices tar b trees copies blobs @ notices @ [(''README.txt'', review_readme), (''PROJECT-LICENSE.txt'', license)]"
  by (simp add: review_files_def before_notices_def)

lemma collect_runs:
  assumes out: "fresh_out fs out" and chk: "check_inputs git fs repo source (at dl) artifacts selection = Inr b"
    and outside: "any_result (inside fs (at out)) [source, at dl] = Inr False" and dl: "real_dir fs dl"
    and ans: "list_all2 (answered git fs) (checkouts repo source b) trees" and tar: "\<forall>ms. tar ms \<noteq> []"
    and lic: "holds fs (child repo ''LICENSE'') license" "license \<noteq> []"
  shows "\<exists>copies blobs. list_all2 (plain_input fs) (bi_metadata b) copies \<and>
    list_all2 (\<lambda>n. plain_input fs (n, child (at dl) n)) (bi_downloads b) blobs \<and>
    (let run = collect_source_review git id stream tar fs repo source (at dl) artifacts (at out) selection;
         before = before_notices tar b trees copies blobs in
     case notices_result stream tar (filled fs out before) (at dl) (at out) selection of
       Inl _ \<Rightarrow> run = Inl (SubprocessError ''collect-notices.py'')
     | Inr fs1 \<Rightarrow> \<exists>notices. notice_archive tar selection notices \<and> fs1 = filled fs out (before @ notices) \<and>
         (let files = review_files tar b trees copies blobs notices license in
          run = Inr (filled fs out (files @ [(''SHA256SUMS'', listing_of files)]))))"
proof -
  from inputs_run [OF out check_inputs_Inr [OF chk] dl ans, of tar] obtain copies blobs where
    c: "list_all2 (plain_input fs) (bi_metadata b) copies" and bl: "list_all2 (\<lambda>n. plain_input fs (n, at (dl @ [n]))) (bi_downloads b) blobs"
    and k2: "dict_keys (zip ARCHIVES trees @ zip METADATA copies) = ARCHIVES @ METADATA"
    and steps: "for_each (archive_one git (at out)) (make_out fs out) (checkouts repo source b) = Inr (filled fs out (zip ARCHIVES trees))"
      "for_each (copy_metadata (at out)) (filled fs out (zip ARCHIVES trees)) (bi_metadata b)
         = Inr (filled fs out (zip ARCHIVES trees @ zip METADATA copies))"
      "archive_downloads id tar (filled fs out (zip ARCHIVES trees @ zip METADATA copies)) (at dl) (bi_downloads b)
           (at (out @ [''downloads.tar''])) (bi_epoch b)
         = Inr (filled fs out (zip ARCHIVES trees @ zip METADATA copies @ [(''downloads.tar'', tar (download_members (bi_epoch b) (bi_downloads b) blobs))]),
             download_items (bi_downloads b) blobs)" .
  let ?before = "before_notices tar b trees copies blobs"
  let ?f3 = "zip ARCHIVES trees @ zip METADATA copies @ [(''downloads.tar'', tar (download_members (bi_epoch b) (bi_downloads b) blobs))]"
  let ?report = "dumps True (review_report (bi_project b) (bi_commit b) (bi_feeds b) (bi_epoch b) (download_items (bi_downloads b) blobs)) @ [CHR 0x0A]"
  let ?run = "collect_source_review git id stream tar fs repo source (at dl) artifacts (at out) selection"
  have f4: "?before = ?f3 @ [(''source-review.json'', ?report)]" by (simp add: before_notices_def)
  have k4: "dict_keys ?before = ARCHIVES @ METADATA @ [''downloads.tar'', ''source-review.json'']"
    using k2 by (simp add: dict_keys_def before_notices_def)
  have d4: "distinct (dict_keys ?before)" using review_names(1) by (simp only: k4)
  then have d3: "distinct (dict_keys ?f3)" "''source-review.json'' \<notin> set (dict_keys ?f3)" unfolding f4 by (simp_all add: dict_keys_def)
  have "list_all (\<lambda>(n, bs). bs \<noteq> []) (zip ARCHIVES trees)" "list_all (\<lambda>(n, bs). bs \<noteq> []) (zip METADATA copies)"
    using ans c by (auto intro!: nonempty_values simp: answered_def plain_input_def elim!: list.rel_mono_strong)
  then have ne: "list_all (\<lambda>(n, bs). bs \<noteq> []) ?before" using tar by (simp add: before_notices_def)
  have run: "?run = rbind (add_notices id stream tar (filled fs out ?before) (at dl) (at out) selection) (\<lambda>fs.
          rbind (write_bytes fs (child (at out) ''README.txt'') review_readme) (\<lambda>fs.
          rbind (copyfile fs (child repo ''LICENSE'') (child (at out) ''PROJECT-LICENSE.txt'')) (\<lambda>fs.
          rbind (sum_lines source_digest fs (at out)) (\<lambda>sums.
          write_bytes fs (child (at out) ''SHA256SUMS'') sums))))"
    unfolding collect_unfold outside chk rbind_Inr make_out(1) [OF out] f4
    using fresh_not_exists(1,2) [OF out] steps filled_write(1) [OF out d3(1) _ d3(2)] by simp
  have "case notices_result stream tar (filled fs out ?before) (at dl) (at out) selection of
       Inl _ \<Rightarrow> ?run = Inl (SubprocessError ''collect-notices.py'')
     | Inr fs1 \<Rightarrow> \<exists>notices. notice_archive tar selection notices \<and> fs1 = filled fs out (?before @ notices) \<and>
         (let files = review_files tar b trees copies blobs notices license in
          ?run = Inr (filled fs out (files @ [(''SHA256SUMS'', listing_of files)])))"
  proof (cases "notices_result stream tar (filled fs out ?before) (at dl) (at out) selection")
    case (Inl e)
    then show ?thesis by (simp add: run add_notices_result)
  next
    case (Inr fs1)
    from notices_result_Inr [OF out d4 Inr] obtain notices where n: "notice_archive tar selection notices"
      "fs1 = filled fs out (?before @ notices)" "distinct (dict_keys (?before @ notices))" .
    have "list_all (\<lambda>(n, bs). bs \<noteq> []) notices" using n(1) tar by (auto simp: notice_archive_def split: option.splits)
    then have ne': "list_all (\<lambda>(n, bs). bs \<noteq> []) (?before @ notices)" using ne by simp
    have "dict_keys (?before @ notices) = dict_keys ?before @ dict_keys notices" by (simp add: dict_keys_def)
    then have keys: "set (dict_keys (?before @ notices)) \<subseteq> set (ARCHIVES @ METADATA @ [''downloads.tar'', ''source-review.json'', ''THIRD-PARTY-NOTICES.tar''])"
      using k4 notice_archive_keys [OF n(1)] by (simp only: set_append) auto
    have "?run = (let files = review_files tar b trees copies blobs notices license in
        Inr (filled fs out (files @ [(''SHA256SUMS'', listing_of files)])))"
      unfolding run add_notices_result Inr sum.case rbind_Inr n(2) closing_runs [OF out n(3) ne' keys lic] review_files_before append_assoc ..
    then show ?thesis unfolding Inr sum.case using n(1,2) by (auto simp: Let_def)
  qed
  with c bl show ?thesis unfolding child_at Let_def by blast
qed


subsection \<open>A run\<close>

text \<open>A small build: one commit everywhere, and a manifest that is left open.\<close>

definition one_commit :: string where "one_commit = replicate 40 (CHR ''a'')"

definition one_line :: "string \<Rightarrow> string" where "one_line l = l @ [CHR 0x0A]"

definition build_disk :: "string \<Rightarrow> fsys" where
  "build_disk manifest = \<lparr>fs_entries =
     [([''r''], Dir 493), ([''r'', ''LICENSE''], File 420 ''MIT''),
      ([''r'', ''openwrt.lock''], File 420 (one_line (''OPENWRT_COMMIT='' @ one_commit))),
      ([''r'', ''feeds.lock''], File 420 (concat (map (\<lambda>n. one_line (n @ ''|https://example.org|'' @ one_commit)) source_feeds))),
      ([''s''], Dir 493), ([''s'', ''.git''], Dir 493), ([''s'', ''.git'', ''ls420d-managed''], File 420 []), ([''s'', ''.config''], File 420 ''c''),
      ([''s'', ''tmp''], Dir 493), ([''s'', ''tmp'', ''.packageinfo''], File 420 ''p''), ([''s'', ''tmp'', ''.targetinfo''], File 420 ''t''),
      ([''s'', ''build_dir''], Dir 493), ([''s'', ''build_dir'', ''target-a''], Dir 493), ([''s'', ''build_dir'', ''target-a'', ''linux-b''], Dir 493),
      ([''s'', ''build_dir'', ''target-a'', ''linux-b'', ''linux-c''], Dir 493),
      ([''s'', ''build_dir'', ''target-a'', ''linux-b'', ''linux-c'', ''.config''], File 420 ''k''),
      ([''a''], Dir 493), ([''a'', ''packages.manifest''], File 420 ''p''), ([''a'', ''build.manifest''], File 420 manifest),
      ([''a'', ''upstream-delta.patch''], File 420 ''d''), ([''a'', ''runner.txt''], File 420 ''r''),
      ([''d''], Dir 493), ([''d'', ''x.tar''], File 420 ''x'')], cwd = [], umask = 18\<rparr>"

definition one_git :: git where
  "one_git fs root args = Inr
     (if hd args = ''rev-parse'' then one_line one_commit else if hd args = ''show'' then one_line ''0''
      else if hd args = ''archive'' then ''tar'' else [])"

definition build_fields :: "string dict" where
  "build_fields = expected_fields one_commit one_commit (sha256_hex ''c'') 0"

definition build_text :: string where "build_text = fields_text build_fields"

definition one_build :: build_inputs where
  "one_build = \<lparr>bi_commit = one_commit, bi_feeds = map (\<lambda>n. (n, one_commit)) source_feeds, bi_project = one_commit, bi_epoch = 0,
     bi_metadata = metadata (at [''s'']) (at [''a'']) (at [''s'', ''build_dir'', ''target-a'', ''linux-b'', ''linux-c'', ''.config'']),
     bi_downloads = [''x.tar'']\<rparr>"

lemma build_disk_facts:
  "closed_entries (build_disk m)"
  "is_file (build_disk m) (at [''s'', ''.git'', ''ls420d-managed''])"
  "read_locks (build_disk m) (at [''r'']) = Inr (one_commit, map (\<lambda>n. (n, one_commit)) source_feeds)"
  "linux_configs (build_disk m) (at [''s'']) = [at [''s'', ''build_dir'', ''target-a'', ''linux-b'', ''linux-c'', ''.config'']]"
  "download_inputs (build_disk m) (at [''d'']) = Inr [''x.tar'']"
  "any_result (inside (build_disk m) (at [''o''])) [at [''s''], at [''d'']] = Inr False"
  by code_simp+

lemma build_disk_nodes:
  "nodes (build_disk m) [''o''] = None" "nodes (build_disk m) [''d''] = Some (Dir 493)" "nodes (build_disk m) [''a''] = Some (Dir 493)"
  "nodes (build_disk m) [''s''] = Some (Dir 493)" "nodes (build_disk m) [''r''] = Some (Dir 493)"
  "nodes (build_disk m) [''a'', ''build.manifest''] = Some (File 420 m)" "nodes (build_disk m) [''s'', ''.config''] = Some (File 420 ''c'')"
  "nodes (build_disk m) [''r'', ''LICENSE''] = Some (File 420 ''MIT'')"
  by code_simp+

lemma one_git_facts:
  "git_text one_git fs root [''status'', ''--porcelain''] = Inr []" "git_text one_git fs root [''rev-parse'', ''HEAD''] = Inr one_commit"
  "git_text one_git fs root [''show'', ''-s'', ''--format=%ct'', e] = Inr ''0''" "py_int ''0'' = Inr 0" "fullmatch SHA1 one_commit"
  "one_git fs root [''archive'', ''--format=tar'', e] = Inr ''tar''"
  by code_simp+

lemma build_metadata:
  "list_all (\<lambda>(n, p). n = ''build.manifest'' \<or> regular (build_disk m) p = Inr ()) (bi_metadata one_build)"
  by code_simp

lemma build_text_lines: "plain_fields build_fields" "build_text \<noteq> []"
proof -
  have "list_all printable (sha256_hex ''c'')" using sha256_hex_form by (rule digest_printable)
  moreover have "list_all printable one_commit" "list_all printable (str_int 0)" "distinct (map fst build_fields)"
    "list_all (\<lambda>(k, v). list_all printable k \<and> CHR ''='' \<notin> set k) build_fields"
    by (simp_all add: build_fields_def expected_fields_def) code_simp+
  ultimately show "plain_fields build_fields" by (simp add: plain_fields_def dict_keys_def build_fields_def expected_fields_def)
  show "build_text \<noteq> []" by (simp add: build_text_def fields_text_def build_fields_def expected_fields_def)
qed

lemma build_dirs:
  "real_dir (build_disk m) [''d'']" "real_dir (build_disk m) [''a'']" "real_dir (build_disk m) [''s'']" "real_dir (build_disk m) [''r'']"
  using real_dir_snoc [of "build_disk m" "[]"] build_disk_nodes by simp_all

lemma build_holds:
  "holds (build_disk m) (at [''a'', ''build.manifest'']) m" "holds (build_disk m) (at [''s'', ''.config'']) ''c''"
  "holds (build_disk m) (at [''r'', ''LICENSE'']) ''MIT''"
  using holds_child [OF build_dirs(2), of "''build.manifest''" m] holds_child [OF build_dirs(3), of "''.config''" _ "''c''"]
    holds_child [OF build_dirs(4), of "''LICENSE''" _ "''MIT''"] build_disk_nodes by simp_all

lemma for_each_pairs: "list_all (\<lambda>(n, p). f p = Inr ()) xs \<Longrightarrow> for_each (\<lambda>_ (n, p). f p) () xs = Inr ()"
  by (induction xs) auto

lemma build_checked:
  "check_inputs one_git (build_disk build_text) (at [''r'']) (at [''s'']) (at [''d'']) (at [''a'']) None = Inr one_build"
proof -
  let ?fs = "build_disk build_text"
  have "regular ?fs (at [''a'', ''build.manifest'']) = Inr ()"
    unfolding regular_Inr using build_holds(1) build_text_lines(2) by blast
  then have "list_all (\<lambda>(n, p). regular ?fs p = Inr ()) (bi_metadata one_build)"
    using build_metadata [of build_text] by (simp add: one_build_def metadata_def)
  then have "for_each (\<lambda>_ (n, p). regular ?fs p) () (bi_metadata one_build) = Inr ()" by (rule for_each_pairs)
  moreover have "read_fields ''duplicate build manifest field'' ?fs (at [''a'', ''build.manifest'']) = Inr build_fields"
    using holds_read [OF build_holds(1)] build_text_lines(1) by (intro read_fields_written) (simp_all add: build_text_def)
  moreover have "source_digest ?fs (at [''s'', ''.config'']) = Inr (sha256_hex ''c'')"
    unfolding source_digest_Inr using build_holds(2) by blast
  moreover have "\<not> list_ex (\<lambda>(k, v). map_of build_fields k \<noteq> Some v) build_fields"
    by (simp add: build_fields_def expected_fields_def)
  ultimately show ?thesis
    using build_disk_facts [of build_text] one_git_facts
    by (simp add: check_inputs_def one_build_def build_fields_def [symmetric])
qed

lemma build_fresh: "fresh_out (build_disk m) [''o'']"
  using build_disk_facts(1) build_disk_nodes(1) closed_entries by (simp add: fresh_out_def)

lemma build_answers:
  "list_all2 (answered one_git fs) (checkouts (at [''r'']) (at [''s'']) one_build) (replicate 7 ''tar'')"
proof -
  have "sort_key fst (bi_feeds one_build) = map (\<lambda>n. (n, one_commit)) [''luci'', ''packages'', ''routing'', ''telephony'', ''video'']"
    by code_simp
  then show ?thesis
    using one_git_facts by (simp add: checkouts_def answered_def one_build_def numeral_eq_Suc)
qed

definition no_stream :: stream where
  "no_stream zst raw = ([], Inr ())"

lemma build_run:
  obtains fs' where "collect_source_review one_git id no_stream (\<lambda>_. ''tar'') (build_disk build_text) (at [''r'']) (at [''s'']) (at [''d''])
     (at [''a'']) (at [''o'']) None = Inr fs'"
  using collect_runs [OF build_fresh build_checked build_disk_facts(6) build_dirs(1) build_answers, of "\<lambda>_. ''tar''" "''MIT''" no_stream]
    build_holds(3) by (auto simp: Let_def notices_result_def)

theorem collect_exact_witness:
  "\<exists>fs' files. collect_source_review one_git id no_stream (\<lambda>_. ''tar'') (build_disk build_text) (at [''r'']) (at [''s'']) (at [''d''])
     (at [''a'']) (at [''o'']) None = Inr fs' \<and>
     collected one_git (\<lambda>_. ''tar'') (build_disk build_text) (at [''r'']) (at [''s'']) (at [''d'']) None one_build files \<and>
     fs' = filled (build_disk build_text) [''o''] (files @ [(''SHA256SUMS'', listing_of files)])"
proof -
  obtain fs' where run: "collect_source_review one_git id no_stream (\<lambda>_. ''tar'') (build_disk build_text) (at [''r'']) (at [''s'']) (at [''d''])
     (at [''a'']) (at [''o'']) None = Inr fs'" by (rule build_run)
  then show ?thesis
    using collect_exact [OF build_fresh [of build_text], where git = one_git and tar = "\<lambda>_. ''tar''" and selection = None
        and repo = "at [''r'']" and source = "at [''s'']" and downloads = "at [''d'']" and artifacts = "at [''a'']" and stream = no_stream]
      build_checked by auto
qed


end
