(* ===== verification/Initrd_Main.thy ===== *)
theory Initrd_Main
  imports Make_Initrd Py_Loads Plain_Dirs
begin

text \<open>
  \<open>main\<close> of \<open>scripts/make_initrd.py\<close>: the configuration is read, the companion is built, and it
  is written to a new file. The lemmas show what a run leaves behind.
\<close>

text \<open>
  The options: \<open>--example\<close> is \<open>None\<close>, \<open>--config\<close> a path. \<open>project\<close> is the directory the example
  is found in. The result is the file system and the lines that are printed.
\<close>

definition config_path :: "ppath \<Rightarrow> ppath option \<Rightarrow> ppath" where
  "config_path project config =
     (case config of None \<Rightarrow> child (child project ''examples'') ''example.json'' | Some p \<Rightarrow> p)"

definition read_config :: "fsys \<Rightarrow> ppath \<Rightarrow> json result" where
  "read_config fs p = rbind (rbind (read_bytes fs p) read_text) loads"

definition initrd_lines :: "bytes \<Rightarrow> ppath \<Rightarrow> bool \<Rightarrow> string list" where
  "initrd_lines blob output example =
     (sha256_hex blob @ '' '' @ p_name output)
     # (if example then [] else [''PRIVATE: contains a recoverable host key. Do not publish this image.''])"

definition initrd_main :: "fsys \<Rightarrow> ppath \<Rightarrow> ppath option \<Rightarrow> ppath \<Rightarrow> (fsys \<times> string list) result" where
  "initrd_main fs project config output =
     (let path = config_path project config; example = (config = None) in
      rbind (read_config fs path) (\<lambda>j.
      rbind (image fs j (p_parent path) example) (\<lambda>blob.
      let fs = fs\<lparr>umask := 63\<rparr> in
      rbind (mkdir_parents True fs (p_parent output)) (\<lambda>fs.
      rbind (open_xb fs output blob) (\<lambda>fs.
      Inr (fs, initrd_lines blob output example))))))"

subsection \<open>What is created\<close>

text \<open>Nodes have been added, every one of them of the given kind.\<close>

definition adds_only :: "(node \<Rightarrow> bool) \<Rightarrow> fsys \<Rightarrow> fsys \<Rightarrow> bool" where
  "adds_only kind fs fs' \<longleftrightarrow> umask fs' = umask fs \<and> cwd fs' = cwd fs \<and>
     (\<forall>l. nodes fs' l = nodes fs l \<or> nodes fs l = None \<and> (\<exists>n. nodes fs' l = Some n \<and> kind n))"

lemma adds_only_refl: "adds_only kind fs fs"
  by (simp add: adds_only_def)

lemma adds_only_trans: "adds_only kind a b \<Longrightarrow> adds_only kind b c \<Longrightarrow> adds_only kind a c"
  unfolding adds_only_def by (metis option.distinct(1))

lemma create_adds:
  assumes "create fs p n = Inr fs'" "kind n"
  shows "adds_only kind fs fs'" "\<exists>loc. resolve fs False p = Inr loc \<and> loc \<noteq> [] \<and> nodes fs loc = None \<and> fs' = fs_put loc n fs"
proof -
  show "\<exists>loc. resolve fs False p = Inr loc \<and> loc \<noteq> [] \<and> nodes fs loc = None \<and> fs' = fs_put loc n fs"
    using assms(1) by (rule create_new)
  then show "adds_only kind fs fs'" using assms(2) by (auto simp: adds_only_def split: if_splits)
qed

lemma mkdir_adds: "mkdir ok fs p = Inr fs' \<Longrightarrow> adds_only (\<lambda>n. n = Dir (perm_for fs 511)) fs fs'"
  by (auto simp: mkdir_def tolerate_def os_mkdir_def adds_only_refl split: sum.splits if_splits intro: create_adds(1))

lemma mkdir_at_adds: "mkdir_at k ok fs p = Inr fs' \<Longrightarrow> adds_only (\<lambda>n. n = Dir (perm_for fs 511)) fs fs'"
proof (induction k ok fs p arbitrary: fs' rule: mkdir_at.induct)
  case (1 ok fs p)
  then show ?case by (simp add: mkdir_adds)
next
  case (2 k ok fs p)
  show ?case
  proof (cases "os_mkdir fs p")
    case (Inr fs1)
    then show ?thesis using 2(2) by (auto simp: os_mkdir_def intro: create_adds(1))
  next
    case (Inl e)
    show ?thesis
    proof (cases "e = ENOENT")
      case True
      then obtain fs1 where f: "mkdir_at k True fs (p\<lparr>p_tail := butlast (p_tail p)\<rparr>) = Inr fs1" "mkdir ok fs1 p = Inr fs'"
        using 2(2) Inl by (auto simp: rbind_eq_Inr)
      have a: "adds_only (\<lambda>n. n = Dir (perm_for fs 511)) fs fs1" using 2(1) [OF Inl True f(1)] .
      then have "perm_for fs1 511 = perm_for fs 511" by (simp add: adds_only_def perm_for_def)
      then show ?thesis using a mkdir_adds [OF f(2)] adds_only_trans by simp
    next
      case False
      then show ?thesis using 2(2) Inl by (auto simp: tolerate_def adds_only_refl split: if_splits)
    qed
  qed
qed

lemma private_perms: "umask fs = 63 \<Longrightarrow> perm_for fs 511 = 448" "umask fs = 63 \<Longrightarrow> perm_for fs 438 = 384"
  by (simp_all add: perm_for_def)

text \<open>
  C26: A companion is never written over anything, and never readable for others. When \<open>main\<close>
  succeeds, the configuration was accepted and the image built from the files as they were; the
  output is a file that was not there, not even as a link, with the image in it and mode 0600;
  everything else that has been created are directories with mode 0700, and nothing that existed
  has changed. A private image is announced as such.
\<close>

theorem initrd_main_private:
  "case initrd_main fs project config output of
     Inl _ \<Rightarrow> True
   | Inr (fs', printed) \<Rightarrow> \<exists>j blob fs1 loc.
       read_config fs (config_path project config) = Inr j \<and>
       image fs j (p_parent (config_path project config)) (config = None) = Inr blob \<and>
       adds_only (\<lambda>n. n = Dir 448) (fs\<lparr>umask := 63\<rparr>) fs1 \<and>
       resolve fs1 False output = Inr loc \<and> loc \<noteq> [] \<and> nodes fs1 loc = None \<and>
       fs' = fs_put loc (File 384 blob) fs1 \<and>
       printed = (sha256_hex blob @ '' '' @ p_name output)
         # (if config = None then [] else [''PRIVATE: contains a recoverable host key. Do not publish this image.''])"
proof (cases "initrd_main fs project config output")
  case (Inr res)
  then obtain j blob fs1 fs' where r: "read_config fs (config_path project config) = Inr j"
    "image fs j (p_parent (config_path project config)) (config = None) = Inr blob"
    "mkdir_parents True (fs\<lparr>umask := 63\<rparr>) (p_parent output) = Inr fs1" "open_xb fs1 output blob = Inr fs'"
    "res = (fs', initrd_lines blob output (config = None))"
    by (auto simp: initrd_main_def Let_def rbind_eq_Inr)
  have "adds_only (\<lambda>n. n = Dir (perm_for (fs\<lparr>umask := 63\<rparr>) 511)) (fs\<lparr>umask := 63\<rparr>) fs1"
    using r(3) unfolding mkdir_parents_def by (rule mkdir_at_adds)
  then have a: "adds_only (\<lambda>n. n = Dir 448) (fs\<lparr>umask := 63\<rparr>) fs1" by (simp add: private_perms)
  then have "perm_for fs1 438 = 384" by (simp add: adds_only_def private_perms)
  then have "create fs1 output (File 384 blob) = Inr fs'" using r(4) by (simp add: open_xb_def)
  from create_adds(2) [OF this, of "\<lambda>_. True"] obtain loc where loc:
    "resolve fs1 False output = Inr loc" "loc \<noteq> []" "nodes fs1 loc = None" "fs' = fs_put loc (File 384 blob) fs1" by auto
  show ?thesis unfolding Inr sum.case r(5) prod.case initrd_lines_def using r(1,2) a loc by blast
qed simp

end
