(* ===== verification/Json_Fuel.thy ===== *)
theory Json_Fuel
  imports Py_Loads
begin

text \<open>
  The recursion of \<open>json.loads\<close> ends: every value takes something from the text, so fuel of
  twice the length of the text is never used up, and more of it changes nothing.
\<close>

subsection \<open>Every value takes something\<close>

lemma json_ws_length: "length (json_ws s) \<le> length s"
  by (simp add: json_ws_def length_dropWhile_le)

lemma hex4_length: "hex4 s = Some (n, t) \<Longrightarrow> length s = length t + 4"
  by (induction s rule: hex4.induct) (auto split: option.splits)

lemma unescape_length: "unescape_unicode s = Some (p, t) \<Longrightarrow> length t \<le> length s"
  by (auto simp: unescape_unicode_def split: option.splits if_splits dest!: hex4_length)

lemma loads_str_length: "loads_str k s = Some (p, t) \<Longrightarrow> length t < length s"
proof (induction k s arbitrary: p t rule: loads_str.induct)
  case (3 k c s)
  show ?case
  proof (cases "c = CHR 0x22 \<or> c \<noteq> backslash")
    case True
    then show ?thesis using 3(2) [of t] "3.IH"(2) "3.prems" by (fastforce split: if_splits)
  next
    case False
    then obtain e r where s: "s = e # r" using "3.prems" by (cases s) (auto simp: backslash_def)
    let ?d = "if e = CHR ''u'' then unescape_unicode r else map_option (\<lambda>d. ([d], r)) (map_of short_unescapes e)"
    obtain q u v where d: "?d = Some (q, u)" "loads_str k u = Some (v, t)"
      using "3.prems" False s by (auto simp: backslash_def split: option.splits)
    then have "length u \<le> length r" by (auto split: if_splits dest: unescape_length)
    moreover have "length t < length u" using "3.IH"(1) False s d by (auto simp: backslash_def)
    ultimately show ?thesis using s by simp
  qed
qed simp_all

lemma loads_number_length: "loads_number s = Some (j, t) \<Longrightarrow> length t < length s"
proof -
  assume ok: "loads_number s = Some (j, t)"
  define sg where "sg = (if startswith ''-'' s then ''-'' else [])"
  define u where "u = drop (length sg) s"
  define digits where "digits = (if startswith ''0'' u then ''0'' else takeWhile is_dec u)"
  have "loads_number s = (let v = drop (length digits) u; frac = take_frac v; w = drop (length frac) v; ex = take_exp w
      in if digits = [] then None
         else if frac = [] \<and> ex = [] then Some (JInt (if sg = [] then dec_value digits else - dec_value digits), v)
         else Some (JFloat (sg @ digits @ frac @ ex), drop (length ex) w))"
    by (simp only: loads_number_def sg_def u_def digits_def Let_def)
  then have d: "digits \<noteq> []" "length t \<le> length (drop (length digits) u)"
    using ok by (auto simp: Let_def split: if_splits)
  have "u \<noteq> []" using d(1) by (auto simp: digits_def startswith_def split: if_splits)
  then have "length t < length u" using d by (cases digits) (auto simp: neq_Nil_conv)
  then show ?thesis by (simp add: u_def)
qed

lemma json_words_length: "(w, j) # ws = filter (\<lambda>(w, j). startswith w s) json_words \<Longrightarrow> length (drop (length w) s) < length s"
proof -
  assume "(w, j) # ws = filter (\<lambda>(w, j). startswith w s) json_words"
  then have "(w, j) \<in> set (filter (\<lambda>(w, j). startswith w s) json_words)" by (metis list.set_intros(1))
  moreover have "list_all (\<lambda>(w, j). w \<noteq> []) json_words" by code_simp
  ultimately have "w \<noteq> []" "startswith w s" by (auto simp: list_all_iff)
  then show ?thesis by (cases s) (auto simp: startswith_def neq_Nil_conv)
qed

lemma json_ws_tl: "startswith [c] (json_ws s) \<Longrightarrow> length (tl (json_ws s)) < length s"
  using json_ws_length [of s] by (cases "json_ws s") (auto simp: startswith_def)

lemma json_ws_tl': "length (json_ws (tl u)) \<le> length u - 1"
  using json_ws_length [of "tl u"] by simp

text \<open>A value that was read is not empty, when the readers it calls consume something.\<close>

lemma loads_value_shorter:
  assumes ok: "loads_value (Suc k) s = Some (j, t)"
    and i: "\<And>s xs t. loads_items k s = Some (xs, t) \<Longrightarrow> length t < length s"
    and m: "\<And>s ps t. loads_members k s = Some (ps, t) \<Longrightarrow> length t < length s"
  shows "length t < length s"
proof -
  obtain c r where s: "s = c # r" using ok by (cases s) auto
  consider "c = CHR 0x22" | "c = CHR 0x5B" | "c = CHR 0x7B" | "c \<notin> {CHR 0x22, CHR 0x5B, CHR 0x7B}" by blast
  then show ?thesis
  proof cases
    case 1
    then show ?thesis using ok s by (auto dest: loads_str_length)
  next
    case 2
    then show ?thesis
      using ok s json_ws_tl [of "CHR 0x5D" r] json_ws_length [of r] by (fastforce simp: Let_def split: if_splits dest: i)
  next
    case 3
    then show ?thesis
      using ok s json_ws_tl [of "CHR 0x7D" r] json_ws_length [of r] by (fastforce simp: Let_def split: if_splits dest: m)
  next
    case 4
    have eq: "loads_value (Suc k) s = (case filter (\<lambda>(w, j). startswith w s) json_words of
        (w, j) # _ \<Rightarrow> Some (j, drop (length w) s) | [] \<Rightarrow> loads_number s)" using 4 unfolding s by simp
    show ?thesis
    proof (cases "filter (\<lambda>(w, j). startswith w s) json_words")
      case Nil
      then show ?thesis using ok unfolding eq by (simp add: loads_number_length)
    next
      case (Cons p ps)
      obtain w j' where p: "p = (w, j')" by (cases p)
      have "t = drop (length w) s" using ok Cons unfolding eq p by simp
      then show ?thesis using json_words_length [of w j' ps s] Cons p by simp
    qed
  qed
qed

lemma loads_lengths:
  "(\<forall>s j t. loads_value k s = Some (j, t) \<longrightarrow> length t < length s) \<and>
   (\<forall>s xs t. loads_items k s = Some (xs, t) \<longrightarrow> length t < length s) \<and>
   (\<forall>s ps t. loads_members k s = Some (ps, t) \<longrightarrow> length t < length s)"
proof (induction k)
  case (Suc k)
  have v: "\<And>s j t. loads_value k s = Some (j, t) \<Longrightarrow> length t < length s"
    and i: "\<And>s xs t. loads_items k s = Some (xs, t) \<Longrightarrow> length t < length s"
    and m: "\<And>s ps t. loads_members k s = Some (ps, t) \<Longrightarrow> length t < length s" using Suc by blast+
  have "length t < length s" if ok: "loads_value (Suc k) s = Some (j, t)" for s j t
    using ok by (rule loads_value_shorter) (fact i, fact m)
  moreover have "length t < length s" if ok: "loads_items (Suc k) s = Some (xs, t)" for s xs t
  proof -
    obtain j r where r: "loads_value k s = Some (j, r)" using ok by (auto split: option.splits)
    note lr = v [OF r] json_ws_length [of r] json_ws_tl' [of "json_ws r"]
    show ?thesis using ok r lr by (fastforce simp: Let_def split: if_splits dest: i)
  qed
  moreover have "length t < length s" if ok: "loads_members (Suc k) s = Some (ps, t)" for s ps t
  proof -
    obtain key r where r: "loads_str (Suc (length s)) (tl s) = Some (key, r)" using ok by (auto split: option.splits if_splits)
    then obtain j u where u: "loads_value k (json_ws (tl (json_ws r))) = Some (j, u)"
      using ok by (auto simp: Let_def split: option.splits if_splits)
    note lr = loads_str_length [OF r] v [OF u] json_ws_length [of r] json_ws_length [of u] json_ws_tl' [of "json_ws r"] json_ws_tl' [of "json_ws u"]
    show ?thesis using ok r u lr by (fastforce simp: Let_def split: if_splits dest: m)
  qed
  ultimately show ?case by blast
qed simp

lemmas loads_value_length = conjunct1 [OF loads_lengths, rule_format]
lemmas loads_items_length = conjunct1 [OF conjunct2 [OF loads_lengths], rule_format]
lemmas loads_members_length = conjunct2 [OF conjunct2 [OF loads_lengths], rule_format]

subsection \<open>The fuel is enough\<close>

lemma loads_more_fuel:
  "(\<forall>s. 2 * length s + 1 \<le> k \<longrightarrow> loads_value (Suc k) s = loads_value k s) \<and>
   (\<forall>s. 2 * length s + 2 \<le> k \<longrightarrow> loads_items (Suc k) s = loads_items k s) \<and>
   (\<forall>s. 2 * length s + 2 \<le> k \<longrightarrow> loads_members (Suc k) s = loads_members k s)"
proof (induction k)
  case (Suc k)
  have v: "\<And>s. 2 * length s + 1 \<le> k \<Longrightarrow> loads_value (Suc k) s = loads_value k s"
    and i: "\<And>s. 2 * length s + 2 \<le> k \<Longrightarrow> loads_items (Suc k) s = loads_items k s"
    and m: "\<And>s. 2 * length s + 2 \<le> k \<Longrightarrow> loads_members (Suc k) s = loads_members k s" using Suc by blast+
  have "loads_value (Suc (Suc k)) s = loads_value (Suc k) s" if k: "2 * length s + 1 \<le> Suc k" for s
  proof (cases s)
    case (Cons c r)
    have "2 * length (json_ws r) + 2 \<le> k" using k Cons json_ws_length [of r] by simp
    then show ?thesis using i [of "json_ws r"] m [of "json_ws r"]
      unfolding loads_value.simps(2) [of "Suc k"] loads_value.simps(2) [of k] Cons by (simp add: Let_def del: loads_value.simps loads_items.simps loads_members.simps)
  qed simp
  moreover have "loads_items (Suc (Suc k)) s = loads_items (Suc k) s" if k: "2 * length s + 2 \<le> Suc k" for s
  proof (cases "loads_value k s")
    case None
    then show ?thesis using v [of s] k unfolding loads_items.simps(2) [of "Suc k"] loads_items.simps(2) [of k] by simp
  next
    case (Some p)
    obtain j r where p: "p = (j, r)" by (cases p)
    have "2 * length (json_ws (tl (json_ws r))) + 2 \<le> k"
      using k loads_value_length [of k s j r] Some p json_ws_length [of r] json_ws_tl' [of "json_ws r"] by simp
    then show ?thesis using v [of s] i [of "json_ws (tl (json_ws r))"] k Some p
      unfolding loads_items.simps(2) [of "Suc k"] loads_items.simps(2) [of k]
      by (simp add: Let_def del: loads_value.simps loads_items.simps loads_members.simps)
  qed
  moreover have "loads_members (Suc (Suc k)) s = loads_members (Suc k) s" if k: "2 * length s + 2 \<le> Suc k" for s
  proof (cases "loads_str (Suc (length s)) (tl s)")
    case None
    then show ?thesis unfolding loads_members.simps(2) [of "Suc k"] loads_members.simps(2) [of k] by simp
  next
    case (Some p)
    obtain key r where p: "p = (key, r)" by (cases p)
    let ?u = "json_ws (tl (json_ws r))"
    have lu: "length ?u < length s"
      using loads_str_length [OF Some [unfolded p]] json_ws_length [of r] json_ws_tl' [of "json_ws r"] by (simp split: if_splits)
    then have vu: "loads_value (Suc k) ?u = loads_value k ?u" using k by (intro v) simp
    have mu: "loads_members (Suc k) (json_ws (tl (json_ws w))) = loads_members k (json_ws (tl (json_ws w)))"
      if "loads_value k ?u = Some (j, w)" for j w
      using that lu k loads_value_length [OF that] json_ws_length [of w] json_ws_tl' [of "json_ws w"] by (intro m) simp
    show ?thesis using Some p mu
      unfolding loads_members.simps(2) [of "Suc k"] loads_members.simps(2) [of k]
      by (simp add: Let_def vu del: loads_value.simps loads_items.simps loads_members.simps split: option.split)
  qed
  ultimately show ?case by blast
qed simp

text \<open>
  Parsing ends. The recursion of \<open>json.loads\<close> goes no deeper than the fuel of the model
  allows, whatever the text is: with more fuel it gives the same value, or the same error, and
  what it gives it has taken from the text.
\<close>

theorem loads_terminates:
  "loads s = (case loads_value (2 * length s + 2 + k) (json_ws s) of
                None \<Rightarrow> Inl json_error
              | Some (j, rest) \<Rightarrow> if json_ws rest = [] then Inr j else Inl json_error) \<and>
   (case loads_value (2 * length s + 2) (json_ws s) of None \<Rightarrow> True | Some (j, rest) \<Rightarrow> length rest < length s)"
proof
  have "loads_value (2 * length s + 2 + k) (json_ws s) = loads_value (2 * length s + 2) (json_ws s)"
  proof (induction k)
    case (Suc k)
    have "2 * length (json_ws s) + 1 \<le> 2 * length s + 2 + k" using json_ws_length [of s] by simp
    then have "loads_value (Suc (2 * length s + 2 + k)) (json_ws s) = loads_value (2 * length s + 2 + k) (json_ws s)"
      using loads_more_fuel by blast
    then show ?case using Suc by (simp del: loads_value.simps)
  qed simp
  then show "loads s = (case loads_value (2 * length s + 2 + k) (json_ws s) of
                None \<Rightarrow> Inl json_error
              | Some (j, rest) \<Rightarrow> if json_ws rest = [] then Inr j else Inl json_error)"
    unfolding loads_def by (simp only:)
  show "case loads_value (2 * length s + 2) (json_ws s) of None \<Rightarrow> True | Some (j, rest) \<Rightarrow> length rest < length s"
    using loads_value_length [of "2 * length s + 2" "json_ws s"] json_ws_length [of s]
    by (force simp del: loads_value.simps split: option.split)
qed

end
