(* ===== verification/Json_Strings.thy ===== *)
theory Json_Strings
  imports Json_Fuel
begin

text \<open>
  Strings that \<open>json.dumps\<close> wrote are read back by \<open>json.loads\<close>: every code point of a
  well-formed UTF-8 string, escaped or not.
\<close>

subsection \<open>Code points\<close>

lemma byte_val_nat: "byte_val c = int (of_char c)"
  by (simp only: byte_val_def of_nat_of_char)

lemma byte_val_range: "0 \<le> byte_val c" "byte_val c < 256"
  using nat_of_char_less_256 [of c] by (simp_all add: byte_val_nat)

lemma byte_val_le: "c \<le> d \<longleftrightarrow> byte_val c \<le> byte_val d"
  by (simp add: byte_val_nat less_eq_char_def)

lemma char_of_byte_val [simp]: "char_of_int (byte_val c) = c"
  by (simp add: char_of_int_def byte_val_def)

lemma byte_val_eq: "c = d \<longleftrightarrow> byte_val c = byte_val d"
  by (metis char_of_byte_val)

text \<open>The bytes of one code point.\<close>

definition is_point :: "string \<Rightarrow> bool" where
  "is_point p \<longleftrightarrow>
     (case map byte_val p of
        [a] \<Rightarrow> a < 128
      | [a, b] \<Rightarrow> 194 \<le> a \<and> a < 224 \<and> 128 \<le> b \<and> b < 192
      | [a, b, c] \<Rightarrow> 224 \<le> a \<and> a < 240 \<and> 128 \<le> b \<and> b < 192 \<and> 128 \<le> c \<and> c < 192 \<and>
          (a = 224 \<longrightarrow> 160 \<le> b) \<and> (a = 237 \<longrightarrow> b < 160)
      | [a, b, c, d] \<Rightarrow> 240 \<le> a \<and> a < 245 \<and> 128 \<le> b \<and> b < 192 \<and> 128 \<le> c \<and> c < 192 \<and> 128 \<le> d \<and> d < 192 \<and>
          (a = 240 \<longrightarrow> 144 \<le> b) \<and> (a = 244 \<longrightarrow> b < 144)
      | _ \<Rightarrow> False)"

lemma is_pointE:
  assumes "is_point p"
  obtains (one) a where "p = [a]" "byte_val a < 128"
  | (two) a b where "p = [a, b]" "194 \<le> byte_val a" "byte_val a < 224" "128 \<le> byte_val b" "byte_val b < 192"
  | (three) a b c where "p = [a, b, c]" "224 \<le> byte_val a" "byte_val a < 240" "128 \<le> byte_val b" "byte_val b < 192"
      "128 \<le> byte_val c" "byte_val c < 192" "byte_val a = 224 \<Longrightarrow> 160 \<le> byte_val b" "byte_val a = 237 \<Longrightarrow> byte_val b < 160"
  | (four) a b c d where "p = [a, b, c, d]" "240 \<le> byte_val a" "byte_val a < 245" "128 \<le> byte_val b" "byte_val b < 192"
      "128 \<le> byte_val c" "byte_val c < 192" "128 \<le> byte_val d" "byte_val d < 192"
      "byte_val a = 240 \<Longrightarrow> 144 \<le> byte_val b" "byte_val a = 244 \<Longrightarrow> byte_val b < 144"
  using assms unfolding is_point_def by (auto split: list.splits)

lemma cont_val: "cont c \<longleftrightarrow> 128 \<le> byte_val c \<and> byte_val c < 192"
  by (auto simp: cont_def byte_val_le) (simp_all add: byte_val_def)

text \<open>The number of a code point determines its bytes.\<close>

lemma split64: "0 \<le> y \<Longrightarrow> y < 64 \<Longrightarrow> (x * 64 + y) div 64 = (x :: int) \<and> (x * 64 + y) mod 64 = y"
  by simp

lemma code_point_back:
  assumes "is_point p"
  shows "0 \<le> code_point p" "utf8_point (code_point p) = p" "code_point p < 1114112"
    "code_point p < 65536 \<Longrightarrow> code_point p < 55296 \<or> 57344 \<le> code_point p"
proof -
  have "0 \<le> code_point p \<and> utf8_point (code_point p) = p \<and> code_point p < 1114112 \<and>
    (code_point p < 65536 \<longrightarrow> code_point p < 55296 \<or> 57344 \<le> code_point p)"
    using assms
  proof (cases rule: is_pointE)
    case (one a)
    then show ?thesis using byte_val_range [of a] by (simp add: code_point_def utf8_point_def)
  next
    case (two a b)
    define x y where "x = byte_val a - 192" and "y = byte_val b - 128"
    have "code_point p = x * 64 + y" "2 \<le> x" "x < 32" "0 \<le> y" "y < 64" using two by (simp_all add: code_point_def x_def y_def)
    moreover have "utf8_point (x * 64 + y) = [char_of_int (192 + x), char_of_int (128 + y)]"
      using calculation(2-5) split64 [of y x] by (simp add: utf8_point_def)
    ultimately show ?thesis using two(1) by (simp add: x_def y_def)
  next
    case (three a b c)
    define x y z where "x = byte_val a - 224" and "y = byte_val b - 128" and "z = byte_val c - 128"
    have r: "0 \<le> x" "x < 16" "0 \<le> y" "y < 64" "0 \<le> z" "z < 64" "x = 0 \<Longrightarrow> 32 \<le> y" "x = 13 \<Longrightarrow> y < 32"
      using three by (simp_all add: x_def y_def z_def)
    have n: "code_point p = (x * 64 + y) * 64 + z" using three(1) by (simp add: code_point_def x_def y_def z_def)
    have lo: "2048 \<le> (x * 64 + y) * 64 + z" using r by (cases "x = 0") auto
    have "((x * 64 + y) * 64 + z) div 4096 = x"
      using r split64 [of z "x * 64 + y"] split64 [of y x] div_mult2_eq' [of "(x * 64 + y) * 64 + z" 64 64] by simp
    then have "utf8_point ((x * 64 + y) * 64 + z) = [char_of_int (224 + x), char_of_int (128 + y), char_of_int (128 + z)]"
      using r lo split64 [of z "x * 64 + y"] split64 [of y x] by (simp add: utf8_point_def)
    moreover have "(x * 64 + y) * 64 + z < 55296 \<or> 57344 \<le> (x * 64 + y) * 64 + z"
      using r by (cases "x < 13"; cases "x = 13") auto
    ultimately show ?thesis using three(1) n lo r by (simp add: x_def y_def z_def)
  next
    case (four a b c d)
    define w x y z where "w = byte_val a - 240" and "x = byte_val b - 128" and "y = byte_val c - 128" and "z = byte_val d - 128"
    have r: "0 \<le> w" "w < 5" "0 \<le> x" "x < 64" "0 \<le> y" "y < 64" "0 \<le> z" "z < 64" "w = 0 \<Longrightarrow> 16 \<le> x" "w = 4 \<Longrightarrow> x < 16"
      using four by (simp_all add: w_def x_def y_def z_def)
    let ?n = "((w * 64 + x) * 64 + y) * 64 + z"
    have n: "code_point p = ?n" using four(1) by (simp add: code_point_def w_def x_def y_def z_def)
    have lo: "65536 \<le> ?n" using r by (cases "w = 0") auto
    have hi: "?n < 1114112" using r by (cases "w = 4") auto
    have "?n div 262144 = w" "?n div 4096 = w * 64 + x"
      using r split64 [of z "(w * 64 + x) * 64 + y"] split64 [of y "w * 64 + x"] split64 [of x w]
        div_mult2_eq' [of ?n 64 64] div_mult2_eq' [of ?n 4096 64] by simp_all
    then have "utf8_point ?n = [char_of_int (240 + w), char_of_int (128 + x), char_of_int (128 + y), char_of_int (128 + z)]"
      using r lo split64 [of z "(w * 64 + x) * 64 + y"] split64 [of y "w * 64 + x"] split64 [of x w] by (simp add: utf8_point_def)
    then show ?thesis using four(1) n lo hi by (simp add: w_def x_def y_def z_def)
  qed
  then show "0 \<le> code_point p" "utf8_point (code_point p) = p" "code_point p < 1114112"
    "code_point p < 65536 \<Longrightarrow> code_point p < 55296 \<or> 57344 \<le> code_point p" by blast+
qed

subsection \<open>Splitting into code points\<close>

lemma points_concat: "concat (code_points s) = s"
  by (induction s) (auto split: list.splits)

lemma code_points_single: "code_points s = [] \<longleftrightarrow> s = []" "p \<in> set (code_points s) \<Longrightarrow> p \<noteq> []"
proof -
  show e: "code_points s = [] \<longleftrightarrow> s = []" for s by (cases s) (auto split: list.splits)
  show "p \<in> set (code_points s) \<Longrightarrow> p \<noteq> []" by (induction s arbitrary: p) (auto split: list.splits if_splits)
qed

lemma hd_code_points: "code_points s = p # ps \<Longrightarrow> hd p = hd s"
  by (cases s) (auto split: list.splits if_splits)

definition starts_point :: "string \<Rightarrow> bool" where
  "starts_point s \<longleftrightarrow> s = [] \<or> \<not> cont (hd s)"

lemma valid_starts: "valid_utf8 s \<Longrightarrow> starts_point s"
  by (cases s) (auto simp: starts_point_def cont_def less_eq_char_def split: if_splits)

lemma code_points_new: "starts_point s \<Longrightarrow> code_points (c # s) = [c] # code_points s"
proof (cases "code_points s")
  case (Cons p ps)
  assume "starts_point s"
  moreover have "s \<noteq> []" using Cons code_points_single(1) [of s] by auto
  ultimately show ?thesis using Cons hd_code_points [OF Cons] by (simp add: starts_point_def)
qed (simp add: code_points_single)

lemma code_points_more: "code_points s = p # ps \<Longrightarrow> cont (hd s) \<Longrightarrow> code_points (c # s) = (c # p) # ps"
  using hd_code_points by simp

lemma points_of_valid: "valid_utf8 s \<Longrightarrow> list_all is_point (code_points s)"
proof (induction s rule: valid_utf8.induct)
  case (2 a s)
  consider (one) "a \<le> CHR 0x7F" | (two) "\<not> a \<le> CHR 0x7F" "CHR 0xC2 \<le> a" "a \<le> CHR 0xDF"
    | (three) "\<not> a \<le> CHR 0x7F" "\<not> a \<le> CHR 0xDF" "CHR 0xE0 \<le> a" "a \<le> CHR 0xEF"
    | (four) "\<not> a \<le> CHR 0x7F" "\<not> a \<le> CHR 0xDF" "\<not> a \<le> CHR 0xEF" "CHR 0xF0 \<le> a" "a \<le> CHR 0xF4"
    using 2(5) by (auto simp: less_eq_char_def split: if_splits)
  then show ?case
  proof cases
    case one
    then have v: "valid_utf8 s" using 2(5) by simp
    have "byte_val a < 128" using one by (simp add: byte_val_le) (simp add: byte_val_def)
    then show ?thesis using 2(1) [OF one v] code_points_new [OF valid_starts [OF v]] by (simp add: is_point_def)
  next
    case two
    then obtain b t where t: "s = b # t" "cont b" "valid_utf8 t" using 2(5) by (auto split: list.splits)
    have cp: "code_points (a # b # t) = [a, b] # code_points t"
      by (rule code_points_more [OF code_points_new [OF valid_starts [OF t(3)]]]) (simp add: t(2))
    have "is_point [a, b]" using two t(2) by (simp add: is_point_def cont_val byte_val_le) (simp add: byte_val_def)
    then show ?thesis using 2(2) [OF two(1) conjI [OF two(2,3)] t(1,3)] cp t(1) by simp
  next
    case three
    then obtain b c t where t: "s = b # c # t" "cont b" "cont c" "a = CHR 0xE0 \<Longrightarrow> CHR 0xA0 \<le> b" "a = CHR 0xED \<Longrightarrow> b \<le> CHR 0x9F" "valid_utf8 t"
      using 2(5) by (auto split: list.splits)
    have "code_points (b # c # t) = [b, c] # code_points t"
      by (rule code_points_more [OF code_points_new [OF valid_starts [OF t(6)]]]) (simp add: t(3))
    then have cp: "code_points (a # b # c # t) = [a, b, c] # code_points t" by (rule code_points_more) (simp add: t(2))
    have "is_point [a, b, c]" using three t(2-5) by (simp add: is_point_def cont_val byte_val_le byte_val_eq) (auto simp: byte_val_def)
    then show ?thesis using 2(3) three t cp by simp
  next
    case four
    then obtain b c d t where t: "s = b # c # d # t" "cont b" "cont c" "cont d"
      "a = CHR 0xF0 \<Longrightarrow> CHR 0x90 \<le> b" "a = CHR 0xF4 \<Longrightarrow> b \<le> CHR 0x8F" "valid_utf8 t"
      using 2(5) by (auto split: list.splits)
    have "code_points (c # d # t) = [c, d] # code_points t"
      by (rule code_points_more [OF code_points_new [OF valid_starts [OF t(7)]]]) (simp add: t(4))
    then have "code_points (b # c # d # t) = [b, c, d] # code_points t" by (rule code_points_more) (simp add: t(3))
    then have cp: "code_points (a # b # c # d # t) = [a, b, c, d] # code_points t" by (rule code_points_more) (simp add: t(2))
    have "is_point [a, b, c, d]" using four t(2-6) by (simp add: is_point_def cont_val byte_val_le byte_val_eq) (auto simp: byte_val_def)
    then show ?thesis using 2(4) four t cp by simp
  qed
qed simp

subsection \<open>Escapes\<close>

lemma digit_char_zero: "digit_char 0 = CHR ''0''"
  by (simp add: digit_char_def)

lemma zfill_digits:
  assumes "0 \<le> n" "n < 65536"
  shows "zfill 4 (to_base 16 n) = [digit_char (n div 4096), digit_char (n div 256 mod 16), digit_char (n div 16 mod 16), digit_char (n mod 16)]"
proof -
  have d: "n div 16 div 16 = n div 256" "n div 256 div 16 = n div 4096" using div_mult2_eq' [of n 16 16] div_mult2_eq' [of n 256 16] by simp_all
  have one: "to_base 16 m = [digit_char m]" if "m < 16" for m using that by (simp add: to_base.simps [of 16 m])
  have more: "to_base 16 m = to_base 16 (m div 16) @ [digit_char (m mod 16)]" if "16 \<le> m" for m
    using that by (simp add: to_base.simps [of 16 m])
  consider "n < 16" | "16 \<le> n" "n < 256" | "256 \<le> n" "n < 4096" | "4096 \<le> n" using assms by linarith
  then show ?thesis
  proof cases
    case 1
    then have "n div 16 = 0" "n div 256 = 0" "n div 4096 = 0" "n mod 16 = n" using assms by simp_all
    then show ?thesis using 1 by (simp add: one zfill_def digit_char_zero numeral_eq_Suc)
  next
    case 2
    then have "n div 256 = 0" "n div 4096 = 0" "n div 16 < 16" "n div 16 mod 16 = n div 16" using assms by simp_all
    then show ?thesis using 2 by (simp add: one more zfill_def digit_char_zero numeral_eq_Suc)
  next
    case 3
    then have "n div 4096 = 0" "n div 256 < 16" "16 \<le> n div 16" "n div 256 mod 16 = n div 256" using assms by simp_all
    then show ?thesis using 3 d by (simp add: one more zfill_def digit_char_zero numeral_eq_Suc)
  next
    case 4
    then have "n div 4096 < 16" "16 \<le> n div 16" "16 \<le> n div 256" using assms by simp_all
    then show ?thesis using 4 d by (simp add: one more zfill_def)
  qed
qed

lemma hex4_digits:
  "0 \<le> a \<Longrightarrow> a < 16 \<Longrightarrow> 0 \<le> b \<Longrightarrow> b < 16 \<Longrightarrow> 0 \<le> c \<Longrightarrow> c < 16 \<Longrightarrow> 0 \<le> d \<Longrightarrow> d < 16 \<Longrightarrow>
     hex4 (digit_char a # digit_char b # digit_char c # digit_char d # t) = Some (((a * 16 + b) * 16 + c) * 16 + d, t)"
  by simp

lemma hex4_escape:
  assumes "0 \<le> n" "n < 65536"
  shows "hex4 (zfill 4 (to_base 16 n) @ t) = Some (n, t)"
proof -
  have "n div 4096 * 16 + n div 256 mod 16 = n div 256"
    using div_mult_mod_eq [of "n div 256" 16] div_mult2_eq' [of n 256 16] by simp
  moreover have "n div 256 * 16 + n div 16 mod 16 = n div 16"
    using div_mult_mod_eq [of "n div 16" 16] div_mult2_eq' [of n 16 16] by simp
  moreover have "n div 16 * 16 + n mod 16 = n" by (rule div_mult_mod_eq)
  ultimately have n: "((n div 4096 * 16 + n div 256 mod 16) * 16 + n div 16 mod 16) * 16 + n mod 16 = n" by (simp only:)
  have "hex4 (digit_char (n div 4096) # digit_char (n div 256 mod 16) # digit_char (n div 16 mod 16) # digit_char (n mod 16) # t)
      = Some (((n div 4096 * 16 + n div 256 mod 16) * 16 + n div 16 mod 16) * 16 + n mod 16, t)"
    using assms by (intro hex4_digits) simp_all
  then show ?thesis unfolding n zfill_digits [OF assms] by simp
qed

lemma short_escape_codes:
  "list_all (\<lambda>(p, c). c \<noteq> CHR ''u'' \<and> map_of short_unescapes c = Some (hd p) \<and> length p = 1) short_escapes"
  by code_simp

lemma plain_points: "map_of short_escapes p = None \<Longrightarrow> p = [c] \<Longrightarrow> c \<noteq> CHR 0x22 \<and> c \<noteq> backslash"
  by (auto simp: short_escapes_def split: if_splits)

lemma escape_nonempty: "escape_point p \<noteq> [] \<or> p = []"
  by (auto simp: escape_point_def unicode_escape_def Let_def split: option.splits)

text \<open>One escaped code point is read back, in one step.\<close>

lemma loads_point:
  assumes "is_point p"
  shows "loads_str (Suc k) (escape_point p @ s) = map_option (\<lambda>(q, v). (p @ q, v)) (loads_str k s)"
proof (cases "map_of short_escapes p")
  case (Some c)
  then have "(p, c) \<in> set short_escapes" by (rule map_of_SomeD)
  then have c: "c \<noteq> CHR ''u''" "map_of short_unescapes c = Some (hd p)" "length p = 1"
    using short_escape_codes by (auto simp: list_all_iff)
  moreover from this(3) obtain d where "p = [d]" by (cases p) auto
  ultimately show ?thesis using Some by (simp add: escape_point_def backslash_def)
next
  case None
  show ?thesis
  proof (cases "list_all printable p")
    case True
    from assms obtain c where p: "p = [c]"
      using True by (cases rule: is_pointE) (auto simp: printable_def byte_val_le, auto simp: byte_val_def)
    then have "\<not> c < CHR 0x20" using True by (auto simp: printable_def less_eq_char_def less_char_def)
    then show ?thesis using plain_points [OF None p] True None p by (simp add: escape_point_def)
  next
    case False
    note pt = code_point_back [OF assms]
    show ?thesis
    proof (cases "code_point p < 65536")
      case True
      then have "unescape_unicode (zfill 4 (to_base 16 (code_point p)) @ s) = Some (p, s)"
        using pt by (auto simp: unescape_unicode_def hex4_escape)
      then show ?thesis using None False True by (simp add: escape_point_def unicode_escape_def backslash_def)
    next
      case wide: False
      let ?m = "code_point p - 65536"
      let ?hi = "55296 + ?m div 1024" and ?lo = "56320 + ?m mod 1024"
      have m: "0 \<le> ?m" "?m < 1048576" using wide pt(3) by simp_all
      then have hi: "55296 \<le> ?hi" "?hi < 56320" and lo: "56320 \<le> ?lo" "?lo < 57344" by simp_all
      have "65536 + (?hi - 55296) * 1024 + (?lo - 56320) = code_point p" by simp
      then have "unescape_unicode (zfill 4 (to_base 16 ?hi) @ unicode_escape ?lo @ s) = Some (p, s)"
        using pt(2) hi lo hex4_escape [of ?hi] hex4_escape [of ?lo]
        by (simp add: unescape_unicode_def unicode_escape_def startswith_def)
      then show ?thesis using None False wide by (simp add: escape_point_def Let_def unicode_escape_def backslash_def)
    qed
  qed
qed

lemma loads_str_fuel: "length s < k \<Longrightarrow> loads_str (Suc k) s = loads_str k s"
proof (induction k s rule: loads_str.induct)
  case (3 k c s)
  show ?case
  proof (cases "c = CHR 0x22 \<or> c \<noteq> backslash")
    case True
    then show ?thesis using 3 by (auto simp del: loads_str.simps simp add: loads_str.simps(3) [of "Suc k"] loads_str.simps(3) [of k])
  next
    case False
    let ?d = "\<lambda>e r. if e = CHR ''u'' then unescape_unicode r else map_option (\<lambda>d. ([d], r)) (map_of short_unescapes e)"
    have "loads_str (Suc k) u = loads_str k u" if "s = e # r" "?d e r = Some (q, u)" for e r q u
    proof -
      have "length u \<le> length r" using that(2) by (auto split: if_splits dest: unescape_length)
      then show ?thesis using "3.IH"(1) [of e r "(q, u)" q u] False that "3.prems" by (simp add: backslash_def)
    qed
    then show ?thesis using False
      by (auto simp del: loads_str.simps simp add: loads_str.simps(3) [of "Suc k"] loads_str.simps(3) [of k] split: list.split option.split)
  qed
qed simp_all

lemma loads_points:
  "list_all is_point ps \<Longrightarrow> length (concat (map escape_point ps)) < k \<Longrightarrow>
     loads_str k (concat (map escape_point ps) @ CHR 0x22 # rest) = Some (concat ps, rest)"
proof (induction ps arbitrary: k)
  case Nil
  then show ?case by (cases k) simp_all
next
  case (Cons p ps)
  obtain k' where k: "k = Suc k'" using Cons.prems(2) by (cases k) auto
  have "p \<noteq> []" using Cons.prems(1) by (auto simp: is_point_def)
  then have "escape_point p \<noteq> []" using escape_nonempty by blast
  then have "length (concat (map escape_point ps)) < k'" using Cons.prems(2) k by (cases "escape_point p") auto
  then show ?case using Cons.IH [of k'] Cons.prems(1) loads_point [of p k'] k by (simp del: loads_str.simps)
qed

text \<open>A whole string.\<close>

lemma loads_dumps_str:
  assumes "valid_utf8 s"
  shows "\<exists>u. dumps_str s @ rest = CHR 0x22 # u \<and> loads_str (Suc (length u)) u = Some (s, rest)"
proof -
  let ?u = "concat (map escape_point (code_points s)) @ CHR 0x22 # rest"
  have "loads_str (Suc (length ?u)) ?u = Some (s, rest)"
    using loads_points [OF points_of_valid [OF assms]] points_concat [of s] by simp
  then show ?thesis by (simp add: dumps_str_def)
qed

end
