(* ===== verification/Json_Round.thy ===== *)
theory Json_Round
  imports Json_Strings
begin

text \<open>
  \<open>json.loads\<close> reads what \<open>json.dumps\<close> wrote: the value itself, with the keys of every object in
  the order they were written.
\<close>

subsection \<open>Numbers\<close>

lemma ten_digits:
  "list_all (\<lambda>n. is_dec (digit_char n) \<and> of_char (digit_char n) - 48 = n \<and> (digit_char n = CHR ''0'' \<longleftrightarrow> n = 0)) [0..9]"
  by code_simp

lemma dec_digit: "0 \<le> n \<Longrightarrow> n < 10 \<Longrightarrow> is_dec (digit_char n) \<and> of_char (digit_char n) - 48 = n \<and> (digit_char n = CHR ''0'' \<longleftrightarrow> n = 0)"
  using ten_digits by (simp add: list_all_iff)

lemma dec_value_snoc: "dec_value (s @ [c]) = 10 * dec_value s + (of_char c - 48)"
  by (simp add: dec_value_def)

lemma decimal:
  "0 \<le> n \<Longrightarrow> list_all is_dec (to_base 10 n) \<and> dec_value (to_base 10 n) = n \<and> (hd (to_base 10 n) = CHR ''0'' \<longleftrightarrow> n = 0)"
proof (induction "10 :: int" n rule: to_base.induct)
  case (1 n)
  show ?case
  proof (cases "n < 10")
    case True
    then show ?thesis using dec_digit [of n] 1(2) by (simp add: to_base.simps [of 10 n] dec_value_def)
  next
    case False
    then have "0 < n div 10" by simp
    moreover have "10 * (n div 10) + n mod 10 = n" by simp
    ultimately show ?thesis
      using 1(1) dec_digit [of "n mod 10"] 1(2) False
      by (simp add: to_base.simps [of 10 n] dec_value_snoc)
  qed
qed

definition number_end :: "string \<Rightarrow> bool" where
  "number_end rest \<longleftrightarrow> rest = [] \<or> \<not> is_dec (hd rest) \<and> hd rest \<notin> {CHR ''.'', CHR ''e'', CHR ''E''}"

lemma number_end_parts: "number_end rest \<Longrightarrow> take_frac rest = [] \<and> take_exp rest = [] \<and> takeWhile is_dec rest = []"
  by (cases rest) (auto simp: number_end_def take_frac_def take_exp_def Let_def)

lemma is_dec_chars: "is_dec c \<Longrightarrow> c \<notin> {CHR 0x22, CHR 0x5B, CHR 0x7B, CHR 0x5D, CHR 0x7D, CHR ''-'', CHR ''n'', CHR ''t'', CHR ''f'', CHR ''N'', CHR ''I'',
    CHR '' '', CHR 0x09, CHR 0x0A, CHR 0x0D}"
  by (auto simp: is_dec_def less_eq_char_def)

lemma digits_number:
  assumes "0 \<le> n" "number_end rest" and sg: "sg \<in> {[], ''-''}"
  shows "loads_number (sg @ to_base 10 n @ rest) = Some (JInt (if sg = [] then n else - n), rest)"
proof -
  let ?ds = "to_base 10 n"
  obtain c ds where c: "?ds = c # ds" by (cases ?ds) auto
  have d: "list_all is_dec ?ds" "dec_value ?ds = n" "c = CHR ''0'' \<longleftrightarrow> n = 0" using decimal [OF assms(1)] c by auto
  have "is_dec c" using d(1) c by simp
  have "startswith ''-'' (sg @ ?ds @ rest) \<longleftrightarrow> sg \<noteq> []" using \<open>is_dec c\<close> sg c by (auto simp: startswith_def is_dec_def less_eq_char_def)
  then have s: "(if startswith ''-'' (sg @ ?ds @ rest) then ''-'' else []) = sg" using sg by auto
  have ds: "(if startswith ''0'' (?ds @ rest) then ''0'' else takeWhile is_dec (?ds @ rest)) = ?ds"
  proof (cases "n = 0")
    case True
    then show ?thesis by (simp add: to_base.simps [of 10 0] digit_char_zero startswith_def)
  next
    case False
    then show ?thesis using c d number_end_parts [OF assms(2)] by (simp add: startswith_def takeWhile_append list_all_iff)
  qed
  have sk: "drop (length sg) (sg @ ?ds @ rest) = ?ds @ rest" "drop (length ?ds) (?ds @ rest) = rest" by simp_all
  show ?thesis
    unfolding loads_number_def Let_def s sk ds using number_end_parts [OF assms(2)] d(2) by simp
qed

lemma loads_int:
  assumes "number_end rest"
  shows "loads_value (Suc k) (str_int n @ rest) = Some (JInt n, rest)"
proof -
  let ?sg = "if n < 0 then ''-'' else []" and ?m = "if n < 0 then - n else n"
  have s: "str_int n @ rest = ?sg @ to_base 10 ?m @ rest" by (simp add: str_int_def)
  obtain c ds where c: "to_base 10 ?m = c # ds" by (cases "to_base 10 ?m") auto
  have "is_dec c" using decimal [of ?m] c by auto
  then have f: "filter (\<lambda>(w, j). startswith w (?sg @ to_base 10 ?m @ rest)) json_words = []"
    unfolding c using is_dec_chars [of c] by (simp add: json_words_def startswith_def)
  have "loads_number (str_int n @ rest) = Some (JInt n, rest)"
    unfolding s using digits_number [OF _ assms, of ?m ?sg] by (cases "n < 0") auto
  moreover obtain d t where d: "str_int n @ rest = d # t" "d \<notin> {CHR 0x22, CHR 0x5B, CHR 0x7B}"
    using is_dec_chars [OF \<open>is_dec c\<close>] c by (cases "n < 0") (auto simp: str_int_def)
  ultimately show ?thesis using f unfolding s [symmetric] by simp
qed

subsection \<open>Values\<close>

text \<open>
  Values without floating-point numbers, whose strings are well-formed and whose objects have
  each key once; and the same values with sorted keys.
\<close>

function plain_json :: "json \<Rightarrow> bool" where
  "plain_json JNull = True"
| "plain_json (JBool b) = True"
| "plain_json (JInt n) = True"
| "plain_json (JFloat s) = False"
| "plain_json (JStr s) = valid_utf8 s"
| "plain_json (JArr xs) = list_all plain_json xs"
| "plain_json (JObj d) = (distinct (dict_keys d) \<and> list_all valid_utf8 (dict_keys d) \<and> list_all (\<lambda>p. plain_json (snd p)) d)"
  by pat_completeness auto
termination
  by (relation "measure size") (auto dest: size_array_item size_object_item)

function with_order :: "bool \<Rightarrow> json \<Rightarrow> json" where
  "with_order sk JNull = JNull"
| "with_order sk (JBool b) = JBool b"
| "with_order sk (JInt n) = JInt n"
| "with_order sk (JFloat s) = JFloat s"
| "with_order sk (JStr s) = JStr s"
| "with_order sk (JArr xs) = JArr (map (with_order sk) xs)"
| "with_order sk (JObj d) = JObj (map (\<lambda>p. (fst p, with_order sk (snd p))) (if sk then sort_key fst d else d))"
  by pat_completeness auto
termination
  by (relation "measure (\<lambda>(sk, j). size j)") (auto dest: size_array_item size_object_item split: if_splits)

lemma json_ws_new_line: "json_ws (new_line k @ s) = json_ws s"
proof -
  have "json_ws (replicate n (CHR '' '') @ s) = json_ws s" for n by (induction n) (simp_all add: json_ws_def)
  then show ?thesis by (simp add: new_line_def json_ws_def)
qed

lemma json_ws_start: "c \<notin> {CHR '' '', CHR 0x09, CHR 0x0A, CHR 0x0D} \<Longrightarrow> json_ws (c # s) = c # s"
  by (simp add: json_ws_def)

text \<open>What a value begins with.\<close>

definition value_start :: "string \<Rightarrow> bool" where
  "value_start s \<longleftrightarrow> (\<exists>c t. s = c # t \<and> c \<notin> {CHR '' '', CHR 0x09, CHR 0x0A, CHR 0x0D, CHR 0x5D, CHR 0x7D})"

lemma value_start_ws: "value_start s \<Longrightarrow> json_ws (s @ t) = s @ t \<and> \<not> startswith [CHR 0x5D] (s @ t) \<and> \<not> startswith [CHR 0x7D] (s @ t)"
  by (auto simp: value_start_def json_ws_def startswith_def)

lemma dumps_start: "plain_json j \<Longrightarrow> value_start (dumps_at sk k j)"
proof (cases j)
  case (JInt n)
  obtain c ds where c: "to_base 10 (if n < 0 then - n else n) = c # ds" by (cases "to_base 10 (if n < 0 then - n else n)") auto
  then have "is_dec c" using decimal [of "if n < 0 then - n else n"] by auto
  then show ?thesis using JInt c is_dec_chars [of c] by (auto simp: value_start_def str_int_def split: if_splits)
qed (auto simp: value_start_def dumps_str_def bracketed_def)

lemma dumps_str_start: "value_start (dumps_str s @ t)" "startswith [CHR 0x22] (dumps_str s @ t)"
  by (auto simp: value_start_def dumps_str_def startswith_def)

lemma number_end_sep: "number_end (CHR '','' # s)" "number_end (new_line k @ s)"
  by (simp_all add: number_end_def new_line_def is_dec_def less_eq_char_def)

text \<open>The elements of an array, and the members of an object.\<close>

definition reads :: "(json \<Rightarrow> string) \<Rightarrow> json \<Rightarrow> json \<Rightarrow> bool" where
  "reads f j j' \<longleftrightarrow> value_start (f j) \<and>
     (\<forall>k rest. number_end rest \<longrightarrow> 2 * length (f j @ rest) + 1 \<le> k \<longrightarrow> loads_value k (f j @ rest) = Some (j', rest))"

lemma reads_loads: "reads f j j' \<Longrightarrow> number_end rest \<Longrightarrow> 2 * length (f j @ rest) + 1 \<le> k \<Longrightarrow> loads_value k (f j @ rest) = Some (j', rest)"
  unfolding reads_def by blast

lemma loads_item_list:
  "xs \<noteq> [] \<Longrightarrow> list_all2 (reads f) xs ys \<Longrightarrow>
     2 * length (join (CHR '','' # new_line d) (map f xs) @ new_line e @ CHR 0x5D # rest) + 2 \<le> k \<Longrightarrow>
     loads_items k (join (CHR '','' # new_line d) (map f xs) @ new_line e @ CHR 0x5D # rest) = Some (ys, rest)"
proof (induction xs arbitrary: ys k)
  case (Cons x xs)
  obtain y ys' where ys: "ys = y # ys'" "reads f x y" "list_all2 (reads f) xs ys'" using Cons.prems(2) by (cases ys) auto
  obtain k' where k: "k = Suc k'" using Cons.prems(3) by (cases k) auto
  show ?case
  proof (cases "xs = []")
    case True
    then have "ys' = []" using ys(3) by simp
    have len: "2 * length (f x @ new_line e @ CHR 0x5D # rest) + 1 \<le> k'" using Cons.prems(3) k True by simp
    have "loads_value k' (f x @ new_line e @ CHR 0x5D # rest) = Some (y, new_line e @ CHR 0x5D # rest)"
      by (rule reads_loads [OF ys(2) number_end_sep(2) len])
    then show ?thesis
      using True k ys(1) \<open>ys' = []\<close> by (simp add: json_ws_new_line json_ws_start startswith_def del: loads_value.simps)
  next
    case False
    then obtain z zs where z: "xs = z # zs" by (cases xs) auto
    let ?more = "join (CHR '','' # new_line d) (map f xs) @ new_line e @ CHR 0x5D # rest"
    have s: "join (CHR '','' # new_line d) (map f (x # xs)) @ new_line e @ CHR 0x5D # rest = f x @ CHR '','' # new_line d @ ?more"
      using z by simp
    have len: "2 * length (f x @ CHR '','' # new_line d @ ?more) + 1 \<le> k'" using Cons.prems(3) k unfolding s by simp
    have v: "loads_value k' (f x @ CHR '','' # new_line d @ ?more) = Some (y, CHR '','' # new_line d @ ?more)"
      by (rule reads_loads [OF ys(2) number_end_sep(1) len])
    have "value_start (f z)" using ys(3) z by (auto simp: reads_def list_all2_Cons1)
    moreover obtain u where "?more = f z @ u" using z by (cases zs) auto
    ultimately have "json_ws ?more = ?more" using value_start_ws by metis
    moreover have "2 * length ?more + 2 \<le> k'" using len by simp
    then have "loads_items k' ?more = Some (ys', rest)" by (rule Cons.IH [OF False ys(3)])
    ultimately show ?thesis
      unfolding s k loads_items.simps v ys(1)
      by (simp add: json_ws_start json_ws_new_line startswith_def Let_def)
  qed
qed simp

text \<open>The reader of members at a written key: it goes on with the value.\<close>

lemma loads_members_head:
  assumes key: "valid_utf8 key" and start: "value_start val"
  shows "loads_members (Suc k) ((dumps_str key @ '': '' @ val) @ tail) =
    (case loads_value k (val @ tail) of
       None \<Rightarrow> None
     | Some (j, v) \<Rightarrow>
         (let w = json_ws v in
          if startswith [CHR 0x7D] w then Some ([(key, j)], tl w)
          else if startswith '','' w then map_option (\<lambda>(ps, x). ((key, j) # ps, x)) (loads_members k (json_ws (tl w)))
          else None))"
proof -
  obtain u where u: "dumps_str key @ '': '' @ val @ tail = CHR 0x22 # u"
    "loads_str (Suc (length u)) u = Some (key, '': '' @ val @ tail)" using loads_dumps_str [OF key] by blast
  have fuel: "loads_str (Suc (Suc (length u))) u = Some (key, '': '' @ val @ tail)"
    using loads_str_fuel [of u "Suc (length u)"] u(2) by (simp del: loads_str.simps)
  have "json_ws (val @ tail) = val @ tail" using value_start_ws [OF start] by blast
  then have "json_ws (CHR '' '' # val @ tail) = val @ tail" by (simp add: json_ws_def)
  then show ?thesis
    using u(1) fuel by (simp add: startswith_def json_ws_start del: loads_value.simps loads_str.simps)
qed

lemma loads_member_list:
  "ps \<noteq> [] \<Longrightarrow> list_all2 (\<lambda>p q. fst q = fst p \<and> valid_utf8 (fst p) \<and> reads f (snd p) (snd q)) ps qs \<Longrightarrow>
     2 * length (join (CHR '','' # new_line d) (map (\<lambda>p. dumps_str (fst p) @ '': '' @ f (snd p)) ps) @ new_line e @ CHR 0x7D # rest) + 2 \<le> k \<Longrightarrow>
     loads_members k (join (CHR '','' # new_line d) (map (\<lambda>p. dumps_str (fst p) @ '': '' @ f (snd p)) ps) @ new_line e @ CHR 0x7D # rest)
       = Some (qs, rest)"
proof (induction ps arbitrary: qs k)
  case (Cons p ps)
  let ?item = "\<lambda>p. dumps_str (fst p) @ '': '' @ f (snd p)"
  obtain q qs' where qs: "qs = q # qs'" "fst q = fst p" "valid_utf8 (fst p)" "reads f (snd p) (snd q)"
    "list_all2 (\<lambda>p q. fst q = fst p \<and> valid_utf8 (fst p) \<and> reads f (snd p) (snd q)) ps qs'" using Cons.prems(2) by (cases qs) auto
  obtain k' where k: "k = Suc k'" using Cons.prems(3) by (cases k) auto
  have "value_start (f (snd p))" using qs(4) by (simp add: reads_def)
  note head = loads_members_head [OF qs(3) this, of k']
  show ?case
  proof (cases "ps = []")
    case True
    then have "qs' = []" using qs(5) by simp
    have len: "2 * length (f (snd p) @ new_line e @ CHR 0x7D # rest) + 1 \<le> k'" using Cons.prems(3) k True by simp
    note v = reads_loads [OF qs(4) number_end_sep(2) len]
    have "(fst p, snd q) = q" using qs(2) by (cases q) simp
    then show ?thesis
      using True k qs(1) \<open>qs' = []\<close> head [of "new_line e @ CHR 0x7D # rest"] v
      by (simp add: json_ws_new_line json_ws_start startswith_def del: loads_value.simps loads_members.simps)
  next
    case False
    then obtain z zs where z: "ps = z # zs" by (cases ps) auto
    let ?more = "join (CHR '','' # new_line d) (map ?item ps) @ new_line e @ CHR 0x7D # rest"
    have s: "join (CHR '','' # new_line d) (map ?item (p # ps)) @ new_line e @ CHR 0x7D # rest = ?item p @ CHR '','' # new_line d @ ?more"
      using z by simp
    have len: "2 * length (f (snd p) @ CHR '','' # new_line d @ ?more) + 1 \<le> k'" using Cons.prems(3) k unfolding s by simp
    note v = reads_loads [OF qs(4) number_end_sep(1) len]
    obtain u where "?more = (dumps_str (fst z) @ []) @ u" using z by (cases zs) auto
    then have ws: "json_ws ?more = ?more" using value_start_ws [OF dumps_str_start(1)] by metis
    have "2 * length ?more + 2 \<le> k'" using len by simp
    then have m: "loads_members k' ?more = Some (qs', rest)" by (rule Cons.IH [OF False qs(5)])
    have "(fst p, snd q) = q" using qs(2) by (cases q) simp
    then show ?thesis
      unfolding s k head v qs(1) using m ws
      by (simp add: json_ws_start json_ws_new_line startswith_def Let_def del: loads_members.simps)
  qed
qed simp

subsection \<open>The round trip\<close>

lemma loads_word:
  assumes "w \<in> {''null'', ''true'', ''false''}"
  shows "loads_value (Suc k) (w @ rest) = Some (the (map_of json_words w), rest)"
  using assms by (auto simp: json_words_def startswith_def)

lemma reads_array:
  assumes xs: "xs \<noteq> []" and r: "list_all2 (reads (dumps_at sk (Suc d))) xs (map (with_order sk) xs)"
    and len: "2 * length (dumps_at sk d (JArr xs) @ rest) + 1 \<le> Suc k"
  shows "loads_value (Suc k) (dumps_at sk d (JArr xs) @ rest) = Some (with_order sk (JArr xs), rest)"
proof -
  let ?body = "join (CHR '','' # new_line (Suc d)) (map (dumps_at sk (Suc d)) xs) @ new_line d @ CHR 0x5D # rest"
  have written: "dumps_at sk d (JArr xs) @ rest = CHR 0x5B # new_line (Suc d) @ ?body" using xs by (simp add: bracketed_def)
  have "2 * length ?body + 2 \<le> k" using len unfolding written by simp
  note items = loads_item_list [OF xs r this]
  obtain x ys where x: "xs = x # ys" using xs by (cases xs) auto
  then have "value_start (dumps_at sk (Suc d) x)" using r by (simp add: reads_def)
  moreover obtain u where "?body = dumps_at sk (Suc d) x @ u" using x by (cases ys) auto
  ultimately have ws: "json_ws ?body = ?body" "\<not> startswith [CHR 0x5D] ?body" using value_start_ws by metis+
  show ?thesis unfolding written using items ws by (simp add: json_ws_new_line del: loads_items.simps)
qed

lemma reads_object:
  fixes sk ps
  defines "qs \<equiv> if sk then sort_key fst ps else ps"
  assumes ps: "ps \<noteq> []" "distinct (dict_keys ps)"
    and r: "\<And>p. p \<in> set ps \<Longrightarrow> valid_utf8 (fst p) \<and> reads (dumps_at sk (Suc d)) (snd p) (with_order sk (snd p))"
    and len: "2 * length (dumps_at sk d (JObj ps) @ rest) + 1 \<le> Suc k"
  shows "loads_value (Suc k) (dumps_at sk d (JObj ps) @ rest) = Some (with_order sk (JObj ps), rest)"
proof -
  let ?item = "\<lambda>p. dumps_str (fst p) @ '': '' @ dumps_at sk (Suc d) (snd p)" and ?rs = "map (\<lambda>p. (fst p, with_order sk (snd p))) qs"
  have qs: "set qs = set ps" "qs \<noteq> []" using ps(1) by (auto simp: qs_def dest: arg_cong [of _ _ length])
  let ?body = "join (CHR '','' # new_line (Suc d)) (map ?item qs) @ new_line d @ CHR 0x7D # rest"
  have written: "dumps_at sk d (JObj ps) @ rest = CHR 0x7B # new_line (Suc d) @ ?body"
    using qs(2) by (simp add: bracketed_def qs_def)
  have "list_all2 (\<lambda>p q. fst q = fst p \<and> valid_utf8 (fst p) \<and> reads (dumps_at sk (Suc d)) (snd p) (snd q)) qs ?rs"
    unfolding list_all2_map2 list_all2_same qs(1) using r by simp
  moreover have "2 * length ?body + 2 \<le> k" using len unfolding written by simp
  ultimately have mem: "loads_members k ?body = Some (?rs, rest)" by (rule loads_member_list [OF qs(2)])
  obtain p pt where p: "qs = p # pt" using qs(2) by (cases qs) auto
  obtain u where "?body = (dumps_str (fst p) @ []) @ u" unfolding p by (cases pt) auto
  then have ws: "json_ws ?body = ?body" "\<not> startswith [CHR 0x7D] ?body" using value_start_ws [OF dumps_str_start(1)] by metis+
  have "distinct (map fst qs)" using ps(2) by (simp add: qs_def dict_keys_def distinct_map)
  then have "dict_of ?rs = ?rs" by (simp add: dict_of_def dict_update_new dict_keys_def comp_def)
  then show ?thesis unfolding written using mem ws by (simp add: json_ws_new_line qs_def del: loads_members.simps)
qed

lemma reads_value: "plain_json j \<Longrightarrow> reads (dumps_at sk d) j (with_order sk j)"
proof (induction j arbitrary: d rule: measure_induct_rule [where f = size])
  case (less j)
  have "loads_value k (dumps_at sk d j @ rest) = Some (with_order sk j, rest)"
    if nd: "number_end rest" and len: "2 * length (dumps_at sk d j @ rest) + 1 \<le> k" for k rest
  proof -
    obtain k' where k: "k = Suc k'" using len by (cases k) auto
    show ?thesis
    proof (cases j)
      case (JStr s)
      then obtain u where "dumps_str s @ rest = CHR 0x22 # u" "loads_str (Suc (length u)) u = Some (s, rest)"
        using less.prems loads_dumps_str [of s rest] by auto
      then show ?thesis using JStr k by (simp del: loads_str.simps)
    next
      case (JArr xs)
      have "reads (dumps_at sk (Suc d)) x (with_order sk x)" if "x \<in> set xs" for x
        using less.IH [of x] less.prems size_array_item [OF that] that JArr by (auto simp: list_all_iff)
      then have "list_all2 (reads (dumps_at sk (Suc d))) xs (map (with_order sk) xs)" by (simp add: list_all2_conv_all_nth)
      then have "xs \<noteq> [] \<Longrightarrow> ?thesis" using reads_array [of xs sk d rest k'] len unfolding JArr k by blast
      moreover have "xs = [] \<Longrightarrow> ?thesis" using JArr k by (simp add: bracketed_def json_ws_start startswith_def)
      ultimately show ?thesis by blast
    next
      case (JObj ps)
      have "valid_utf8 (fst p) \<and> reads (dumps_at sk (Suc d)) (snd p) (with_order sk (snd p))" if "p \<in> set ps" for p
        using that less.IH [of "snd p"] less.prems size_object_item [of "fst p" "snd p" ps] JObj by (auto simp: list_all_iff dict_keys_def)
      moreover have "distinct (dict_keys ps)" using less.prems JObj by simp
      ultimately have "ps \<noteq> [] \<Longrightarrow> ?thesis" using reads_object [of ps sk d rest k'] len unfolding JObj k by blast
      moreover have "ps = [] \<Longrightarrow> ?thesis" using JObj k by (simp add: bracketed_def json_ws_start startswith_def)
      ultimately show ?thesis by blast
    next
      case JNull
      then show ?thesis using loads_word [of "''null''" k' rest] k by (simp add: json_words_def del: loads_value.simps)
    next
      case (JBool b)
      then show ?thesis
        using loads_word [of "''true''" k' rest] loads_word [of "''false''" k' rest] k
        by (cases b) (simp_all add: json_words_def del: loads_value.simps)
    qed (use less.prems loads_int [OF nd] k in \<open>simp_all del: loads_value.simps\<close>)
  qed
  then show ?case using dumps_start [OF less.prems] by (simp add: reads_def del: loads_value.simps)
qed

lemma loads_written:
  assumes "plain_json j" "json_ws w = []"
  shows "loads (dumps sk j @ w) = Inr (with_order sk j)"
proof -
  let ?text = "dumps_at sk 0 j @ w"
  have end_w: "number_end w"
  proof (cases w)
    case (Cons c v)
    then have "c \<in> {CHR '' '', CHR 0x09, CHR 0x0A, CHR 0x0D}" using assms(2) by (auto simp: json_ws_def split: if_splits)
    moreover from this have "\<not> is_dec c" using is_dec_chars [of c] by auto
    ultimately show ?thesis using Cons by (auto simp: number_end_def)
  qed (simp add: number_end_def)
  have ws: "json_ws ?text = ?text" using value_start_ws [OF dumps_start [OF assms(1)]] by blast
  have "2 * length ?text + 1 \<le> 2 * length ?text + 2" by simp
  then have v: "loads_value (2 * length ?text + 2) ?text = Some (with_order sk j, w)"
    by (rule reads_loads [OF reads_value [OF assms(1)] end_w])
  show ?thesis unfolding loads_def dumps_def ws v by (simp add: assms(2))
qed

text \<open>
  What the scripts write as JSON is read back as it was. For every value without
  floating-point numbers, whose strings are well-formed and whose objects have each key once,
  whatever its depth: \<open>loads\<close> of its text, white space around it included, is the value, with the
  members of every object in the order they were written (sorted when that was asked for).
\<close>

theorem loads_dumps:
  assumes "plain_json j" "json_ws w = []"
  shows "loads (dumps sk j @ w) = Inr (with_order sk j)"
  using assms by (rule loads_written)

text \<open>As a format, for values whose members are in the order in which they are written.\<close>

interpretation json_text: codec "\<lambda>j. Inr (dumps sk j)" loads "\<lambda>j. plain_json j \<and> with_order sk j = j"
  using loads_written [of _ "[]" sk] by unfold_locales (auto simp: json_ws_def)

definition sample_json :: json where
  "sample_json = JObj [(''b'', JArr [JInt (- 12), JBool True, JNull]), (''a'', JStr [CHR 0xC3, CHR 0xA9, CHR 0x0A]), (''c'', JObj [])]"

theorem loads_dumps_witness:
  "loads (dumps True sample_json @ [CHR 0x0A]) =
     Inr (JObj [(''a'', JStr [CHR 0xC3, CHR 0xA9, CHR 0x0A]), (''b'', JArr [JInt (- 12), JBool True, JNull]), (''c'', JObj [])])"
proof -
  have "plain_json sample_json" "json_ws [CHR 0x0A] = []" by code_simp+
  from loads_dumps [OF this] have "loads (dumps True sample_json @ [CHR 0x0A]) = Inr (with_order True sample_json)" .
  also have "with_order True sample_json =
      JObj [(''a'', JStr [CHR 0xC3, CHR 0xA9, CHR 0x0A]), (''b'', JArr [JInt (- 12), JBool True, JNull]), (''c'', JObj [])]" by code_simp
  finally show ?thesis .
qed

end
