(* ===== verification/Review_Accepted.thy ===== *)
theory Review_Accepted
  imports Review_Run Source_Restore Json_Round
begin

text \<open>
  What \<open>scripts/collect-source-review.py\<close> writes, \<open>scripts/restore-source-review.py\<close> accepts: the
  ZIP of a collection passes every check that is made before anything is restored.
\<close>

subsection \<open>Lines of a text with translated newlines\<close>

definition add_char :: "char \<Rightarrow> string list \<Rightarrow> string list" where
  "add_char c ls = (case ls of [] \<Rightarrow> [[c]] | l # ls \<Rightarrow> (c # l) # ls)"

lemma splitlines_sep:
  assumes "sep_len str_nls s = k" "0 < k" "s \<noteq> []"
  shows "splitlines s = [] # splitlines (drop k s)"
proof -
  have "break_at str_nls s = ([], s)" using assms by (cases s) auto
  then show ?thesis using assms by (simp add: splitlines_def split_seps.simps [of str_nls s])
qed

lemma splitlines_char:
  assumes "sep_len str_nls (c # s) = 0"
  shows "splitlines (c # s) = add_char c (splitlines s)"
proof (cases "s = []")
  case True
  then show ?thesis using assms by (simp add: splitlines_def split_seps.simps [of str_nls "[c]"] add_char_def sep_len_def)
next
  case False
  obtain w t where w: "break_at str_nls s = (w, t)" by (cases "break_at str_nls s")
  then have "break_at str_nls (c # s) = (c # w, t)" using assms by simp
  then show ?thesis
    using w False by (simp add: splitlines_def split_seps.simps [of str_nls "c # s"] split_seps.simps [of str_nls s] add_char_def Let_def)
qed

lemma translate_after_return:
  "translate_newlines True s = (if startswith [CHR 0x0A] s then translate_newlines False (tl s) else translate_newlines False s)"
  by (cases s) (auto simp: startswith_def)

text \<open>The separators of more than one byte are not touched by the translation.\<close>

definition no_break :: "char \<Rightarrow> bool" where
  "no_break c \<longleftrightarrow> c \<noteq> CHR 0x0A \<and> c \<noteq> CHR 0x0D"

lemma startswith_translate:
  "list_all no_break w \<Longrightarrow> startswith w (translate_newlines False s) \<longleftrightarrow> startswith w s"
proof (induction w arbitrary: s)
  case (Cons a w)
  then show ?case by (cases s) (auto simp: startswith_def no_break_def split: if_splits)
qed (simp add: startswith_def)

lemma sep_len_other:
  assumes "no_break c"
  shows "sep_len str_nls (c # translate_newlines False s) = sep_len str_nls (c # s)"
proof -
  have "translate_newlines False (c # s) = c # translate_newlines False s" using assms by (simp add: no_break_def)
  moreover have "list_all (list_all no_break) (filter (\<lambda>w. w \<notin> set bytes_nls) str_nls)" by code_simp
  ultimately have "startswith w (c # translate_newlines False s) \<longleftrightarrow> startswith w (c # s)" if "w \<in> set str_nls" for w
  proof (cases "w \<in> set bytes_nls")
    case True
    then show ?thesis using assms by (auto simp: bytes_nls_def startswith_def no_break_def)
  next
    case False
    then have "list_all no_break w" using that \<open>list_all (list_all no_break) _\<close> by (simp add: list_all_iff)
    from startswith_translate [OF this, of "c # s"] show ?thesis using \<open>translate_newlines False (c # s) = _\<close> by simp
  qed
  then show ?thesis unfolding sep_len_def by (metis (no_types, lifting) filter_cong)
qed

lemma drop_translate:
  "list_all no_break (take k s) \<Longrightarrow> drop k (translate_newlines False s) = translate_newlines False (drop k s)"
proof (induction k arbitrary: s)
  case (Suc k)
  then show ?case by (cases s) (auto simp: no_break_def)
qed simp

lemma sep_len_in: "0 < sep_len seps s \<Longrightarrow> take (sep_len seps s) s \<in> set seps"
proof -
  assume pos: "0 < sep_len seps s"
  then obtain w ws where w: "filter (\<lambda>w. w \<noteq> [] \<and> startswith w s) seps = w # ws"
    by (cases "filter (\<lambda>w. w \<noteq> [] \<and> startswith w s) seps") (auto simp: sep_len_def)
  then have "w \<in> set (filter (\<lambda>w. w \<noteq> [] \<and> startswith w s) seps)" by simp
  then have "w \<in> set seps" "startswith w s" by simp_all
  then show ?thesis using w by (auto simp: sep_len_def startswith_iff)
qed

lemma break_seps:
  assumes "no_break c" "0 < sep_len str_nls (c # s)"
  shows "list_all no_break (take (sep_len str_nls (c # s)) (c # s))"
proof -
  let ?w = "take (sep_len str_nls (c # s)) (c # s)"
  have "?w \<in> set str_nls" using assms(2) by (rule sep_len_in)
  moreover have "?w \<notin> set bytes_nls" using assms by (cases "sep_len str_nls (c # s)") (auto simp: bytes_nls_def no_break_def)
  moreover have "list_all (list_all no_break) (filter (\<lambda>w. w \<notin> set bytes_nls) str_nls)" by code_simp
  ultimately show ?thesis by (simp add: list_all_iff)
qed

lemma sep_len_breaks:
  "sep_len str_nls (CHR 0x0A # s) = 1" "sep_len str_nls (CHR 0x0D # s) = (if startswith [CHR 0x0A] s then 2 else 1)"
  by (cases s; auto simp: sep_len_def str_nls_def bytes_nls_def startswith_def)+

lemma splitlines_translated: "splitlines (translate_newlines False s) = splitlines s"
proof (induction s rule: length_induct)
  case (1 s)
  show ?case
  proof (cases s)
    case (Cons c t)
    consider (cr) "c = CHR 0x0D" | (lf) "c = CHR 0x0A" | (other) "no_break c" by (auto simp: no_break_def)
    then show ?thesis
    proof cases
      case cr
      let ?k = "if startswith [CHR 0x0A] t then 2 else 1 :: nat"
      have "splitlines (translate_newlines False s) = [] # splitlines (translate_newlines True t)"
        using splitlines_sep [OF sep_len_breaks(1), of "translate_newlines True t"] Cons cr by simp
      moreover have "splitlines s = [] # splitlines (drop ?k s)"
        using splitlines_sep [OF sep_len_breaks(2) _, of t] Cons cr by simp
      moreover have "translate_newlines True t = translate_newlines False (drop ?k s)"
        using Cons by (auto simp: translate_after_return drop_Suc startswith_def)
      moreover have "length (drop ?k s) < length s" using Cons by simp
      ultimately show ?thesis using 1 by auto
    next
      case lf
      then show ?thesis
        using splitlines_sep [OF sep_len_breaks(1), of t] splitlines_sep [OF sep_len_breaks(1), of "translate_newlines False t"] Cons 1 by simp
    next
      case other
      let ?k = "sep_len str_nls (c # t)"
      have tr: "translate_newlines False s = c # translate_newlines False t" using other Cons by (simp add: no_break_def)
      show ?thesis
      proof (cases "?k = 0")
        case True
        then show ?thesis
          using splitlines_char [of c t] splitlines_char [of c "translate_newlines False t"] sep_len_other [OF other, of t] tr Cons 1 by simp
      next
        case False
        then have "drop ?k (translate_newlines False s) = translate_newlines False (drop ?k s)"
          using break_seps [OF other, of t] Cons by (intro drop_translate) simp
        moreover have "length (drop ?k s) < length s" using False Cons by simp
        ultimately show ?thesis
          using splitlines_sep [of s ?k] splitlines_sep [of "translate_newlines False s" ?k] sep_len_other [OF other, of t] tr Cons False 1
          by auto
      qed
    qed
  qed simp
qed

lemma read_text_lines: "read_text bs = Inr s \<Longrightarrow> decode_utf8 bs = Inr bs \<and> splitlines bs = splitlines s"
  by (auto simp: read_text_def universal_newlines_def splitlines_translated decode_utf8_def split: if_splits)

lemma put_pair_fields: "for_each (add_field msg) acc ls = Inr fds \<Longrightarrow> for_each put_pair acc ls = Inr fds"
proof (induction ls arbitrary: acc)
  case (Cons l ls)
  obtain acc' where a: "add_field msg acc l = Inr acc'" "for_each (add_field msg) acc' ls = Inr fds" using Cons.prems by (auto simp: result_simps)
  have "put_pair acc l = Inr acc'" using a(1) by (auto simp: add_field_def put_pair_def split: option.splits if_splits)
  then show ?case using Cons.IH [OF a(2)] by simp
qed simp

text \<open>The manifest of a build, as the one script reads it from a file and the other from a ZIP.\<close>

lemma same_manifest:
  assumes "read_fields msg fs p = Inr fds" "read_bytes fs p = Inr bs" "z_read zs ''build.manifest'' = Inr bs"
  shows "zip_manifest zs = Inr fds"
proof -
  obtain s where "read_text bs = Inr s" "for_each (add_field msg) [] (splitlines s) = Inr fds"
    using assms(1,2) by (auto simp: read_fields_def result_simps)
  then show ?thesis
    using read_text_lines put_pair_fields assms(3) by (fastforce simp: zip_manifest_def)
qed

subsection \<open>JSON text is ASCII\<close>

definition text_char :: "char \<Rightarrow> bool" where
  "text_char c \<longleftrightarrow> printable c \<or> c = CHR 0x0A"

lemma hex_text: "hex_char c \<Longrightarrow> text_char c"
  by (auto simp: hex_char_def text_char_def printable_def less_eq_char_def)

lemma unicode_escape_text: "0 \<le> n \<Longrightarrow> list_all text_char (unicode_escape n)"
proof -
  assume "0 \<le> n"
  then have "list_all hex_char (zfill 4 (to_base 16 n))" using to_base_16_props [of n] by simp
  moreover have "list_all text_char [backslash, CHR ''u'']" by code_simp
  ultimately show ?thesis using hex_text by (simp add: unicode_escape_def list_all_iff)
qed

lemma escape_text: "is_point p \<Longrightarrow> list_all text_char (escape_point p)"
proof (cases "map_of short_escapes p")
  case (Some c)
  have "list_all (\<lambda>(p, c). text_char c) short_escapes" "text_char backslash" by code_simp+
  then show ?thesis using Some map_of_SomeD [OF Some] by (auto simp: escape_point_def list_all_iff)
next
  case None
  assume "is_point p"
  note pt = code_point_back [OF this]
  have one: "list_all text_char (unicode_escape (code_point p))" using pt(1) by (rule unicode_escape_text)
  show ?thesis
  proof (cases "code_point p < 65536")
    case True
    then show ?thesis using None one by (auto simp: escape_point_def Let_def text_char_def list_all_iff)
  next
    case False
    then have "list_all text_char (unicode_escape (55296 + (code_point p - 65536) div 1024))"
      "list_all text_char (unicode_escape (56320 + (code_point p - 65536) mod 1024))"
      by (intro unicode_escape_text; simp)+
    then show ?thesis using None False by (auto simp: escape_point_def Let_def text_char_def list_all_iff)
  qed
qed

lemma dumps_str_text: "valid_utf8 s \<Longrightarrow> list_all text_char (dumps_str s)"
proof -
  assume "valid_utf8 s"
  then have "list_all is_point (code_points s)" by (rule points_of_valid)
  then have "list_all text_char (concat (map escape_point (code_points s)))" using escape_text by (fastforce simp: list_all_iff)
  moreover have "text_char (CHR 0x22)" by code_simp
  ultimately show ?thesis by (simp add: dumps_str_def)
qed

lemma join_text: "list_all text_char sep \<Longrightarrow> list_all (list_all text_char) xs \<Longrightarrow> list_all text_char (join sep xs)"
  by (induction sep xs rule: join.induct) simp_all

lemma bracketed_text:
  "list_all text_char l \<Longrightarrow> list_all text_char r \<Longrightarrow> list_all (list_all text_char) xs \<Longrightarrow> list_all text_char (bracketed l r k xs)"
proof -
  assume a: "list_all text_char l" "list_all text_char r" "list_all (list_all text_char) xs"
  have "text_char (CHR '' '')" "text_char (CHR 0x0A)" "text_char (CHR '','')" by code_simp+
  then have nl: "list_all text_char (new_line k)" "list_all text_char (CHR '','' # new_line k)" for k by (auto simp: new_line_def list_all_iff)
  show ?thesis using a nl join_text [OF nl(2) a(3)] by (simp add: bracketed_def)
qed

lemma dumps_text: "plain_json j \<Longrightarrow> list_all text_char (dumps_at sk k j)"
proof (induction j arbitrary: k rule: measure_induct_rule [where f = size])
  case (less j)
  show ?case
  proof (cases j)
    case (JInt n)
    have "list_all is_dec (to_base 10 (if n < 0 then - n else n))" using decimal [of "if n < 0 then - n else n"] by simp
    moreover have "is_dec c \<Longrightarrow> text_char c" for c by (auto simp: is_dec_def text_char_def printable_def less_eq_char_def)
    moreover have "text_char (CHR ''-'')" by code_simp
    ultimately show ?thesis using JInt by (auto simp: str_int_def list_all_iff)
  next
    case (JArr xs)
    have "list_all text_char (dumps_at sk (Suc k) x)" if "x \<in> set xs" for x
      using less.IH [of x] less.prems size_array_item [OF that] that JArr by (auto simp: list_all_iff)
    then have "list_all (list_all text_char) (map (dumps_at sk (Suc k)) xs)" by (simp add: list_all_iff)
    moreover have "list_all text_char ''[''" "list_all text_char '']''" by code_simp+
    ultimately show ?thesis using JArr by (simp add: bracketed_text)
  next
    case (JObj d)
    let ?d = "if sk then sort_key fst d else d"
    have "list_all text_char (dumps_str (fst p) @ '': '' @ dumps_at sk (Suc k) (snd p))" if "p \<in> set ?d" for p
    proof -
      have p: "(fst p, snd p) \<in> set d" using that by (simp split: if_splits)
      have "list_all text_char (dumps_at sk (Suc k) (snd p))"
        using less.IH [of "snd p"] less.prems size_object_item [OF p] p JObj by (auto simp: list_all_iff)
      moreover have "valid_utf8 (fst p)" using less.prems p JObj by (auto simp: list_all_iff dict_keys_def)
      moreover have "list_all text_char '': ''" by code_simp
      ultimately show ?thesis using dumps_str_text by simp
    qed
    then have "list_all (list_all text_char) (map (\<lambda>p. dumps_str (fst p) @ '': '' @ dumps_at sk (Suc k) (snd p)) ?d)"
      by (simp add: list_all_iff)
    moreover have "list_all text_char [CHR 0x7B]" "list_all text_char [CHR 0x7D]" by code_simp+
    ultimately show ?thesis using JObj by (simp add: bracketed_text)
  next
    case (JStr s)
    then show ?thesis using less.prems dumps_str_text by simp
  next
    case (JFloat s)
    then show ?thesis using less.prems by simp
  qed (auto simp: text_char_def printable_def less_eq_char_def)
qed

lemma loads_bytes_written:
  assumes "plain_json j"
  shows "loads_bytes L (dumps sk j @ [CHR 0x0A]) = Inr (with_order sk j)"
proof -
  let ?t = "dumps sk j @ [CHR 0x0A]"
  have "list_all text_char ?t" using dumps_text [OF assms] by (simp add: dumps_def text_char_def)
  moreover have "text_char c \<Longrightarrow> c \<le> CHR 0x7F \<and> c \<noteq> CHR 0x00 \<and> c \<noteq> CHR 0xEF" for c
    by (auto simp: text_char_def printable_def less_eq_char_def)
  ultimately have "is_ascii ?t" "CHR 0x00 \<notin> set ?t" "CHR 0xEF \<notin> set ?t" by (auto simp: is_ascii_def list_all_iff)
  moreover from this(3) have "\<not> startswith UTF8_BOM ?t" by (cases ?t) (auto simp: startswith_def UTF8_BOM_def)
  moreover have "json_ws [CHR 0x0A] = []" by (simp add: json_ws_def)
  ultimately show ?thesis using ascii_valid_utf8 assms by (simp add: loads_bytes_def json_bytes_def loads_written)
qed

subsection \<open>The report, read back\<close>

lemma map_of_sorted: "distinct (map fst d) \<Longrightarrow> map_of (sort_key fst d) = map_of d"
proof
  fix k assume "distinct (map fst d)"
  moreover from this have "distinct (map fst (sort_key fst d))" unfolding distinct_map set_sort distinct_sort .
  ultimately have "map_of (sort_key fst d) k = Some v \<longleftrightarrow> map_of d k = Some v" for v by simp
  then show "map_of (sort_key fst d) k = map_of d k" by (metis not_None_eq)
qed

lemma getitem_ordered:
  assumes "distinct (map fst d)" "map_of d k = Some v"
  shows "getitem (with_order True (JObj d)) k = Inr (with_order True v)"
proof -
  have "map_of (map (\<lambda>p. (fst p, with_order True (snd p))) xs) k = map_option (with_order True) (map_of xs k)" for xs
    by (induction xs) auto
  then show ?thesis using map_of_sorted [OF assms(1)] assms(2) by (simp add: getitem_def dict_get_def)
qed

definition sorted_report :: "build_inputs \<Rightarrow> bytes list \<Rightarrow> json" where
  "sorted_report b blobs =
     with_order True (review_report (bi_project b) (bi_commit b) (bi_feeds b) (bi_epoch b) (download_items (bi_downloads b) blobs))"

lemma report_items:
  "getitem (sorted_report b blobs) ''format'' = Inr (JInt 1)"
  "getitem (sorted_report b blobs) ''project_commit'' = Inr (JStr (bi_project b))"
  "getitem (sorted_report b blobs) ''openwrt_commit'' = Inr (JStr (bi_commit b))"
  "getitem (sorted_report b blobs) ''source_date_epoch'' = Inr (JInt (bi_epoch b))"
  "getitem (sorted_report b blobs) ''feed_commits'' = Inr (with_order True (JObj (map (\<lambda>(n, r). (n, JStr r)) (bi_feeds b))))"
proof -
  obtain d where d: "review_report (bi_project b) (bi_commit b) (bi_feeds b) (bi_epoch b) (download_items (bi_downloads b) blobs) = JObj d"
    "distinct (map fst d)" "map_of d ''format'' = Some (JInt 1)" "map_of d ''project_commit'' = Some (JStr (bi_project b))"
    "map_of d ''openwrt_commit'' = Some (JStr (bi_commit b))" "map_of d ''source_date_epoch'' = Some (JInt (bi_epoch b))"
    "map_of d ''feed_commits'' = Some (JObj (map (\<lambda>(n, r). (n, JStr r)) (bi_feeds b)))"
    by (simp add: review_report_def)
  note g = getitem_ordered [OF d(2), folded d(1), folded sorted_report_def]
  show "getitem (sorted_report b blobs) ''format'' = Inr (JInt 1)"
    "getitem (sorted_report b blobs) ''project_commit'' = Inr (JStr (bi_project b))"
    "getitem (sorted_report b blobs) ''openwrt_commit'' = Inr (JStr (bi_commit b))"
    "getitem (sorted_report b blobs) ''source_date_epoch'' = Inr (JInt (bi_epoch b))"
    "getitem (sorted_report b blobs) ''feed_commits'' = Inr (with_order True (JObj (map (\<lambda>(n, r). (n, JStr r)) (bi_feeds b))))"
    using g [OF d(3)] g [OF d(4)] g [OF d(5)] g [OF d(6)] g [OF d(7)] by (simp_all del: with_order.simps(7))
qed

lemma sha1_ascii: "fullmatch SHA1 s \<Longrightarrow> valid_utf8 s"
proof -
  assume "fullmatch SHA1 s"
  then have "list_all visible s" by (rule fullmatch_visible) code_simp
  then show ?thesis using ascii_valid_utf8 printable_ascii visible_printable by blast
qed

lemma digest_ascii: "valid_utf8 (sha256_hex bs)"
  using ascii_valid_utf8 printable_ascii digest_printable sha256_hex_form by blast

lemma source_name_ascii: "fullmatch source_name s \<Longrightarrow> valid_utf8 s"
proof -
  assume "fullmatch source_name s"
  then have "list_all visible s" by (rule fullmatch_visible) code_simp
  then show ?thesis using ascii_valid_utf8 printable_ascii visible_printable by blast
qed

lemma report_plain:
  assumes "locked (bi_commit b) (bi_feeds b)" "fullmatch SHA1 (bi_project b)" "list_all (fullmatch source_name) (bi_downloads b)"
  shows "plain_json (review_report (bi_project b) (bi_commit b) (bi_feeds b) (bi_epoch b) (download_items (bi_downloads b) blobs))"
proof -
  have "plain_json (download_item n k (sha256_hex bs))" if "fullmatch source_name n" for n k bs
    using source_name_ascii [OF that] digest_ascii by (simp add: download_item_def dict_keys_def)
  then have "list_all plain_json (download_items (bi_downloads b) blobs)"
    using assms(3) by (auto simp: download_items_def list_all_iff dest!: set_zip_leftD)
  moreover have "plain_json (JObj (map (\<lambda>(n, r). (n, JStr r)) (bi_feeds b)))"
  proof -
    have k: "dict_keys (map (\<lambda>(n, r). (n, JStr r)) (bi_feeds b)) = dict_keys (bi_feeds b)" by (simp add: dict_keys_def comp_def case_prod_unfold)
    have "list_all valid_utf8 source_feeds" by code_simp
    then have "list_all valid_utf8 (dict_keys (bi_feeds b))" using assms(1) by (simp add: locked_def list_all_iff)
    then show ?thesis using assms(1) sha1_ascii unfolding plain_json.simps k by (auto simp: locked_def list_all_iff)
  qed
  ultimately show ?thesis using assms sha1_ascii by (simp add: review_report_def dict_keys_def locked_def)
qed

subsection \<open>The checks of the other script\<close>

text \<open>A ZIP that holds a list of files.\<close>

definition zip_holds :: "zmember list \<Rightarrow> bytes dict \<Rightarrow> bool" where
  "zip_holds zs files \<longleftrightarrow> distinct (map z_name zs) \<and> set (map z_name zs) = set (dict_keys files) \<and>
     list_all (\<lambda>(n, bs). z_read zs n = Inr bs) files \<and> sum_list (map z_size zs) \<le> LIMIT"

definition review_inventory :: "bytes dict \<Rightarrow> string dict" where
  "review_inventory files = map (\<lambda>n. (n, sha256_hex (the (map_of files n)))) (sort (dict_keys files))"

lemma listing_inventory: "listing_of files = sums_text (review_inventory files)"
  by (simp add: listing_of_def sums_text_def review_inventory_def comp_def)

lemma inventory_keys: "dict_keys (review_inventory files) = sort (dict_keys files)"
  by (simp add: review_inventory_def dict_keys_def comp_def)

lemma inventory_map: "map_of files n = Some bs \<Longrightarrow> map_of (review_inventory files) n = Some (sha256_hex bs)"
proof -
  assume n: "map_of files n = Some bs"
  then have "n \<in> set (dict_keys files)" using map_of_key_in_set by (simp add: dict_keys_def)
  then show ?thesis using n by (simp add: review_inventory_def map_of_map_restrict)
qed

lemma zip_inventory:
  assumes zs: "zip_holds zs (files @ [(''SHA256SUMS'', listing_of files)])"
    and names: "distinct (dict_keys files)" "''SHA256SUMS'' \<notin> set (dict_keys files)" "set (dict_keys files) \<subseteq> set MEMBERS"
  shows "read_checksums zs = Inr (review_inventory files)" "for_each (\<lambda>_. verify_member zs) () (review_inventory files) = Inr ()"
proof -
  have "list_all (\<lambda>n. list_all visible n \<and> n \<noteq> []) MEMBERS" by code_simp
  then have "list_all (\<lambda>(n, d). fullmatch SHA256 d \<and> list_all visible n \<and> n \<noteq> []) (review_inventory files)"
    using names(3) sha256_hex_form by (auto simp: review_inventory_def list_all_iff)
  moreover have "set (map z_name zs) = insert ''SHA256SUMS'' (set (dict_keys files))" using zs by (simp add: zip_holds_def dict_keys_def)
  ultimately show "read_checksums zs = Inr (review_inventory files)"
    using zs names by (intro read_checksums_written) (auto simp: inventory_keys zip_holds_def listing_inventory)
  have "verify_member zs (n, sha256_hex (the (map_of files n))) = Inr ()" if n: "n \<in> set (dict_keys files)" for n
  proof -
    obtain bs where "map_of files n = Some bs" using n by (auto simp: dict_keys_def dest: weak_map_of_SomeI)
    moreover from map_of_SomeD [OF this] have "z_read zs n = Inr bs" using zs by (auto simp: zip_holds_def list_all_iff)
    ultimately show ?thesis by (simp add: verify_member_def)
  qed
  then show "for_each (\<lambda>_. verify_member zs) () (review_inventory files) = Inr ()"
    unfolding for_each_unit by (auto simp: review_inventory_def list_all_iff)
qed

text \<open>The names of a collection are those a ZIP must have.\<close>

lemma review_keys:
  assumes "length trees = length ARCHIVES" "length copies = length METADATA"
  shows "dict_keys (review_files tar b trees copies blobs notices license)
    = ARCHIVES @ METADATA @ [''downloads.tar'', ''source-review.json''] @ dict_keys notices @ [''README.txt'', ''PROJECT-LICENSE.txt'']"
  using dict_keys_zip [OF assms(1)] dict_keys_zip [OF assms(2)] by (simp add: review_files_def dict_keys_def)

lemma review_names_ok:
  assumes "notice_files selection notices"
  defines "names \<equiv> ARCHIVES @ METADATA @ [''downloads.tar'', ''source-review.json''] @ dict_keys notices @ [''README.txt'', ''PROJECT-LICENSE.txt'']"
  shows "distinct names" "''SHA256SUMS'' \<notin> set names" "set names \<subseteq> set MEMBERS"
    "list_all (\<lambda>n. n \<in> set OPTIONAL_MEMBERS \<or> n \<in> insert ''SHA256SUMS'' (set names)) MEMBERS"
proof -
  have "dict_keys notices = [] \<or> dict_keys notices = [''THIRD-PARTY-NOTICES.tar'']"
    using assms(1) by (auto simp: notice_files_def dict_keys_def split: option.splits)
  moreover have "distinct (ARCHIVES @ METADATA @ [''downloads.tar'', ''source-review.json''] @ ns @ [''README.txt'', ''PROJECT-LICENSE.txt''])
      \<and> ''SHA256SUMS'' \<notin> set (ARCHIVES @ METADATA @ [''downloads.tar'', ''source-review.json''] @ ns @ [''README.txt'', ''PROJECT-LICENSE.txt''])
      \<and> list_all (\<lambda>n. n \<in> set MEMBERS) (ARCHIVES @ METADATA @ [''downloads.tar'', ''source-review.json''] @ ns @ [''README.txt'', ''PROJECT-LICENSE.txt''])
      \<and> list_all (\<lambda>n. n \<in> set OPTIONAL_MEMBERS \<or> n = ''SHA256SUMS'' \<or>
          n \<in> set (ARCHIVES @ METADATA @ [''downloads.tar'', ''source-review.json''] @ ns @ [''README.txt'', ''PROJECT-LICENSE.txt''])) MEMBERS"
    if "ns = [] \<or> ns = [''THIRD-PARTY-NOTICES.tar'']" for ns
    using that by (elim disjE; simp only:) code_simp+
  ultimately show "distinct names" "''SHA256SUMS'' \<notin> set names" "set names \<subseteq> set MEMBERS"
    "list_all (\<lambda>n. n \<in> set OPTIONAL_MEMBERS \<or> n \<in> insert ''SHA256SUMS'' (set names)) MEMBERS"
    unfolding names_def list_all_iff by blast+
qed

lemma check_inputs_manifest:
  assumes "check_inputs git fs repo source downloads artifacts selection = Inr b"
  obtains p fds config where "bi_metadata b = metadata source artifacts p"
    "read_fields ''duplicate build manifest field'' fs (child artifacts ''build.manifest'') = Inr fds"
    "source_digest fs (child source ''.config'') = Inr config"
    "list_all (\<lambda>(k, v). map_of fds k = Some v) (expected_fields (bi_project b) (bi_commit b) config (bi_epoch b))"
proof -
  have "\<exists>p fds config. bi_metadata b = metadata source artifacts p \<and>
    read_fields ''duplicate build manifest field'' fs (child artifacts ''build.manifest'') = Inr fds \<and>
    source_digest fs (child source ''.config'') = Inr config \<and>
    \<not> list_ex (\<lambda>(k, v). map_of fds k \<noteq> Some v) (expected_fields (bi_project b) (bi_commit b) config (bi_epoch b))"
    using assms unfolding check_inputs_def Let_def
    by (auto simp: rbind_eq_Inr [of "git_text _ _ _ _"] rbind_eq_Inr [of "read_locks _ _"] rbind_eq_Inr [of "rbind _ _"]
        rbind_eq_Inr [of "case selection of None \<Rightarrow> Inr () | Some p \<Rightarrow> regular fs p"] rbind_eq_Inr [of "for_each _ _ _"]
        rbind_eq_Inr [of "read_fields _ _ _"] rbind_eq_Inr [of "source_digest _ _"] rbind_eq_Inr [of "download_inputs _ _"]
        only_one_Inr split: if_splits)
  then obtain p fds config where r: "bi_metadata b = metadata source artifacts p"
    "read_fields ''duplicate build manifest field'' fs (child artifacts ''build.manifest'') = Inr fds"
    "source_digest fs (child source ''.config'') = Inr config"
    "\<not> list_ex (\<lambda>(k, v). map_of fds k \<noteq> Some v) (expected_fields (bi_project b) (bi_commit b) config (bi_epoch b))" by blast
  have "list_all (\<lambda>(k, v). map_of fds k = Some v) (expected_fields (bi_project b) (bi_commit b) config (bi_epoch b))"
    using r(4) by (simp add: list_all_iff list_ex_iff case_prod_unfold)
  then show thesis using that r(1-3) by blast
qed

text \<open>The files of a collection of checked inputs.\<close>

lemma collected_parts:
  assumes col: "collected git tar fs repo source downloads selection b files"
    and chk: "check_inputs git fs repo source downloads artifacts selection = Inr b"
  obtains trees copies blobs notices license where "list_all2 (plain_input fs) (bi_metadata b) copies"
    "files = review_files tar b trees copies blobs notices license" "length copies = length METADATA"
    "map fst (bi_metadata b) = METADATA" "distinct (dict_keys files)" "''SHA256SUMS'' \<notin> set (dict_keys files)"
    "set (dict_keys files) \<subseteq> set MEMBERS"
    "list_all (\<lambda>n. n \<in> set OPTIONAL_MEMBERS \<or> n \<in> insert ''SHA256SUMS'' (set (dict_keys files))) MEMBERS"
    "fullmatch SHA1 (bi_project b)" "locked (bi_commit b) (bi_feeds b)" "list_all (fullmatch source_name) (bi_downloads b)"
proof -
  obtain trees copies blobs notices license where c: "list_all2 (committed git fs) (checkouts repo source b) trees"
    "list_all2 (plain_input fs) (bi_metadata b) copies" "notice_files selection notices"
    "files = review_files tar b trees copies blobs notices license" using col by (auto simp: collected_def)
  have b: "locked (bi_commit b) (bi_feeds b)" "map fst (bi_metadata b) = METADATA" "list_all (fullmatch source_name) (bi_downloads b)"
    using check_inputs_Inr [OF chk] by (simp_all add: checked_build_def)
  have proj: "fullmatch SHA1 (bi_project b)" using c(1) by (auto simp: checkouts_def committed_def list_all2_Cons1)
  have len: "length trees = length ARCHIVES" "length copies = length METADATA"
    using list_all2_lengthD [OF c(1)] arg_cong [OF archive_names [OF b(1), of repo source], of length]
      list_all2_lengthD [OF c(2)] arg_cong [OF b(2), of length] by simp_all
  note ok = review_names_ok [OF c(3), folded review_keys [OF len, of tar b blobs notices license, folded c(4)]]
  show thesis by (rule that [OF c(2,4) len(2) b(2) ok proj b(1,3)])
qed

text \<open>The ZIP has the names it must have, and the inventory its members have.\<close>

lemma names_accepted:
  assumes zs: "zip_holds zs (files @ [(''SHA256SUMS'', v)])" and sub: "set (dict_keys files) \<subseteq> set MEMBERS"
    and all: "list_all (\<lambda>n. n \<in> set OPTIONAL_MEMBERS \<or> n \<in> insert ''SHA256SUMS'' (set (dict_keys files))) MEMBERS"
  shows "check_zip zs = Inr ()"
proof -
  have names: "set (map z_name zs) = insert ''SHA256SUMS'' (set (dict_keys files))" "distinct (map z_name zs)"
    "sum_list (map z_size zs) \<le> LIMIT" using zs by (simp_all add: zip_holds_def dict_keys_def)
  have "''SHA256SUMS'' \<in> set MEMBERS" by code_simp
  then have "list_all (\<lambda>n. n \<in> set MEMBERS) (map z_name zs)" using sub unfolding list_all_iff names(1) by blast
  moreover have "list_all (\<lambda>n. n \<in> set OPTIONAL_MEMBERS \<or> n \<in> set (map z_name zs)) MEMBERS" using all unfolding names(1) .
  ultimately show ?thesis using names(2,3) by (simp add: check_zip_def Let_def not_less)
qed

text \<open>The report is read back as it was written, and has the feeds it must have.\<close>

lemma report_accepted:
  assumes read: "z_read zs ''source-review.json'' = Inr (dumps True (review_report (bi_project b) (bi_commit b) (bi_feeds b) (bi_epoch b)
      (download_items (bi_downloads b) blobs)) @ [CHR 0x0A])"
    and b: "locked (bi_commit b) (bi_feeds b)" "fullmatch SHA1 (bi_project b)" "list_all (fullmatch source_name) (bi_downloads b)"
  shows "source_report L zs = Inr (sorted_report b blobs)"
proof -
  let ?feeds = "sort_key fst (map (\<lambda>(n, r). (n, JStr r)) (bi_feeds b))"
  note loads_bytes_written [OF report_plain [OF b, of blobs], of L True, folded sorted_report_def]
  then have read: "rbind (z_read zs ''source-review.json'') (loads_bytes L) = Inr (sorted_report b blobs)" using read by simp
  have "py_set (with_order True (JObj (map (\<lambda>(n, r). (n, JStr r)) (bi_feeds b)))) = Inr (map JStr (map fst ?feeds))"
    by (simp add: py_set_def dict_keys_def comp_def)
  then have keys: "rbind (getitem (sorted_report b blobs) ''feed_commits'') py_set = Inr (map JStr (map fst ?feeds))"
    unfolding report_items(5) by simp
  have "fst ` set (map (\<lambda>(n, r). (n, JStr r)) (bi_feeds b)) = set (dict_keys (bi_feeds b))" by (force simp: dict_keys_def)
  also have "\<dots> = set FEEDS" using b(1) unfolding locked_def source_feeds_def FEEDS_def by auto
  finally have "set (map JStr (map fst ?feeds)) = set (map JStr FEEDS)" by (simp only: set_map set_sort)
  then show ?thesis
    unfolding source_report_def read rbind_Inr Let_def report_items(1) keys by (simp add: eq_int_def)
qed

lemma collected_copy:
  assumes "list_all2 (plain_input fs) (bi_metadata b) copies" "map fst (bi_metadata b) = METADATA" "(n, q) \<in> set (bi_metadata b)"
  shows "\<exists>bs. holds fs q bs \<and> (n, bs) \<in> set (review_files tar b trees copies blobs notices license)"
proof -
  obtain k where k: "k < length (bi_metadata b)" "bi_metadata b ! k = (n, q)" using assms(3) by (auto simp: in_set_conv_nth)
  then have "plain_input fs (n, q) (copies ! k)" using list_all2_nthD [OF assms(1) k(1)] by simp
  moreover have "METADATA ! k = n" "k < length METADATA" using k assms(2) by (auto simp flip: assms(2))
  then have "(n, copies ! k) \<in> set (zip METADATA copies)"
    using list_all2_lengthD [OF assms(1)] k(1) by (force simp: in_set_zip)
  ultimately show ?thesis by (auto simp: plain_input_def review_files_def)
qed

lemma collection_accepted:
  assumes col: "collected git tar fs repo source downloads selection b files"
    and chk: "check_inputs git fs repo source downloads artifacts selection = Inr b"
    and zs: "zip_holds zs (files @ [(''SHA256SUMS'', listing_of files)])"
  shows "\<exists>blobs. check_bundle L zs = Inr (review_inventory files, sorted_report b blobs)"
proof -
  obtain trees copies blobs notices license where c: "list_all2 (plain_input fs) (bi_metadata b) copies"
    "files = review_files tar b trees copies blobs notices license" "length copies = length METADATA" "map fst (bi_metadata b) = METADATA"
    and ok: "distinct (dict_keys files)" "''SHA256SUMS'' \<notin> set (dict_keys files)" "set (dict_keys files) \<subseteq> set MEMBERS"
      "list_all (\<lambda>n. n \<in> set OPTIONAL_MEMBERS \<or> n \<in> insert ''SHA256SUMS'' (set (dict_keys files))) MEMBERS"
    and b: "fullmatch SHA1 (bi_project b)" "locked (bi_commit b) (bi_feeds b)" "list_all (fullmatch source_name) (bi_downloads b)"
    by (rule collected_parts [OF col chk])
  have holds_file: "z_read zs n = Inr bs" if "(n, bs) \<in> set files" for n bs
    using that zs by (auto simp: zip_holds_def list_all_iff)
  have report: "source_report L zs = Inr (sorted_report b blobs)"
    by (rule report_accepted [OF holds_file b(2,1,3)]) (simp add: c(2) review_files_def)
  obtain p fds config where m: "bi_metadata b = metadata source artifacts p"
    "read_fields ''duplicate build manifest field'' fs (child artifacts ''build.manifest'') = Inr fds"
    "source_digest fs (child source ''.config'') = Inr config"
    "list_all (\<lambda>(k, v). map_of fds k = Some v) (expected_fields (bi_project b) (bi_commit b) config (bi_epoch b))"
    using chk by (rule check_inputs_manifest)
  note copy = collected_copy [OF c(1,4), of _ _ tar trees blobs notices license, folded c(2)]
  obtain manifest where mf: "holds fs (child artifacts ''build.manifest'') manifest" "(''build.manifest'', manifest) \<in> set files"
    using copy [of "''build.manifest''"] m(1) by (auto simp: metadata_def)
  obtain cfg where cf: "holds fs (child source ''.config'') cfg" "(''openwrt.config'', cfg) \<in> set files"
    using copy [of "''openwrt.config''"] m(1) by (auto simp: metadata_def)
  have fields: "zip_manifest zs = Inr fds" using holds_read [OF mf(1)] holds_file [OF mf(2)] by (intro same_manifest [OF m(2)]) simp_all
  have "config = sha256_hex cfg" using m(3) cf(1) holds_unique by (auto simp: source_digest_Inr)
  moreover have "map_of (review_inventory files) ''openwrt.config'' = Some (sha256_hex cfg)"
    using ok(1) cf(2) by (intro inventory_map) (simp add: dict_keys_def)
  ultimately have "disagreement L (review_inventory files) fds (sorted_report b blobs) = Inr False"
    using m(4) report_items [of b blobs] by (simp add: disagreement_def expected_fields_def dict_get_def py_str_def)
  then show ?thesis
    using names_accepted [OF zs ok(3,4)] zip_inventory [OF zs ok(1-3)] report fields by (auto simp: check_bundle_def)
qed

text \<open>
  C2: What is collected can be restored. For every collection of checked inputs, a ZIP with its
  files and within the size limit passes all the checks \<open>restore\<close> makes before it writes anything:
  the member names, the inventory and every digest in it, the report, which is read back as
  written, the manifest, and the agreement of the two on commits, configuration and epoch.
\<close>

theorem collected_is_accepted:
  assumes col: "collected git tar fs repo source downloads selection b files"
    and chk: "check_inputs git fs repo source downloads artifacts selection = Inr b"
    and zs: "zip_holds zs (files @ [(''SHA256SUMS'', listing_of files)])"
  shows "\<exists>blobs. check_bundle L zs = Inr (review_inventory files, sorted_report b blobs)"
  using assms by (rule collection_accepted)

definition zip_of :: "bytes dict \<Rightarrow> zmember list" where
  "zip_of files = map (\<lambda>(n, bs). \<lparr>z_name = n, z_size = 1, z_data = Inr bs\<rparr>) files"

lemma zip_of_holds:
  assumes "distinct (dict_keys files)" "int (length files) \<le> LIMIT"
  shows "zip_holds (zip_of files) files"
proof -
  have "map z_name (zip_of files) = dict_keys files" by (simp add: zip_of_def dict_keys_def comp_def case_prod_unfold)
  moreover have "sum_list (map z_size (zip_of files)) = int (length files)"
    by (simp add: zip_of_def comp_def case_prod_unfold sum_list_triv)
  moreover have "z_read (zip_of files) n = Inr bs" if "(n, bs) \<in> set files" for n bs
  proof -
    have "map (\<lambda>z. (z_name z, z_data z)) (zip_of files) = map (\<lambda>p. (fst p, (Inr :: bytes \<Rightarrow> bytes result) (snd p))) files"
      by (simp add: zip_of_def comp_def case_prod_unfold)
    moreover have "map_of (map (\<lambda>p. (fst p, (Inr :: bytes \<Rightarrow> bytes result) (snd p))) files) n = map_option Inr (map_of files n)"
      by (induction files) auto
    ultimately show ?thesis using assms(1) that by (simp add: z_read_def dict_keys_def)
  qed
  ultimately show ?thesis using assms by (auto simp: zip_holds_def list_all_iff)
qed

lemma collected_length:
  assumes "collected git tar fs repo source downloads selection b files" "check_inputs git fs repo source downloads artifacts selection = Inr b"
  shows "distinct (dict_keys (files @ [(''SHA256SUMS'', v)]))" "int (length (files @ [(''SHA256SUMS'', v)])) \<le> LIMIT"
proof -
  have ok: "distinct (dict_keys files)" "''SHA256SUMS'' \<notin> set (dict_keys files)" "set (dict_keys files) \<subseteq> set MEMBERS"
    by (rule collected_parts [OF assms]; blast)+
  show d: "distinct (dict_keys (files @ [(''SHA256SUMS'', v)]))" using ok(1,2) by (simp add: dict_keys_def)
  have "length (dict_keys files) \<le> card (set MEMBERS)" using ok(1,3) distinct_card card_mono by (metis finite_set)
  moreover have "card (set MEMBERS) \<le> length MEMBERS" by (rule card_length)
  ultimately have "length files \<le> length MEMBERS" by (simp add: dict_keys_def)
  moreover have "int (length MEMBERS) + 1 \<le> LIMIT" by code_simp
  ultimately show "int (length (files @ [(''SHA256SUMS'', v)])) \<le> LIMIT" by simp
qed

theorem collected_is_accepted_witness:
  "\<exists>zs checksums report. check_bundle (run_libs [] [] []) zs = Inr (checksums, report) \<and>
     getitem report ''project_commit'' = Inr (JStr one_commit)"
proof -
  obtain fs' where "collect_source_review one_git id no_stream (\<lambda>_. ''tar'') (build_disk build_text) (at [''r'']) (at [''s'']) (at [''d''])
     (at [''a'']) (at [''o'']) None = Inr fs'" by (rule build_run)
  from collect_result [OF build_fresh this] obtain files where
    f: "collected one_git (\<lambda>_. ''tar'') (build_disk build_text) (at [''r'']) (at [''s'']) (at [''d'']) None one_build files"
    using build_checked by auto
  obtain blobs where "check_bundle (run_libs [] [] []) (zip_of (files @ [(''SHA256SUMS'', listing_of files)])) = Inr (review_inventory files, sorted_report one_build blobs)"
    using collected_is_accepted [OF f build_checked zip_of_holds [OF collected_length [OF f build_checked]]] by blast
  moreover have "getitem (sorted_report one_build blobs) ''project_commit'' = Inr (JStr one_commit)"
    by (simp add: report_items one_build_def)
  ultimately show ?thesis by blast
qed

end
