(* ===== verification/Extract_Bounds.thy ===== *)
theory Extract_Bounds
  imports Confinement
begin

text \<open>
  How much \<open>extract_tree\<close> writes: the limits it checks on what the headers of an archive state
  bound the bytes and the files and links that are on the disk afterwards.
\<close>

subsection \<open>What a directory holds\<close>

definition file_size :: "fsys \<Rightarrow> string list \<Rightarrow> int" where
  "file_size fs loc = (case nodes fs loc of Some (File _ bs) \<Rightarrow> int (length bs) | _ \<Rightarrow> 0)"

definition disk_use :: "fsys \<Rightarrow> string list \<Rightarrow> int" where
  "disk_use fs loc = sum_list (map (\<lambda>rel. file_size fs (loc @ rel)) (below fs loc))"

definition is_leaf :: "fsys \<Rightarrow> string list \<Rightarrow> bool" where
  "is_leaf fs loc = (case nodes fs loc of Some (File _ _) \<Rightarrow> True | Some (Link _) \<Rightarrow> True | _ \<Rightarrow> False)"

definition leaves :: "fsys \<Rightarrow> string list \<Rightarrow> string list list" where
  "leaves fs loc = filter (\<lambda>rel. is_leaf fs (loc @ rel)) (below fs loc)"

text \<open>
  The size in a header, as \<open>tarfile\<close> reads it: never negative, and for a file the length of what
  \<open>extractfile\<close> gives.
\<close>

definition true_size :: "member \<Rightarrow> bool" where
  "true_size m \<longleftrightarrow> 0 \<le> m_size m \<and> (m_kind m = Regular \<longrightarrow> m_size m = int (length (m_data m)))"

lemma file_size_nonneg [simp]: "0 \<le> file_size fs loc"
  by (auto simp: file_size_def split: option.split node.split)

lemma file_size_leaf: "\<not> is_leaf fs loc \<Longrightarrow> file_size fs loc = 0"
  by (auto simp: file_size_def is_leaf_def split: option.split node.split)

lemma distinct_leaves: "distinct (leaves fs loc)"
  by (simp add: leaves_def below_def)

lemma file_size_member: "true_size m \<Longrightarrow> as_member m (nodes fs loc) \<Longrightarrow> file_size fs loc \<le> m_size m"
  by (auto simp: true_size_def as_member_def file_size_def split: member_kind.splits)

lemma disk_use_leaves: "disk_use fs loc = (\<Sum>rel\<in>set (leaves fs loc). file_size fs (loc @ rel))"
proof -
  have "disk_use fs loc = (\<Sum>rel\<in>set (below fs loc). file_size fs (loc @ rel))"
    by (simp add: disk_use_def sum_list_distinct_conv_sum_set below_def)
  also have "\<dots> = (\<Sum>rel\<in>set (leaves fs loc). file_size fs (loc @ rel))"
    by (intro sum.mono_neutral_right) (auto simp: leaves_def intro!: file_size_leaf)
  finally show ?thesis .
qed

subsection \<open>Every file and link is a member\<close>

lemma leaf_is_member:
  assumes wf: "wf_tree fs" and leaf: "is_leaf fs (out @ rel)" and rel: "rel = take (length rel) p"
    and p: "nodes fs (out @ p) \<noteq> None" and out: "out \<noteq> []"
  shows "rel = p"
proof (rule ccontr)
  assume "rel \<noteq> p"
  have ap: "out @ p = (out @ rel) @ drop (length rel) p" using rel append_take_drop_id [of "length rel" p] by simp
  have "drop (length rel) p \<noteq> []" using \<open>rel \<noteq> p\<close> rel by (metis append_Nil2 append_take_drop_id)
  then have "\<exists>m. nodes fs (out @ rel) = Some (Dir m)"
    using wf_tree_dirs [OF wf p [unfolded ap]] out by simp
  then show False using leaf by (auto simp: is_leaf_def)
qed

text \<open>So a distinct list of members bounds the number of leaves and what they hold.\<close>

lemma leaves_bounded:
  assumes sub: "set (leaves fs out) \<subseteq> set (map member_at ms)" and d: "distinct (map member_at ms)"
    and sizes: "\<forall>m \<in> set ms. file_size fs (out @ member_at m) \<le> m_size m"
  shows "length (leaves fs out) \<le> length ms" "disk_use fs out \<le> sum_list (map m_size ms)"
proof -
  have "length (leaves fs out) = card (set (leaves fs out))" by (simp add: distinct_card distinct_leaves)
  also have "\<dots> \<le> card (set (map member_at ms))" using sub by (intro card_mono) simp_all
  also have "\<dots> \<le> length (map member_at ms)" by (rule card_length)
  finally show "length (leaves fs out) \<le> length ms" by simp
  have "disk_use fs out \<le> (\<Sum>rel\<in>set (map member_at ms). file_size fs (out @ rel))"
    unfolding disk_use_leaves using sub by (intro sum_mono2) simp_all
  also have "\<dots> = sum_list (map (\<lambda>rel. file_size fs (out @ rel)) (map member_at ms))"
    by (rule sum_list_distinct_conv_sum_set [OF d, symmetric])
  also have "\<dots> = sum_list (map (\<lambda>m. file_size fs (out @ member_at m)) ms)" by (simp add: comp_def)
  also have "\<dots> \<le> sum_list (map m_size ms)" using sizes by (intro sum_list_mono) simp
  finally show "disk_use fs out \<le> sum_list (map m_size ms)" .
qed

text \<open>
  C23: Unpacking is bounded. When \<open>extract_tree\<close> succeeds in a new directory, the files there hold
  at most 2 GiB in all, and there are at most 100000 files and links, provided that \<open>tarfile\<close>
  reports sizes that are not negative and, for files, the length of what it gives out.
\<close>

theorem extract_tree_bounded:
  assumes out: "fresh_out fs out" and ok: "extract_tree untar fs archive (at out) = Inr fs'"
    and true: "\<forall>raw ms. untar raw = Inr ms \<longrightarrow> list_all true_size ms"
  shows "disk_use fs' out \<le> 2 * 1024 ^ 3 \<and> length (leaves fs' out) \<le> 100000"
proof -
  from out ok obtain raw ms names where r: "untar raw = Inr ms" "check_members ms = Inr names" "filling fs out (links_of ms) fs'"
    "\<forall>m \<in> set ms. as_member m (nodes fs' (out @ member_at m))"
    "\<forall>r. nodes fs' (out @ r) \<noteq> None \<longrightarrow> r = [] \<or> (\<exists>m \<in> set ms. r = take (length r) (member_at m))"
    by (rule extract_tree_Inr)
  have limits: "sum_list (map m_size ms) \<le> LIMIT" "int (length ms) \<le> MAX_MEMBERS"
    using r(2) by (auto simp: check_members_def split: if_splits)
  have "out \<noteq> []" using out by (simp add: fresh_out_def)
  have "set (leaves fs' out) \<subseteq> set (map member_at ms)"
  proof
    fix rel assume "rel \<in> set (leaves fs' out)"
    then have rel: "rel \<noteq> []" "nodes fs' (out @ rel) \<noteq> None" "is_leaf fs' (out @ rel)"
      by (auto simp: leaves_def set_below)
    then obtain m where m: "m \<in> set ms" "rel = take (length rel) (member_at m)" using r(5) by blast
    have "nodes fs' (out @ member_at m) \<noteq> None" using bspec [OF r(4) m(1)] by (auto simp: as_member_def split: member_kind.splits)
    moreover have "wf_tree fs'" using r(3) by (simp add: filling_def)
    ultimately have "rel = member_at m" using leaf_is_member rel(3) m(2) \<open>out \<noteq> []\<close> by blast
    then show "rel \<in> set (map member_at ms)" using m(1) by simp
  qed
  moreover have "\<forall>m \<in> set ms. file_size fs' (out @ member_at m) \<le> m_size m"
    using true r(1,4) file_size_member by (fastforce simp: list_all_iff)
  ultimately have "length (leaves fs' out) \<le> length ms" "disk_use fs' out \<le> sum_list (map m_size ms)"
    by (rule leaves_bounded [OF _ distinct_members [OF r(2)]])+
  then show ?thesis
    using limits by (simp_all add: LIMIT_def MAX_MEMBERS_def)
qed

theorem extract_tree_bounded_witness:
  "\<exists>fs'. extract_tree (\<lambda>_. Inr sample_members) sample_disk (at [''a'']) (at [''d'', ''t'']) = Inr fs' \<and>
     disk_use fs' [''d'', ''t''] \<le> 2 * 1024 ^ 3 \<and> length (leaves fs' [''d'', ''t'']) \<le> 100000"
proof -
  obtain fs' where ok: "extract_tree (\<lambda>_. Inr sample_members) sample_disk (at [''a'']) (at [''d'', ''t'']) = Inr fs'"
    by (rule sample_disk_run)
  have "list_all true_size sample_members" by code_simp
  then have "\<forall>raw ms. (\<lambda>_. Inr sample_members) (raw :: bytes) = (Inr ms :: member list result) \<longrightarrow> list_all true_size ms" by simp
  from extract_tree_bounded [OF sample_disk_fresh ok this] show ?thesis using ok by blast
qed

end
