(* ===== verification/Offline_Network.thy ===== *)
theory Offline_Network
  imports File_System Py_Loads
begin

text \<open>
  \<open>scripts/check-offline-network.py\<close>: an offline rebuild runs where the loopback interface is the
  only one, and where TCP works on it.
\<close>

subsection \<open>The interfaces\<close>

text \<open>\<open>len\<close>, indexing and \<open>in\<close> on the values \<open>json.loads\<close> may give.\<close>

definition py_len :: "json \<Rightarrow> nat result" where
  "py_len j = (case j of JArr xs \<Rightarrow> Inr (length xs) | JObj d \<Rightarrow> Inr (length d) | JStr s \<Rightarrow> Inr (length (code_points s))
     | _ \<Rightarrow> Inl (TypeError ''len''))"

definition first_item :: "json \<Rightarrow> json result" where
  "first_item j = (case j of JArr (x # _) \<Rightarrow> Inr x | JStr s \<Rightarrow> Inr (JStr (hd (code_points s)))
     | JObj _ \<Rightarrow> Inl (KeyError ''0'') | _ \<Rightarrow> Inl (TypeError ''subscript''))"

definition json_in :: "string \<Rightarrow> json \<Rightarrow> bool result" where
  "json_in s j = (case j of
     JArr xs \<Rightarrow> Inr (JStr s \<in> set xs)
   | JObj d \<Rightarrow> Inr (s \<in> set (dict_keys d))
   | JStr t \<Rightarrow> Inr (split_at s t \<noteq> None)
   | _ \<Rightarrow> Inl (TypeError ''not iterable''))"

definition validate_interfaces :: "json \<Rightarrow> unit result" where
  "validate_interfaces interfaces =
     (let bad = ValueError ''offline test requires only the loopback interface'' in
      rbind (py_len interfaces) (\<lambda>n.
      if n \<noteq> 1 then Inl bad
      else rbind (first_item interfaces) (\<lambda>i.
           rbind (json_get i ''ifname'' JNull) (\<lambda>name.
           if name \<noteq> JStr ''lo'' then Inl bad
           else rbind (json_get i ''flags'' (JArr [])) (\<lambda>flags.
                rbind (json_in ''UP'' flags) (\<lambda>up.
                raise_if (\<not> up) (ValueError ''loopback must be up for fakeroot TCP IPC'')))))))"

text \<open>
  The network check accepts exactly one kind of machine: one whose list of interfaces is
  the single interface \<open>lo\<close>, with \<open>UP\<close> among its flags.
\<close>

theorem validate_interfaces_iff:
  "validate_interfaces j = Inr () \<longleftrightarrow>
     (\<exists>d flags. j = JArr [JObj d] \<and> map_of d ''ifname'' = Some (JStr ''lo'') \<and> map_of d ''flags'' = Some flags \<and>
        json_in ''UP'' flags = Inr True)"
proof
  assume v: "validate_interfaces j = Inr ()"
  then obtain i name flags where i: "py_len j = Inr 1" "first_item j = Inr i"
    "json_get i ''ifname'' JNull = Inr (JStr ''lo'')" "json_get i ''flags'' (JArr []) = Inr flags" "json_in ''UP'' flags = Inr True"
    by (auto simp: validate_interfaces_def result_simps Let_def split: if_splits)
  from i(3) obtain d where d: "i = JObj d" "map_of d ''ifname'' = Some (JStr ''lo'')"
    by (auto simp: json_get_def split: json.splits option.splits)
  have "j = JArr [JObj d]"
    using i(1,2) d(1) by (auto simp: py_len_def first_item_def length_Suc_conv split: json.splits)
  moreover have "map_of d ''flags'' = Some flags"
    using i(4,5) d(1) by (auto simp: json_get_def json_in_def split: option.splits)
  ultimately show "\<exists>d flags. j = JArr [JObj d] \<and> map_of d ''ifname'' = Some (JStr ''lo'') \<and> map_of d ''flags'' = Some flags \<and>
      json_in ''UP'' flags = Inr True" using d(2) i(5) by blast
qed (auto simp: validate_interfaces_def py_len_def first_item_def json_get_def)

subsection \<open>The local exchange\<close>

text \<open>
  The operations of the \<open>socket\<close> module that \<open>check_local_tcp\<close> uses, on a state of the network; a
  socket is a number. An operation that waits longer than the timeout of its socket raises
  \<open>TimeoutError\<close>, an \<open>OSError\<close>.
\<close>

type_synonym address = "string \<times> int"

record 'n tcp =
  tcp_socket :: "'n \<Rightarrow> ('n \<times> nat) result"
  tcp_bind :: "nat \<Rightarrow> address \<Rightarrow> 'n \<Rightarrow> 'n result"
  tcp_listen :: "nat \<Rightarrow> nat \<Rightarrow> 'n \<Rightarrow> 'n result"
  tcp_name :: "nat \<Rightarrow> 'n \<Rightarrow> address result"
  tcp_connect :: "address \<Rightarrow> 'n \<Rightarrow> ('n \<times> nat) result"
  tcp_accept :: "nat \<Rightarrow> 'n \<Rightarrow> ('n \<times> nat) result"
  tcp_send :: "nat \<Rightarrow> bytes \<Rightarrow> 'n \<Rightarrow> 'n result"
  tcp_recv :: "nat \<Rightarrow> nat \<Rightarrow> 'n \<Rightarrow> ('n \<times> bytes) result"
  tcp_close :: "nat \<Rightarrow> 'n \<Rightarrow> 'n"

definition check_local_tcp :: "'n tcp \<Rightarrow> 'n \<Rightarrow> 'n result" where
  "check_local_tcp T n =
     rbind (tcp_socket T n) (\<lambda>(n, listener).
     rbind (tcp_bind T listener (''127.0.0.1'', 0) n) (\<lambda>n.
     rbind (tcp_listen T listener 1 n) (\<lambda>n.
     rbind (tcp_name T listener n) (\<lambda>addr.
     rbind (tcp_connect T addr n) (\<lambda>(n, client).
     rbind (tcp_accept T listener n) (\<lambda>(n, connection).
     rbind (tcp_send T client ''x'' n) (\<lambda>n.
     rbind (tcp_recv T connection 1 n) (\<lambda>(n, got).
     if got \<noteq> ''x'' then Inl (ValueError ''local TCP exchange failed'')
     else Inr (tcp_close T listener (tcp_close T client (tcp_close T connection n)))))))))))"

text \<open>The script: \<open>ip_link\<close> is what \<open>ip -j link\<close> prints, \<open>decode\<close> reads bytes that are not plain UTF-8.\<close>

definition network_main :: "(bytes \<Rightarrow> string result) \<Rightarrow> bytes result \<Rightarrow> 'n tcp \<Rightarrow> 'n \<Rightarrow> string result" where
  "network_main decode ip_link T n =
     rbind ip_link (\<lambda>raw.
     rbind (json_bytes decode raw) (\<lambda>interfaces.
     rbind (validate_interfaces interfaces) (\<lambda>_.
     rbind (check_local_tcp T n) (\<lambda>_.
     Inr ''Offline network verified: loopback TCP works; no external interface''))))"

subsection \<open>What the verdict means\<close>

text \<open>The only interface is \<open>lo\<close>, and it is up; what \<open>ip\<close> printed says so.\<close>

definition isolated :: "(bytes \<Rightarrow> string result) \<Rightarrow> bytes result \<Rightarrow> bool" where
  "isolated decode ip_link \<longleftrightarrow> (\<exists>raw d flags. ip_link = Inr raw \<and> json_bytes decode raw = Inr (JArr [JObj d]) \<and>
     map_of d ''ifname'' = Some (JStr ''lo'') \<and> map_of d ''flags'' = Some flags \<and> json_in ''UP'' flags = Inr True)"

text \<open>
  A connection to the address of a listener on \<open>127.0.0.1\<close>, and what its accepted end gives when
  the other end has sent \<open>x\<close>.
\<close>

definition exchange :: "'n tcp \<Rightarrow> 'n \<Rightarrow> bytes \<Rightarrow> bool" where
  "exchange T n got \<longleftrightarrow> (\<exists>n1 listener n2 n3 addr n4 client n5 connection n6 n7.
     tcp_socket T n = Inr (n1, listener) \<and> tcp_bind T listener (''127.0.0.1'', 0) n1 = Inr n2 \<and>
     tcp_listen T listener 1 n2 = Inr n3 \<and> tcp_name T listener n3 = Inr addr \<and>
     tcp_connect T addr n3 = Inr (n4, client) \<and> tcp_accept T listener n4 = Inr (n5, connection) \<and>
     tcp_send T client ''x'' n5 = Inr n6 \<and> tcp_recv T connection 1 n6 = Inr (n7, got))"

lemma check_local_tcp_ok: "(\<exists>n'. check_local_tcp T n = Inr n') \<longleftrightarrow> exchange T n ''x''"
  by (fastforce simp: check_local_tcp_def exchange_def result_simps split: if_splits)

lemma check_local_tcp_wrong:
  "exchange T n got \<Longrightarrow> got \<noteq> ''x'' \<Longrightarrow> check_local_tcp T n = Inl (ValueError ''local TCP exchange failed'')"
  by (auto simp: check_local_tcp_def exchange_def)

lemma network_main_steps:
  "network_main decode ip_link T n =
     rbind (rbind ip_link (\<lambda>raw. rbind (json_bytes decode raw) validate_interfaces)) (\<lambda>_.
     rbind (check_local_tcp T n) (\<lambda>_. Inr ''Offline network verified: loopback TCP works; no external interface''))"
  by (simp add: network_main_def rbind_assoc)

lemma isolated_iff:
  "isolated decode ip_link \<longleftrightarrow> (\<exists>raw j. ip_link = Inr raw \<and> json_bytes decode raw = Inr j \<and> validate_interfaces j = Inr ())"
  unfolding isolated_def validate_interfaces_iff by blast

text \<open>
  C32: The network check says what it says, over any socket layer. The script prints its verdict
  exactly when \<open>ip\<close> lists the single interface \<open>lo\<close> with \<open>UP\<close> among its flags, and the byte sent over
  a connection to a listener on \<open>127.0.0.1\<close> is the one received at the accepted end; anything
  else received there is reported as a failed exchange; and where the interfaces are not as
  they should be, the outcome does not depend on the network at all.
\<close>

theorem network_verified:
  "(network_main decode ip_link T n = Inr msg \<longleftrightarrow>
      msg = ''Offline network verified: loopback TCP works; no external interface'' \<and> isolated decode ip_link \<and> exchange T n ''x'') \<and>
   (isolated decode ip_link \<and> exchange T n got \<and> got \<noteq> ''x'' \<longrightarrow>
      network_main decode ip_link T n = Inl (ValueError ''local TCP exchange failed'')) \<and>
   (\<not> isolated decode ip_link \<longrightarrow>
      (\<exists>e. network_main decode ip_link T n = Inl e \<and> network_main decode ip_link T' n' = Inl e))"
proof (intro conjI impI)
  show "network_main decode ip_link T n = Inr msg \<longleftrightarrow>
      msg = ''Offline network verified: loopback TCP works; no external interface'' \<and> isolated decode ip_link \<and> exchange T n ''x''"
    unfolding isolated_iff check_local_tcp_ok [symmetric] by (auto simp: network_main_def rbind_eq_Inr)
next
  assume "isolated decode ip_link \<and> exchange T n got \<and> got \<noteq> ''x''"
  then show "network_main decode ip_link T n = Inl (ValueError ''local TCP exchange failed'')"
    using check_local_tcp_wrong [of T n got] by (auto simp: isolated_iff network_main_def)
next
  assume no: "\<not> isolated decode ip_link"
  show "\<exists>e. network_main decode ip_link T n = Inl e \<and> network_main decode ip_link T' n' = Inl e"
  proof (cases "rbind ip_link (\<lambda>raw. rbind (json_bytes decode raw) validate_interfaces)")
    case (Inl e)
    show ?thesis unfolding network_main_steps Inl by simp
  next
    case (Inr u)
    then show ?thesis using no by (auto simp: isolated_iff rbind_eq_Inr)
  qed
qed

text \<open>A socket layer to run it on: two ends of one line, and what was sent.\<close>

definition wire :: "bytes tcp" where
  "wire = \<lparr>tcp_socket = \<lambda>n. Inr (n, 0), tcp_bind = \<lambda>i addr n. Inr n, tcp_listen = \<lambda>i backlog n. Inr n,
     tcp_name = \<lambda>i n. Inr (''127.0.0.1'', 32768), tcp_connect = \<lambda>addr n. Inr (n, 1), tcp_accept = \<lambda>i n. Inr (n, 2),
     tcp_send = \<lambda>i bs n. Inr (n @ bs), tcp_recv = \<lambda>i k n. Inr (drop k n, take k n), tcp_close = \<lambda>i n. n\<rparr>"

definition lo_only :: bytes where
  "lo_only = dumps False (JArr [JObj [(''ifname'', JStr ''lo''), (''flags'', JArr [JStr ''LOOPBACK'', JStr ''UP''])]])"

theorem network_verified_witness:
  "network_main Inr (Inr lo_only) wire [] = Inr ''Offline network verified: loopback TCP works; no external interface'' \<and>
   network_main Inr (Inr lo_only) wire ''y'' = Inl (ValueError ''local TCP exchange failed'')"
proof -
  let ?d = "[(''ifname'', JStr ''lo''), (''flags'', JArr [JStr ''LOOPBACK'', JStr ''UP''])]"
  have "json_bytes Inr lo_only = Inr (JArr [JObj ?d])" by code_simp
  moreover have "map_of ?d ''ifname'' = Some (JStr ''lo'')" "map_of ?d ''flags'' = Some (JArr [JStr ''LOOPBACK'', JStr ''UP''])"
    "json_in ''UP'' (JArr [JStr ''LOOPBACK'', JStr ''UP'']) = Inr True" by (simp_all add: json_in_def)
  ultimately have "isolated Inr (Inr lo_only)" unfolding isolated_def by blast
  moreover have "exchange wire [] ''x''" "exchange wire ''y'' ''y''" by (simp_all add: exchange_def wire_def)
  ultimately show ?thesis
    using network_verified [of Inr "Inr lo_only" wire "[]" "''Offline network verified: loopback TCP works; no external interface''" "''y''" wire "[]"]
      network_verified [of Inr "Inr lo_only" wire "''y''" "''Offline network verified: loopback TCP works; no external interface''" "''y''" wire "[]"]
    by simp
qed

end
