(* ===== verification/License_Main.thy ===== *)
theory License_Main
  imports License_Review File_System Py_Dumps
begin

text \<open>
  The report of \<open>scripts/review-package-licenses.py\<close> as JSON, and the script: the manifest and
  the metadata of a source bundle are read, and the report is written to a file that must not
  exist.
\<close>

definition declaration_fields :: "pkg_declaration \<Rightarrow> json dict" where
  "declaration_fields d =
     [(''recipe'', JStr (d_recipe d)), (''declared_license'', JStr (d_license d)),
      (''declared_license_files'', JArr (map JStr (d_license_files d))),
      (''declared_source'', JStr (d_source d)), (''metadata_version'', JStr (d_version d))]"

definition item_json :: "review_item \<Rightarrow> json" where
  "item_json i = JObj
     ([(''package'', JStr (r_package i)), (''installed_version'', JStr (r_version i)), (''review_complete'', JBool (r_complete i))] @
      (case r_declared i of None \<Rightarrow> [] | Some d \<Rightarrow> declaration_fields d) @
      (case r_finding i of None \<Rightarrow> [] | Some f \<Rightarrow> [(''finding'', JStr f)]))"

definition license_json :: "license_report \<Rightarrow> json" where
  "license_json rep = JObj
     [(''format'', JInt 1), (''package_count'', JInt (int (l_count rep))), (''packages'', JArr (map item_json (l_packages rep))),
      (''scope'', JStr ''installed target package declarations, not complete notice or license review''),
      (''kernel_and_host_toolchain_review_complete'', JBool (l_kernel_complete rep)),
      (''license_review_complete'', JBool (l_review_complete rep)),
      (''firmware_distribution_authorized'', JBool (l_authorized rep))]"

definition license_main :: "fsys \<Rightarrow> ppath \<Rightarrow> ppath \<Rightarrow> fsys result" where
  "license_main fs source_bundle output =
     rbind (read_string fs (child source_bundle ''packages.manifest'')) (\<lambda>manifest.
     rbind (read_string fs (child source_bundle ''package-metadata.txt'')) (\<lambda>metadata.
     rbind (review manifest metadata) (\<lambda>rep.
     open_xb fs output (dumps True (license_json rep) @ [CHR 0x0A]))))"

text \<open>
  C25: A report describes every installed package and promises nothing. When the script succeeds,
  it has written one new file: the JSON of a report that has one item for each line of the
  manifest, in order, no package twice, none of them reviewed, with a finding exactly when the
  package is not uniquely described with a license and license files; and nothing is authorized.
\<close>

theorem review_recorded:
  "case license_main fs source_bundle output of
     Inl _ \<Rightarrow> True
   | Inr fs' \<Rightarrow> \<exists>manifest metadata rep loc.
       read_string fs (child source_bundle ''packages.manifest'') = Inr manifest \<and>
       read_string fs (child source_bundle ''package-metadata.txt'') = Inr metadata \<and>
       map (\<lambda>i. Some (r_package i, r_version i)) (l_packages rep) = map (split_at '' - '') (splitlines manifest) \<and>
       distinct (map r_package (l_packages rep)) \<and>
       list_all (reviewed (metadata_records metadata)) (l_packages rep) \<and> l_count rep = length (splitlines manifest) \<and>
       \<not> l_kernel_complete rep \<and> \<not> l_review_complete rep \<and> \<not> l_authorized rep \<and>
       resolve fs False output = Inr loc \<and> loc \<noteq> [] \<and> nodes fs loc = None \<and>
       fs' = fs_put loc (File (perm_for fs 438) (dumps True (license_json rep) @ [CHR 0x0A])) fs"
proof (cases "license_main fs source_bundle output")
  case (Inr fs')
  then obtain manifest metadata rep where r: "read_string fs (child source_bundle ''packages.manifest'') = Inr manifest"
    "read_string fs (child source_bundle ''package-metadata.txt'') = Inr metadata" "review manifest metadata = Inr rep"
    "open_xb fs output (dumps True (license_json rep) @ [CHR 0x0A]) = Inr fs'"
    by (auto simp: license_main_def rbind_eq_Inr)
  from create_new [OF r(4) [unfolded open_xb_def]] obtain loc where
    "resolve fs False output = Inr loc" "loc \<noteq> []" "nodes fs loc = None"
    "fs' = fs_put loc (File (perm_for fs 438) (dumps True (license_json rep) @ [CHR 0x0A])) fs" by blast
  then show ?thesis using Inr r(1,2) review_exact [OF r(3)] by auto
qed simp

end
