(* ===== verification/Fan_Policy.thy ===== *)
theory Fan_Policy
  imports Py_Loads
begin

text \<open>
  \<open>openwrt/files/usr/libexec/ls420d-fan-policy.sh\<close>: the speed a temperature asks for, with
  hysteresis, and which readings of a sensor count. A speed is a state of the fan from 0 to 3,
  a temperature is in thousandths of a degree. What \<open>$(cat file)\<close> gives is a string without the
  newlines at its end, \<open>None\<close> when the file cannot be read.
\<close>

subsection \<open>Readings\<close>

definition fan_temperature :: "string option \<Rightarrow> int option" where
  "fan_temperature contents =
     (case contents of
        None \<Rightarrow> None
      | Some val \<Rightarrow>
          if val = [] \<or> list_ex (\<lambda>c. \<not> is_dec c) val then None
          else if dec_value val \<ge> 1000 \<and> dec_value val \<le> 150000 then Some (dec_value val)
          else None)"

lemma fan_temperature_range: "fan_temperature v = Some t \<Longrightarrow> 1000 \<le> t \<and> t \<le> 150000"
  by (auto simp: fan_temperature_def split: option.splits if_splits)

text \<open>
  \<open>fan_disk_asleep\<close>: the blocks below a sensor, in the order of the pattern, each with what
  \<open>hdparm -C\<close> prints about it (\<open>None\<close> when it is missing or \<open>hdparm\<close> fails). The first one
  decides; \<open>sed\<close> keeps what follows the label on each line that has it.
\<close>

definition shell_space :: "char \<Rightarrow> bool" where
  "shell_space c \<longleftrightarrow> c \<in> set [CHR '' '', CHR 0x09, CHR 0x0A, CHR 0x0B, CHR 0x0C, CHR 0x0D]"

definition drive_line :: "string \<Rightarrow> string list" where
  "drive_line l =
     (let r = dropWhile shell_space l in
      if startswith ''drive state is:'' r then [dropWhile shell_space (drop (length ''drive state is:'') r)] else [])"

definition drive_state :: "string \<Rightarrow> string" where
  "drive_state out =
     rev (dropWhile (\<lambda>c. c = CHR 0x0A) (rev (join [CHR 0x0A] (concat (map drive_line (split_on (CHR 0x0A) out))))))"

definition fan_disk_asleep :: "string option list \<Rightarrow> bool" where
  "fan_disk_asleep blocks =
     (case blocks of Some out # _ \<Rightarrow> drive_state out \<in> {''standby'', ''sleeping''} | _ \<Rightarrow> False)"

lemma asleep_standby: "fan_disk_asleep [Some (''/dev/sda:'' @ [CHR 0x0A] @ '' drive state is:  standby'')]"
  by code_simp

subsection \<open>The curve\<close>

definition fan_curve :: "int \<Rightarrow> int \<Rightarrow> int \<Rightarrow> int \<Rightarrow> int \<Rightarrow> int \<Rightarrow> int" where
  "fan_curve t previous low medium high hyst =
     (let state = 0;
          state = (if t < low then state else 1);
          state = (if t < medium then state else 2);
          state = (if t < high then state else 3);
          state = (if previous < 1 \<or> t < low - hyst \<or> state \<ge> 1 then state else 1);
          state = (if previous < 2 \<or> t < medium - hyst \<or> state \<ge> 2 then state else 2);
          state = (if previous < 3 \<or> t < high - hyst \<or> state \<ge> 3 then state else 3)
      in state)"

text \<open>The number of limits a temperature reaches.\<close>

definition level :: "int \<Rightarrow> int \<Rightarrow> int \<Rightarrow> int \<Rightarrow> int" where
  "level low medium high t = (if t \<ge> high then 3 else if t \<ge> medium then 2 else if t \<ge> low then 1 else 0)"

text \<open>
  The curve is the level of the temperature, or the previous state as far as the temperature
  plus the hysteresis still has that level.
\<close>

lemma fan_curve_level:
  assumes "low \<le> medium" "medium \<le> high" "0 \<le> hyst" "0 \<le> previous" "previous \<le> 3"
  shows "fan_curve t previous low medium high hyst = max (level low medium high t) (min previous (level low medium high (t + hyst)))"
  using assms by (auto simp: fan_curve_def level_def)

lemma level_range [simp]: "0 \<le> level low medium high t" "level low medium high t \<le> 3"
  by (simp_all add: level_def)

lemma level_mono: "low \<le> medium \<Longrightarrow> medium \<le> high \<Longrightarrow> t \<le> t' \<Longrightarrow> level low medium high t \<le> level low medium high t'"
  by (simp add: level_def)

text \<open>The limits and the hysteresis of the three sensors.\<close>

definition cpu_curve :: "int \<Rightarrow> int \<Rightarrow> int" where "cpu_curve t previous = fan_curve t previous 60000 65000 75000 4000"
definition phy_curve :: "int \<Rightarrow> int \<Rightarrow> int" where "phy_curve t previous = fan_curve t previous 55000 65000 75000 4000"
definition disk_curve :: "int \<Rightarrow> int \<Rightarrow> int" where "disk_curve t previous = fan_curve t previous 36000 42000 48000 2000"

lemma curve_bounds:
  assumes "0 \<le> previous" "previous \<le> 3"
  shows "level 60000 65000 75000 t \<le> cpu_curve t previous \<and> cpu_curve t previous \<le> 3"
    "level 55000 65000 75000 t \<le> phy_curve t previous \<and> phy_curve t previous \<le> 3"
    "level 36000 42000 48000 t \<le> disk_curve t previous \<and> disk_curve t previous \<le> 3"
    "0 \<le> cpu_curve t previous" "0 \<le> phy_curve t previous" "0 \<le> disk_curve t previous"
  using assms by (simp_all add: cpu_curve_def phy_curve_def disk_curve_def fan_curve_level le_max_iff_disj)

end
