(* ===== verification/Fan_Worker.thy ===== *)
theory Fan_Worker
  imports Fan_Policy
begin

text \<open>
  One cycle of \<open>worker\<close> of \<open>openwrt/files/usr/sbin/ls420d-fan\<close>: the sensors are read, a speed is
  chosen and written, and a fault or a dangerous temperature that lasts ends in a shutdown.
  What the cycle reads is one \<open>sample\<close>; the shell variables it keeps are a \<open>worker\<close>.
\<close>

subsection \<open>What a cycle reads\<close>

text \<open>One directory of \<open>/sys/class/hwmon\<close>: the files the cycle reads there.\<close>

record hwmon =
  hw_name :: string
  hw_temp :: "string option"                  \<comment> \<open>\<open>temp1_input\<close>\<close>
  hw_blocks :: "string option list"           \<comment> \<open>\<open>device/block/*\<close>, as \<open>fan_disk_asleep\<close> sees them\<close>
  hw_alarm :: string                          \<comment> \<open>\<open>fan1_alarm\<close>, empty when it cannot be read\<close>

record sample =
  s_now :: int                                \<comment> \<open>\<open>fan_now\<close>\<close>
  s_hwmon :: "hwmon list"
  s_vendors :: "string list"                  \<comment> \<open>\<open>device/vendor\<close> of \<open>/sys/block/sd*\<close>\<close>
  s_control :: bool                           \<comment> \<open>\<open>fan_take_control\<close> succeeds\<close>
  s_pulse :: bool                             \<comment> \<open>the starting pulse can be written\<close>
  s_write :: bool                             \<comment> \<open>the speed can be written\<close>
  s_back :: string                            \<comment> \<open>\<open>cur_state\<close>, read back\<close>

subsection \<open>The variables of the loop\<close>

record worker =
  w_cpu :: int
  w_phy :: int
  w_disk :: int
  w_state :: int
  w_last :: int
  w_low :: int                                \<comment> \<open>\<open>low_since\<close>, 0 when unset\<close>
  w_fault :: int                              \<comment> \<open>\<open>fault_since\<close>\<close>
  w_hot :: int                                \<comment> \<open>\<open>hot_since\<close>\<close>
  w_alarm_bad :: int
  w_expected :: int
  w_disk_time :: int
  w_disk_bad :: bool
  w_disk_cached :: int
  w_disks_cached :: int
  w_log :: "(int \<times> int \<times> bool) option"        \<comment> \<open>the message logged last\<close>

definition fan_start :: worker where
  "fan_start = \<lparr>w_cpu = 0, w_phy = 0, w_disk = 0, w_state = 3, w_last = 3, w_low = 0, w_fault = 0, w_hot = 0,
     w_alarm_bad = 0, w_expected = 0, w_disk_time = 0, w_disk_bad = False, w_disk_cached = 0, w_disks_cached = 0, w_log = None\<rparr>"

text \<open>
  What a cycle does to the outside. \<open>Emergency\<close> is \<open>fan_emergency\<close>: full speed, a log entry, the
  alarm of the clock cleared, and \<open>poweroff\<close>; the loop goes on until that takes effect.
\<close>

datatype fan_event =
    Emergency
  | Set_Speed int
  | Pause int
  | Log int int bool
  | Status int int int int int int int bool
  | Heartbeat int

subsection \<open>The sensors\<close>

record readings =
  r_cpu :: int
  r_phy :: int
  r_bad :: bool
  r_disk :: int
  r_disks :: int
  r_disk_bad :: bool
  r_fan :: "hwmon option"

definition scan_sensor :: "bool \<Rightarrow> readings \<Rightarrow> hwmon \<Rightarrow> readings" where
  "scan_sensor refresh r h =
     (if hw_name h = ''d0018300.thermal'' then
        (case fan_temperature (hw_temp h) of None \<Rightarrow> r\<lparr>r_bad := True\<rparr> | Some t \<Rightarrow> r\<lparr>r_cpu := t\<rparr>)
      else if hw_name h = ''d0072004mdiomii00'' then
        (case fan_temperature (hw_temp h) of None \<Rightarrow> r\<lparr>r_bad := True\<rparr> | Some t \<Rightarrow> r\<lparr>r_phy := t\<rparr>)
      else if hw_name h = ''drivetemp'' then
        (if \<not> refresh then r
         else let r = r\<lparr>r_disks := r_disks r + 1\<rparr> in
              if fan_disk_asleep (hw_blocks h) then r
              else case fan_temperature (hw_temp h) of
                     None \<Rightarrow> r\<lparr>r_disk_bad := True\<rparr>
                   | Some t \<Rightarrow> if t \<le> r_disk r then r else r\<lparr>r_disk := t\<rparr>)
      else if hw_name h = ''gpio_fan'' then r\<lparr>r_fan := Some h\<rparr>
      else r)"

definition refreshes :: "worker \<Rightarrow> sample \<Rightarrow> bool" where
  "refreshes w s \<longleftrightarrow> s_now s - w_disk_time w \<ge> 20"

definition readings_of :: "worker \<Rightarrow> sample \<Rightarrow> readings" where
  "readings_of w s =
     foldl (scan_sensor (refreshes w s))
       (if refreshes w s
        then \<lparr>r_cpu = 0, r_phy = 0, r_bad = False, r_disk = 0, r_disks = 0, r_disk_bad = False, r_fan = None\<rparr>
        else \<lparr>r_cpu = 0, r_phy = 0, r_bad = False, r_disk = w_disk_cached w, r_disks = w_disks_cached w,
               r_disk_bad = w_disk_bad w, r_fan = None\<rparr>)
       (s_hwmon s)"

definition present :: "sample \<Rightarrow> int" where
  "present s = int (length (filter (\<lambda>v. split_at ''ATA'' v \<noteq> None) (s_vendors s)))"

definition expected_of :: "worker \<Rightarrow> sample \<Rightarrow> int" where
  "expected_of w s =
     (let expected = (if r_disks (readings_of w s) \<le> w_expected w then w_expected w else r_disks (readings_of w s))
      in if present s \<le> expected then expected else present s)"

subsection \<open>Faults and limits\<close>

definition alarm_of :: "worker \<Rightarrow> sample \<Rightarrow> string" where
  "alarm_of w s = (case r_fan (readings_of w s) of None \<Rightarrow> [] | Some h \<Rightarrow> hw_alarm h)"

definition alarms_of :: "worker \<Rightarrow> sample \<Rightarrow> int" where
  "alarms_of w s = (if w_last w > 0 \<and> alarm_of w s \<noteq> ''0'' then w_alarm_bad w + 1 else 0)"

definition bad_of :: "worker \<Rightarrow> sample \<Rightarrow> bool" where
  "bad_of w s \<longleftrightarrow>
     (let r = readings_of w s in
      r_bad r \<or> \<not> (r_cpu r > 0 \<and> r_phy r > 0 \<and> r_fan r \<noteq> None) \<or>
      \<not> (r_disks r \<ge> expected_of w s \<and> \<not> r_disk_bad r) \<or> \<not> alarms_of w s < 3)"

definition critical_of :: "worker \<Rightarrow> sample \<Rightarrow> bool" where
  "critical_of w s \<longleftrightarrow>
     (let r = readings_of w s in r_cpu r \<ge> 90000 \<or> r_disk r \<ge> 60000 \<or> r_phy r \<ge> 100000)"

definition demand_of :: "worker \<Rightarrow> sample \<Rightarrow> int" where
  "demand_of w s =
     (let r = readings_of w s;
          target = cpu_curve (r_cpu r) (w_cpu w);
          target = (if phy_curve (r_phy r) (w_phy w) \<le> target then target else phy_curve (r_phy r) (w_phy w))
      in if disk_curve (r_disk r) (w_disk w) \<le> target then target else disk_curve (r_disk r) (w_disk w))"

definition target_of :: "worker \<Rightarrow> sample \<Rightarrow> int" where
  "target_of w s = (if bad_of w s \<or> critical_of w s then 3 else demand_of w s)"

definition since :: "bool \<Rightarrow> int \<Rightarrow> int \<Rightarrow> int" where
  "since holds before now = (if \<not> holds then 0 else if before \<noteq> 0 then before else now)"

definition emergencies :: "worker \<Rightarrow> sample \<Rightarrow> fan_event list" where
  "emergencies w s =
     (if bad_of w s \<and> s_now s - since True (w_fault w) (s_now s) \<ge> 120 then [Emergency] else []) @
     (if critical_of w s \<and> (r_cpu (readings_of w s) \<ge> 95000 \<or> s_now s - since True (w_hot w) (s_now s) \<ge> 10)
      then [Emergency] else [])"

subsection \<open>The speed\<close>

definition next_speed :: "worker \<Rightarrow> sample \<Rightarrow> int \<times> int" where
  "next_speed w s =
     (let target = target_of w s in
      if target < w_state w
      then let low = since True (w_low w) (s_now s) in
           if s_now s - low < 60 then (w_state w, low) else (target, 0)
      else (target, 0))"

definition next_worker :: "worker \<Rightarrow> sample \<Rightarrow> worker" where
  "next_worker w s =
     (let r = readings_of w s; now = s_now s in
      \<lparr>w_cpu = cpu_curve (r_cpu r) (w_cpu w), w_phy = phy_curve (r_phy r) (w_phy w), w_disk = disk_curve (r_disk r) (w_disk w),
       w_state = fst (next_speed w s), w_last = fst (next_speed w s), w_low = snd (next_speed w s),
       w_fault = since (bad_of w s) (w_fault w) now, w_hot = since (critical_of w s) (w_hot w) now,
       w_alarm_bad = alarms_of w s, w_expected = expected_of w s,
       w_disk_time = (if refreshes w s then now else w_disk_time w), w_disk_bad = r_disk_bad r,
       w_disk_cached = (if refreshes w s then r_disk r else w_disk_cached w),
       w_disks_cached = (if refreshes w s then r_disks r else w_disks_cached w),
       w_log = Some (fst (next_speed w s), target_of w s, bad_of w s)\<rparr>)"

text \<open>The end of a cycle; \<open>None\<close> when \<open>worker\<close> returns 1, for \<open>supervise\<close> to start it again.\<close>

definition report_cycle :: "worker \<Rightarrow> sample \<Rightarrow> fan_event list" where
  "report_cycle w s =
     (let r = readings_of w s; state = fst (next_speed w s); target = target_of w s; bad = bad_of w s in
      (if w_log w = Some (state, target, bad) then [] else [Log state target bad]) @
      [Status (s_now s) (r_cpu r) (r_disk r) (r_phy r) (r_disks r) state target bad, Heartbeat (s_now s), Pause 5])"

definition cycle :: "worker \<Rightarrow> sample \<Rightarrow> fan_event list \<times> worker option" where
  "cycle w s =
     (let state = fst (next_speed w s); out = emergencies w s in
      if \<not> s_control s then (out, None)
      else if w_last w = 0 \<and> state > 0 \<and> \<not> s_pulse s then (out, None)
      else let out = (if w_last w = 0 \<and> state > 0 then out @ [Set_Speed 3, Pause 2] else out) in
           if \<not> s_write s then (out, None)
           else let out = out @ [Set_Speed state] in
                if s_back s \<noteq> str_int state then (out, None)
                else (out @ report_cycle w s, Some (next_worker w s)))"

end
