(* ===== verification/Fan_Runs.thy ===== *)
theory Fan_Runs
  imports Fan_Worker
begin

text \<open>
  The cycles of a \<open>worker\<close> one after the other, and what they do over time: the counters of the
  shell (\<open>fault_since\<close>, \<open>hot_since\<close>, \<open>low_since\<close>, with 0 for unset) stand for the length of the
  present stretch of faults, of critical temperatures and of lower demand.
\<close>

subsection \<open>States in range\<close>

definition speeds_ok :: "worker \<Rightarrow> bool" where
  "speeds_ok w \<longleftrightarrow> list_all (\<lambda>n. 0 \<le> n \<and> n \<le> 3) [w_cpu w, w_phy w, w_disk w, w_state w, w_last w]"

lemma fan_start_ok: "speeds_ok fan_start"
  by (simp add: speeds_ok_def fan_start_def)

lemma demand_max:
  "demand_of w s = max (cpu_curve (r_cpu (readings_of w s)) (w_cpu w))
     (max (phy_curve (r_phy (readings_of w s)) (w_phy w)) (disk_curve (r_disk (readings_of w s)) (w_disk w)))"
  by (simp add: demand_of_def Let_def)

lemma demand_bounds:
  assumes "speeds_ok w"
  shows "0 \<le> demand_of w s" "demand_of w s \<le> 3"
    "level 60000 65000 75000 (r_cpu (readings_of w s)) \<le> demand_of w s"
    "level 55000 65000 75000 (r_phy (readings_of w s)) \<le> demand_of w s"
    "level 36000 42000 48000 (r_disk (readings_of w s)) \<le> demand_of w s"
  using assms curve_bounds [of "w_cpu w" "r_cpu (readings_of w s)"] curve_bounds [of "w_phy w" "r_phy (readings_of w s)"]
    curve_bounds [of "w_disk w" "r_disk (readings_of w s)"]
  by (simp_all add: speeds_ok_def demand_max le_max_iff_disj)

lemma target_bounds:
  assumes "speeds_ok w"
  shows "0 \<le> target_of w s" "target_of w s \<le> 3" "demand_of w s \<le> target_of w s"
  using demand_bounds [OF assms, of s] by (simp_all add: target_of_def)

lemma next_speed_cases:
  "fst (next_speed w s) = target_of w s \<or> fst (next_speed w s) = w_state w \<and> target_of w s < w_state w"
  by (auto simp: next_speed_def Let_def)

lemma next_speed_ge: "target_of w s \<le> fst (next_speed w s)"
  using next_speed_cases [of w s] by auto

lemma cycle_Some: "cycle w s = (evs, Some w') \<Longrightarrow> w' = next_worker w s \<and> s_control s \<and> s_write s \<and> s_back s = str_int (w_state w') \<and>
   (\<exists>pulse. evs = emergencies w s @ pulse @ Set_Speed (w_state w') # report_cycle w s)"
  by (auto simp: cycle_def Let_def next_worker_def split: if_splits)

lemma next_worker_ok: "speeds_ok w \<Longrightarrow> speeds_ok (next_worker w s)"
  using target_bounds [of w s] next_speed_cases [of w s] curve_bounds [of "w_cpu w" "r_cpu (readings_of w s)"]
    curve_bounds [of "w_phy w" "r_phy (readings_of w s)"] curve_bounds [of "w_disk w" "r_disk (readings_of w s)"]
  by (auto simp: speeds_ok_def next_worker_def Let_def)

subsection \<open>Runs\<close>

text \<open>A cycle that has been completed, with the variables before it; the newest one comes first.\<close>

record past =
  e_worker :: worker
  e_sample :: sample

inductive fan_run :: "past list \<Rightarrow> worker \<Rightarrow> bool" where
  fan_started: "fan_run [] fan_start"
| fan_cycled: "fan_run es w \<Longrightarrow> 0 < s_now s \<Longrightarrow> cycle w s = (evs, Some w') \<Longrightarrow>
     fan_run (\<lparr>e_worker = w, e_sample = s\<rparr> # es) w'"

inductive_cases fan_run_Cons: "fan_run (e # es) w"

definition bad_entry :: "past \<Rightarrow> bool" where
  "bad_entry e = bad_of (e_worker e) (e_sample e)"

definition critical_entry :: "past \<Rightarrow> bool" where
  "critical_entry e = critical_of (e_worker e) (e_sample e)"

text \<open>Less speed was enough, and the speed was kept all the same.\<close>

definition waiting_entry :: "past \<Rightarrow> bool" where
  "waiting_entry e \<longleftrightarrow> target_of (e_worker e) (e_sample e) < w_state (e_worker e) \<and>
     fst (next_speed (e_worker e) (e_sample e)) = w_state (e_worker e)"

text \<open>When the present stretch of such cycles began, this cycle included.\<close>

definition began :: "(past \<Rightarrow> bool) \<Rightarrow> past list \<Rightarrow> int" where
  "began p es = (case takeWhile p es of [] \<Rightarrow> 0 | hs \<Rightarrow> s_now (e_sample (last hs)))"

definition stretch :: "(past \<Rightarrow> bool) \<Rightarrow> past list \<Rightarrow> sample \<Rightarrow> int" where
  "stretch p es s = s_now s - (case takeWhile p es of [] \<Rightarrow> s_now s | hs \<Rightarrow> s_now (e_sample (last hs)))"

lemma fan_run_ok: "fan_run es w \<Longrightarrow> speeds_ok w"
  by (induction rule: fan_run.induct) (auto simp: fan_start_ok next_worker_ok dest: cycle_Some)

lemma fan_run_clock: "fan_run es w \<Longrightarrow> list_all (\<lambda>e. 0 < s_now (e_sample e)) es"
  by (induction rule: fan_run.induct) auto

lemma began_pos: "list_all (\<lambda>e. 0 < s_now (e_sample e)) es \<Longrightarrow> began p es \<noteq> 0 \<longleftrightarrow> takeWhile p es \<noteq> []"
proof -
  assume pos: "list_all (\<lambda>e. 0 < s_now (e_sample e)) es"
  have "0 < s_now (e_sample (last (takeWhile p es)))" if "takeWhile p es \<noteq> []"
    using pos set_takeWhileD [of "last (takeWhile p es)" p es] last_in_set [OF that] by (auto simp: list_all_iff)
  then show ?thesis by (auto simp: began_def split: list.splits)
qed

lemma began_Cons:
  "list_all (\<lambda>e. 0 < s_now (e_sample e)) es \<Longrightarrow> began p (e # es) = since (p e) (began p es) (s_now (e_sample e))"
  using began_pos [of es p] by (auto simp: began_def since_def split: list.splits)

lemma stretch_began:
  "list_all (\<lambda>e. 0 < s_now (e_sample e)) es \<Longrightarrow> s_now s - since True (began p es) (s_now s) = stretch p es s"
  using began_pos [of es p] by (auto simp: began_def since_def stretch_def split: list.splits)

text \<open>The three counters.\<close>

lemma fan_run_counters:
  "fan_run es w \<Longrightarrow> w_fault w = began bad_entry es \<and> w_hot w = began critical_entry es \<and> w_low w = began waiting_entry es"
proof (induction rule: fan_run.induct)
  case fan_started
  then show ?case by (simp add: fan_start_def began_def)
next
  case (fan_cycled es w s evs w')
  note pos = fan_run_clock [OF fan_cycled(1)]
  have w': "w' = next_worker w s" using cycle_Some fan_cycled(3) by blast
  have "snd (next_speed w s) = since (waiting_entry \<lparr>e_worker = w, e_sample = s\<rparr>) (w_low w) (s_now s)"
    by (auto simp: next_speed_def waiting_entry_def since_def Let_def)
  moreover have "bad_entry \<lparr>e_worker = w, e_sample = s\<rparr> = bad_of w s" "critical_entry \<lparr>e_worker = w, e_sample = s\<rparr> = critical_of w s"
    by (simp_all add: bad_entry_def critical_entry_def)
  ultimately show ?case
    using fan_cycled.IH unfolding began_Cons [OF pos] w' by (simp add: next_worker_def Let_def)
qed

lemma fan_run_stretches:
  assumes "fan_run es w"
  shows "s_now s - since True (w_fault w) (s_now s) = stretch bad_entry es s"
    "s_now s - since True (w_hot w) (s_now s) = stretch critical_entry es s"
    "s_now s - since True (w_low w) (s_now s) = stretch waiting_entry es s"
  using fan_run_counters [OF assms] stretch_began [OF fan_run_clock [OF assms]] by simp_all

lemma fan_run_waiting:
  "fan_run es w \<Longrightarrow> list_all (\<lambda>e. w_state (e_worker e) = w_state w) (takeWhile waiting_entry es)"
proof (induction rule: fan_run.induct)
  case (fan_cycled es w s evs w')
  have "w' = next_worker w s" using cycle_Some fan_cycled(3) by blast
  then have "waiting_entry \<lparr>e_worker = w, e_sample = s\<rparr> \<Longrightarrow> w_state w' = w_state w"
    by (simp add: waiting_entry_def next_worker_def Let_def)
  then show ?case using fan_cycled.IH by simp
qed simp

subsection \<open>What the controller promises\<close>

definition last_speed :: "fan_event list \<Rightarrow> int option" where
  "last_speed evs = foldl (\<lambda>n e. case e of Set_Speed m \<Rightarrow> Some m | _ \<Rightarrow> n) None evs"

text \<open>
  C11: The counters of the shell mean what they are for. In every run, a cycle orders the
  shutdown exactly when it sees a fault and every cycle of the last 120 seconds or more has seen
  one, or sees a critical temperature that is either a CPU at 95 degrees or has lasted for 10
  seconds; and the speed is the target of the cycle, unless that is lower than the speed and has
  not been lower in every cycle for 60 seconds.
\<close>

theorem fan_refines_history:
  assumes "fan_run es w"
  shows "(Emergency \<in> set (fst (cycle w s)) \<longleftrightarrow>
      bad_of w s \<and> stretch bad_entry es s \<ge> 120 \<or>
      critical_of w s \<and> (r_cpu (readings_of w s) \<ge> 95000 \<or> stretch critical_entry es s \<ge> 10)) \<and>
    fst (next_speed w s) = (if target_of w s < w_state w \<and> stretch waiting_entry es s < 60 then w_state w else target_of w s)"
proof
  have "Emergency \<in> set (fst (cycle w s)) \<longleftrightarrow> Emergency \<in> set (emergencies w s)"
    by (auto simp: cycle_def Let_def report_cycle_def)
  then show "Emergency \<in> set (fst (cycle w s)) \<longleftrightarrow>
      bad_of w s \<and> stretch bad_entry es s \<ge> 120 \<or>
      critical_of w s \<and> (r_cpu (readings_of w s) \<ge> 95000 \<or> stretch critical_entry es s \<ge> 10)"
    by (auto simp: emergencies_def fan_run_stretches [OF assms])
  show "fst (next_speed w s) = (if target_of w s < w_state w \<and> stretch waiting_entry es s < 60 then w_state w else target_of w s)"
    by (simp add: next_speed_def Let_def fan_run_stretches [OF assms])
qed

text \<open>
  Slowing down takes a minute. When a cycle of a run lowers the speed, the cycles before it
  reach back at least 60 seconds in which the fan ran at the old speed without a break and less
  would have been enough in each of them.
\<close>

theorem fan_slows_late:
  assumes "fan_run es w" "cycle w s = (evs, Some w')" "w_state w' < w_state w"
  shows "\<exists>hs older. es = hs @ older \<and> hs \<noteq> [] \<and> s_now s - s_now (e_sample (last hs)) \<ge> 60 \<and>
    list_all (\<lambda>e. w_state (e_worker e) = w_state w \<and> target_of (e_worker e) (e_sample e) < w_state w) hs \<and>
    w_state w' = target_of w s"
proof -
  let ?hs = "takeWhile waiting_entry es"
  have st: "w_state w' = fst (next_speed w s)" using cycle_Some [OF assms(2)] by (simp add: next_worker_def Let_def)
  then have "w_state w' = target_of w s" "stretch waiting_entry es s \<ge> 60"
    using assms(3) fan_run_stretches(3) [OF assms(1), of s] by (auto simp: next_speed_def Let_def split: if_splits)
  moreover from this(2) have "?hs \<noteq> []" "s_now s - s_now (e_sample (last ?hs)) \<ge> 60"
    by (auto simp: stretch_def split: list.splits)
  moreover have "list_all (\<lambda>e. w_state (e_worker e) = w_state w \<and> target_of (e_worker e) (e_sample e) < w_state w) ?hs"
    using fan_run_waiting [OF assms(1)] set_takeWhileD by (fastforce simp: list_all_iff waiting_entry_def)
  ultimately show ?thesis by (intro exI [of _ ?hs] exI [of _ "dropWhile waiting_entry es"]) simp
qed

subsection \<open>Examples\<close>

definition board :: "string \<Rightarrow> string \<Rightarrow> int \<Rightarrow> string \<Rightarrow> sample" where
  "board cpu alarm now back =
     \<lparr>s_now = now,
      s_hwmon =
        [\<lparr>hw_name = ''d0018300.thermal'', hw_temp = Some cpu, hw_blocks = [], hw_alarm = []\<rparr>,
         \<lparr>hw_name = ''d0072004mdiomii00'', hw_temp = Some ''43000'', hw_blocks = [], hw_alarm = []\<rparr>,
         \<lparr>hw_name = ''gpio_fan'', hw_temp = None, hw_blocks = [], hw_alarm = alarm\<rparr>],
      s_vendors = [], s_control = True, s_pulse = True, s_write = True, s_back = back\<rparr>"

definition after :: "worker \<Rightarrow> sample \<Rightarrow> worker" where
  "after w s = (case cycle w s of (_, Some w') \<Rightarrow> w' | (_, None) \<Rightarrow> w)"

lemma fan_run_after:
  assumes "fan_run es w" "0 < s_now s" "snd (cycle w s) \<noteq> None"
  shows "fan_run (\<lparr>e_worker = w, e_sample = s\<rparr> # es) (after w s)"
proof -
  obtain evs w' where "cycle w s = (evs, Some w')" using assms(3) by (cases "cycle w s") auto
  then show ?thesis using fan_cycled [OF assms(1,2)] by (simp add: after_def)
qed

definition cool :: "int \<Rightarrow> sample" where "cool now = board ''54000'' ''0'' now ''3''"

lemma cool_run:
  "fan_run [\<lparr>e_worker = after fan_start (cool 600), e_sample = cool 650\<rparr>, \<lparr>e_worker = fan_start, e_sample = cool 600\<rparr>]
     (after (after fan_start (cool 600)) (cool 650))"
proof (rule fan_run_after, rule fan_run_after, rule fan_started)
  show "snd (cycle fan_start (cool 600)) \<noteq> None" "snd (cycle (after fan_start (cool 600)) (cool 650)) \<noteq> None" by code_simp+
qed (simp_all add: cool_def board_def)

theorem fan_refines_history_witness:
  "Emergency \<in> set (fst (cycle fan_start (board ''96000'' ''0'' 600 ''3'')))"
proof -
  have "critical_of fan_start (board ''96000'' ''0'' 600 ''3'')" "95000 \<le> r_cpu (readings_of fan_start (board ''96000'' ''0'' 600 ''3''))" by code_simp+
  then show ?thesis using fan_refines_history [OF fan_started] by blast
qed

theorem fan_slows_late_witness:
  "\<exists>w'. snd (cycle (after (after fan_start (cool 600)) (cool 650)) (board ''54000'' ''0'' 660 ''0'')) = Some w' \<and> w_state w' = 0"
proof -
  let ?w = "after (after fan_start (cool 600)) (cool 650)" and ?s = "board ''54000'' ''0'' 660 ''0''"
  have low: "(case snd (cycle ?w ?s) of None \<Rightarrow> False | Some w' \<Rightarrow> w_state w' < w_state ?w)" and t: "target_of ?w ?s = 0" by code_simp+
  obtain evs r where c: "cycle ?w ?s = (evs, r)" by (cases "cycle ?w ?s")
  then obtain w' where r: "r = Some w'" "w_state w' < w_state ?w" using low by (cases r) simp_all
  from fan_slows_late [OF cool_run c [unfolded r(1)] r(2)] t have "w_state w' = 0" by auto
  then show ?thesis using c r(1) by simp
qed

end
