(* ===== verification/Fan_Cooling.thy ===== *)
theory Fan_Cooling
  imports Fan_Runs
begin

text \<open>
  What the worker of \<open>openwrt/files/usr/sbin/ls420d-fan\<close> answers to what its sensors say: the
  readings, the faults and the limits are stated over the samples of a run alone, the shell
  variables that carry them from cycle to cycle are shown to mean this, and the speed follows.
\<close>

subsection \<open>What a sample says\<close>

definition temps :: "string \<Rightarrow> sample \<Rightarrow> int list" where
  "temps name s = List.map_filter (\<lambda>h. if hw_name h = name then fan_temperature (hw_temp h) else None) (s_hwmon s)"

text \<open>The reading of a sensor by its name (of the last one, should there be several), 0 for none.\<close>

definition reading :: "string \<Rightarrow> sample \<Rightarrow> int" where
  "reading name s = last (0 # temps name s)"

definition drives_seen :: "sample \<Rightarrow> hwmon list" where
  "drives_seen s = filter (\<lambda>h. hw_name h = ''drivetemp'') (s_hwmon s)"

definition awake :: "sample \<Rightarrow> hwmon list" where
  "awake s = filter (\<lambda>h. \<not> fan_disk_asleep (hw_blocks h)) (drives_seen s)"

text \<open>The hottest disk that is awake, 0 when there is none.\<close>

definition hottest :: "sample \<Rightarrow> int" where
  "hottest s = Max (insert 0 (set (List.map_filter (\<lambda>h. fan_temperature (hw_temp h)) (awake s))))"

definition fan_alarm :: "sample \<Rightarrow> string" where
  "fan_alarm s = (case filter (\<lambda>h. hw_name h = ''gpio_fan'') (s_hwmon s) of [] \<Rightarrow> [] | gs \<Rightarrow> hw_alarm (last gs))"

subsection \<open>What a run says\<close>

text \<open>
  The disks are read every 20 seconds: the sample of the last cycle that read them, the time of
  it, and the sample whose disk readings the next cycle uses.
\<close>

fun scanned :: "past list \<Rightarrow> sample option" where
  "scanned [] = None"
| "scanned (e # es) =
     (if s_now (e_sample e) - (case scanned es of None \<Rightarrow> 0 | Some s \<Rightarrow> s_now s) \<ge> 20 then Some (e_sample e) else scanned es)"

definition scan_time :: "past list \<Rightarrow> int" where
  "scan_time es = (case scanned es of None \<Rightarrow> 0 | Some s \<Rightarrow> s_now s)"

definition disk_sample :: "past list \<Rightarrow> sample \<Rightarrow> sample option" where
  "disk_sample es s = (if s_now s - scan_time es \<ge> 20 then Some s else scanned es)"

definition disk_heat :: "sample option \<Rightarrow> int" where
  "disk_heat d = (case d of None \<Rightarrow> 0 | Some s \<Rightarrow> hottest s)"

definition disks_seen :: "sample option \<Rightarrow> int" where
  "disks_seen d = (case d of None \<Rightarrow> 0 | Some s \<Rightarrow> int (length (drives_seen s)))"

definition disk_unread :: "sample option \<Rightarrow> bool" where
  "disk_unread d = (case d of None \<Rightarrow> False | Some s \<Rightarrow> list_ex (\<lambda>h. fan_temperature (hw_temp h) = None) (awake s))"

text \<open>The most disks that were ever seen, by their sensors or as block devices.\<close>

fun attached :: "past list \<Rightarrow> int" where
  "attached [] = 0"
| "attached (e # es) = max (attached es) (max (disks_seen (disk_sample es (e_sample e))) (present (e_sample e)))"

text \<open>The alarm of the fan, in a cycle that found it running.\<close>

definition alarmed :: "past \<Rightarrow> bool" where
  "alarmed e \<longleftrightarrow> w_state (e_worker e) > 0 \<and> fan_alarm (e_sample e) \<noteq> ''0''"

text \<open>
  A fault: a CPU or PHY sensor that cannot be read or is missing, no fan device, a disk that was
  there and has no sensor any more, a disk that is awake and cannot be read, or the alarm for
  three cycles. Danger: a temperature at its limit.
\<close>

definition faulty :: "past list \<Rightarrow> worker \<Rightarrow> sample \<Rightarrow> bool" where
  "faulty es w s \<longleftrightarrow>
     list_ex (\<lambda>h. hw_name h \<in> {''d0018300.thermal'', ''d0072004mdiomii00''} \<and> fan_temperature (hw_temp h) = None) (s_hwmon s) \<or>
     temps ''d0018300.thermal'' s = [] \<or> temps ''d0072004mdiomii00'' s = [] \<or>
     \<not> list_ex (\<lambda>h. hw_name h = ''gpio_fan'') (s_hwmon s) \<or>
     disks_seen (disk_sample es s) < max (attached es) (max (disks_seen (disk_sample es s)) (present s)) \<or>
     disk_unread (disk_sample es s) \<or>
     3 \<le> length (takeWhile alarmed (\<lparr>e_worker = w, e_sample = s\<rparr> # es))"

definition dangerous :: "past list \<Rightarrow> sample \<Rightarrow> bool" where
  "dangerous es s \<longleftrightarrow> reading ''d0018300.thermal'' s \<ge> 90000 \<or> disk_heat (disk_sample es s) \<ge> 60000 \<or>
     reading ''d0072004mdiomii00'' s \<ge> 100000"

subsection \<open>The scan of the sensors\<close>

lemma scan_bad:
  "r_bad (foldl (scan_sensor b) r hs) \<longleftrightarrow>
     r_bad r \<or> list_ex (\<lambda>h. hw_name h \<in> {''d0018300.thermal'', ''d0072004mdiomii00''} \<and> fan_temperature (hw_temp h) = None) hs"
  by (induction hs arbitrary: r) (auto simp: scan_sensor_def Let_def split: option.splits)

lemma scan_cpu:
  "r_cpu (foldl (scan_sensor b) r hs) =
     last (r_cpu r # List.map_filter (\<lambda>h. if hw_name h = ''d0018300.thermal'' then fan_temperature (hw_temp h) else None) hs)"
  by (induction hs arbitrary: r) (auto simp: scan_sensor_def Let_def map_filter_simps split: option.splits)

lemma scan_phy:
  "r_phy (foldl (scan_sensor b) r hs) =
     last (r_phy r # List.map_filter (\<lambda>h. if hw_name h = ''d0072004mdiomii00'' then fan_temperature (hw_temp h) else None) hs)"
  by (induction hs arbitrary: r) (auto simp: scan_sensor_def Let_def map_filter_simps split: option.splits)

lemma scan_disks:
  "r_disks (foldl (scan_sensor b) r hs) = r_disks r + (if b then int (length (filter (\<lambda>h. hw_name h = ''drivetemp'') hs)) else 0)"
  by (induction hs arbitrary: r) (auto simp: scan_sensor_def Let_def split: option.splits)

lemma scan_disk_bad:
  "r_disk_bad (foldl (scan_sensor b) r hs) \<longleftrightarrow>
     r_disk_bad r \<or> b \<and> list_ex (\<lambda>h. hw_name h = ''drivetemp'' \<and> \<not> fan_disk_asleep (hw_blocks h) \<and> fan_temperature (hw_temp h) = None) hs"
  by (induction hs arbitrary: r) (auto simp: scan_sensor_def Let_def split: option.splits)

lemma Max_insert_max: "finite T \<Longrightarrow> Max (insert (max a t) T) = Max (insert a (insert t T))" for a :: int
  by (cases "T = {}") (simp_all add: max.assoc)

lemma scan_disk_kept: "r_disk (foldl (scan_sensor False) r hs) = r_disk r"
  by (induction hs arbitrary: r) (auto simp: scan_sensor_def Let_def split: option.splits)

lemma scan_disk:
  "r_disk (foldl (scan_sensor True) r hs) =
     Max (insert (r_disk r) (set (List.map_filter (\<lambda>h. fan_temperature (hw_temp h))
       (filter (\<lambda>h. \<not> fan_disk_asleep (hw_blocks h)) (filter (\<lambda>h. hw_name h = ''drivetemp'') hs)))))"
proof (induction hs arbitrary: r)
  case (Cons h hs)
  have step: "r_disk (scan_sensor True r h) =
      (if hw_name h = ''drivetemp'' \<and> \<not> fan_disk_asleep (hw_blocks h)
       then case fan_temperature (hw_temp h) of None \<Rightarrow> r_disk r | Some t \<Rightarrow> max (r_disk r) t else r_disk r)"
    by (auto simp: scan_sensor_def Let_def split: option.splits)
  show ?case
    unfolding foldl_Cons Cons.IH step by (cases "fan_temperature (hw_temp h)") (simp_all add: map_filter_simps Max_insert_max del: Max_insert)
qed simp

lemma scan_fan:
  "r_fan (foldl (scan_sensor b) r hs) = (case filter (\<lambda>h. hw_name h = ''gpio_fan'') hs of [] \<Rightarrow> r_fan r | gs \<Rightarrow> Some (last gs))"
  by (induction hs arbitrary: r) (auto simp: scan_sensor_def Let_def split: option.splits list.splits)

text \<open>The readings of a cycle, in terms of the sample and of what is kept from the last scan.\<close>

lemma readings_values:
  "r_cpu (readings_of w s) = reading ''d0018300.thermal'' s"
  "r_phy (readings_of w s) = reading ''d0072004mdiomii00'' s"
  "r_disk (readings_of w s) = (if refreshes w s then hottest s else w_disk_cached w)"
  "r_disks (readings_of w s) = (if refreshes w s then int (length (drives_seen s)) else w_disks_cached w)"
  "r_disk_bad (readings_of w s) \<longleftrightarrow>
     (if refreshes w s then list_ex (\<lambda>h. fan_temperature (hw_temp h) = None) (awake s) else w_disk_bad w)"
  "r_bad (readings_of w s) \<longleftrightarrow>
     list_ex (\<lambda>h. hw_name h \<in> {''d0018300.thermal'', ''d0072004mdiomii00''} \<and> fan_temperature (hw_temp h) = None) (s_hwmon s)"
  "r_fan (readings_of w s) = (case filter (\<lambda>h. hw_name h = ''gpio_fan'') (s_hwmon s) of [] \<Rightarrow> None | gs \<Rightarrow> Some (last gs))"
  by (simp_all add: readings_of_def scan_cpu scan_phy scan_disk scan_disk_kept scan_disks scan_disk_bad scan_bad scan_fan
      reading_def temps_def hottest_def awake_def drives_seen_def list_ex_iff split: list.split) blast

lemma alarm_value: "alarm_of w s = fan_alarm s"
  by (simp add: alarm_of_def readings_values fan_alarm_def split: list.splits)

lemma reading_pos: "0 < reading name s \<longleftrightarrow> temps name s \<noteq> []"
proof -
  have "0 < t" if "t \<in> set (temps name s)" for t
    using that fan_temperature_range by (force simp: temps_def map_filter_def split: if_splits)
  then show ?thesis by (simp add: reading_def)
qed

subsection \<open>The variables of the shell\<close>

definition remembers :: "past list \<Rightarrow> worker \<Rightarrow> bool" where
  "remembers es w \<longleftrightarrow> w_disk_time w = scan_time es \<and> w_disk_cached w = disk_heat (scanned es) \<and>
     w_disks_cached w = disks_seen (scanned es) \<and> w_disk_bad w = disk_unread (scanned es) \<and>
     w_expected w = attached es \<and> w_alarm_bad w = int (length (takeWhile alarmed es)) \<and> w_last w = w_state w"

lemma remembers_readings:
  assumes "remembers es w"
  shows "refreshes w s \<longleftrightarrow> s_now s - scan_time es \<ge> 20"
    "r_disk (readings_of w s) = disk_heat (disk_sample es s)"
    "r_disks (readings_of w s) = disks_seen (disk_sample es s)"
    "r_disk_bad (readings_of w s) = disk_unread (disk_sample es s)"
    "expected_of w s = max (attached es) (max (disks_seen (disk_sample es s)) (present s))"
    "alarms_of w s = int (length (takeWhile alarmed (\<lparr>e_worker = w, e_sample = s\<rparr> # es)))"
proof -
  show due: "refreshes w s \<longleftrightarrow> s_now s - scan_time es \<ge> 20" using assms by (simp add: refreshes_def remembers_def)
  show d: "r_disk (readings_of w s) = disk_heat (disk_sample es s)"
    "r_disks (readings_of w s) = disks_seen (disk_sample es s)"
    "r_disk_bad (readings_of w s) = disk_unread (disk_sample es s)"
    using assms by (simp_all add: readings_values due disk_sample_def remembers_def disk_heat_def disks_seen_def disk_unread_def)
  show "expected_of w s = max (attached es) (max (disks_seen (disk_sample es s)) (present s))"
    using assms by (simp add: expected_of_def Let_def d remembers_def)
  show "alarms_of w s = int (length (takeWhile alarmed (\<lparr>e_worker = w, e_sample = s\<rparr> # es)))"
    using assms by (simp add: alarms_of_def alarm_value alarmed_def remembers_def)
qed

lemma fan_run_remembers: "fan_run es w \<Longrightarrow> remembers es w"
proof (induction rule: fan_run.induct)
  case fan_started
  then show ?case
    by (simp add: remembers_def fan_start_def scan_time_def disk_heat_def disks_seen_def disk_unread_def)
next
  case (fan_cycled es w s evs w')
  note r = remembers_readings [OF fan_cycled.IH]
  have w': "w' = next_worker w s" using cycle_Some fan_cycled(3) by blast
  have "scanned (\<lparr>e_worker = w, e_sample = s\<rparr> # es) = disk_sample es s" by (simp add: disk_sample_def scan_time_def)
  then show ?case
    using fan_cycled.IH unfolding w' remembers_def
    by (simp add: next_worker_def Let_def r scan_time_def disk_sample_def disk_heat_def disks_seen_def disk_unread_def
        del: scanned.simps)
qed

lemma faults_seen:
  assumes "fan_run es w"
  shows "bad_of w s \<longleftrightarrow> faulty es w s" "critical_of w s \<longleftrightarrow> dangerous es s"
proof -
  note r = remembers_readings [OF fan_run_remembers [OF assms]]
  have fan: "r_fan (readings_of w s) \<noteq> None \<longleftrightarrow> list_ex (\<lambda>h. hw_name h = ''gpio_fan'') (s_hwmon s)"
    by (cases "filter (\<lambda>h. hw_name h = ''gpio_fan'') (s_hwmon s)")
      (auto simp: readings_values list_ex_iff filter_empty_conv filter_eq_Cons_iff)
  show "bad_of w s \<longleftrightarrow> faulty es w s"
    unfolding bad_of_def faulty_def Let_def r readings_values(1,2,6) reading_pos fan by auto
  show "critical_of w s \<longleftrightarrow> dangerous es s"
    unfolding critical_of_def dangerous_def Let_def r readings_values(1,2) by simp
qed

subsection \<open>What the controller promises\<close>

definition last_speed :: "fan_event list \<Rightarrow> int option" where
  "last_speed evs = foldl (\<lambda>n e. case e of Set_Speed m \<Rightarrow> Some m | _ \<Rightarrow> n) None evs"

text \<open>
  C12: Cooling comes first. In every run, a completed cycle has written a speed from 0 to 3 and
  read it back; it is at least the speed that the reading of the CPU, the reading of the PHY and
  the hottest disk of the last scan ask for; and it is full speed when there is a fault of any
  kind or a temperature at its limit.
\<close>

theorem fan_cools:
  assumes "fan_run es w"
  shows "case cycle w s of
      (evs, None) \<Rightarrow> True
    | (evs, Some w') \<Rightarrow>
        last_speed evs = Some (w_state w') \<and> s_back s = str_int (w_state w') \<and> 0 \<le> w_state w' \<and> w_state w' \<le> 3 \<and>
        level 60000 65000 75000 (reading ''d0018300.thermal'' s) \<le> w_state w' \<and>
        level 55000 65000 75000 (reading ''d0072004mdiomii00'' s) \<le> w_state w' \<and>
        level 36000 42000 48000 (disk_heat (disk_sample es s)) \<le> w_state w' \<and>
        (faulty es w s \<or> dangerous es s \<longrightarrow> w_state w' = 3)"
proof (cases "cycle w s")
  case (Pair evs r)
  show ?thesis
  proof (cases r)
    case (Some w')
    then have c: "cycle w s = (evs, Some w')" using Pair by simp
    note ok = fan_run_ok [OF assms] and rd = remembers_readings(2) [OF fan_run_remembers [OF assms], of s]
    from cycle_Some [OF c] obtain pulse where w: "w' = next_worker w s" "s_back s = str_int (w_state w')"
      and evs: "evs = (emergencies w s @ pulse) @ Set_Speed (w_state w') # report_cycle w s" by auto
    have st: "w_state w' = fst (next_speed w s)" by (simp add: w(1) next_worker_def Let_def)
    have "speeds_ok w'" using next_worker_ok [OF ok] w(1) by simp
    then have range: "0 \<le> w_state w'" "w_state w' \<le> 3" by (simp_all add: speeds_ok_def)
    have ge: "demand_of w s \<le> w_state w'"
      using target_bounds(3) [OF ok, of s] next_speed_ge [of w s] st by simp
    have "last_speed evs = Some (w_state w')" unfolding evs last_speed_def by (simp add: report_cycle_def Let_def)
    moreover have "w_state w' = 3" if "faulty es w s \<or> dangerous es s"
      using that faults_seen [OF assms, of s] next_speed_ge [of w s] range st by (auto simp: target_of_def)
    ultimately show ?thesis
      using range demand_bounds(3-5) [OF ok, of s, unfolded readings_values(1,2) rd] ge w(2) by (auto simp: c)
  qed (simp add: Pair)
qed

text \<open>A disk that cannot be read is a fault, at the first scan already.\<close>

definition dead_disk :: sample where
  "dead_disk = (board ''54000'' ''0'' 600 ''3'')\<lparr>s_hwmon :=
     s_hwmon (board ''54000'' ''0'' 600 ''3'') @ [\<lparr>hw_name = ''drivetemp'', hw_temp = None, hw_blocks = [], hw_alarm = []\<rparr>]\<rparr>"

theorem fan_cools_witness:
  "case cycle fan_start dead_disk of (_, None) \<Rightarrow> False | (_, Some w') \<Rightarrow> w_state w' = 3"
proof -
  have "faulty [] fan_start dead_disk" "snd (cycle fan_start dead_disk) \<noteq> None" by code_simp+
  then show ?thesis using fan_cools [OF fan_started, of dead_disk] by (auto split: prod.splits option.splits)
qed

end
