(* ===== verification/Fan_Device.thy ===== *)
theory Fan_Device
  imports Fan_Policy
begin

text \<open>
  The fan as the kernel shows it in \<open>/sys/class/thermal\<close>, and how
  \<open>openwrt/files/usr/libexec/ls420d-fan-policy.sh\<close> finds it, takes it away from the governors of
  the thermal zones and sets it to full speed; and the start of \<open>supervise\<close>, which does so before
  and after it retires a worker that an earlier supervisor left behind.
\<close>

subsection \<open>The files of the kernel\<close>

text \<open>
  The contents of a file are what \<open>$(cat file)\<close> gives, empty when it cannot be read. \<open>z_cdevs\<close> is
  \<open>cdev[0-9]*\<close> of a zone: \<open>readlink -f\<close> of each, \<open>None\<close> for one that is not a link.
\<close>

record cooling =
  c_path :: string                            \<comment> \<open>\<open>readlink -f\<close> of the directory\<close>
  c_type :: string
  c_max :: string
  c_cur :: string

record zone =
  z_policy :: string
  z_writable :: bool                          \<comment> \<open>\<open>[ -w policy ]\<close>\<close>
  z_mode :: string
  z_cdevs :: "string option list"

record fan_board =
  b_cooling :: "cooling list"
  b_zones :: "zone list"

text \<open>What a write does is up to the kernel: the status of \<open>echo\<close>, and the directory after it.\<close>

record kernel =
  put_policy :: "string \<Rightarrow> zone \<Rightarrow> bool \<times> zone"
  put_mode :: "string \<Rightarrow> zone \<Rightarrow> bool \<times> zone"
  put_speed :: "string \<Rightarrow> cooling \<Rightarrow> bool \<times> cooling"

text \<open>
  What is asked of it: a mode or a speed that was accepted is there, and nothing else changes; the
  governor is read back by the code, so a write of it only has to leave the links alone.
\<close>

definition stores :: "kernel \<Rightarrow> bool" where
  "stores k \<longleftrightarrow>
     (\<forall>v z. z_cdevs (snd (put_policy k v z)) = z_cdevs z) \<and>
     (\<forall>v z. fst (put_mode k v z) \<longrightarrow> snd (put_mode k v z) = z\<lparr>z_mode := v\<rparr>) \<and>
     (\<forall>v c. fst (put_speed k v c) \<longrightarrow> snd (put_speed k v c) = c\<lparr>c_cur := v\<rparr>)"

subsection \<open>Finding and taking over the fan\<close>

fun find_from :: "nat \<Rightarrow> cooling list \<Rightarrow> nat option" where
  "find_from i [] = None"
| "find_from i (c # cs) =
     (if c_type c \<noteq> ''gpio-fan'' then find_from (Suc i) cs
      else if c_max c \<noteq> ''3'' then None
      else Some i)"

definition fan_find :: "fan_board \<Rightarrow> nat option" where
  "fan_find b = find_from 0 (b_cooling b)"

text \<open>The condition of \<open>fan_own_zone\<close>: does the zone have the governor of user space, or take it?\<close>

definition take_governor :: "kernel \<Rightarrow> zone \<Rightarrow> bool \<times> zone" where
  "take_governor k z =
     (if z_policy z = ''user_space'' then (True, z)
      else if z_writable z then
        let (ok, z') = put_policy k ''user_space'' z in (ok \<and> z_policy z' = ''user_space'', z')
      else (False, z))"

definition set_mode :: "kernel \<Rightarrow> string \<Rightarrow> zone \<Rightarrow> bool \<times> zone" where
  "set_mode k mode z = (if z_mode z = mode then (True, z) else put_mode k mode z)"

definition fan_own_zone :: "kernel \<Rightarrow> zone \<Rightarrow> bool \<times> zone" where
  "fan_own_zone k z =
     (let (governed, z') = take_governor k z in set_mode k (if governed then ''enabled'' else ''disabled'') z')"

definition drives :: "zone \<Rightarrow> string \<Rightarrow> bool" where
  "drives z path = list_ex (\<lambda>link. link = Some path) (z_cdevs z)"

fun take_zones :: "kernel \<Rightarrow> string \<Rightarrow> zone list \<Rightarrow> bool \<times> zone list" where
  "take_zones k path [] = (True, [])"
| "take_zones k path (z # zs) =
     (let (ok, z') = (if drives z path then fan_own_zone k z else (True, z)) in
      if ok then (let (ok, zs') = take_zones k path zs in (ok, z' # zs')) else (False, z' # zs))"

definition fan_take_control :: "kernel \<Rightarrow> nat \<Rightarrow> fan_board \<Rightarrow> bool \<times> fan_board" where
  "fan_take_control k c b =
     (let (ok, zs) = take_zones k (c_path (b_cooling b ! c)) (b_zones b) in (ok, b\<lparr>b_zones := zs\<rparr>))"

definition fan_full :: "kernel \<Rightarrow> fan_board \<Rightarrow> bool \<times> fan_board" where
  "fan_full k b =
     (case fan_find b of
        None \<Rightarrow> (False, b)
      | Some c \<Rightarrow>
          let (ok, b) = fan_take_control k c b in
          if ok then (let (ok, d) = put_speed k ''3'' (b_cooling b ! c)
                      in (ok, b\<lparr>b_cooling := (b_cooling b)[c := d]\<rparr>))
          else (False, b))"

subsection \<open>The start of the supervisor\<close>

text \<open>
  The contents of \<open>worker.pid\<close>, and the command line of each process, its arguments ended by zero
  bytes, which \<open>tr\<close> makes spaces.
\<close>

definition orphan :: "string \<Rightarrow> (string \<Rightarrow> string) \<Rightarrow> string list" where
  "orphan old cmdline =
     (if old = [] \<or> list_ex (\<lambda>c. \<not> is_dec c) old then []
      else if split_at ''/usr/sbin/ls420d-fan worker'' (map (\<lambda>c. if c = CHR 0x00 then CHR '' '' else c) (cmdline old)) \<noteq> None
      then [old] else [])"

text \<open>
  \<open>supervise\<close> up to its loop: the status, the processes that were sent \<open>SIGKILL\<close>, and the board.
  \<open>made\<close> is the status of \<open>mkdir\<close>; \<open>env\<close> is what others do meanwhile, the orphan among them.
\<close>

definition supervise_start ::
    "kernel \<Rightarrow> (fan_board \<Rightarrow> fan_board) \<Rightarrow> bool \<Rightarrow> string \<Rightarrow> (string \<Rightarrow> string) \<Rightarrow> fan_board \<Rightarrow> bool \<times> string list \<times> fan_board" where
  "supervise_start k env made old cmdline b =
     (if \<not> made then (False, [], b)
      else let (ok, b) = fan_full k b in
        if \<not> ok then (False, [], b)
        else let (ok, b) = fan_full k (env b) in (ok, orphan old cmdline, b))"

subsection \<open>Leaving\<close>

text \<open>
  \<open>fan_emergency\<close>: \<open>clock\<close> is whether the alarm of the clock can be written. The traps of \<open>worker\<close>
  and of \<open>supervise\<close>, with the processes that are sent \<open>SIGTERM\<close>; \<open>child\<close> is the last worker, or empty.
\<close>

datatype last_step = Clear_Alarm | Power_Off

definition fan_emergency :: "kernel \<Rightarrow> bool \<Rightarrow> fan_board \<Rightarrow> fan_board \<times> last_step list" where
  "fan_emergency k clock b = (snd (fan_full k b), (if clock then [Clear_Alarm] else []) @ [Power_Off])"

definition worker_trap :: "kernel \<Rightarrow> fan_board \<Rightarrow> fan_board" where
  "worker_trap k b = snd (fan_full k b)"

definition supervise_trap :: "kernel \<Rightarrow> string \<Rightarrow> fan_board \<Rightarrow> fan_board \<times> string list" where
  "supervise_trap k child b = (snd (fan_full k b), if child = [] then [] else [child])"

subsection \<open>What the steps guarantee\<close>

text \<open>A zone that no longer moves the fan: user space is its governor, or it is disabled.\<close>

definition yields :: "zone \<Rightarrow> bool" where
  "yields z \<longleftrightarrow> z_policy z = ''user_space'' \<and> z_mode z = ''enabled'' \<or> z_mode z = ''disabled''"

lemma find_from_set: "find_from i cs = Some j \<Longrightarrow> i \<le> j \<and> j < i + length cs \<and> c_type (cs ! (j - i)) = ''gpio-fan''"
proof (induction i cs rule: find_from.induct)
  case (2 i c cs)
  show ?case
  proof (cases "c_type c = ''gpio-fan''")
    case True
    with 2 show ?thesis by (simp split: if_splits)
  next
    case False
    with 2 have "Suc i \<le> j" "j < Suc i + length cs" "c_type (cs ! (j - Suc i)) = ''gpio-fan''" by auto
    then show ?thesis by (simp add: nth_Cons')
  qed
qed simp

lemma find_from_cur: "find_from i (cs[j := (cs ! j)\<lparr>c_cur := v\<rparr>]) = find_from i cs"
proof (induction cs arbitrary: i j)
  case (Cons c cs)
  then show ?case by (cases j) simp_all
qed simp

lemma set_mode_stored:
  "stores k \<Longrightarrow> fst (set_mode k mode z) \<Longrightarrow> snd (set_mode k mode z) = z\<lparr>z_mode := mode\<rparr>"
  by (auto simp: set_mode_def stores_def)

lemma take_governor_kept:
  assumes "stores k"
  shows "z_cdevs (snd (take_governor k z)) = z_cdevs z"
    "fst (take_governor k z) \<Longrightarrow> z_policy (snd (take_governor k z)) = ''user_space''"
proof -
  have "z_cdevs (snd (put_policy k ''user_space'' z)) = z_cdevs z" using assms by (simp add: stores_def)
  then show "z_cdevs (snd (take_governor k z)) = z_cdevs z" by (simp add: take_governor_def split_beta Let_def)
  show "z_policy (snd (take_governor k z)) = ''user_space''" if "fst (take_governor k z)"
    using that by (simp add: take_governor_def split_beta Let_def split: if_splits)
qed

lemma own_zone_yields:
  assumes "stores k" "fst (fan_own_zone k z)"
  shows "yields (snd (fan_own_zone k z)) \<and> z_cdevs (snd (fan_own_zone k z)) = z_cdevs z"
proof (cases "take_governor k z")
  case (Pair governed z')
  have "fst (set_mode k (if governed then ''enabled'' else ''disabled'') z')"
    using assms(2) by (simp add: fan_own_zone_def Pair)
  from set_mode_stored [OF assms(1) this] take_governor_kept [OF assms(1), of z] show ?thesis
    by (cases governed) (simp_all add: fan_own_zone_def Pair yields_def)
qed

lemma take_zones_yield:
  "stores k \<Longrightarrow> take_zones k path zs = (True, zs') \<Longrightarrow>
     list_all2 (\<lambda>z z'. if drives z path then yields z' \<and> z_cdevs z' = z_cdevs z else z' = z) zs zs'"
proof (induction zs arbitrary: zs')
  case (Cons z zs)
  show ?case
  proof (cases "drives z path")
    case True
    with Cons.prems(2) obtain zs2 where "fst (fan_own_zone k z)" "take_zones k path zs = (True, zs2)"
      "zs' = snd (fan_own_zone k z) # zs2"
      by (auto simp: Let_def split: prod.splits if_splits)
    with Cons.IH Cons.prems(1) own_zone_yields [of k z] True show ?thesis by simp
  next
    case False
    with Cons.prems(2) obtain zs2 where "take_zones k path zs = (True, zs2)" "zs' = z # zs2"
      by (auto split: prod.splits)
    with Cons.IH Cons.prems(1) False show ?thesis by simp
  qed
qed simp

text \<open>The fan runs at full speed, and no zone that has it as a cooling device moves it.\<close>

definition cooled :: "fan_board \<Rightarrow> bool" where
  "cooled b =
     (case fan_find b of
        None \<Rightarrow> False
      | Some c \<Rightarrow> c_cur (b_cooling b ! c) = ''3'' \<and>
          list_all (\<lambda>z. drives z (c_path (b_cooling b ! c)) \<longrightarrow> yields z) (b_zones b))"

lemma fan_full_cools:
  assumes "stores k" "fan_full k b = (True, b')"
  shows "cooled b'"
proof -
  from assms(2) obtain c zs where c: "fan_find b = Some c"
    and zs: "take_zones k (c_path (b_cooling b ! c)) (b_zones b) = (True, zs)"
    and w: "fst (put_speed k ''3'' (b_cooling b ! c))"
    and b': "b' = b\<lparr>b_zones := zs, b_cooling := (b_cooling b)[c := snd (put_speed k ''3'' (b_cooling b ! c))]\<rparr>"
    by (auto simp: fan_full_def fan_take_control_def Let_def split: option.splits prod.splits if_splits)
  have len: "c < length (b_cooling b)" using find_from_set c by (fastforce simp: fan_find_def)
  have cool: "b_cooling b' = (b_cooling b)[c := (b_cooling b ! c)\<lparr>c_cur := ''3''\<rparr>]"
    using w assms(1) by (simp add: b' stores_def)
  have zone: "drives z (c_path (b_cooling b ! c)) \<longrightarrow> yields z" if "z \<in> set zs" for z
  proof -
    from that obtain i where i: "i < length zs" "z = zs ! i" by (auto simp: in_set_conv_nth)
    with list_all2_nthD2 [OF take_zones_yield [OF assms(1) zs]] show ?thesis
      by (fastforce simp: drives_def split: if_splits)
  qed
  have "fan_find b' = Some c" using c by (simp add: fan_find_def cool find_from_cur)
  moreover have "b_zones b' = zs" by (simp add: b')
  ultimately show ?thesis using zone len by (simp add: cooled_def cool list_all_iff)
qed

text \<open>A fan that can be set to full speed is left running at full speed.\<close>

lemma leaving_cools:
  assumes "stores k" "fst (fan_full k b)"
  shows "cooled (fst (fan_emergency k clock b)) \<and> cooled (worker_trap k b) \<and> cooled (fst (supervise_trap k child b))"
  using fan_full_cools [OF assms(1)] assms(2) by (cases "fan_full k b") (simp add: fan_emergency_def worker_trap_def supervise_trap_def)

text \<open>
  C30: The supervisor starts with the fan at full speed and in its own hands. When the start
  succeeds, whatever others did meanwhile, the fan that was found is at full speed and every
  thermal zone that has it as a cooling device has the governor of user space and is enabled, or
  is disabled; this held once before anything was killed; and the only process that may have
  been killed is the one the file names, when that is a number and the process runs the worker.
\<close>

theorem supervisor_starts_cooled:
  assumes "stores k" "supervise_start k env made old cmdline b = (True, killed, b')"
  shows "cooled b' \<and> cooled (snd (fan_full k b)) \<and>
    (killed = [] \<or> killed = [old] \<and> old \<noteq> [] \<and> list_all is_dec old \<and>
       split_at ''/usr/sbin/ls420d-fan worker'' (map (\<lambda>c. if c = CHR 0x00 then CHR '' '' else c) (cmdline old)) \<noteq> None)"
proof -
  from assms(2) have full: "fan_full k b = (True, snd (fan_full k b))"
    "fan_full k (env (snd (fan_full k b))) = (True, b')" and killed: "killed = orphan old cmdline"
    by (auto simp: supervise_start_def Let_def split: prod.splits if_splits)
  show ?thesis
    using full [THEN fan_full_cools [OF assms(1)]]
    by (auto simp: killed orphan_def list_ex_iff list_all_iff)
qed

definition plain_kernel :: kernel where
  "plain_kernel = \<lparr>put_policy = \<lambda>v z. (v = ''user_space'', z\<lparr>z_policy := v\<rparr>), put_mode = \<lambda>v z. (True, z\<lparr>z_mode := v\<rparr>),
     put_speed = \<lambda>v c. (True, c\<lparr>c_cur := v\<rparr>)\<rparr>"

definition example_board :: fan_board where
  "example_board = \<lparr>b_cooling = [\<lparr>c_path = ''cpu'', c_type = ''Processor'', c_max = ''7'', c_cur = ''0''\<rparr>,
       \<lparr>c_path = ''fan'', c_type = ''gpio-fan'', c_max = ''3'', c_cur = ''1''\<rparr>],
     b_zones = [\<lparr>z_policy = ''step_wise'', z_writable = True, z_mode = ''disabled'', z_cdevs = [None, Some ''fan'']\<rparr>,
       \<lparr>z_policy = ''step_wise'', z_writable = False, z_mode = ''enabled'', z_cdevs = [Some ''fan'']\<rparr>,
       \<lparr>z_policy = ''step_wise'', z_writable = True, z_mode = ''enabled'', z_cdevs = [Some ''cpu'']\<rparr>]\<rparr>"

definition example_start :: "bool \<times> string list \<times> fan_board" where
  "example_start = supervise_start plain_kernel (\<lambda>b. b) True ''417''
     (\<lambda>p. ''/bin/sh'' @ [CHR 0x00] @ ''/usr/sbin/ls420d-fan'' @ [CHR 0x00] @ ''worker'' @ [CHR 0x00]) example_board"

lemma plain_kernel_stores: "stores plain_kernel"
  by (simp add: stores_def plain_kernel_def)

theorem supervisor_starts_cooled_witness:
  "fst (snd example_start) = [''417''] \<and> cooled (snd (snd example_start)) \<and>
   map z_mode (b_zones (snd (snd example_start))) = [''enabled'', ''disabled'', ''enabled'']"
proof -
  have run: "fst example_start" "fst (snd example_start) = [''417'']"
    "map z_mode (b_zones (snd (snd example_start))) = [''enabled'', ''disabled'', ''enabled'']"
    by code_simp+
  have "example_start = (True, fst (snd example_start), snd (snd example_start))" using run(1) by (metis (full_types) prod.collapse)
  from supervisor_starts_cooled [OF plain_kernel_stores this [unfolded example_start_def]] run show ?thesis by (simp add: example_start_def)
qed

end
