(* ===== verification/Fan_Supervisor.thy ===== *)
theory Fan_Supervisor
  imports Fan_Device
begin

text \<open>
  \<open>supervise\<close> of \<open>openwrt/files/usr/sbin/ls420d-fan\<close>: a worker is started, watched through the
  heartbeat it writes at the end of each cycle, and replaced when it ends or stalls; when no
  worker completes a cycle for two minutes, the device is shut down. Every \<open>fan_full\<close> acts on the
  board as it is found then and may fail; the supervisor goes on all the same (\<open>|| true\<close>).
  Numbers of \<open>2 ^ 63\<close> and more, which no clock of the device reaches, are not treated apart.
\<close>

subsection \<open>One round\<close>

text \<open>
  One pass of the inner loop: \<open>kill -0\<close>, the clock two seconds later, the heartbeat file, and the
  board, should the fan be set to full speed there.
\<close>

record poll =
  p_alive :: bool
  p_now :: int
  p_beat :: "string option"
  p_board :: fan_board

definition digits_only :: "string option \<Rightarrow> string" where
  "digits_only beat = (case beat of None \<Rightarrow> ''0'' | Some s \<Rightarrow> if s = [] \<or> list_ex (\<lambda>c. \<not> is_dec c) s then ''0'' else s)"

text \<open>
  \<open>[ ... ]\<close> reads the heartbeat as a decimal number. \<open>$(( ))\<close> reads one that begins with a zero as
  octal, and ends the shell when it has a digit 8 or 9 then; the trap of the shell is run.
\<close>

definition heartbeat :: "poll \<Rightarrow> int" where
  "heartbeat p = dec_value (digits_only (p_beat p))"

definition oct_value :: "string \<Rightarrow> int" where
  "oct_value s = foldl (\<lambda>n c. 8 * n + dec_value [c]) 0 s"

definition arith_value :: "string \<Rightarrow> int option" where
  "arith_value s =
     (if startswith ''0'' s then (if list_all (\<lambda>c. dec_value [c] < 8) s then Some (oct_value s) else None)
      else Some (dec_value s))"

definition beat_age :: "poll \<Rightarrow> int option" where
  "beat_age p = map_option (\<lambda>v. p_now p - v) (arith_value (digits_only (p_beat p)))"

text \<open>
  The boards of a round are those that \<open>fan_full\<close> finds at its end, that \<open>fan_emergency\<close> finds, and that
  the trap finds; \<open>rd_clock\<close> is whether the alarm of the clock can be written.
\<close>

record watch_round =
  rd_started :: int
  rd_child :: string
  rd_polls :: "poll list"
  rd_end :: int
  rd_full :: fan_board
  rd_off :: fan_board
  rd_clock :: bool
  rd_trap :: fan_board

datatype sup_event =
    Full bool fan_board                         \<comment> \<open>\<open>fan_full\<close>: its status and the board after it\<close>
  | Stalled
  | Kill
  | Shut_Down fan_board "last_step list"        \<comment> \<open>\<open>fan_emergency\<close>\<close>
  | Trapped fan_board "string list"             \<comment> \<open>the trap: the board, and what was sent \<open>SIGTERM\<close>\<close>

definition full_event :: "kernel \<Rightarrow> fan_board \<Rightarrow> sup_event" where
  "full_event k b = (let (ok, b') = fan_full k b in Full ok b')"

text \<open>The inner loop, with \<open>fault_start\<close> after it; \<open>None\<close> when the shell has ended.\<close>

fun watch :: "kernel \<Rightarrow> int \<Rightarrow> int \<Rightarrow> poll list \<Rightarrow> sup_event list \<times> int option" where
  "watch k started fault_start [] = ([], Some fault_start)"
| "watch k started fault_start (p # ps) =
     (if \<not> p_alive p then ([], Some fault_start)
      else case beat_age p of
          None \<Rightarrow> ([], None)
        | Some age \<Rightarrow>
            if age > 12 \<or> heartbeat p > p_now p then ([full_event k (p_board p), Stalled, Kill], Some fault_start)
            else watch k started (if heartbeat p \<le> started then fault_start else 0) ps)"

definition sup_round :: "kernel \<Rightarrow> int \<Rightarrow> watch_round \<Rightarrow> sup_event list \<times> int option" where
  "sup_round k fault_start r =
     (case watch k (rd_started r) fault_start (rd_polls r) of
        (out, None) \<Rightarrow> (out @ [case supervise_trap k (rd_child r) (rd_trap r) of (b, killed) \<Rightarrow> Trapped b killed], None)
      | (out, Some fault_start) \<Rightarrow>
          let now = rd_end r; fault_start = (if fault_start \<noteq> 0 then fault_start else now)
          in (out @ full_event k (rd_full r) #
                (if now - fault_start < 120 then []
                 else [case fan_emergency k (rd_clock r) (rd_off r) of (b, steps) \<Rightarrow> Shut_Down b steps]),
              Some fault_start))"

subsection \<open>Rounds one after the other\<close>

fun supervise :: "kernel \<Rightarrow> int \<Rightarrow> watch_round list \<Rightarrow> sup_event list list \<times> int option" where
  "supervise k fault_start [] = ([], Some fault_start)"
| "supervise k fault_start (r # rs) =
     (case sup_round k fault_start r of
        (out, None) \<Rightarrow> ([out], None)
      | (out, Some fault_start) \<Rightarrow> let (outs, res) = supervise k fault_start rs in (out # outs, res))"

text \<open>The polls of a round that found a living worker with a fresh heartbeat, and the one after them.\<close>

definition fresh :: "poll \<Rightarrow> bool" where
  "fresh p \<longleftrightarrow> p_alive p \<and> (case beat_age p of None \<Rightarrow> False | Some age \<Rightarrow> age \<le> 12) \<and> heartbeat p \<le> p_now p"

definition completes :: "watch_round \<Rightarrow> bool" where
  "completes r \<longleftrightarrow> list_ex (\<lambda>p. heartbeat p > rd_started r) (takeWhile fresh (rd_polls r))"

text \<open>A living worker whose heartbeat is not fresh, or no number for the arithmetic of the shell.\<close>

definition stalled :: "watch_round \<Rightarrow> poll option" where
  "stalled r = (case dropWhile fresh (rd_polls r) of [] \<Rightarrow> None | p # _ \<Rightarrow> if p_alive p \<and> beat_age p \<noteq> None then Some p else None)"

definition garbled :: "watch_round \<Rightarrow> bool" where
  "garbled r = (case dropWhile fresh (rd_polls r) of [] \<Rightarrow> False | p # _ \<Rightarrow> p_alive p \<and> beat_age p = None)"

lemma watch_result:
  "watch k started fs ps =
     (case dropWhile fresh ps of
        [] \<Rightarrow> ([], Some (if list_ex (\<lambda>p. heartbeat p > started) (takeWhile fresh ps) then 0 else fs))
      | p # _ \<Rightarrow>
          if p_alive p \<and> beat_age p = None then ([], None)
          else (if p_alive p then [full_event k (p_board p), Stalled, Kill] else [],
                Some (if list_ex (\<lambda>p. heartbeat p > started) (takeWhile fresh ps) then 0 else fs)))"
  by (induction ps arbitrary: fs) (auto simp: fresh_def split: option.splits)

lemma sup_round_result:
  "sup_round k fs r =
     (if garbled r then ([Trapped (snd (fan_full k (rd_trap r))) (if rd_child r = [] then [] else [rd_child r])], None)
      else ((case stalled r of None \<Rightarrow> [] | Some p \<Rightarrow> [full_event k (p_board p), Stalled, Kill]) @
              full_event k (rd_full r) #
              (if completes r \<or> fs = 0 \<or> rd_end r - fs < 120 then []
               else [Shut_Down (snd (fan_full k (rd_off r))) ((if rd_clock r then [Clear_Alarm] else []) @ [Power_Off])]),
            Some (if completes r \<or> fs = 0 then rd_end r else fs)))"
  by (cases "dropWhile fresh (rd_polls r)")
    (simp_all add: sup_round_def watch_result Let_def stalled_def garbled_def completes_def list_ex_iff
      supervise_trap_def fan_emergency_def del: dropWhile_eq_Nil_conv)

lemma supervise_snoc:
  "snd (supervise k fs rs) = Some fs' \<Longrightarrow>
     supervise k fs (rs @ [r]) = (fst (supervise k fs rs) @ [fst (sup_round k fs' r)], snd (sup_round k fs' r))"
  by (induction rs arbitrary: fs) (auto simp: Let_def split: prod.splits option.splits)

text \<open>The end of the last round that completed a cycle, or of the first round.\<close>

definition failing_since :: "watch_round list \<Rightarrow> int" where
  "failing_since rs =
     (case dropWhile (\<lambda>r. \<not> completes r) (rev rs) of r # _ \<Rightarrow> rd_end r | [] \<Rightarrow> if rs = [] then 0 else rd_end (hd rs))"

lemma failing_since_snoc:
  "failing_since (rs @ [r]) = (if completes r \<or> rs = [] then rd_end r else failing_since rs)"
  by (cases "dropWhile (\<lambda>r. \<not> completes r) (rev rs)") (simp_all add: failing_since_def hd_append del: dropWhile_eq_Nil_conv)

text \<open>The supervisor is still there after rounds none of which had a heartbeat that ends the shell.\<close>

lemma supervise_fault_start:
  "list_all (\<lambda>r. 0 < rd_end r \<and> \<not> garbled r) rs \<Longrightarrow>
     snd (supervise k 0 rs) = Some (failing_since rs) \<and> (rs \<noteq> [] \<longrightarrow> 0 < failing_since rs)"
proof (induction rs rule: rev_induct)
  case (snoc r rs)
  then have ih: "snd (supervise k 0 rs) = Some (failing_since rs)" "rs \<noteq> [] \<longrightarrow> 0 < failing_since rs" by simp_all
  from snoc.prems ih(2) show ?case
    unfolding failing_since_snoc supervise_snoc [OF ih(1)] by (cases "rs = []") (auto simp: sup_round_result failing_since_def)
qed (simp add: failing_since_def)

text \<open>An attempt to cool that reports success has done so.\<close>

definition honest :: "sup_event \<Rightarrow> bool" where
  "honest ev = (case ev of Full True b \<Rightarrow> cooled b | _ \<Rightarrow> True)"

lemma full_event_honest: "stores k \<Longrightarrow> honest (full_event k b)"
  using fan_full_cools [of k b] by (auto simp: honest_def full_event_def split: prod.splits sup_event.splits bool.splits)

text \<open>
  C29: A worker that stalls or keeps failing is noticed. In every round after any rounds that the
  supervisor survived: a worker whose heartbeat is older than twelve seconds or in the future is
  killed after an attempt to set full speed; the round ends, before the next worker is started,
  with another attempt; an attempt that reports success leaves the fan at full speed and the
  zones out of its way, and one that fails stops nothing; and the device is shut down exactly
  when no cycle was completed in this round and it ends two minutes or more after the end of the
  last round that completed one, or of the first round. A heartbeat that is no number to the
  arithmetic of the shell ends the supervisor with full speed attempted and its worker terminated.
\<close>

theorem fan_supervised:
  assumes "stores k" "list_all (\<lambda>r. 0 < rd_end r \<and> \<not> garbled r) rs"
  shows "\<exists>out. fst (supervise k 0 (rs @ [r])) = fst (supervise k 0 rs) @ [out] \<and> list_all honest out \<and>
    (if garbled r
     then out = [Trapped (snd (fan_full k (rd_trap r))) (if rd_child r = [] then [] else [rd_child r])] \<and>
       snd (supervise k 0 (rs @ [r])) = None
     else out = (case stalled r of None \<Rightarrow> [] | Some p \<Rightarrow> [full_event k (p_board p), Stalled, Kill]) @
       full_event k (rd_full r) #
       (if \<not> completes r \<and> rs \<noteq> [] \<and> rd_end r - failing_since rs \<ge> 120
        then [Shut_Down (snd (fan_full k (rd_off r))) ((if rd_clock r then [Clear_Alarm] else []) @ [Power_Off])] else []))"
proof -
  have fs: "snd (supervise k 0 rs) = Some (failing_since rs)" "rs \<noteq> [] \<longrightarrow> 0 < failing_since rs"
    using supervise_fault_start [OF assms(2)] by simp_all
  have zero: "failing_since rs = 0 \<longleftrightarrow> rs = []" using fs(2) by (cases "rs = []") (simp_all add: failing_since_def)
  have honest: "list_all honest (fst (sup_round k (failing_since rs) r))"
    using full_event_honest [OF assms(1)] by (auto simp: sup_round_result honest_def split: option.splits)
  show ?thesis
    unfolding supervise_snoc [OF fs(1)]
    by (rule exI [of _ "fst (sup_round k (failing_since rs) r)"]) (use honest zero in \<open>auto simp: sup_round_result\<close>)
qed

definition dead_round :: "int \<Rightarrow> watch_round" where
  "dead_round now = \<lparr>rd_started = now, rd_child = ''417'',
     rd_polls = [\<lparr>p_alive = True, p_now = now + 13, p_beat = Some (str_int now), p_board = example_board\<rparr>],
     rd_end = now + 13, rd_full = example_board, rd_off = example_board, rd_clock = False, rd_trap = example_board\<rparr>"

theorem fan_supervised_witness:
  "map length (fst (supervise plain_kernel 0 [dead_round 100, dead_round 220])) = [4, 5]"
proof -
  have "list_all (\<lambda>r. 0 < rd_end r \<and> \<not> garbled r) [dead_round 100]" by code_simp
  from fan_supervised [OF plain_kernel_stores this, of "dead_round 220"] obtain out where
    out: "fst (supervise plain_kernel 0 ([dead_round 100] @ [dead_round 220])) = fst (supervise plain_kernel 0 [dead_round 100]) @ [out]"
    and alt: "if garbled (dead_round 220) then out = [Trapped (snd (fan_full plain_kernel (rd_trap (dead_round 220))))
          (if rd_child (dead_round 220) = [] then [] else [rd_child (dead_round 220)])] \<and>
        snd (supervise plain_kernel 0 ([dead_round 100] @ [dead_round 220])) = None
      else out = (case stalled (dead_round 220) of None \<Rightarrow> [] | Some p \<Rightarrow> [full_event plain_kernel (p_board p), Stalled, Kill]) @
       full_event plain_kernel (rd_full (dead_round 220)) #
       (if \<not> completes (dead_round 220) \<and> [dead_round 100] \<noteq> [] \<and> rd_end (dead_round 220) - failing_since [dead_round 100] \<ge> 120
        then [Shut_Down (snd (fan_full plain_kernel (rd_off (dead_round 220)))) ((if rd_clock (dead_round 220) then [Clear_Alarm] else []) @ [Power_Off])]
        else [])" by blast
  have v: "map length (fst (supervise plain_kernel 0 [dead_round 100])) = [4]" "stalled (dead_round 220) \<noteq> None"
    "\<not> completes (dead_round 220)" "rd_end (dead_round 220) - failing_since [dead_round 100] = 120" "\<not> garbled (dead_round 220)"
    by code_simp+
  from v(2) obtain p where p: "stalled (dead_round 220) = Some p" by blast
  have "length out = 5" using alt v(3-5) by (simp add: p)
  then show ?thesis using out v(1) by simp
qed

text \<open>A heartbeat with a leading zero is read as octal by the arithmetic, and 9 is no octal digit.\<close>

lemma octal_beats: "arith_value ''0100'' = Some 64 \<and> arith_value ''0109'' = None \<and> arith_value ''100'' = Some 100"
  by code_simp

end
