(* ===== verification/Spec2Isabelle.thy ===== *)
theory Spec2Isabelle
  imports Cpio Ramdisk Footprint Kernel_Config Make_Initrd License_Review Public_Audit Stage_Complete Release Evidence Rootfs_Audit Py_Dumps Py_Loads Offline Extract Confinement Source_Restore Collect_Notices Collect_Source Written_Text Review_Output Review_Run Initrd_Main Json_Fuel Json_Strings Json_Round Review_Accepted Extract_Bounds Offline_Network License_Main Fan_Policy Fan_Worker Fan_Runs Fan_Cooling Fan_Device Fan_Supervisor Interference
begin

text \<open>
  A verification library for the LS420D OpenWrt port: the build, review and release scripts
  (\<open>scripts/*.py\<close>) and the fan controller that runs on the device.

  \<^bold>\<open>The program.\<close> The scripts are small tools that call each other through files. Sources of a
  build are collected for review (\<open>collect-source-review.py\<close>, with \<open>collect-notices.py\<close> for the
  licence notices in them and \<open>review-package-licenses.py\<close> for the declared licences), a ZIP of
  such a collection is restored elsewhere (\<open>restore-source-review.py\<close>) and rebuilt offline
  (\<open>check-offline-network.py\<close>, \<open>report-offline-products.py\<close>). A build is checked
  (\<open>check-kernel-footprint.py\<close>, \<open>compare-kernel-config.py\<close>, \<open>audit-rootfs.py\<close>), its evidence is
  exported as text (\<open>compile-evidence.py\<close>), and firmware and sources are staged and packaged as a
  release (\<open>stage-candidate.py\<close>, \<open>package-release-candidate.py\<close>). \<open>audit-public-tree.py\<close> keeps
  private data out of the repository. \<open>make_initrd.py\<close>, with \<open>backup_config.py\<close> and the codec
  \<open>cpio_newc.py\<close>, builds the private companion image of one device. What all of this has in
  common is distrust of the input: the theorems say what is true when a script succeeds,
  whatever the files, archives and other processes did, and when it does succeed. The fan
  controller (\<open>openwrt/files/usr/sbin/ls420d-fan\<close>) is the program of the device that has a state
  machine of its own: a worker that sets the speed and a supervisor that watches it.

  \<^bold>\<open>How the code is modelled.\<close> A function that may raise returns \<open>exn + 'a\<close> (\<open>Prelude\<close>: the
  exceptions of Python as a datatype, \<open>rbind\<close> for sequencing, \<open>for_each\<close> for a loop that may
  stop at an exception). Bytes are lists of characters of eight bits, a \<open>str\<close> is its UTF-8 bytes.
  Python integers are \<open>int\<close>; checksums, digests and IPv4 addresses are 32-bit words. A dictionary
  is an association list in insertion order. The file system is a value that is passed on
  (\<open>File_System\<close>): directories, files with modes and symbolic links, with path resolution as the
  kernel does it and \<open>resolve()\<close> as \<open>pathlib\<close> does it; every read and write names its path, so
  a script that reads the same file twice under interference is modelled with two reads. The two
  scripts that make a release are programs of steps (\<open>Interference\<close>): other processes change the
  file system before every call of it, and the theorems speak of the states the steps met.

  \<^bold>\<open>Theories of the language and its library.\<close>
  \<^item> \<open>Prelude\<close>, \<open>Regex\<close> (matching by derivatives, proved against the languages of the
    patterns), \<open>Py_Text\<close> (\<open>str\<close> and \<open>bytes\<close> methods), \<open>Py_Path\<close> (\<open>PurePosixPath\<close>), \<open>Py_Json\<close>,
    \<open>Py_Dumps\<close>, \<open>Py_Loads\<close> (JSON values, writer and reader), \<open>Ipv4\<close>, \<open>Uuid\<close>, \<open>Base64\<close>,
    \<open>Crc32\<close>, \<open>Sha256\<close>, \<open>File_System\<close>, \<open>Archive\<close> (members of tar and ZIP files), \<open>Interference\<close>
    (programs that share the file system with others).
  \<^item> \<open>Json_Fuel\<close>, \<open>Json_Strings\<close>, \<open>Json_Round\<close>: the recursion of the JSON reader needs no more
    fuel than it has, and it reads back what the writer wrote. These are facts of the library the
    scripts use, for the theorems on the reports they exchange.
  \<^item> \<open>Uci\<close>: a reader of OpenWrt configuration files, the specification against which the
    generated files are read back.
  \<^item> \<open>File_Digest\<close>, \<open>Written_Text\<close>: digests of plain files and the inventories the scripts write
    and read. \<open>Plain_Dirs\<close>: what each operation does in directories that are reached without
    links, and the fresh output directory every script fills.

  \<^bold>\<open>Theories of the scripts\<close>, with the functions they model.
  \<^item> \<open>Cpio\<close>: \<open>Entry\<close>, \<open>safe_name\<close>, \<open>encode\<close>, \<open>decode\<close>; \<open>Ramdisk\<close>: \<open>wrap_ramdisk\<close>,
    \<open>unwrap_ramdisk\<close> of \<open>cpio_newc.py\<close>. The reader undoes the writer, names are safe, and
    corruption of a byte or a burst is noticed.
  \<^item> \<open>Backup_Config\<close>: \<open>backup_config.py\<close>; \<open>Make_Initrd\<close>, \<open>Initrd_Main\<close>: \<open>make_initrd.py\<close>. The
    generated files say what the configuration says and nothing else; the image is the archive
    of those files, and it is written privately and exclusively.
  \<^item> \<open>Footprint\<close>: \<open>check-kernel-footprint.py\<close>; \<open>Kernel_Config\<close>: \<open>compare-kernel-config.py\<close>;
    \<open>Rootfs_Audit\<close>: \<open>audit-rootfs.py\<close>; \<open>Public_Audit\<close>: \<open>audit-public-tree.py\<close>; \<open>Evidence\<close>:
    \<open>compile-evidence.py\<close>; \<open>License_Review\<close>: \<open>review-package-licenses.py\<close>; \<open>Offline\<close>:
    \<open>report-offline-products.py\<close>. Each verdict is proved
    equivalent to, or sound for, a statement about the input. \<open>Offline_Network\<close>:
    \<open>check-offline-network.py\<close>, over any operations of the \<open>socket\<close> module; \<open>License_Main\<close>: the report and the script of \<open>review-package-licenses.py\<close>.
  \<^item> \<open>Stage\<close>, \<open>Stage_Complete\<close>: \<open>stage-candidate.py\<close>; \<open>Release\<close>:
    \<open>package-release-candidate.py\<close>. What a success guarantees when other processes act before every
    step, and that staging good inputs without interference succeeds, with its exact result.
  \<^item> \<open>Collect_Notices\<close>: \<open>collect-notices.py\<close>; \<open>Collect_Source\<close>, \<open>Review_Output\<close>, \<open>Review_Run\<close>:
    \<open>collect-source-review.py\<close>, its result, and its success but for a failure of the notices.
  \<^item> \<open>Extract\<close>, \<open>Confinement\<close>, \<open>Extract_Bounds\<close>: \<open>safe_name\<close> and \<open>extract_tree\<close> of
    \<open>restore-source-review.py\<close>, confined, exact and bounded for any archive; \<open>Source_Restore\<close>:
    \<open>restore\<close>, with a ZIP file whose restored links leave the output. \<open>Review_Accepted\<close>: what was collected passes the checks of \<open>restore\<close>.
  \<^item> \<open>Fan_Policy\<close>: the curve of \<open>libexec/ls420d-fan-policy.sh\<close>; \<open>Fan_Worker\<close>: one cycle of \<open>worker\<close>;
    \<open>Fan_Runs\<close>: its cycles over time, which keep the invariant of the counters and follow a
    specification over the history; \<open>Fan_Cooling\<close>: what the sensors of a run say, readings, faults
    and limits, as a specification over the samples, and the speed that answers to it;
    \<open>Fan_Device\<close>: the fan and the thermal zones as the kernel shows them, how the fan is found,
    taken over and set to full speed, and the start of \<open>supervise\<close>;
    \<open>Fan_Supervisor\<close>: the rounds of \<open>supervise\<close>, with each attempt at full speed as it ends on the
    board it finds, stalled workers, the shutdown and the trap.

  \<^bold>\<open>Interfaces.\<close> What several parts ask of each other is a locale. \<open>codec\<close> (\<open>Prelude\<close>): a writer
  that may refuse and the reader that undoes it; \<open>layered\<close>: one codec inside another, which is a
  codec again (a \<open>sublocale\<close>). They are interpreted on the cpio archive (\<open>newc\<close>), the ramdisk
  frame (\<open>uimage\<close>), the image of the companion (\<open>initrd\<close>, the one inside the other), Base64 and
  the JSON text. \<open>file_digest\<close> (\<open>Archive\<close>, its client lemmas in \<open>Plain_Dirs\<close>): a digest of a file
  that only answers for a file it read; each script has a digest of its own with its own
  conditions (\<open>staged\<close>, \<open>noticed\<close>, \<open>collected_files\<close>, \<open>evidence\<close>), and the listings of all of them
  are made and read back by the same lemmas. \<open>burst_checksum\<close> (\<open>Crc32\<close>): a checksum that notices
  short bursts, interpreted on \<open>zlib.crc32\<close>.

  \<^bold>\<open>Arguments of the model.\<close> What git and \<open>ip\<close> answer, the byte formats of tar, ZIP and the
  compressors (\<open>tarfile\<close>, \<open>zipfile\<close>, \<open>zstd\<close>), the text of \<open>difflib\<close>, what
  the kernel does with a write to a thermal zone (\<open>stores\<close> is what is asked of it), the values of JSON
  floats and the decoding of JSON that is not plain UTF-8, the \<open>socket\<close> module, and, where a script copies files
  that others may write, what those others do between its steps (\<open>env\<close>; in \<open>Stage\<close> and \<open>Release\<close>
  before each of them, in the collecting scripts between the reads of one source).

  \<^bold>\<open>Bounds and fuel.\<close> \<open>loads\<close> runs with fuel \<open>2 * length s + 2\<close>, which \<open>loads_terminates\<close>
  proves enough. The kernel follows at most 40 links (\<open>MAX_LINKS\<close>), as Linux does;
  \<open>resolve()\<close> stops at a link met again. \<open>copytree\<close> goes 500 directories deep, about where Python
  ends the recursion; \<open>extractfile\<close> follows a link as often as the archive has members, after which
  the links repeat. Every other loop is structural or has a
  measure.

  \<^bold>\<open>Not modelled.\<close> Parsing of command lines; the partial output of a run that fails (the state
  is only given by successful runs); hard links, device nodes, owners and permission checks of
  the file system; times of files; decimal digits outside ASCII in \<open>int(...)\<close>; the shell scripts
  other than the fan controller (their work is what git, make, rsync, btrfs and uci do), the
  workflows and the tests.
\<close>

end
